(* ===== verification/Prelude.thy ===== *)
theory Prelude
  imports Main "HOL-Library.Word" "HOL-Library.Code_Target_Nat"
begin

section \<open>Shared vocabulary: bytes, strings and the C++ library calls the server uses\<close>

text \<open>
  A \<^verbatim>\<open>std::string\<close> is a byte string, so it is modelled as Isabelle's \<^typ>\<open>string\<close>
  (a list of 8-bit characters).  This theory holds what the components share:
  the \<^verbatim>\<open><cctype>\<close> predicates in the "C" locale, the searches of \<^verbatim>\<open>std::string\<close>
  (\<^verbatim>\<open>npos\<close> is \<^const>\<open>None\<close>), the index loops used for trimming, decimal rendering
  (\<^verbatim>\<open>std::to_string\<close>) and the prefix conversions \<^verbatim>\<open>std::stoul\<close>,
  \<^verbatim>\<open>std::stoull\<close>, \<^verbatim>\<open>std::stoll\<close> and \<^verbatim>\<open>std::stoi\<close> on an LP64 platform,
  where a thrown exception is \<^const>\<open>None\<close>.  \<^verbatim>\<open>char\<close> is signed, as on x86-64.
\<close>

named_theorems text_simps \<open>equations about searching, trimming and rendering text\<close>
named_theorems ascii_simps \<open>character classes evaluated on literals\<close>

type_synonym byte = "8 word"
type_synonym millis = nat

subsection \<open>Characters\<close>

definition code :: "char \<Rightarrow> nat" where
  "code c = of_char c"

definition signed_code :: "char \<Rightarrow> int" where
  "signed_code c = (if code c < 128 then int (code c) else int (code c) - 256)"

definition is_digit :: "char \<Rightarrow> bool" where
  "is_digit c \<longleftrightarrow> 48 \<le> code c \<and> code c \<le> 57"

definition digit_value :: "char \<Rightarrow> nat" where
  "digit_value c = code c - 48"

definition is_upper :: "char \<Rightarrow> bool" where
  "is_upper c \<longleftrightarrow> 65 \<le> code c \<and> code c \<le> 90"

definition is_lower :: "char \<Rightarrow> bool" where
  "is_lower c \<longleftrightarrow> 97 \<le> code c \<and> code c \<le> 122"

definition is_alnum :: "char \<Rightarrow> bool" where
  "is_alnum c \<longleftrightarrow> is_digit c \<or> is_upper c \<or> is_lower c"

definition is_space :: "char \<Rightarrow> bool" where
  "is_space c \<longleftrightarrow> code c = 32 \<or> (9 \<le> code c \<and> code c \<le> 13)"

definition to_lower :: "char \<Rightarrow> char" where
  "to_lower c = (if is_upper c then char_of (code c + 32) else c)"

definition to_upper :: "char \<Rightarrow> char" where
  "to_upper c = (if is_lower c then char_of (code c - 32) else c)"

abbreviation CR :: char where "CR \<equiv> CHR 0x0D"
abbreviation LF :: char where "LF \<equiv> CHR 0x0A"
abbreviation TAB :: char where "TAB \<equiv> CHR 0x09"
abbreviation DQUOTE :: char where "DQUOTE \<equiv> CHR 0x22"
abbreviation CRLF :: string where "CRLF \<equiv> [CR, LF]"

definition is_ows :: "char \<Rightarrow> bool" where
  "is_ows c \<longleftrightarrow> c = CHR '' '' \<or> c = TAB"

definition is_lws :: "char \<Rightarrow> bool" where
  "is_lws c \<longleftrightarrow> c = CHR '' '' \<or> c = TAB \<or> c = CR \<or> c = LF"

lemma code_lt_256 [simp]: "code c < 256"
  by (simp add: code_def)

lemma code_char_of [simp]: "n < 256 \<Longrightarrow> code (char_of n) = n"
  by (simp add: code_def)

lemma char_of_code [simp]: "char_of (code c) = c"
  by (simp add: code_def)

lemma code_eq_iff: "code c = code d \<longleftrightarrow> c = d"
  by (metis char_of_code)

lemmas class_defs =
  is_digit_def is_upper_def is_lower_def is_alnum_def is_space_def is_ows_def is_lws_def
  to_lower_def to_upper_def digit_value_def

lemma code_to_lower: "code (to_lower c) = (if is_upper c then code c + 32 else code c)"
  by (auto simp: to_lower_def is_upper_def)

lemma code_to_upper: "code (to_upper c) = (if is_lower c then code c - 32 else code c)"
  by (auto simp: to_upper_def is_lower_def)

lemma to_lower_idem [simp]: "to_lower (to_lower c) = to_lower c"
  by (auto simp: to_lower_def is_upper_def)

lemma to_upper_idem [simp]: "to_upper (to_upper c) = to_upper c"
  by (auto simp: to_upper_def is_lower_def)

lemma map_to_lower_idem [simp]: "map to_lower (map to_lower s) = map to_lower s"
  by (simp add: comp_def)

lemma map_to_upper_idem [simp]: "map to_upper (map to_upper s) = map to_upper s"
  by (simp add: comp_def)

lemma digit_not_special [simp]:
  "is_digit c \<Longrightarrow> \<not> is_space c" "is_digit c \<Longrightarrow> \<not> is_ows c" "is_digit c \<Longrightarrow> \<not> is_lws c"
  by (auto simp: class_defs code_def)

lemma lws_is_space: "is_lws c \<Longrightarrow> is_space c"
  by (auto simp: class_defs code_def)

lemma ows_is_lws: "is_ows c \<Longrightarrow> is_lws c"
  by (auto simp: class_defs)

subsection \<open>Searching\<close>

text \<open>
  \<open>find_idx P\<close> is \<^verbatim>\<open>find_first_of\<close>/\<^verbatim>\<open>find_first_not_of\<close> for the character
  class \<open>P\<close>, \<open>find_sub\<close> is \<^verbatim>\<open>find(substring)\<close>.
\<close>

fun find_idx :: "('a \<Rightarrow> bool) \<Rightarrow> 'a list \<Rightarrow> nat option" where
  "find_idx P [] = None"
| "find_idx P (x # xs) = (if P x then Some 0 else map_option Suc (find_idx P xs))"

definition find_char :: "char \<Rightarrow> string \<Rightarrow> nat option" where
  "find_char c s = find_idx (\<lambda>d. d = c) s"

definition find_last_idx :: "('a \<Rightarrow> bool) \<Rightarrow> 'a list \<Rightarrow> nat option" where
  "find_last_idx P s = map_option (\<lambda>i. length s - 1 - i) (find_idx P (rev s))"

definition has_prefix :: "'a list \<Rightarrow> 'a list \<Rightarrow> bool" where
  "has_prefix p s \<longleftrightarrow> take (length p) s = p"

fun find_sub :: "'a list \<Rightarrow> 'a list \<Rightarrow> nat option" where
  "find_sub p [] = (if p = [] then Some 0 else None)"
| "find_sub p (x # xs) =
     (if has_prefix p (x # xs) then Some 0 else map_option Suc (find_sub p xs))"

definition substr :: "'a list \<Rightarrow> nat \<Rightarrow> nat \<Rightarrow> 'a list" where
  "substr s pos n = take n (drop pos s)"

lemma find_idx_SomeD:
  "find_idx P s = Some n \<Longrightarrow> n < length s \<and> P (s ! n) \<and> (\<forall>i<n. \<not> P (s ! i))"
proof (induction s arbitrary: n)
  case (Cons x xs)
  show ?case
  proof (cases "P x")
    case False
    with Cons.prems obtain m where m: "find_idx P xs = Some m" "n = Suc m" by auto
    from Cons.IH [OF m(1)] m(2) False show ?thesis by (auto simp: less_Suc_eq_0_disj)
  qed (use Cons.prems in auto)
qed simp

lemma find_idx_None_iff: "find_idx P s = None \<longleftrightarrow> (\<forall>x \<in> set s. \<not> P x)"
  by (induction s) auto

lemma find_idx_append:
  "find_idx P (s @ t) =
     (case find_idx P s of Some n \<Rightarrow> Some n | None \<Rightarrow> map_option ((+) (length s)) (find_idx P t))"
proof (induction s)
  case Nil
  have "(+) (0::nat) = id" by auto
  then show ?case by (simp add: option.map_id0)
next
  case (Cons x xs)
  then show ?case
    by (cases "find_idx P xs"; cases "find_idx P t") simp_all
qed

lemma find_idx_takeWhile:
  "find_idx P s = Some n \<Longrightarrow> take n s = takeWhile (\<lambda>x. \<not> P x) s \<and> drop n s = dropWhile (\<lambda>x. \<not> P x) s"
proof (induction s arbitrary: n)
  case (Cons x xs)
  then show ?case by (cases "P x") auto
qed simp

lemma find_idx_first:
  assumes "\<And>x. x \<in> set s \<Longrightarrow> \<not> P x" and "P y"
  shows "find_idx P (s @ y # t) = Some (length s)"
  using assms by (induction s) auto

lemma find_char_first [text_simps]:
  "c \<notin> set s \<Longrightarrow> find_char c (s @ c # t) = Some (length s)"
  unfolding find_char_def by (rule find_idx_first) auto

lemma find_char_None [text_simps]: "c \<notin> set s \<Longrightarrow> find_char c s = None"
  by (auto simp: find_char_def find_idx_None_iff)

lemma find_char_SomeD:
  assumes "find_char c s = Some n"
  shows "n < length s" "s ! n = c" "c \<notin> set (take n s)" "s = take n s @ c # drop (Suc n) s"
proof -
  from find_idx_SomeD [OF assms [unfolded find_char_def]]
  have *: "n < length s" "s ! n = c" "\<forall>i<n. s ! i \<noteq> c" by auto
  then show "n < length s" "s ! n = c" "c \<notin> set (take n s)"
    by (auto simp: in_set_conv_nth)
  from *(1,2) show "s = take n s @ c # drop (Suc n) s"
    by (metis id_take_nth_drop)
qed

lemma has_prefix_append [simp]: "has_prefix p (p @ s)"
  by (simp add: has_prefix_def)

lemma has_prefixE: "has_prefix p s \<Longrightarrow> (\<And>t. s = p @ t \<Longrightarrow> R) \<Longrightarrow> R"
  unfolding has_prefix_def by (metis append_take_drop_id)

lemma has_prefix_iff: "has_prefix p s \<longleftrightarrow> (\<exists>t. s = p @ t)"
  by (auto elim: has_prefixE)

lemma has_prefix_code [simp]:
  "has_prefix [] s" "\<not> has_prefix (x # p) []" "has_prefix (x # p) (y # s) \<longleftrightarrow> x = y \<and> has_prefix p s"
  by (auto simp: has_prefix_def)

lemma has_prefix_length: "has_prefix p s \<Longrightarrow> length p \<le> length s"
  by (auto simp: has_prefix_iff)

lemma has_prefix_append_left: "has_prefix p s \<Longrightarrow> has_prefix p (s @ t)"
  by (auto simp: has_prefix_iff)

lemma has_prefix_append_right: "length p \<le> length s \<Longrightarrow> has_prefix p (s @ t) \<longleftrightarrow> has_prefix p s"
  by (simp add: has_prefix_def)

lemma find_sub_prefix [simp]: "find_sub p (p @ s) = Some 0"
  using has_prefix_append [of p s] by (cases "p @ s") simp_all

lemma find_sub_SomeD:
  "find_sub p s = Some n \<Longrightarrow> n + length p \<le> length s \<and> has_prefix p (drop n s)"
proof (induction s arbitrary: n)
  case Nil
  then show ?case by (auto split: if_splits)
next
  case (Cons x xs)
  show ?case
  proof (cases "has_prefix p (x # xs)")
    case True
    with Cons.prems has_prefix_length [OF True] show ?thesis by auto
  next
    case False
    with Cons.prems obtain m where m: "find_sub p xs = Some m" "n = Suc m"
      by auto
    from Cons.IH [OF m(1)] m(2) show ?thesis by simp
  qed
qed

lemma find_sub_split:
  assumes "find_sub p s = Some n"
  shows "s = take n s @ p @ drop (n + length p) s"
proof -
  from find_sub_SomeD [OF assms] obtain t where t: "drop n s = p @ t"
    by (auto simp: has_prefix_iff)
  then have "drop (n + length p) s = t"
    by (metis add.commute append_eq_conv_conj drop_drop)
  with t show ?thesis by (metis append_take_drop_id)
qed

text \<open>More input never moves a match that was already found.\<close>

lemma find_sub_append:
  "find_sub p s = Some n \<Longrightarrow> find_sub p (s @ t) = Some n"
proof (induction s arbitrary: n)
  case Nil
  then show ?case by (auto split: if_splits simp: find_sub_prefix [of "[]", simplified])
next
  case (Cons x xs)
  show ?case
  proof (cases "has_prefix p (x # xs)")
    case True
    with Cons.prems has_prefix_append_left [OF True, of t] show ?thesis by simp
  next
    case False
    with Cons.prems obtain m where m: "find_sub p xs = Some m" "n = Suc m"
      by auto
    have "length p \<le> length (x # xs)"
      using find_sub_SomeD [OF m(1)] by simp
    with False have "\<not> has_prefix p (x # xs @ t)"
      using has_prefix_append_right [of p "x # xs" t] by simp
    with Cons.IH [OF m(1)] m(2) show ?thesis by simp
  qed
qed

text \<open>A line without a carriage return is found whole.\<close>

lemma find_crlf_line [text_simps]:
  "CR \<notin> set line \<Longrightarrow> find_sub CRLF (line @ CR # LF # rest) = Some (length line)"
  by (induction line) (auto simp: has_prefix_def)

lemma find_crlf_None [text_simps]: "CR \<notin> set s \<Longrightarrow> find_sub CRLF s = None"
  by (induction s) (auto simp: has_prefix_def)

subsection \<open>Trimming\<close>

text \<open>
  The code trims in two styles: with \<^verbatim>\<open>find_first_not_of\<close>,
  \<^verbatim>\<open>find_last_not_of\<close> and \<^verbatim>\<open>substr\<close> (\<open>trim_find\<close>), and with two index loops
  (\<open>trim_loop\<close>).  Both compute \<open>trim_by\<close>.
\<close>

definition trim_by :: "('a \<Rightarrow> bool) \<Rightarrow> 'a list \<Rightarrow> 'a list" where
  "trim_by P s = rev (dropWhile P (rev (dropWhile P s)))"

definition trim_find :: "('a \<Rightarrow> bool) \<Rightarrow> 'a list \<Rightarrow> 'a list" where
  "trim_find P s =
     (case find_idx (\<lambda>c. \<not> P c) s of
        None \<Rightarrow> []
      | Some a \<Rightarrow>
          (case find_last_idx (\<lambda>c. \<not> P c) s of
             None \<Rightarrow> []
           | Some b \<Rightarrow> substr s a (b + 1 - a)))"

function skip_fwd :: "('a \<Rightarrow> bool) \<Rightarrow> 'a list \<Rightarrow> nat \<Rightarrow> nat" where
  "skip_fwd P s i = (if i < length s \<and> P (s ! i) then skip_fwd P s (i + 1) else i)"
  by pat_completeness auto
termination by (relation "measure (\<lambda>(P, s, i). length s - i)") auto

declare skip_fwd.simps [simp del]

fun skip_back :: "('a \<Rightarrow> bool) \<Rightarrow> 'a list \<Rightarrow> nat \<Rightarrow> nat \<Rightarrow> nat" where
  "skip_back P s start 0 = 0"
| "skip_back P s start (Suc e) =
     (if start < Suc e \<and> P (s ! e) then skip_back P s start e else Suc e)"

definition trim_loop :: "('a \<Rightarrow> bool) \<Rightarrow> 'a list \<Rightarrow> 'a list" where
  "trim_loop P s =
     (let start = skip_fwd P s 0; e = skip_back P s start (length s)
      in substr s start (e - start))"

lemma skip_fwd_eq:
  "i \<le> length s \<Longrightarrow> skip_fwd P s i = i + length (takeWhile P (drop i s))"
proof (induction P s i rule: skip_fwd.induct)
  case (1 P s i)
  show ?case
  proof (cases "i < length s \<and> P (s ! i)")
    case True
    then have "drop i s = s ! i # drop (i + 1) s"
      by (simp add: Cons_nth_drop_Suc)
    with 1 True show ?thesis by (subst skip_fwd.simps) simp
  next
    case False
    then have "takeWhile P (drop i s) = []"
      by (cases "i < length s") (auto simp: Cons_nth_drop_Suc [symmetric])
    with False show ?thesis by (subst skip_fwd.simps) auto
  qed
qed

lemma skip_back_eq:
  "start \<le> e \<Longrightarrow> e \<le> length s \<Longrightarrow>
     take (skip_back P s start e - start) (drop start s) =
       rev (dropWhile P (rev (take (e - start) (drop start s))))"
proof (induction e)
  case (Suc e)
  show ?case
  proof (cases "start < Suc e")
    case True
    with Suc.prems have "take (Suc e - start) (drop start s) =
        take (e - start) (drop start s) @ [s ! e]"
      by (simp add: Suc_diff_le take_Suc_conv_app_nth)
    with Suc True show ?thesis by simp
  qed (use Suc.prems in simp)
qed simp

lemma trim_loop_eq [text_simps]: "trim_loop P s = trim_by P s"
proof -
  let ?k = "length (takeWhile P s)"
  have k: "?k \<le> length s" by (rule length_takeWhile_le)
  have "skip_fwd P s 0 = ?k" by (simp add: skip_fwd_eq)
  with skip_back_eq [OF k order_refl, of P] show ?thesis
    by (simp add: trim_loop_def trim_by_def substr_def Let_def dropWhile_eq_drop)
qed

lemma trim_find_eq [text_simps]: "trim_find P s = trim_by P s"
proof (cases "find_idx (\<lambda>c. \<not> P c) s")
  case None
  then have "\<And>x. x \<in> set s \<Longrightarrow> P x" by (simp add: find_idx_None_iff)
  then have "dropWhile P s = []" by (induction s) auto
  with None show ?thesis by (auto simp: trim_find_def trim_by_def dest: set_dropWhileD)
next
  case (Some a)
  then obtain x where x: "x \<in> set s" "\<not> P x"
    by (metis find_idx_SomeD nth_mem)
  then obtain j where j: "find_idx (\<lambda>c. \<not> P c) (rev s) = Some j"
    by (cases "find_idx (\<lambda>c. \<not> P c) (rev s)") (auto simp: find_idx_None_iff)
  from find_idx_takeWhile [OF Some] find_idx_SomeD [OF Some]
  have a: "dropWhile P s = drop a s" "a < length s" "\<not> P (s ! a)" by auto
  from find_idx_takeWhile [OF j] find_idx_SomeD [OF j]
  have jj: "dropWhile P (rev s) = drop j (rev s)" "j < length s" "\<forall>i<j. P (rev s ! i)" by auto
  have aj: "a \<le> length s - 1 - j"
  proof (rule ccontr)
    assume "\<not> ?thesis"
    then have "length s - 1 - a < j" using a(2) jj(2) by linarith
    with jj(3) have "P (rev s ! (length s - 1 - a))" by blast
    with a(2,3) show False by (simp add: rev_nth)
  qed
  have "rev (drop a s) = take (length s - a) (rev s)" by (simp add: rev_drop)
  moreover have "dropWhile P (take (length s - a) (rev s)) = drop j (take (length s - a) (rev s))"
  proof -
    have "j \<le> length (take (length s - a) (rev s))" using aj jj(2) by simp
    moreover have "\<forall>i<j. P (take (length s - a) (rev s) ! i)" using jj(3) calculation by simp
    moreover have "\<not> P (take (length s - a) (rev s) ! j)"
      using find_idx_SomeD [OF j] aj jj(2) a(2) by simp
    ultimately show ?thesis
      using aj jj(2) a(2)
      by (intro dropWhile_eq_drop [THEN trans])
         (subst takeWhile_eq_take_P_nth [of j], auto)
  qed
  ultimately have "trim_by P s = rev (drop j (take (length s - a) (rev s)))"
    by (simp add: trim_by_def a(1))
  also have "\<dots> = take (length s - j - a) (drop a s)"
    by (simp only: rev_drop)
       (use a(2) in \<open>cases "a = 0"; auto simp: rev_take min_def diff_commute add.commute\<close>)
  finally have t: "trim_by P s = take (length s - j - a) (drop a s)" .
  have "length s - 1 - j + 1 - a = length s - j - a" using aj jj(2) by linarith
  with t show ?thesis using Some j
    by (simp add: trim_find_def find_last_idx_def substr_def del: diff_diff_left)
qed

lemma trim_by_id:
  assumes "s = [] \<or> (\<not> P (hd s) \<and> \<not> P (last s))"
  shows "trim_by P s = s"
proof (cases "s = []")
  case False
  with assms have "dropWhile P s = s" "dropWhile P (rev s) = rev s"
    by (metis dropWhile_eq_self_iff, metis dropWhile_eq_self_iff hd_rev rev_is_Nil_conv)
  then show ?thesis by (simp add: trim_by_def)
qed (simp add: trim_by_def)

lemma trim_by_none [text_simps]: "\<forall>x \<in> set s. \<not> P x \<Longrightarrow> trim_by P s = s"
  by (rule trim_by_id) (metis hd_in_set last_in_set)

lemma trim_by_ends:
  assumes "trim_by P s \<noteq> []"
  shows "\<not> P (hd (trim_by P s))" "\<not> P (last (trim_by P s))"
proof -
  let ?t = "dropWhile P s"
  let ?u = "dropWhile P (rev ?t)"
  have u: "?u \<noteq> []" using assms unfolding trim_by_def by blast
  then show "\<not> P (last (trim_by P s))"
    by (simp add: trim_by_def last_rev hd_dropWhile)
  have "last ?u = last (rev ?t)"
    using u by (metis dropWhile_eq_drop last_drop length_drop length_greater_0_conv zero_less_diff)
  moreover have "?t \<noteq> []" using u by (metis dropWhile.simps(1) rev.simps(1))
  ultimately show "\<not> P (hd (trim_by P s))"
    by (simp add: trim_by_def hd_rev last_rev hd_dropWhile)
qed

lemma trim_by_idem [simp]: "trim_by P (trim_by P s) = trim_by P s"
  by (rule trim_by_id) (use trim_by_ends in blast)

lemma set_trim_by: "set (trim_by P s) \<subseteq> set s"
  unfolding trim_by_def by (metis set_dropWhileD set_rev subsetI)

subsection \<open>Decimal rendering\<close>

fun to_string :: "nat \<Rightarrow> string" where
  "to_string n =
     (if n < 10 then [char_of (48 + n)]
      else to_string (n div 10) @ [char_of (48 + n mod 10)])"

declare to_string.simps [simp del]

definition digits_value :: "string \<Rightarrow> nat" where
  "digits_value s = foldl (\<lambda>acc c. acc * 10 + digit_value c) 0 s"

lemma digits_value_Nil [simp]: "digits_value [] = 0"
  by (simp add: digits_value_def)

lemma digits_value_snoc [simp]:
  "digits_value (s @ [c]) = digits_value s * 10 + digit_value c"
  by (simp add: digits_value_def)

lemma digit_char [simp]:
  "d < 10 \<Longrightarrow> is_digit (char_of (48 + d))" "d < 10 \<Longrightarrow> digit_value (char_of (48 + d)) = d"
  by (simp_all add: is_digit_def digit_value_def)

lemma to_string_digits [text_simps]: "c \<in> set (to_string n) \<Longrightarrow> is_digit c"
proof (induction n rule: to_string.induct)
  case (1 n)
  then show ?case
    by (cases "n < 10") (auto simp: to_string.simps [of n])
qed

lemma to_string_not_Nil [simp]: "to_string n \<noteq> []"
  by (subst to_string.simps) simp

lemma digits_value_to_string [text_simps]: "digits_value (to_string n) = n"
proof (induction n rule: to_string.induct)
  case (1 n)
  show ?case
  proof (cases "n < 10")
    case True
    then have "to_string n = [] @ [char_of (48 + n)]" by (simp add: to_string.simps [of n])
    then show ?thesis using True by (simp only: digits_value_snoc) simp
  next
    case False
    with 1 show ?thesis by (subst to_string.simps) simp
  qed
qed

lemma digits_value_bound:
  "\<forall>c \<in> set s. is_digit c \<Longrightarrow> digits_value s < 10 ^ length s"
proof (induction s rule: rev_induct)
  case (snoc c s)
  then have "digits_value s < 10 ^ length s" "digit_value c \<le> 9"
    by (auto simp: is_digit_def digit_value_def)
  then show ?case by simp
qed simp

lemma to_string_inj [simp]: "to_string m = to_string n \<longleftrightarrow> m = n"
  by (metis digits_value_to_string)

text \<open>Signed numbers, and hexadecimal as \<^verbatim>\<open>std::hex\<close> prints it.\<close>

definition int_to_string :: "int \<Rightarrow> string" where
  "int_to_string n = (if n < 0 then CHR ''-'' # to_string (nat (- n)) else to_string (nat n))"

definition hex_char :: "nat \<Rightarrow> char" where
  "hex_char d = (if d < 10 then char_of (48 + d) else char_of (87 + d))"

fun to_hex :: "nat \<Rightarrow> string" where
  "to_hex n = (if n < 16 then [hex_char n] else to_hex (n div 16) @ [hex_char (n mod 16)])"

declare to_hex.simps [simp del]

lemma to_hex_not_Nil [simp]: "to_hex n \<noteq> []"
  by (subst to_hex.simps) simp

subsection \<open>Conversions that read a prefix\<close>

text \<open>
  The \<^verbatim>\<open>strtol\<close> family skips white space, accepts one sign and reads the
  longest run of digits; what follows is ignored.  The result is the sign and
  the magnitude, \<^const>\<open>None\<close> when there is no digit (\<^verbatim>\<open>std::invalid_argument\<close>).
  \<open>stoul\<close> accepts a minus sign and negates modulo \<open>2 ^ 64\<close>, as C does.
\<close>

definition read_sign :: "string \<Rightarrow> bool \<times> string" where
  "read_sign s =
     (case s of [] \<Rightarrow> (False, [])
      | c # r \<Rightarrow> if c = CHR ''-'' then (True, r) else if c = CHR ''+'' then (False, r) else (False, s))"

definition read_int :: "string \<Rightarrow> (bool \<times> nat) option" where
  "read_int s =
     (let (neg, r) = read_sign (dropWhile is_space s); ds = takeWhile is_digit r
      in if ds = [] then None else Some (neg, digits_value ds))"

definition stoul :: "string \<Rightarrow> nat option" where
  "stoul s =
     (case read_int s of None \<Rightarrow> None
      | Some (neg, m) \<Rightarrow>
          if m \<ge> 2 ^ 64 then None else Some (if neg then (2 ^ 64 - m) mod 2 ^ 64 else m))"

definition stoll :: "string \<Rightarrow> int option" where
  "stoll s =
     (case read_int s of None \<Rightarrow> None
      | Some (neg, m) \<Rightarrow>
          if neg then (if m \<le> 2 ^ 63 then Some (- int m) else None)
          else (if m < 2 ^ 63 then Some (int m) else None))"

definition stoi :: "string \<Rightarrow> int option" where
  "stoi s =
     (case stoll s of None \<Rightarrow> None
      | Some n \<Rightarrow> if - (2 ^ 31) \<le> n \<and> n < 2 ^ 31 then Some n else None)"

lemma read_int_digits:
  assumes "ds \<noteq> []" "\<forall>c \<in> set ds. is_digit c" "r = [] \<or> \<not> is_digit (hd r)"
  shows "read_int (ds @ r) = Some (False, digits_value ds)"
proof -
  obtain d ds' where ds: "ds = d # ds'" using assms(1) by (cases ds) auto
  with assms have d: "\<not> is_space d" "d \<noteq> CHR ''-''" "d \<noteq> CHR ''+''"
    by (auto simp: class_defs code_def)
  from assms(2,3) have "takeWhile is_digit (ds @ r) = ds"
    by (cases r) (auto simp: takeWhile_append2)
  with ds d show ?thesis by (simp add: read_int_def read_sign_def)
qed

lemma stoul_lt: "stoul s = Some n \<Longrightarrow> n < 2 ^ 64"
  by (auto simp: stoul_def split: option.splits if_splits)

lemma stoul_to_string [text_simps]: "n < 2 ^ 64 \<Longrightarrow> stoul (to_string n) = Some n"
  using read_int_digits [of "to_string n" "[]"]
  by (simp add: stoul_def to_string_digits digits_value_to_string)

lemma stoll_to_string [text_simps]: "n < 2 ^ 63 \<Longrightarrow> stoll (to_string n) = Some (int n)"
  using read_int_digits [of "to_string n" "[]"]
  by (simp add: stoll_def to_string_digits digits_value_to_string)

subsection \<open>Tokens of an input stream\<close>

text \<open>\<open>stream >> word\<close>: skip white space, then read up to the next white space.\<close>

definition next_token :: "string \<Rightarrow> string \<times> string" where
  "next_token s =
     (let t = dropWhile is_space s in (takeWhile (\<lambda>c. \<not> is_space c) t, dropWhile (\<lambda>c. \<not> is_space c) t))"

lemma next_token_word [text_simps]:
  assumes "\<forall>c \<in> set w. \<not> is_space c" "w \<noteq> []" "is_space c"
  shows "next_token (w @ c # r) = (w, c # r)" "next_token w = (w, [])"
    "next_token (c # w @ d # r) = (if is_space d then (w, d # r) else next_token (w @ d # r))"
    "next_token (c # w) = (w, [])"
proof -
  obtain x xs where w: "w = x # xs" using assms(2) by (cases w) auto
  have t: "takeWhile (\<lambda>c. \<not> is_space c) w = w" "dropWhile (\<lambda>c. \<not> is_space c) w = []"
    using assms(1) by auto
  show "next_token (w @ c # r) = (w, c # r)" "next_token w = (w, [])" "next_token (c # w) = (w, [])"
    "next_token (c # w @ d # r) = (if is_space d then (w, d # r) else next_token (w @ d # r))"
    using assms t w by (auto simp: next_token_def Let_def takeWhile_append2 dropWhile_append2)
qed

lemma next_token_no_space: "next_token s = (w, r) \<Longrightarrow> c \<in> set w \<Longrightarrow> \<not> is_space c"
  by (auto simp: next_token_def Let_def dest: set_takeWhileD)

subsection \<open>Comparing ignoring case\<close>

definition eq_icase :: "string \<Rightarrow> string \<Rightarrow> bool" where
  "eq_icase s t \<longleftrightarrow> map to_lower s = map to_lower t"

lemma eq_icase_refl [simp]: "eq_icase s s"
  by (simp add: eq_icase_def)

lemma eq_icase_sym: "eq_icase s t \<longleftrightarrow> eq_icase t s"
  by (auto simp: eq_icase_def)

lemma eq_icase_trans: "eq_icase s t \<Longrightarrow> eq_icase t u \<Longrightarrow> eq_icase s u"
  by (simp add: eq_icase_def)

end
