(* ===== verification/Http_Header.thy ===== *)
theory Http_Header
  imports Prelude
begin

section \<open>Header fields: \<^verbatim>\<open>include/aevrix/http_header.h\<close>\<close>

text \<open>
  \<open>HttpHeader\<close> keeps the name as received, the trimmed value and the lowercase
  name used for comparison; \<open>HttpHeaders\<close> is the vector of them.  The locale
  \<open>header_fields\<close> states what the request, the response and the proxy rely on
  (lookup after update, ignoring the case of names); it is interpreted on the
  vector operations at the end of the theory.
\<close>

subsection \<open>One header field\<close>

record HttpHeader =
  header_name :: string
  header_value :: string
  header_norm :: string

definition normalize_name :: "string \<Rightarrow> string" where
  "normalize_name name = map to_lower name"

definition trim_whitespace :: "string \<Rightarrow> string" where
  "trim_whitespace s = trim_find is_lws s"

definition make_header :: "string \<Rightarrow> string \<Rightarrow> HttpHeader" where
  "make_header name value =
     \<lparr>header_name = name, header_value = trim_whitespace value, header_norm = normalize_name name\<rparr>"

definition is_token_char :: "char \<Rightarrow> bool" where
  "is_token_char c \<longleftrightarrow> is_alnum c \<or> c \<in> set ''!#$%&*+-.^_`|~'' \<or> c = CHR 0x27"

definition is_valid_name :: "HttpHeader \<Rightarrow> bool" where
  "is_valid_name h \<longleftrightarrow> header_name h \<noteq> [] \<and> list_all is_token_char (header_name h)"

text \<open>The comparison \<^verbatim>\<open>c < ' '\<close> is on signed \<^verbatim>\<open>char\<close>.\<close>

definition is_valid_value_char :: "char \<Rightarrow> bool" where
  "is_valid_value_char c \<longleftrightarrow>
     \<not> (signed_code c = 0 \<or> (signed_code c < 32 \<and> signed_code c \<noteq> 32 \<and> signed_code c \<noteq> 9))"

definition is_valid_value :: "HttpHeader \<Rightarrow> bool" where
  "is_valid_value h \<longleftrightarrow> list_all is_valid_value_char (header_value h)"

definition header_is_valid :: "HttpHeader \<Rightarrow> bool" where
  "header_is_valid h \<longleftrightarrow> is_valid_name h \<and> is_valid_value h"

subsection \<open>The collection\<close>

type_synonym HttpHeaders = "HttpHeader list"

definition find_by_normalized_name :: "HttpHeaders \<Rightarrow> string \<Rightarrow> nat option" where
  "find_by_normalized_name hs n = find_idx (\<lambda>h. header_norm h = n) hs"

definition headers_set :: "HttpHeaders \<Rightarrow> string \<Rightarrow> string \<Rightarrow> HttpHeaders" where
  "headers_set hs name value =
     (case find_by_normalized_name hs (normalize_name name) of
        Some i \<Rightarrow> hs[i := make_header name value]
      | None \<Rightarrow> hs @ [make_header name value])"

definition headers_get :: "HttpHeaders \<Rightarrow> string \<Rightarrow> string" where
  "headers_get hs name =
     (case find_by_normalized_name hs (normalize_name name) of
        Some i \<Rightarrow> header_value (hs ! i)
      | None \<Rightarrow> [])"

definition headers_has :: "HttpHeaders \<Rightarrow> string \<Rightarrow> bool" where
  "headers_has hs name = (find_by_normalized_name hs (normalize_name name) \<noteq> None)"

definition headers_remove :: "HttpHeaders \<Rightarrow> string \<Rightarrow> HttpHeaders \<times> bool" where
  "headers_remove hs name =
     (case find_by_normalized_name hs (normalize_name name) of
        Some i \<Rightarrow> (take i hs @ drop (Suc i) hs, True)
      | None \<Rightarrow> (hs, False))"

subsection \<open>Facts about one field\<close>

lemma trim_whitespace_eq [text_simps]: "trim_whitespace s = trim_by is_lws s"
  by (simp add: trim_whitespace_def trim_find_eq)

lemma trim_whitespace_idem [simp]: "trim_whitespace (trim_whitespace s) = trim_whitespace s"
  by (simp add: trim_whitespace_eq)

lemma trim_whitespace_Nil [simp]: "trim_whitespace [] = []"
  by (simp add: trim_whitespace_eq trim_by_def)

lemma make_header_sel [simp]:
  "header_name (make_header n v) = n" "header_value (make_header n v) = trim_whitespace v"
  "header_norm (make_header n v) = normalize_name n"
  by (simp_all add: make_header_def)

lemma normalize_name_idem [simp]: "normalize_name (normalize_name n) = normalize_name n"
  by (simp add: normalize_name_def del: map_map)

lemma eq_icase_normalize: "eq_icase m n \<longleftrightarrow> normalize_name m = normalize_name n"
  by (simp add: eq_icase_def normalize_name_def)

lemma valid_value_char_not_break:
  "is_valid_value_char c \<Longrightarrow> c \<noteq> CR \<and> c \<noteq> LF \<and> c \<noteq> CHR 0x00"
  by (auto simp: is_valid_value_char_def signed_code_def code_def)

lemma token_char_not_special:
  "is_token_char c \<Longrightarrow> c \<noteq> CR \<and> c \<noteq> LF \<and> c \<noteq> CHR '':'' \<and> c \<noteq> CHR '' '' \<and> c \<noteq> TAB"
  by (auto simp: is_token_char_def class_defs code_def)

lemma header_is_valid_no_break:
  assumes "header_is_valid h"
  shows "CR \<notin> set (header_name h)" "LF \<notin> set (header_name h)" "CR \<notin> set (header_value h)" "LF \<notin> set (header_value h)"
    "CHR '':'' \<notin> set (header_name h)"
  using assms valid_value_char_not_break token_char_not_special
  by (auto simp: header_is_valid_def is_valid_name_def is_valid_value_def list_all_iff)

subsection \<open>Facts about the collection\<close>

text \<open>
  The well-formedness invariant: at most one field per name, the lowercase name
  in step with the name, every value trimmed.
\<close>

definition headers_wf :: "HttpHeaders \<Rightarrow> bool" where
  "headers_wf hs \<longleftrightarrow>
     distinct (map header_norm hs) \<and>
     list_all (\<lambda>h. header_norm h = normalize_name (header_name h) \<and>
                   trim_whitespace (header_value h) = header_value h) hs"

text \<open>The collection as a finite map from lowercase names to values.\<close>

definition header_map :: "HttpHeaders \<Rightarrow> string \<Rightarrow> string option" where
  "header_map hs = map_of (map (\<lambda>h. (header_norm h, header_value h)) hs)"

lemma find_map: "map_option (\<lambda>i. header_value (hs ! i)) (find_by_normalized_name hs n) = header_map hs n"
  unfolding find_by_normalized_name_def header_map_def
  by (induction hs) (auto simp: option.map_comp comp_def)

lemma headers_get_map: "headers_get hs n = (case header_map hs (normalize_name n) of Some v \<Rightarrow> v | None \<Rightarrow> [])"
  by (auto simp: headers_get_def find_map [symmetric] split: option.splits)

lemma headers_has_map: "headers_has hs n \<longleftrightarrow> header_map hs (normalize_name n) \<noteq> None"
  by (auto simp: headers_has_def find_map [symmetric])

lemma find_split:
  assumes "find_by_normalized_name hs n = Some i"
  obtains xs h ys where "hs = xs @ h # ys" "length xs = i" "header_norm h = n"
    "\<forall>x \<in> set xs. header_norm x \<noteq> n"
proof
  from assms have i: "i < length hs" "header_norm (hs ! i) = n" "\<forall>j<i. header_norm (hs ! j) \<noteq> n"
    using find_idx_SomeD unfolding find_by_normalized_name_def by blast+
  show "hs = take i hs @ hs ! i # drop (Suc i) hs" using i(1) by (simp add: id_take_nth_drop)
  show "length (take i hs) = i" "header_norm (hs ! i) = n" using i by auto
  show "\<forall>x \<in> set (take i hs). header_norm x \<noteq> n" using i by (auto simp: in_set_conv_nth)
qed

lemma header_map_append:
  "header_map (xs @ ys) n = (case header_map xs n of Some v \<Rightarrow> Some v | None \<Rightarrow> header_map ys n)"
  by (simp add: header_map_def map_add_def split: option.split)

lemma header_map_Cons:
  "header_map (h # hs) n = (if header_norm h = n then Some (header_value h) else header_map hs n)"
  by (auto simp: header_map_def)

lemma header_map_Nil [simp]: "header_map [] = Map.empty"
  by (simp add: header_map_def)

lemma header_map_None: "header_map hs n = None \<longleftrightarrow> (\<forall>h \<in> set hs. header_norm h \<noteq> n)"
  by (induction hs) (auto simp: header_map_Cons)

lemma find_None: "find_by_normalized_name hs n = None \<longleftrightarrow> (\<forall>h \<in> set hs. header_norm h \<noteq> n)"
  by (simp add: find_by_normalized_name_def find_idx_None_iff)

lemma header_map_set:
  "header_map (headers_set hs n v) = (header_map hs)(normalize_name n \<mapsto> trim_whitespace v)"
proof (cases "find_by_normalized_name hs (normalize_name n)")
  case None
  then have "header_map hs (normalize_name n) = None" by (simp add: find_None header_map_None)
  with None show ?thesis
    by (intro ext)
       (auto simp: headers_set_def header_map_append header_map_Cons split: option.splits)
next
  case (Some i)
  then obtain xs h ys where s: "hs = xs @ h # ys" "length xs = i" "header_norm h = normalize_name n"
    "\<forall>x \<in> set xs. header_norm x \<noteq> normalize_name n"
    by (rule find_split)
  then have "header_map xs (normalize_name n) = None" by (simp add: header_map_None)
  with Some s show ?thesis
    by (intro ext)
       (auto simp: headers_set_def header_map_append header_map_Cons split: option.splits)
qed

lemma headers_wf_set: "headers_wf hs \<Longrightarrow> headers_wf (headers_set hs n v)"
proof (cases "find_by_normalized_name hs (normalize_name n)")
  case None
  assume wf: "headers_wf hs"
  have "\<forall>h \<in> set hs. header_norm h \<noteq> normalize_name n" using None by (simp add: find_None)
  with wf None show ?thesis by (auto simp: headers_set_def headers_wf_def)
next
  case (Some i)
  assume wf: "headers_wf hs"
  from Some obtain xs h ys where s: "hs = xs @ h # ys" "length xs = i" "header_norm h = normalize_name n"
    by (rule find_split)
  with wf Some show ?thesis by (auto simp: headers_set_def headers_wf_def)
qed

lemma headers_wf_remove: "headers_wf hs \<Longrightarrow> headers_wf (fst (headers_remove hs n))"
proof (cases "find_by_normalized_name hs (normalize_name n)")
  case (Some i)
  assume wf: "headers_wf hs"
  from Some obtain xs h ys where s: "hs = xs @ h # ys" "length xs = i" "header_norm h = normalize_name n"
    by (rule find_split)
  with wf Some show ?thesis by (auto simp: headers_remove_def headers_wf_def)
qed (simp add: headers_remove_def)

lemma headers_wf_Nil [simp]: "headers_wf []"
  by (simp add: headers_wf_def)

lemma header_map_remove:
  assumes "headers_wf hs"
  shows "header_map (fst (headers_remove hs n)) = (header_map hs)(normalize_name n := None)"
proof (cases "find_by_normalized_name hs (normalize_name n)")
  case None
  then have "header_map hs (normalize_name n) = None" by (simp add: find_None header_map_None)
  with None show ?thesis by (simp add: headers_remove_def fun_upd_idem)
next
  case (Some i)
  then obtain xs h ys where s: "hs = xs @ h # ys" "length xs = i" "header_norm h = normalize_name n"
    by (rule find_split)
  with assms have "header_map xs (normalize_name n) = None" "header_map ys (normalize_name n) = None"
    by (auto simp: headers_wf_def header_map_None) (metis imageI)+
  with Some s show ?thesis
    by (intro ext)
       (auto simp: headers_remove_def header_map_append header_map_Cons split: option.splits)
qed

lemma set_headers_set: "set (headers_set hs n v) \<subseteq> insert (make_header n v) (set hs)"
  by (auto simp: headers_set_def split: option.splits dest: subsetD [OF set_update_subset_insert])

lemma set_headers_remove: "set (fst (headers_remove hs n)) \<subseteq> set hs"
  by (auto simp: headers_remove_def split: option.splits dest: in_set_takeD in_set_dropD)

lemma headers_set_valid:
  "list_all P hs \<Longrightarrow> P (make_header n v) \<Longrightarrow> list_all P (headers_set hs n v)"
  using set_headers_set [of hs n v] by (auto simp: list_all_iff)

lemma headers_remove_valid: "list_all P hs \<Longrightarrow> list_all P (fst (headers_remove hs n))"
  using set_headers_remove [of hs n] by (auto simp: list_all_iff)

lemma headers_set_fresh:
  "\<not> headers_has hs n \<Longrightarrow> headers_set hs n v = hs @ [make_header n v]"
  by (simp add: headers_has_def headers_set_def)

subsection \<open>The interface\<close>

text \<open>
  What a client may assume of a store of header fields with operations \<open>set\<close>,
  \<open>get\<close>, \<open>has\<close>, \<open>remove\<close> and an invariant.
\<close>

locale header_fields =
  fixes h_empty :: 'h
    and h_set :: "'h \<Rightarrow> string \<Rightarrow> string \<Rightarrow> 'h"
    and h_get :: "'h \<Rightarrow> string \<Rightarrow> string"
    and h_has :: "'h \<Rightarrow> string \<Rightarrow> bool"
    and h_remove :: "'h \<Rightarrow> string \<Rightarrow> 'h"
    and h_ok :: "'h \<Rightarrow> bool"
  assumes ok_empty: "h_ok h_empty"
    and ok_set: "h_ok h \<Longrightarrow> h_ok (h_set h n v)"
    and ok_remove: "h_ok h \<Longrightarrow> h_ok (h_remove h n)"
    and has_empty: "\<not> h_has h_empty n"
    and has_set: "h_has (h_set h n v) m \<longleftrightarrow> eq_icase n m \<or> h_has h m"
    and get_set: "h_get (h_set h n v) m = (if eq_icase n m then trim_whitespace v else h_get h m)"
    and has_remove: "h_ok h \<Longrightarrow> h_has (h_remove h n) m \<longleftrightarrow> \<not> eq_icase n m \<and> h_has h m"
    and get_remove: "h_ok h \<Longrightarrow> h_get (h_remove h n) m = (if eq_icase n m then [] else h_get h m)"
    and get_absent: "\<not> h_has h m \<Longrightarrow> h_get h m = []"
begin

lemma get_empty [simp]: "h_get h_empty n = []"
  by (simp add: get_absent has_empty)

lemma get_set_same [simp]: "h_get (h_set h n v) n = trim_whitespace v"
  by (simp add: get_set)

lemma get_set_other: "\<not> eq_icase n m \<Longrightarrow> h_get (h_set h n v) m = h_get h m"
  by (simp add: get_set)

lemma get_ignores_case: "eq_icase n m \<Longrightarrow> h_get (h_set h n v) m = h_get (h_set h m v) m"
  by (simp add: get_set)

lemma last_set_wins: "h_get (h_set (h_set h n v) m w) n = (if eq_icase m n then trim_whitespace w else trim_whitespace v)"
  by (simp add: get_set)

lemma get_after_remove: "h_ok h \<Longrightarrow> h_get (h_remove h n) n = [] \<and> \<not> h_has (h_remove h n) n"
  by (simp add: get_remove has_remove)

lemma set_all_ok: "h_ok h \<Longrightarrow> h_ok (foldl (\<lambda>h (n, v). h_set h n v) h nvs)"
  by (induction nvs arbitrary: h) (auto simp: ok_set)

lemma get_set_all:
  "(\<And>n v. (n, v) \<in> set nvs \<Longrightarrow> \<not> eq_icase n m) \<Longrightarrow>
     h_get (foldl (\<lambda>h (n, v). h_set h n v) h nvs) m = h_get h m"
proof (induction nvs arbitrary: h)
  case (Cons a nvs)
  obtain n v where a: "a = (n, v)" by (cases a)
  with Cons.prems have "\<not> eq_icase n m" "\<And>n v. (n, v) \<in> set nvs \<Longrightarrow> \<not> eq_icase n m"
    by (meson list.set_intros)+
  with Cons.IH a show ?case by (simp add: get_set)
qed simp

end

interpretation hdr: header_fields
  "[]" headers_set headers_get headers_has "\<lambda>hs n. fst (headers_remove hs n)" headers_wf
proof
  fix hs :: HttpHeaders and n m v :: string
  show "headers_wf []" "headers_wf hs \<Longrightarrow> headers_wf (headers_set hs n v)"
    "headers_wf hs \<Longrightarrow> headers_wf (fst (headers_remove hs n))"
    by (simp_all add: headers_wf_set headers_wf_remove)
  show "\<not> headers_has [] n" by (simp add: headers_has_map)
  show "headers_has (headers_set hs n v) m \<longleftrightarrow> eq_icase n m \<or> headers_has hs m"
    by (auto simp: headers_has_map header_map_set eq_icase_normalize)
  show "headers_get (headers_set hs n v) m = (if eq_icase n m then trim_whitespace v else headers_get hs m)"
    by (auto simp: headers_get_map header_map_set eq_icase_normalize)
  show "headers_wf hs \<Longrightarrow> headers_has (fst (headers_remove hs n)) m \<longleftrightarrow> \<not> eq_icase n m \<and> headers_has hs m"
    by (auto simp: headers_has_map header_map_remove eq_icase_normalize)
  show "headers_wf hs \<Longrightarrow> headers_get (fst (headers_remove hs n)) m = (if eq_icase n m then [] else headers_get hs m)"
    by (auto simp: headers_get_map header_map_remove eq_icase_normalize)
  show "\<not> headers_has hs m \<Longrightarrow> headers_get hs m = []"
    by (auto simp: headers_has_map headers_get_map)
qed

end
