(* ===== verification/Http_Message.thy ===== *)
theory Http_Message
  imports Http_Header
begin

section \<open>Requests, responses and the serializer\<close>

text \<open>
  \<^verbatim>\<open>http_method.h\<close>, \<^verbatim>\<open>http_status.h\<close>, \<^verbatim>\<open>http_request.h\<close>,
  \<^verbatim>\<open>http_response.h\<close> and \<^verbatim>\<open>http_response_serializer.h\<close>.  A value of
  \<^verbatim>\<open>enum class StatusCode : uint16_t\<close> made by a cast from an integer that is no
  enumerator is \<open>OtherStatus\<close>.
\<close>

subsection \<open>Methods\<close>

datatype HttpMethod = GET | HEAD | POST | PUT | HTTP_DELETE | OPTIONS | HTTP_PATCH | HTTP_UNKNOWN

definition http_method_to_string :: "HttpMethod \<Rightarrow> string" where
  "http_method_to_string m =
     (case m of GET \<Rightarrow> ''GET'' | HEAD \<Rightarrow> ''HEAD'' | POST \<Rightarrow> ''POST'' | PUT \<Rightarrow> ''PUT''
      | HTTP_DELETE \<Rightarrow> ''DELETE'' | OPTIONS \<Rightarrow> ''OPTIONS'' | HTTP_PATCH \<Rightarrow> ''PATCH''
      | HTTP_UNKNOWN \<Rightarrow> ''UNKNOWN'')"

definition string_to_http_method :: "string \<Rightarrow> HttpMethod" where
  "string_to_http_method s =
     (let u = map to_upper s in
      if u = ''GET'' then GET else if u = ''HEAD'' then HEAD else if u = ''POST'' then POST
      else if u = ''PUT'' then PUT else if u = ''DELETE'' then HTTP_DELETE
      else if u = ''OPTIONS'' then OPTIONS else if u = ''PATCH'' then HTTP_PATCH
      else HTTP_UNKNOWN)"

definition is_safe_method :: "HttpMethod \<Rightarrow> bool" where
  "is_safe_method m \<longleftrightarrow> m = GET \<or> m = HEAD \<or> m = OPTIONS"

definition is_idempotent_method :: "HttpMethod \<Rightarrow> bool" where
  "is_idempotent_method m \<longleftrightarrow> m = GET \<or> m = HEAD \<or> m = PUT \<or> m = HTTP_DELETE \<or> m = OPTIONS"

definition method_requires_body :: "HttpMethod \<Rightarrow> bool" where
  "method_requires_body m \<longleftrightarrow> m = POST \<or> m = PUT \<or> m = HTTP_PATCH"

lemma to_upper_literals [ascii_simps]:
  "map to_upper (http_method_to_string m) = http_method_to_string m"
  by (cases m) (simp_all add: http_method_to_string_def to_upper_def is_lower_def code_def)

lemma method_parse_print [simp]: "string_to_http_method (http_method_to_string m) = m"
  by (cases m) (simp_all add: string_to_http_method_def http_method_to_string_def
      to_upper_def is_lower_def code_def)

lemma method_parse_any_case: "string_to_http_method (map to_upper s) = string_to_http_method s"
  by (simp add: string_to_http_method_def comp_def)

lemma method_text_no_space: "c \<in> set (http_method_to_string m) \<Longrightarrow> \<not> is_space c"
  by (cases m) (auto simp: http_method_to_string_def class_defs code_def)

lemma method_text_not_Nil [simp]: "http_method_to_string m \<noteq> []"
  by (cases m) (simp_all add: http_method_to_string_def)

subsection \<open>Status codes\<close>

datatype StatusCode =
    OK | Created | PartialContent | NoContent | MovedPermanently | Found | NotModified
  | BadRequest | Unauthorized | Forbidden | NotFound | MethodNotAllowed | Conflict
  | ContentTooLarge | TooManyRequests | UpgradeRequired
  | InternalServerError | NotImplemented | BadGateway | ServiceUnavailable | GatewayTimeout
  | OtherStatus nat

definition status_code_to_int :: "StatusCode \<Rightarrow> nat" where
  "status_code_to_int s =
     (case s of OK \<Rightarrow> 200 | Created \<Rightarrow> 201 | PartialContent \<Rightarrow> 206 | NoContent \<Rightarrow> 204
      | MovedPermanently \<Rightarrow> 301 | Found \<Rightarrow> 302 | NotModified \<Rightarrow> 304
      | BadRequest \<Rightarrow> 400 | Unauthorized \<Rightarrow> 401 | Forbidden \<Rightarrow> 403 | NotFound \<Rightarrow> 404
      | MethodNotAllowed \<Rightarrow> 405 | Conflict \<Rightarrow> 409 | ContentTooLarge \<Rightarrow> 413
      | TooManyRequests \<Rightarrow> 429 | UpgradeRequired \<Rightarrow> 426
      | InternalServerError \<Rightarrow> 500 | NotImplemented \<Rightarrow> 501 | BadGateway \<Rightarrow> 502
      | ServiceUnavailable \<Rightarrow> 503 | GatewayTimeout \<Rightarrow> 504
      | OtherStatus n \<Rightarrow> n)"

text \<open>The cast \<^verbatim>\<open>static_cast<StatusCode>(n)\<close>.\<close>

definition status_of_int :: "nat \<Rightarrow> StatusCode" where
  "status_of_int n =
     (case map_of (map (\<lambda>s. (status_code_to_int s, s))
        [OK, Created, PartialContent, NoContent, MovedPermanently, Found, NotModified,
         BadRequest, Unauthorized, Forbidden, NotFound, MethodNotAllowed, Conflict,
         ContentTooLarge, TooManyRequests, UpgradeRequired,
         InternalServerError, NotImplemented, BadGateway, ServiceUnavailable, GatewayTimeout]) n of
        Some s \<Rightarrow> s
      | None \<Rightarrow> OtherStatus n)"

definition status_code_to_string :: "StatusCode \<Rightarrow> string" where
  "status_code_to_string s =
     (case s of OK \<Rightarrow> ''OK'' | Created \<Rightarrow> ''Created'' | NoContent \<Rightarrow> ''No Content''
      | MovedPermanently \<Rightarrow> ''Moved Permanently'' | Found \<Rightarrow> ''Found''
      | NotModified \<Rightarrow> ''Not Modified''
      | BadRequest \<Rightarrow> ''Bad Request'' | Unauthorized \<Rightarrow> ''Unauthorized''
      | Forbidden \<Rightarrow> ''Forbidden'' | NotFound \<Rightarrow> ''Not Found''
      | MethodNotAllowed \<Rightarrow> ''Method Not Allowed'' | Conflict \<Rightarrow> ''Conflict''
      | ContentTooLarge \<Rightarrow> ''Content Too Large'' | TooManyRequests \<Rightarrow> ''Too Many Requests''
      | UpgradeRequired \<Rightarrow> ''Upgrade Required''
      | InternalServerError \<Rightarrow> ''Internal Server Error'' | NotImplemented \<Rightarrow> ''Not Implemented''
      | BadGateway \<Rightarrow> ''Bad Gateway'' | ServiceUnavailable \<Rightarrow> ''Service Unavailable''
      | GatewayTimeout \<Rightarrow> ''Gateway Timeout''
      | _ \<Rightarrow> ''Unknown'')"

definition is_success_status :: "StatusCode \<Rightarrow> bool" where
  "is_success_status s \<longleftrightarrow> 200 \<le> status_code_to_int s \<and> status_code_to_int s < 300"

definition is_client_error :: "StatusCode \<Rightarrow> bool" where
  "is_client_error s \<longleftrightarrow> 400 \<le> status_code_to_int s \<and> status_code_to_int s < 500"

definition is_server_error :: "StatusCode \<Rightarrow> bool" where
  "is_server_error s \<longleftrightarrow> 500 \<le> status_code_to_int s \<and> status_code_to_int s < 600"

lemma status_of_int_to_int [simp]: "status_code_to_int (status_of_int n) = n"
  by (simp add: status_of_int_def status_code_to_int_def)

lemma status_text_no_break:
  "CR \<notin> set (status_code_to_string s)" "LF \<notin> set (status_code_to_string s)"
  by (cases s; simp add: status_code_to_string_def)+

text \<open>The underlying integers order the enumerators.\<close>

definition method_to_uint8 :: "HttpMethod \<Rightarrow> nat" where
  "method_to_uint8 m =
     (case m of GET \<Rightarrow> 0 | HEAD \<Rightarrow> 1 | POST \<Rightarrow> 2 | PUT \<Rightarrow> 3 | HTTP_DELETE \<Rightarrow> 4
      | OPTIONS \<Rightarrow> 5 | HTTP_PATCH \<Rightarrow> 6 | HTTP_UNKNOWN \<Rightarrow> 255)"

lemma method_to_uint8_inj: "method_to_uint8 m = method_to_uint8 n \<Longrightarrow> m = n"
  by (cases m; cases n; simp add: method_to_uint8_def)

instantiation HttpMethod :: linorder
begin

definition less_eq_HttpMethod :: "HttpMethod \<Rightarrow> HttpMethod \<Rightarrow> bool" where
  "less_eq_HttpMethod m n \<longleftrightarrow> method_to_uint8 m \<le> method_to_uint8 n"

definition less_HttpMethod :: "HttpMethod \<Rightarrow> HttpMethod \<Rightarrow> bool" where
  "less_HttpMethod m n \<longleftrightarrow> method_to_uint8 m < method_to_uint8 n"

instance
  by standard (auto simp: less_eq_HttpMethod_def less_HttpMethod_def dest: method_to_uint8_inj)

end

subsection \<open>Requests\<close>

record HttpRequest =
  req_method :: HttpMethod
  req_target :: string
  req_version :: string
  req_headers :: HttpHeaders
  req_body :: string

definition new_request :: HttpRequest where
  "new_request = \<lparr>req_method = GET, req_target = ''/'', req_version = ''HTTP/1.1'',
     req_headers = [], req_body = []\<rparr>"

definition request_set_header :: "string \<Rightarrow> string \<Rightarrow> HttpRequest \<Rightarrow> HttpRequest" where
  "request_set_header n v r = r\<lparr>req_headers := headers_set (req_headers r) n v\<rparr>"

definition request_get_header :: "HttpRequest \<Rightarrow> string \<Rightarrow> string" where
  "request_get_header r n = headers_get (req_headers r) n"

definition request_has_body :: "HttpRequest \<Rightarrow> bool" where
  "request_has_body r \<longleftrightarrow> req_body r \<noteq> []"

definition requires_body :: "HttpRequest \<Rightarrow> bool" where
  "requires_body r \<longleftrightarrow>
     req_method r = POST \<or> req_method r = PUT \<or> req_method r = HTTP_PATCH"

definition request_is_valid :: "HttpRequest \<Rightarrow> bool" where
  "request_is_valid r \<longleftrightarrow>
     req_method r \<noteq> HTTP_UNKNOWN \<and> req_target r \<noteq> [] \<and> req_version r \<noteq> [] \<and>
     list_all header_is_valid (req_headers r)"

definition request_line :: "HttpRequest \<Rightarrow> string" where
  "request_line r = http_method_to_string (req_method r) @ '' '' @ req_target r @ '' '' @ req_version r"

lemma requires_body_method: "requires_body r = method_requires_body (req_method r)"
  by (simp add: requires_body_def method_requires_body_def)

subsection \<open>Responses\<close>

datatype ConnectionPolicy = KeepAlive | Close

record HttpResponse =
  resp_version :: string
  resp_status :: StatusCode
  resp_headers :: HttpHeaders
  resp_body :: string
  resp_policy :: ConnectionPolicy
  resp_head_only :: bool

definition response_new :: "StatusCode \<Rightarrow> HttpResponse" where
  "response_new s = \<lparr>resp_version = ''HTTP/1.1'', resp_status = s, resp_headers = [],
     resp_body = [], resp_policy = KeepAlive, resp_head_only = False\<rparr>"

definition response_has_body :: "HttpResponse \<Rightarrow> bool" where
  "response_has_body r \<longleftrightarrow> resp_body r \<noteq> []"

definition response_set_header :: "string \<Rightarrow> string \<Rightarrow> HttpResponse \<Rightarrow> HttpResponse" where
  "response_set_header n v r = r\<lparr>resp_headers := headers_set (resp_headers r) n v\<rparr>"

definition response_remove_header :: "string \<Rightarrow> HttpResponse \<Rightarrow> HttpResponse" where
  "response_remove_header n r = r\<lparr>resp_headers := fst (headers_remove (resp_headers r) n)\<rparr>"

definition update_content_length :: "HttpResponse \<Rightarrow> HttpResponse" where
  "update_content_length r =
     (if response_has_body r
      then response_set_header ''Content-Length'' (to_string (length (resp_body r))) r
      else response_remove_header ''Content-Length'' r)"

definition response_set_body :: "string \<Rightarrow> HttpResponse \<Rightarrow> HttpResponse" where
  "response_set_body b r = update_content_length (r\<lparr>resp_body := b\<rparr>)"

definition response_with_body :: "StatusCode \<Rightarrow> string \<Rightarrow> HttpResponse" where
  "response_with_body s b = response_set_body b (response_new s)"

definition response_with_headers :: "StatusCode \<Rightarrow> HttpHeaders \<Rightarrow> string \<Rightarrow> HttpResponse" where
  "response_with_headers s hs b = response_set_body b ((response_new s)\<lparr>resp_headers := hs\<rparr>)"

definition set_connection_policy :: "ConnectionPolicy \<Rightarrow> HttpResponse \<Rightarrow> HttpResponse" where
  "set_connection_policy p r =
     response_set_header ''Connection'' (if p = KeepAlive then ''keep-alive'' else ''close'')
       (r\<lparr>resp_policy := p\<rparr>)"

definition response_reset :: "HttpResponse \<Rightarrow> HttpResponse" where
  "response_reset r = r\<lparr>resp_version := ''HTTP/1.1'', resp_status := OK, resp_headers := [],
     resp_body := [], resp_policy := KeepAlive, resp_head_only := False\<rparr>"

definition set_etag :: "string \<Rightarrow> HttpResponse \<Rightarrow> HttpResponse" where
  "set_etag e r = (if e = [] then response_remove_header ''ETag'' r
                   else response_set_header ''ETag'' ([DQUOTE] @ e @ [DQUOTE]) r)"

definition get_etag :: "HttpResponse \<Rightarrow> string" where
  "get_etag r =
     (let e = headers_get (resp_headers r) ''ETag''
      in if e \<noteq> [] \<and> hd e = DQUOTE \<and> last e = DQUOTE then substr e 1 (length e - 2) else e)"

definition set_last_modified :: "string \<Rightarrow> HttpResponse \<Rightarrow> HttpResponse" where
  "set_last_modified s r = (if s = [] then response_remove_header ''Last-Modified'' r
                            else response_set_header ''Last-Modified'' s r)"

definition response_is_valid :: "HttpResponse \<Rightarrow> bool" where
  "response_is_valid r \<longleftrightarrow>
     list_all header_is_valid (resp_headers r) \<and>
     (let cl = headers_get (resp_headers r) ''Content-Length'' in
      cl = [] \<or>
      (case stoul cl of None \<Rightarrow> False
       | Some n \<Rightarrow> n = length (resp_body r) \<or> resp_head_only r))"

subsection \<open>The serializer\<close>

definition build_status_line :: "HttpResponse \<Rightarrow> string" where
  "build_status_line r =
     resp_version r @ '' '' @ to_string (status_code_to_int (resp_status r)) @ '' '' @
     status_code_to_string (resp_status r)"

definition build_header_line :: "HttpHeader \<Rightarrow> string" where
  "build_header_line h = header_name h @ '': '' @ header_value h"

definition serialize_headers :: "HttpResponse \<Rightarrow> string" where
  "serialize_headers r =
     concat (map (\<lambda>h. build_header_line h @ CRLF) (resp_headers r)) @ CRLF"

definition serialize_status_line :: "HttpResponse \<Rightarrow> string" where
  "serialize_status_line r = build_status_line r @ CRLF"

definition serialize :: "HttpResponse \<Rightarrow> string" where
  "serialize r =
     (if \<not> response_is_valid r then []
      else build_status_line r @ CRLF @
           concat (map (\<lambda>h. build_header_line h @ CRLF) (resp_headers r)) @ CRLF @
           (if response_has_body r \<and> \<not> resp_head_only r then resp_body r else []))"

definition validate_serialized :: "string \<Rightarrow> bool" where
  "validate_serialized s \<longleftrightarrow>
     s \<noteq> [] \<and> find_sub ''HTTP/'' s = Some 0 \<and> find_sub CRLF s \<noteq> None \<and>
     find_sub (CRLF @ CRLF) s \<noteq> None"

end
