(* ===== verification/Request_Parser.thy ===== *)
theory Request_Parser
  imports Http_Message
begin

section \<open>The incremental request parser\<close>

text \<open>
  \<^verbatim>\<open>http_request_parser.h\<close> and \<^verbatim>\<open>http_request_parser.cpp\<close>.  The parser
  object is the record \<open>RequestParser\<close>; each \<^verbatim>\<open>bool parse_xxx()\<close> returns its
  result together with the updated object.  \<open>rp_iter\<close> is one turn of the
  \<^verbatim>\<open>while (true)\<close> of \<^verbatim>\<open>feed\<close> and says whether the loop goes on;
  \<open>rp_loop\<close> is the loop, total by \<open>2 * bytes + rank\<close>.  The field
  \<^verbatim>\<open>body_bytes_received_\<close> is written by the constructor and \<^verbatim>\<open>reset\<close> only and is
  left out.
\<close>

subsection \<open>State\<close>

datatype ParserState = RequestLine | Headers | Body | Complete | Error

record ParserConfig =
  max_request_line_bytes :: nat
  max_header_field_bytes :: nat
  max_header_count :: nat
  max_total_header_bytes :: nat
  max_body_bytes :: nat

definition default_config :: ParserConfig where
  "default_config = \<lparr>max_request_line_bytes = 8192, max_header_field_bytes = 8192,
     max_header_count = 100, max_total_header_bytes = 65536, max_body_bytes = 1048576\<rparr>"

record RequestParser =
  rp_state :: ParserState
  rp_request :: HttpRequest
  rp_config :: ParserConfig
  rp_buffer :: string
  rp_error :: string
  rp_headers_received :: nat
  rp_total_header_bytes :: nat

definition rp_new :: "ParserConfig \<Rightarrow> RequestParser" where
  "rp_new c = \<lparr>rp_state = RequestLine, rp_request = new_request, rp_config = c, rp_buffer = [],
     rp_error = [], rp_headers_received = 0, rp_total_header_bytes = 0\<rparr>"

definition rp_reset :: "RequestParser \<Rightarrow> RequestParser" where
  "rp_reset p = p\<lparr>rp_state := RequestLine, rp_request := new_request, rp_buffer := [],
     rp_error := [], rp_headers_received := 0, rp_total_header_bytes := 0\<rparr>"

subsection \<open>Operations\<close>

definition rp_find_crlf :: "RequestParser \<Rightarrow> nat option" where
  "rp_find_crlf p = find_sub CRLF (rp_buffer p)"

definition consume_bytes :: "nat \<Rightarrow> RequestParser \<Rightarrow> string \<times> RequestParser" where
  "consume_bytes count p =
     (let n = (if count > length (rp_buffer p) then length (rp_buffer p) else count)
      in (substr (rp_buffer p) 0 n, p\<lparr>rp_buffer := drop n (rp_buffer p)\<rparr>))"

definition set_error :: "string \<Rightarrow> RequestParser \<Rightarrow> RequestParser" where
  "set_error msg p = p\<lparr>rp_state := Error, rp_error := msg\<rparr>"

definition parse_request_line :: "RequestParser \<Rightarrow> bool \<times> RequestParser" where
  "parse_request_line p =
     (case rp_find_crlf p of
        None \<Rightarrow>
          if length (rp_buffer p) > max_request_line_bytes (rp_config p)
          then (False, set_error ''Request line too long'' p)
          else (False, p)
      | Some pos \<Rightarrow>
          let (line, p) = consume_bytes pos p;
              p = snd (consume_bytes 2 p);
              (method_str, s) = next_token line;
              (target, s) = next_token s;
              (version, s) = next_token s
          in if method_str = [] then (False, set_error ''Missing method in request line'' p)
             else if target = [] then (False, set_error ''Missing target in request line'' p)
             else if version = [] then (False, set_error ''Missing version in request line'' p)
             else let method = string_to_http_method method_str
             in if method = HTTP_UNKNOWN
                then (False, set_error (''Unknown HTTP method: '' @ method_str) p)
             else let p = p\<lparr>rp_request := (rp_request p)\<lparr>req_method := method\<rparr>\<rparr>;
                      p = p\<lparr>rp_request := (rp_request p)\<lparr>req_target := target\<rparr>\<rparr>
             in if find_sub ''HTTP/'' version \<noteq> Some 0
                then (False, set_error (''Invalid HTTP version: '' @ version) p)
             else (True, p\<lparr>rp_request := (rp_request p)\<lparr>req_version := version\<rparr>\<rparr>))"

definition parse_header :: "RequestParser \<Rightarrow> bool \<times> RequestParser" where
  "parse_header p =
     (case rp_find_crlf p of
        None \<Rightarrow>
          if length (rp_buffer p) > max_header_field_bytes (rp_config p)
          then (False, set_error ''Header field too long'' p)
          else (False, p)
      | Some pos \<Rightarrow>
          if pos = 0 then (True, p)
          else let (line, p) = consume_bytes pos p;
                   p = snd (consume_bytes 2 p)
          in if rp_headers_received p \<ge> max_header_count (rp_config p)
             then (False, set_error ''Too many headers'' p)
          else (case find_char (CHR '':'') line of
             None \<Rightarrow> (False, set_error (''Invalid header format (missing colon): '' @ line) p)
           | Some colon \<Rightarrow>
               let name = trim_find is_ows (substr line 0 colon);
                   value = drop (colon + 1) line
               in if \<not> is_valid_name (make_header name ''test'')
                  then (False, set_error (''Invalid header name: '' @ name) p)
               else let p = p\<lparr>rp_total_header_bytes := rp_total_header_bytes p + length line\<rparr>
               in if rp_total_header_bytes p > max_total_header_bytes (rp_config p)
                  then (False, set_error ''Total header size exceeded'' p)
               else (True, p\<lparr>rp_request := request_set_header name value (rp_request p),
                             rp_headers_received := rp_headers_received p + 1\<rparr>)))"

definition parse_body :: "RequestParser \<Rightarrow> bool \<times> RequestParser" where
  "parse_body p =
     (let s = request_get_header (rp_request p) ''Content-Length'' in
      if s = [] then (True, p)
      else (case stoul s of
         None \<Rightarrow> (False, set_error (''Invalid Content-Length: '' @ s) p)
       | Some n \<Rightarrow>
           if n > max_body_bytes (rp_config p) then (False, set_error ''Body too large'' p)
           else if length (rp_buffer p) < n then (False, p)
           else let (body, p) = consume_bytes n p
                in (True, p\<lparr>rp_request := (rp_request p)\<lparr>req_body := body\<rparr>\<rparr>)))"

definition rp_end_of_headers :: "RequestParser \<Rightarrow> RequestParser" where
  "rp_end_of_headers p =
     (let p = snd (consume_bytes 2 p)
      in if request_has_body (rp_request p) \<or> requires_body (rp_request p)
         then p\<lparr>rp_state := Body\<rparr> else p\<lparr>rp_state := Complete\<rparr>)"

definition rp_iter :: "RequestParser \<Rightarrow> bool \<times> RequestParser" where
  "rp_iter p =
     (case rp_state p of
        RequestLine \<Rightarrow>
          (let (ok, p) = parse_request_line p
           in if \<not> ok then (False, p) else (True, p\<lparr>rp_state := Headers\<rparr>))
      | Headers \<Rightarrow>
          (let (ok, p) = parse_header p
           in if \<not> ok then (False, p)
              else if rp_find_crlf p = Some 0 then (True, rp_end_of_headers p)
              else (True, p))
      | Body \<Rightarrow>
          (let (ok, p) = parse_body p
           in if \<not> ok then (False, p) else (True, p\<lparr>rp_state := Complete\<rparr>))
      | Complete \<Rightarrow> (False, p)
      | Error \<Rightarrow> (False, p))"

subsection \<open>Termination of the loop\<close>

definition rp_measure :: "RequestParser \<Rightarrow> nat" where
  "rp_measure p =
     2 * length (rp_buffer p) + (case rp_state p of Complete \<Rightarrow> 0 | Error \<Rightarrow> 0 | _ \<Rightarrow> 1)"

lemma consume_bytes_eq:
  "consume_bytes n p = (take n (rp_buffer p), p\<lparr>rp_buffer := drop n (rp_buffer p)\<rparr>)"
  by (simp add: consume_bytes_def substr_def)

lemma rp_find_crlf_SomeD: "rp_find_crlf p = Some n \<Longrightarrow> n + 2 \<le> length (rp_buffer p)"
  using find_sub_SomeD [of CRLF "rp_buffer p" n] by (simp add: rp_find_crlf_def)

lemma set_error_sel [simp]:
  "rp_state (set_error m p) = Error" "rp_buffer (set_error m p) = rp_buffer p"
  "rp_config (set_error m p) = rp_config p" "rp_request (set_error m p) = rp_request p"
  "rp_headers_received (set_error m p) = rp_headers_received p"
  "rp_total_header_bytes (set_error m p) = rp_total_header_bytes p"
  by (simp_all add: set_error_def)

lemma parse_request_line_consumes:
  "parse_request_line p = (True, p') \<Longrightarrow> length (rp_buffer p') + 2 \<le> length (rp_buffer p)"
  by (auto simp: parse_request_line_def consume_bytes_eq Let_def
      split: option.splits if_splits prod.splits dest!: rp_find_crlf_SomeD)

lemma parse_header_consumes:
  "parse_header p = (True, p') \<Longrightarrow>
     (rp_find_crlf p = Some 0 \<and> p' = p) \<or>
     (length (rp_buffer p') + 2 \<le> length (rp_buffer p) \<and> rp_state p' = rp_state p)"
  by (auto simp: parse_header_def consume_bytes_eq Let_def
      split: option.splits if_splits prod.splits dest!: rp_find_crlf_SomeD)

lemma parse_body_consumes:
  "parse_body p = (True, p') \<Longrightarrow> length (rp_buffer p') \<le> length (rp_buffer p)"
  by (auto simp: parse_body_def consume_bytes_eq Let_def split: option.splits if_splits)

lemma rp_end_of_headers_measure:
  "rp_find_crlf p = Some 0 \<Longrightarrow> rp_measure (rp_end_of_headers p) < 2 * length (rp_buffer p)"
  by (auto simp: rp_end_of_headers_def rp_measure_def consume_bytes_eq Let_def
      dest: rp_find_crlf_SomeD)

lemma rp_iter_decreases:
  assumes "rp_iter p = (True, p')"
  shows "rp_measure p' < rp_measure p"
proof (cases "rp_state p")
  case RequestLine
  with assms show ?thesis
    by (auto simp: rp_iter_def rp_measure_def split: prod.splits if_splits
        dest!: parse_request_line_consumes)
next
  case Headers
  then obtain q where q: "parse_header p = (True, q)"
    "p' = (if rp_find_crlf q = Some 0 then rp_end_of_headers q else q)"
    using assms by (auto simp: rp_iter_def split: prod.splits if_splits)
  from parse_header_consumes [OF q(1)] q(2) Headers rp_end_of_headers_measure [of q]
  show ?thesis by (auto simp: rp_measure_def)
next
  case Body
  with assms show ?thesis
    by (auto simp: rp_iter_def rp_measure_def split: prod.splits if_splits
        dest!: parse_body_consumes)
qed (use assms in \<open>auto simp: rp_iter_def\<close>)

function rp_loop :: "RequestParser \<Rightarrow> RequestParser" where
  "rp_loop p = (let (continue, p') = rp_iter p in if continue then rp_loop p' else p')"
  by pat_completeness auto
termination
  by (relation "measure rp_measure") (auto dest!: sym [of "(_, _)"] dest: rp_iter_decreases)

declare rp_loop.simps [simp del]

definition rp_feed :: "string \<Rightarrow> RequestParser \<Rightarrow> RequestParser" where
  "rp_feed data p =
     (if rp_state p = Error then p
      else let p = (if rp_state p = Complete then rp_reset p else p)
           in rp_loop (p\<lparr>rp_buffer := rp_buffer p @ data\<rparr>))"

definition take_request :: "RequestParser \<Rightarrow> HttpRequest \<times> RequestParser" where
  "take_request p =
     (if rp_state p \<noteq> Complete then (new_request, p)
      else (rp_request p, rp_reset p))"

subsection \<open>The loop, state by state\<close>

lemma rp_loop_done [simp]:
  "rp_state p = Complete \<Longrightarrow> rp_loop p = p" "rp_state p = Error \<Longrightarrow> rp_loop p = p"
  by (simp_all add: rp_loop.simps [of p] rp_iter_def)

lemma rp_loop_RequestLine:
  "rp_state p = RequestLine \<Longrightarrow>
     rp_loop p = (case parse_request_line p of
       (ok, q) \<Rightarrow> if ok then rp_loop (q\<lparr>rp_state := Headers\<rparr>) else q)"
  by (subst rp_loop.simps) (simp add: rp_iter_def split: prod.split)

lemma rp_loop_Body:
  "rp_state p = Body \<Longrightarrow>
     rp_loop p = (case parse_body p of (ok, q) \<Rightarrow> if ok then q\<lparr>rp_state := Complete\<rparr> else q)"
  by (subst rp_loop.simps) (simp add: rp_iter_def split: prod.split)

lemma parse_header_empty_line: "rp_find_crlf p = Some 0 \<Longrightarrow> parse_header p = (True, p)"
  by (simp add: parse_header_def)

lemma rp_loop_empty_line:
  "rp_state p = Headers \<Longrightarrow> rp_find_crlf p = Some 0 \<Longrightarrow> rp_loop p = rp_loop (rp_end_of_headers p)"
  by (subst rp_loop.simps) (simp add: rp_iter_def parse_header_empty_line)

text \<open>
  The check for the empty line right after a header gives what the next turn
  would have given.
\<close>

lemma rp_loop_Headers:
  assumes "rp_state p = Headers"
  shows "rp_loop p =
    (if rp_find_crlf p = Some 0 then rp_loop (rp_end_of_headers p)
     else case parse_header p of (ok, q) \<Rightarrow> if ok then rp_loop q else q)"
proof (cases "rp_find_crlf p = Some 0")
  case True
  with assms show ?thesis by (simp add: rp_loop_empty_line)
next
  case False
  obtain ok q where q: "parse_header p = (ok, q)" by (cases "parse_header p")
  show ?thesis
  proof (cases ok)
    case True
    with parse_header_consumes [of p q] q False assms have "rp_state q = Headers" by auto
    then have "rp_find_crlf q = Some 0 \<Longrightarrow> rp_loop q = rp_loop (rp_end_of_headers q)"
      by (rule rp_loop_empty_line)
    with assms q True False show ?thesis
      by (subst rp_loop.simps) (simp add: rp_iter_def)
  next
    case ok: False
    with assms q False show ?thesis by (subst rp_loop.simps) (simp add: rp_iter_def)
  qed
qed

lemmas rp_loop_unfold = rp_loop_RequestLine rp_loop_Headers rp_loop_Body

subsection \<open>More input: splitting the stream does not matter\<close>

definition rp_extend :: "string \<Rightarrow> RequestParser \<Rightarrow> RequestParser" where
  "rp_extend b p = p\<lparr>rp_buffer := rp_buffer p @ b\<rparr>"

lemma rp_extend_sel [simp]:
  "rp_state (rp_extend b p) = rp_state p" "rp_buffer (rp_extend b p) = rp_buffer p @ b"
  "rp_config (rp_extend b p) = rp_config p" "rp_request (rp_extend b p) = rp_request p"
  "rp_headers_received (rp_extend b p) = rp_headers_received p"
  "rp_total_header_bytes (rp_extend b p) = rp_total_header_bytes p"
  by (simp_all add: rp_extend_def)

lemma rp_extend_state: "rp_extend b (p\<lparr>rp_state := s\<rparr>) = (rp_extend b p)\<lparr>rp_state := s\<rparr>"
  by (simp add: rp_extend_def)

lemma rp_extend_extend [simp]: "rp_extend c (rp_extend b p) = rp_extend (b @ c) p"
  by (simp add: rp_extend_def)

lemma rp_find_crlf_extend: "rp_find_crlf p = Some n \<Longrightarrow> rp_find_crlf (rp_extend b p) = Some n"
  by (simp add: rp_find_crlf_def find_sub_append)

lemma consume_extend:
  "n \<le> length (rp_buffer p) \<Longrightarrow>
     consume_bytes n (rp_extend b p) = (case consume_bytes n p of (s, q) \<Rightarrow> (s, rp_extend b q))"
  by (simp add: consume_bytes_eq rp_extend_def)

text \<open>
  What follows the line: both line readers look at the line only, once there is
  one.
\<close>

lemma parse_request_line_extend:
  assumes "parse_request_line p = (True, q)"
  shows "parse_request_line (rp_extend b p) = (True, rp_extend b q)"
proof -
  from assms obtain pos where pos: "rp_find_crlf p = Some pos"
    by (auto simp: parse_request_line_def split: option.splits if_splits)
  with rp_find_crlf_SomeD [OF pos] rp_find_crlf_extend [OF pos, of b] assms show ?thesis
    by (auto simp: parse_request_line_def consume_bytes_eq Let_def rp_extend_def
        split: prod.splits if_splits)
qed

lemma parse_header_extend:
  assumes "parse_header p = (True, q)"
  shows "parse_header (rp_extend b p) = (True, rp_extend b q)"
proof -
  from assms obtain pos where pos: "rp_find_crlf p = Some pos"
    by (auto simp: parse_header_def split: option.splits if_splits)
  with rp_find_crlf_SomeD [OF pos] rp_find_crlf_extend [OF pos, of b] assms show ?thesis
    by (auto simp: parse_header_def consume_bytes_eq Let_def rp_extend_def
        split: prod.splits if_splits option.splits)
qed

lemma parse_body_extend:
  "parse_body p = (True, q) \<Longrightarrow> parse_body (rp_extend b p) = (True, rp_extend b q)"
  by (auto simp: parse_body_def consume_bytes_eq Let_def rp_extend_def split: if_splits option.splits)

lemma rp_end_of_headers_extend:
  "rp_find_crlf p = Some 0 \<Longrightarrow> rp_end_of_headers (rp_extend b p) = rp_extend b (rp_end_of_headers p)"
  using rp_find_crlf_SomeD [of p 0]
  by (simp add: rp_end_of_headers_def consume_bytes_eq Let_def rp_extend_def)

text \<open>A turn that stops leaves the parser as it was, unless it found an error.\<close>

lemma rp_iter_stop: "rp_iter p = (False, q) \<Longrightarrow> q = p \<or> rp_state q = Error"
  by (auto simp: rp_iter_def parse_request_line_def parse_header_def parse_body_def Let_def
      split: ParserState.splits option.splits if_splits prod.splits)

definition rp_waiting :: "RequestParser \<Rightarrow> bool" where
  "rp_waiting p \<longleftrightarrow> rp_state p \<noteq> Complete \<and> rp_state p \<noteq> Error"

lemma rp_loop_extend:
  "rp_waiting (rp_loop p) \<Longrightarrow> rp_loop (rp_extend b (rp_loop p)) = rp_loop (rp_extend b p)"
proof (induction p rule: rp_loop.induct)
  case (1 p)
  obtain c q where q: "rp_iter p = (c, q)" by (cases "rp_iter p")
  show ?case
  proof (cases c)
    case False
    with q have l: "rp_loop p = q" by (subst rp_loop.simps) simp
    with rp_iter_stop [of p q] q False 1(2) have "q = p" by (auto simp: rp_waiting_def)
    with l show ?thesis by simp
  next
    case True
    with q have l: "rp_loop p = rp_loop q" by (subst rp_loop.simps) simp
    with 1 q True have ih: "rp_loop (rp_extend b (rp_loop q)) = rp_loop (rp_extend b q)" by simp
    have "rp_loop (rp_extend b q) = rp_loop (rp_extend b p)"
    proof (cases "rp_state p")
      case RequestLine
      with q True obtain r where r: "parse_request_line p = (True, r)" "q = r\<lparr>rp_state := Headers\<rparr>"
        by (auto simp: rp_iter_def split: prod.splits if_splits)
      then show ?thesis using RequestLine
        by (simp add: rp_loop_RequestLine [of "rp_extend b p"] parse_request_line_extend rp_extend_state)
    next
      case Headers
      with q True obtain r where r: "parse_header p = (True, r)"
        "q = (if rp_find_crlf r = Some 0 then rp_end_of_headers r else r)"
        by (auto simp: rp_iter_def split: prod.splits if_splits)
      have st: "rp_state r = Headers" using parse_header_consumes [OF r(1)] Headers by auto
      have "rp_loop (rp_extend b p) = rp_loop (rp_extend b r)"
      proof (cases "rp_find_crlf p = Some 0")
        case True
        with r(1) show ?thesis by (simp add: parse_header_empty_line)
      next
        case False
        from r(1) obtain pos where pos: "rp_find_crlf p = Some pos"
          by (auto simp: parse_header_def split: option.splits if_splits)
        from rp_find_crlf_extend [OF pos, of b] False pos
        have "rp_find_crlf (rp_extend b p) \<noteq> Some 0" by simp
        with Headers parse_header_extend [OF r(1)] show ?thesis
          by (simp add: rp_loop_Headers [of "rp_extend b p"])
      qed
      moreover have "rp_loop (rp_extend b r) = rp_loop (rp_extend b (rp_end_of_headers r))"
        if "rp_find_crlf r = Some 0"
        using st that rp_loop_empty_line [of "rp_extend b r"]
        by (simp add: rp_find_crlf_extend rp_end_of_headers_extend)
      ultimately show ?thesis using r(2) by simp
    next
      case Body
      with q True obtain r where r: "parse_body p = (True, r)" "q = r\<lparr>rp_state := Complete\<rparr>"
        by (auto simp: rp_iter_def split: prod.splits if_splits)
      then show ?thesis using Body
        by (simp add: rp_loop_Body [of "rp_extend b p"] parse_body_extend rp_extend_state)
    qed (use q True in \<open>auto simp: rp_iter_def\<close>)
    with ih l show ?thesis by simp
  qed
qed

lemma rp_feed_eq:
  "rp_state p \<noteq> Error \<Longrightarrow>
     rp_feed a p = rp_loop (rp_extend a (if rp_state p = Complete then rp_reset p else p))"
  by (simp add: rp_feed_def rp_extend_def Let_def)

lemma rp_feed_split:
  assumes "rp_waiting (rp_feed a p)"
  shows "rp_feed b (rp_feed a p) = rp_feed (a @ b) p"
proof -
  have np: "rp_state p \<noteq> Error" using assms by (auto simp: rp_feed_def rp_waiting_def)
  let ?p = "if rp_state p = Complete then rp_reset p else p"
  from assms np have "rp_waiting (rp_loop (rp_extend a ?p))" by (simp add: rp_feed_eq)
  from rp_loop_extend [OF this, of b] assms np show ?thesis
    by (simp add: rp_feed_eq rp_waiting_def)
qed

subsection \<open>The invariant\<close>

text \<open>
  What holds of the parser between any two calls: the request so far is well
  formed, the limits are respected, and a finished request has exactly the body
  its header announces.
\<close>

definition request_framed :: "HttpRequest \<Rightarrow> bool" where
  "request_framed r \<longleftrightarrow>
     (let s = request_get_header r ''Content-Length'' in
      if \<not> requires_body r \<or> s = [] then req_body r = []
      else stoul s = Some (length (req_body r)))"

definition rp_ok :: "RequestParser \<Rightarrow> bool" where
  "rp_ok p \<longleftrightarrow>
     headers_wf (req_headers (rp_request p)) \<and>
     list_all is_valid_name (req_headers (rp_request p)) \<and>
     length (req_headers (rp_request p)) \<le> rp_headers_received p \<and>
     rp_headers_received p \<le> max_header_count (rp_config p) \<and>
     (rp_state p \<noteq> Error \<longrightarrow> rp_total_header_bytes p \<le> max_total_header_bytes (rp_config p)) \<and>
     length (req_body (rp_request p)) \<le> max_body_bytes (rp_config p) \<and>
     req_target (rp_request p) \<noteq> [] \<and>
     req_method (rp_request p) \<noteq> HTTP_UNKNOWN \<and>
     has_prefix ''HTTP/'' (req_version (rp_request p)) \<and>
     (rp_state p = Complete \<longrightarrow> request_framed (rp_request p)) \<and>
     (rp_state p \<noteq> Complete \<longrightarrow> req_body (rp_request p) = []) \<and>
     (rp_state p = Body \<longrightarrow> requires_body (rp_request p))"

named_theorems rp_simps \<open>unfolding the parser operations on a known state\<close>

lemmas [rp_simps] = consume_bytes_eq Let_def request_set_header_def request_get_header_def

lemma find_sub_zero: "find_sub p s = Some 0 \<longleftrightarrow> has_prefix p s"
  by (cases s; cases p) (auto split: if_splits)

lemma rp_ok_new [simp]: "rp_ok (rp_new c)"
  by (simp add: rp_ok_def rp_new_def new_request_def has_prefix_def)

lemma rp_ok_reset: "rp_ok p \<Longrightarrow> rp_ok (rp_reset p)"
  by (simp add: rp_ok_def rp_reset_def new_request_def has_prefix_def)

lemma rp_ok_buffer: "rp_ok (p\<lparr>rp_buffer := b\<rparr>) = rp_ok p"
  by (simp add: rp_ok_def)

text \<open>A call that stops leaves the parser alone or records an error and nothing else.\<close>

definition rp_stopped :: "RequestParser \<Rightarrow> RequestParser \<Rightarrow> bool" where
  "rp_stopped p q \<longleftrightarrow>
     q = p \<or> (rp_state q = Error \<and> rp_config q = rp_config p \<and> rp_request q = rp_request p \<and>
              rp_headers_received q = rp_headers_received p)"

lemma rp_ok_stopped:
  assumes "rp_ok p" "rp_state p \<noteq> Complete" "rp_stopped p q"
  shows "rp_ok q \<and> rp_state q \<noteq> Complete"
  using assms by (auto simp: rp_ok_def rp_stopped_def)

lemma parse_request_line_cases:
  assumes "parse_request_line p = (ok, q)"
  shows "(\<not> ok \<longrightarrow> rp_stopped p q \<or>
      (rp_state q = Error \<and> rp_config q = rp_config p \<and>
       rp_headers_received q = rp_headers_received p \<and>
       req_headers (rp_request q) = req_headers (rp_request p) \<and>
       req_body (rp_request q) = req_body (rp_request p) \<and>
       req_version (rp_request q) = req_version (rp_request p) \<and>
       req_method (rp_request q) \<noteq> HTTP_UNKNOWN \<and> req_target (rp_request q) \<noteq> [])) \<and>
    (ok \<longrightarrow> rp_state q = rp_state p \<and> rp_config q = rp_config p \<and>
       rp_headers_received q = rp_headers_received p \<and>
       rp_total_header_bytes q = rp_total_header_bytes p \<and>
       req_headers (rp_request q) = req_headers (rp_request p) \<and>
       req_body (rp_request q) = req_body (rp_request p) \<and>
       req_method (rp_request q) \<noteq> HTTP_UNKNOWN \<and> req_target (rp_request q) \<noteq> [] \<and>
       has_prefix ''HTTP/'' (req_version (rp_request q)))"
proof (cases "rp_find_crlf p")
  case None
  with assms show ?thesis by (auto simp: parse_request_line_def rp_stopped_def split: if_splits)
next
  case (Some pos)
  obtain m s1 where m: "next_token (take pos (rp_buffer p)) = (m, s1)" by fastforce
  obtain t s2 where t: "next_token s1 = (t, s2)" by fastforce
  obtain v s3 where v: "next_token s2 = (v, s3)" by fastforce
  note parse = parse_request_line_def [of p, unfolded Some option.case consume_bytes_eq Let_def prod.case m t v snd_conv]
  consider (early) "m = [] \<or> t = [] \<or> v = [] \<or> string_to_http_method m = HTTP_UNKNOWN"
    | (version) "m \<noteq> []" "t \<noteq> []" "v \<noteq> []" "string_to_http_method m \<noteq> HTTP_UNKNOWN" "\<not> has_prefix ''HTTP/'' v"
    | (fine) "m \<noteq> []" "t \<noteq> []" "v \<noteq> []" "string_to_http_method m \<noteq> HTTP_UNKNOWN" "has_prefix ''HTTP/'' v"
    by blast
  then show ?thesis
  proof cases
    case early
    have "\<not> fst (parse_request_line p)" "rp_state (snd (parse_request_line p)) = Error"
      "rp_config (snd (parse_request_line p)) = rp_config p"
      "rp_request (snd (parse_request_line p)) = rp_request p"
      "rp_headers_received (snd (parse_request_line p)) = rp_headers_received p"
      using early unfolding parse by auto
    with assms show ?thesis by (simp add: rp_stopped_def)
  next
    case version
    then have "parse_request_line p = (False, set_error (''Invalid HTTP version: '' @ v)
        (p\<lparr>rp_buffer := drop 2 (drop pos (rp_buffer p)),
           rp_request := (rp_request p)\<lparr>req_method := string_to_http_method m, req_target := t\<rparr>\<rparr>))"
      unfolding parse find_sub_zero by (simp del: has_prefix_code)
    with assms version show ?thesis by auto
  next
    case fine
    then have "parse_request_line p = (True, p\<lparr>rp_buffer := drop 2 (drop pos (rp_buffer p)),
           rp_request := (rp_request p)\<lparr>req_method := string_to_http_method m, req_target := t, req_version := v\<rparr>\<rparr>)"
      unfolding parse find_sub_zero by (simp del: has_prefix_code)
    with assms fine show ?thesis by (auto simp del: has_prefix_code)
  qed
qed

lemma parse_request_line_ok:
  assumes "rp_ok p" "rp_state p = RequestLine" "parse_request_line p = (ok, q)"
  shows "rp_ok q \<and> (ok \<longrightarrow> rp_state q = RequestLine) \<and> rp_state q \<noteq> Complete"
proof (cases "rp_stopped p q")
  case True
  with assms(1,2) parse_request_line_cases [OF assms(3)] rp_ok_stopped [of p q] show ?thesis by auto
next
  case False
  with parse_request_line_cases [OF assms(3)] assms(1,2) show ?thesis
    by (cases ok) (simp_all add: rp_ok_def)
qed

lemma headers_set_length: "length (headers_set hs n v) \<le> Suc (length hs)"
  by (auto simp: headers_set_def split: option.splits)

text \<open>The three ways a call of \<open>parse_header\<close> can end.\<close>

lemma parse_header_cases:
  assumes "parse_header p = (ok, q)"
  obtains (stop) "\<not> ok" "rp_stopped p q"
  | (empty_line) "ok" "rp_find_crlf p = Some 0" "q = p"
  | (field) nm v t b where "ok"
      "q = p\<lparr>rp_buffer := b, rp_total_header_bytes := t,
            rp_request := request_set_header nm v (rp_request p),
            rp_headers_received := rp_headers_received p + 1\<rparr>"
      "is_valid_name (make_header nm ''test'')"
      "rp_headers_received p < max_header_count (rp_config p)"
      "t \<le> max_total_header_bytes (rp_config p)"
proof (cases ok)
  case True
  with assms empty_line field show ?thesis
    by (auto simp: parse_header_def consume_bytes_eq Let_def not_le
        split: if_splits option.splits)
next
  case False
  with assms have "rp_stopped p q"
    by (auto simp: parse_header_def consume_bytes_eq Let_def rp_stopped_def
        split: if_splits option.splits)
  with False stop show ?thesis by blast
qed

lemma parse_header_ok:
  assumes "rp_ok p" "rp_state p = Headers" "parse_header p = (ok, q)"
  shows "rp_ok q \<and> (ok \<longrightarrow> rp_state q = Headers) \<and> rp_state q \<noteq> Complete"
  using assms(3)
proof (cases rule: parse_header_cases)
  case stop
  with assms(1,2) rp_ok_stopped [of p q] show ?thesis by simp
next
  case empty_line
  with assms show ?thesis by simp
next
  case (field nm v t b)
  have "is_valid_name (make_header nm v)" using field(3) by (simp add: is_valid_name_def)
  with field assms(1,2) headers_set_length [of "req_headers (rp_request p)" nm v]
  show ?thesis
    by (auto simp: rp_ok_def request_set_header_def headers_wf_set headers_set_valid requires_body_def)
qed

lemma parse_body_cases:
  assumes "parse_body p = (ok, q)"
  obtains (stop) "\<not> ok" "rp_stopped p q"
  | (no_length) "ok" "request_get_header (rp_request p) ''Content-Length'' = []" "q = p"
  | (body) n where "ok" "request_get_header (rp_request p) ''Content-Length'' \<noteq> []"
      "stoul (request_get_header (rp_request p) ''Content-Length'') = Some n"
      "n \<le> max_body_bytes (rp_config p)" "n \<le> length (rp_buffer p)"
      "q = p\<lparr>rp_buffer := drop n (rp_buffer p),
             rp_request := (rp_request p)\<lparr>req_body := take n (rp_buffer p)\<rparr>\<rparr>"
proof (cases "request_get_header (rp_request p) ''Content-Length'' = []")
  case True
  with assms have "ok" "q = p" by (simp_all add: parse_body_def)
  with True show ?thesis by (intro no_length)
next
  case cl: False
  show ?thesis
  proof (cases ok)
    case True
    with assms cl have "\<exists>n. stoul (request_get_header (rp_request p) ''Content-Length'') = Some n \<and>
        n \<le> max_body_bytes (rp_config p) \<and> n \<le> length (rp_buffer p) \<and>
        q = p\<lparr>rp_buffer := drop n (rp_buffer p),
             rp_request := (rp_request p)\<lparr>req_body := take n (rp_buffer p)\<rparr>\<rparr>"
      by (auto simp: parse_body_def consume_bytes_eq Let_def split: if_splits option.splits)
    with body True cl show ?thesis by blast
  next
    case False
    with assms cl have "rp_stopped p q"
      by (auto simp: parse_body_def Let_def rp_stopped_def split: if_splits option.splits prod.splits)
    with False stop show ?thesis by blast
  qed
qed

lemma request_body_update [simp]:
  "requires_body (r\<lparr>req_body := b\<rparr>) = requires_body r"
  "request_get_header (r\<lparr>req_body := b\<rparr>) n = request_get_header r n"
  by (simp_all add: requires_body_def request_get_header_def)

lemma parse_body_ok:
  assumes "rp_ok p" "rp_state p = Body" "parse_body p = (ok, q)"
  shows "(if ok then rp_ok (q\<lparr>rp_state := Complete\<rparr>) else rp_ok q) \<and> (ok \<or> rp_state q \<noteq> Complete)"
  using assms(3)
proof (cases rule: parse_body_cases)
  case stop
  with assms(1,2) rp_ok_stopped [of p q] show ?thesis by simp
next
  case no_length
  with assms(1,2) show ?thesis by (simp add: rp_ok_def request_framed_def)
next
  case (body n)
  with assms(1,2) show ?thesis
    by (simp add: rp_ok_def request_framed_def Let_def min_def)
qed

lemma framed_no_body: "\<not> requires_body r \<Longrightarrow> req_body r = [] \<Longrightarrow> request_framed r"
  by (simp add: request_framed_def Let_def)

lemma rp_end_of_headers_ok:
  assumes "rp_ok p" "rp_state p = Headers"
  shows "rp_ok (rp_end_of_headers p)"
proof -
  from assms have "req_body (rp_request p) = []" by (simp add: rp_ok_def)
  then have "rp_end_of_headers p = p\<lparr>rp_buffer := drop 2 (rp_buffer p),
      rp_state := if requires_body (rp_request p) then Body else Complete\<rparr>"
    by (simp add: rp_end_of_headers_def consume_bytes_eq request_has_body_def)
  with assms show ?thesis by (simp add: rp_ok_def framed_no_body)
qed

lemma rp_iter_ok:
  assumes "rp_ok p" "rp_iter p = (c, q)"
  shows "rp_ok q"
proof (cases "rp_state p")
  case RequestLine
  with assms show ?thesis
    by (auto simp: rp_iter_def rp_ok_def split: prod.splits if_splits
        dest!: parse_request_line_ok [OF assms(1) RequestLine])
next
  case Headers
  obtain ok r where r: "parse_header p = (ok, r)" by (cases "parse_header p")
  with assms Headers rp_end_of_headers_ok [of r] parse_header_ok [OF assms(1) Headers r] show ?thesis
    by (auto simp: rp_iter_def split: if_splits)
next
  case Body
  obtain ok r where r: "parse_body p = (ok, r)" by (cases "parse_body p")
  with assms Body parse_body_ok [OF assms(1) Body r] show ?thesis
    by (auto simp: rp_iter_def split: if_splits)
qed (use assms in \<open>auto simp: rp_iter_def\<close>)

lemma rp_loop_ok: "rp_ok p \<Longrightarrow> rp_ok (rp_loop p)"
proof (induction p rule: rp_loop.induct)
  case (1 p)
  obtain c q where "rp_iter p = (c, q)" by (cases "rp_iter p")
  with 1 rp_iter_ok [OF 1(2) this] show ?case by (subst rp_loop.simps) simp
qed

lemma rp_feed_ok: "rp_ok p \<Longrightarrow> rp_ok (rp_feed a p)"
  by (simp add: rp_feed_def Let_def rp_loop_ok rp_ok_reset rp_ok_buffer)

lemma rp_iter_config: "rp_iter p = (k, q) \<Longrightarrow> rp_config q = rp_config p"
  by (auto simp: rp_iter_def parse_request_line_def parse_header_def parse_body_def
      rp_end_of_headers_def consume_bytes_eq Let_def
      split: ParserState.splits option.splits if_splits prod.splits)

lemma rp_feeds_ok: "rp_ok p \<Longrightarrow> rp_ok (fold rp_feed chunks p)"
  by (induction chunks arbitrary: p) (auto intro: rp_feed_ok)

subsection \<open>Round trip\<close>

text \<open>
  The wire form of a request and the requests it represents faithfully: a name
  may be any token, a value anything trimmed without a carriage return.
\<close>

definition wire_headers :: "HttpHeaders \<Rightarrow> string" where
  "wire_headers hs = concat (map (\<lambda>h. build_header_line h @ CRLF) hs)"

definition wire_request :: "HttpRequest \<Rightarrow> string" where
  "wire_request r = request_line r @ CRLF @ wire_headers (req_headers r) @ CRLF @ req_body r"

definition header_wire_ok :: "HttpHeader \<Rightarrow> bool" where
  "header_wire_ok h \<longleftrightarrow> is_valid_name h \<and> CR \<notin> set (header_value h)"

definition word_ok :: "string \<Rightarrow> bool" where
  "word_ok w \<longleftrightarrow> w \<noteq> [] \<and> list_all (\<lambda>c. \<not> is_space c) w"

definition wire_ok :: "HttpRequest \<Rightarrow> bool" where
  "wire_ok r \<longleftrightarrow>
     req_method r \<noteq> HTTP_UNKNOWN \<and> word_ok (req_target r) \<and>
     word_ok (req_version r) \<and> has_prefix ''HTTP/'' (req_version r) \<and>
     headers_wf (req_headers r) \<and> list_all header_wire_ok (req_headers r) \<and>
     request_framed r"

definition within_limits :: "ParserConfig \<Rightarrow> HttpRequest \<Rightarrow> bool" where
  "within_limits c r \<longleftrightarrow>
     length (req_headers r) \<le> max_header_count c \<and>
     sum_list (map (\<lambda>h. length (build_header_line h)) (req_headers r)) \<le> max_total_header_bytes c \<and>
     length (req_body r) \<le> max_body_bytes c"

lemma wire_headers_Cons: "wire_headers (h # hs) = build_header_line h @ CR # LF # wire_headers hs"
  by (simp add: wire_headers_def)

lemma wire_headers_Nil [simp]: "wire_headers [] = []"
  by (simp add: wire_headers_def)

lemma word_ok_CR: "word_ok w \<Longrightarrow> CR \<notin> set w"
  by (auto simp: word_ok_def list_all_iff class_defs code_def)

lemma drop_line [simp]: "drop (Suc (Suc (length l))) (l @ CR # LF # r) = r"
  by (induction l) simp_all

lemma space_is_space [simp]: "is_space (CHR '' '')"
  by (simp add: is_space_def code_def)

lemma parse_request_line_wire:
  assumes "wire_ok r" "rp_buffer p = request_line r @ CR # LF # rest"
  shows "parse_request_line p = (True, p\<lparr>rp_buffer := rest,
     rp_request := (rp_request p)\<lparr>req_method := req_method r, req_target := req_target r,
                                  req_version := req_version r\<rparr>\<rparr>)"
proof -
  let ?m = "http_method_to_string (req_method r)"
  have m: "word_ok ?m" using method_text_no_space by (auto simp: word_ok_def list_all_iff)
  with assms(1) have cr: "CR \<notin> set (request_line r)"
    by (auto simp: request_line_def wire_ok_def dest: word_ok_CR)
  then have f: "rp_find_crlf p = Some (length (request_line r))"
    by (simp add: rp_find_crlf_def assms(2) find_crlf_line)
  from assms(1) have w: "word_ok (req_target r)" "word_ok (req_version r)"
    "has_prefix ''HTTP/'' (req_version r)" "req_method r \<noteq> HTTP_UNKNOWN"
    by (simp_all add: wire_ok_def)
  have t1: "next_token (request_line r) = (?m, '' '' @ req_target r @ '' '' @ req_version r)"
    using m next_token_word(1) [of ?m "CHR '' ''"] by (simp add: request_line_def word_ok_def list_all_iff)
  have t2: "next_token ('' '' @ req_target r @ '' '' @ req_version r) = (req_target r, '' '' @ req_version r)"
    using w(1) next_token_word(3) [of "req_target r" "CHR '' ''" "CHR '' ''"]
    by (simp add: word_ok_def list_all_iff)
  have t3: "next_token ('' '' @ req_version r) = (req_version r, [])"
    using w(2) next_token_word(4) [of "req_version r" "CHR '' ''"] by (simp add: word_ok_def list_all_iff)
  from w have ne: "req_target r \<noteq> []" "req_version r \<noteq> []" by (auto simp: word_ok_def)
  have v: "find_sub ''HTTP/'' (req_version r) = Some 0" using w(3) by (simp only: find_sub_zero)
  show ?thesis
    unfolding parse_request_line_def
    using f ne v w(4) t1 [unfolded append_Cons append_Nil] t2 [unfolded append_Cons append_Nil]
      t3 [unfolded append_Cons append_Nil]
    by (simp add: consume_bytes_eq assms(2) Let_def)
qed

lemma trim_ows_name: "list_all is_token_char n \<Longrightarrow> trim_find is_ows n = n"
  by (simp add: trim_find_eq, rule trim_by_none)
     (auto simp: list_all_iff is_ows_def dest: token_char_not_special)

lemma trim_value_space: "trim_whitespace (CHR '' '' # v) = trim_whitespace v"
  by (simp add: trim_whitespace_eq trim_by_def is_lws_def)

lemma make_header_eq:
  "normalize_name (header_name h) = header_norm h \<Longrightarrow> trim_whitespace (header_value h) = header_value h \<Longrightarrow>
   make_header (header_name h) (header_value h) = h"
  by (simp add: make_header_def)

lemma make_header_space: "make_header n (CHR '' '' # v) = make_header n v"
  by (simp add: make_header_def trim_value_space)

lemma parse_header_wire:
  assumes h: "header_wire_ok h" and b: "rp_buffer p = build_header_line h @ CR # LF # rest"
    and c: "rp_headers_received p < max_header_count (rp_config p)"
    and t: "rp_total_header_bytes p + length (build_header_line h) \<le> max_total_header_bytes (rp_config p)"
  shows "rp_find_crlf p \<noteq> Some 0"
    "parse_header p = (True, p\<lparr>rp_buffer := rest,
       rp_total_header_bytes := rp_total_header_bytes p + length (build_header_line h),
       rp_request := request_set_header (header_name h) (CHR '' '' # header_value h) (rp_request p),
       rp_headers_received := rp_headers_received p + 1\<rparr>)"
proof -
  let ?l = "build_header_line h"
  from h have n: "list_all is_token_char (header_name h)" "header_name h \<noteq> []"
    by (simp_all add: header_wire_ok_def is_valid_name_def)
  then have sp: "CR \<notin> set (header_name h)" "CHR '':'' \<notin> set (header_name h)"
    by (auto simp: list_all_iff dest: token_char_not_special)
  with h have "CR \<notin> set ?l" by (simp add: build_header_line_def header_wire_ok_def)
  then have f: "rp_find_crlf p = Some (length ?l)"
    by (simp add: rp_find_crlf_def b find_crlf_line)
  have ne: "?l \<noteq> []" by (simp add: build_header_line_def)
  with f show "rp_find_crlf p \<noteq> Some 0" by simp
  have col: "find_char (CHR '':'') ?l = Some (length (header_name h))"
    using sp(2) by (simp add: build_header_line_def find_char_first)
  have nm: "trim_find is_ows (substr ?l 0 (length (header_name h))) = header_name h"
    using n(1) by (simp add: substr_def build_header_line_def trim_ows_name)
  have vl: "drop (length (header_name h) + 1) ?l = CHR '' '' # header_value h"
    by (simp add: build_header_line_def)
  have ok: "is_valid_name (make_header (header_name h) ''test'')"
    using n by (simp add: is_valid_name_def)
  show "parse_header p = (True, p\<lparr>rp_buffer := rest,
       rp_total_header_bytes := rp_total_header_bytes p + length ?l,
       rp_request := request_set_header (header_name h) (CHR '' '' # header_value h) (rp_request p),
       rp_headers_received := rp_headers_received p + 1\<rparr>)"
    unfolding parse_header_def
    using f ne col nm vl ok c t b by (simp add: consume_bytes_eq Let_def)
qed

text \<open>A block of header lines is taken in whole.\<close>

lemma rp_loop_headers_wire:
  assumes "list_all header_wire_ok hs" "headers_wf (done @ hs)"
    "rp_state p = Headers" "rp_buffer p = wire_headers hs @ CR # LF # rest"
    "req_headers (rp_request p) = done"
    "rp_headers_received p + length hs \<le> max_header_count (rp_config p)"
    "rp_total_header_bytes p + sum_list (map (\<lambda>h. length (build_header_line h)) hs)
       \<le> max_total_header_bytes (rp_config p)"
  shows "rp_loop p = rp_loop (rp_end_of_headers (p\<lparr>rp_buffer := CR # LF # rest,
     rp_total_header_bytes := rp_total_header_bytes p + sum_list (map (\<lambda>h. length (build_header_line h)) hs),
     rp_request := (rp_request p)\<lparr>req_headers := done @ hs\<rparr>,
     rp_headers_received := rp_headers_received p + length hs\<rparr>))"
  using assms
proof (induction hs arbitrary: p "done")
  case Nil
  then have "rp_find_crlf p = Some 0" by (simp add: rp_find_crlf_def)
  moreover have "p\<lparr>rp_buffer := CR # LF # rest, rp_request := (rp_request p)\<lparr>req_headers := done\<rparr>\<rparr> = p"
    using Nil(4,5) by (cases p, cases "rp_request p") simp
  ultimately show ?case using Nil(3) by (simp add: rp_loop_empty_line)
next
  case (Cons h hs)
  let ?q = "p\<lparr>rp_buffer := wire_headers hs @ CR # LF # rest,
       rp_total_header_bytes := rp_total_header_bytes p + length (build_header_line h),
       rp_request := request_set_header (header_name h) (CHR '' '' # header_value h) (rp_request p),
       rp_headers_received := rp_headers_received p + 1\<rparr>"
  have hw: "header_wire_ok h" using Cons.prems by simp
  have wf: "normalize_name (header_name h) = header_norm h" "trim_whitespace (header_value h) = header_value h"
    "\<forall>x \<in> set done. header_norm x \<noteq> header_norm h"
    using Cons.prems(2) by (auto simp: headers_wf_def) (metis imageI)
  have fresh: "headers_set (req_headers (rp_request p)) (header_name h) (CHR '' '' # header_value h) = done @ [h]"
    using wf Cons.prems(5)
    by (simp add: headers_set_fresh headers_has_def find_None make_header_space make_header_eq)
  have c: "rp_headers_received p < max_header_count (rp_config p)"
    "rp_total_header_bytes p + length (build_header_line h) \<le> max_total_header_bytes (rp_config p)"
    using Cons.prems(6,7) by simp_all
  have b: "rp_buffer p = build_header_line h @ CR # LF # (wire_headers hs @ CR # LF # rest)"
    using Cons.prems(4) by (simp add: wire_headers_Cons)
  from parse_header_wire [OF hw b c] Cons.prems(3)
  have "rp_loop p = rp_loop ?q" by (simp add: rp_loop_Headers)
  also have "\<dots> = rp_loop (rp_end_of_headers (?q\<lparr>rp_buffer := CR # LF # rest,
     rp_total_header_bytes := rp_total_header_bytes ?q + sum_list (map (\<lambda>h. length (build_header_line h)) hs),
     rp_request := (rp_request ?q)\<lparr>req_headers := (done @ [h]) @ hs\<rparr>,
     rp_headers_received := rp_headers_received ?q + length hs\<rparr>))"
    by (rule Cons.IH) (use Cons.prems fresh in \<open>simp_all add: request_set_header_def\<close>)
  finally show ?case by (simp add: request_set_header_def add.assoc)
qed

lemma rp_loop_wire:
  assumes "wire_ok r" "within_limits c r"
  shows "rp_loop ((rp_new c)\<lparr>rp_buffer := wire_request r @ rest\<rparr>) =
    \<lparr>rp_state = Complete, rp_request = r, rp_config = c, rp_buffer = rest, rp_error = [],
     rp_headers_received = length (req_headers r),
     rp_total_header_bytes = sum_list (map (\<lambda>h. length (build_header_line h)) (req_headers r))\<rparr>"
proof -
  let ?p = "(rp_new c)\<lparr>rp_buffer := wire_request r @ rest\<rparr>"
  let ?t = "sum_list (map (\<lambda>h. length (build_header_line h)) (req_headers r))"
  let ?r = "r\<lparr>req_headers := [], req_body := []\<rparr>"
  have b: "rp_buffer ?p = request_line r @ CR # LF # (wire_headers (req_headers r) @ CR # LF # (req_body r @ rest))"
    by (simp add: wire_request_def)
  have q: "rp_loop ?p = rp_loop ((rp_new c)\<lparr>rp_buffer := wire_headers (req_headers r) @ CR # LF # (req_body r @ rest),
     rp_request := ?r, rp_state := Headers\<rparr>)"
    using parse_request_line_wire [OF assms(1) b]
    by (cases r) (simp add: rp_loop_RequestLine rp_new_def new_request_def)
  have fr: "request_framed r" using assms(1) by (simp add: wire_ok_def)
  let ?h = "(rp_new c)\<lparr>rp_buffer := wire_headers (req_headers r) @ CR # LF # (req_body r @ rest),
     rp_request := ?r, rp_state := Headers\<rparr>"
  have "rp_loop ?h = rp_loop (rp_end_of_headers (?h\<lparr>rp_buffer := CR # LF # (req_body r @ rest),
     rp_total_header_bytes := rp_total_header_bytes ?h + ?t,
     rp_request := (rp_request ?h)\<lparr>req_headers := [] @ req_headers r\<rparr>,
     rp_headers_received := rp_headers_received ?h + length (req_headers r)\<rparr>))"
    by (rule rp_loop_headers_wire)
       (use assms in \<open>simp_all add: wire_ok_def within_limits_def rp_new_def\<close>)
  also have "\<dots> = rp_loop ((rp_new c)\<lparr>rp_buffer := req_body r @ rest,
     rp_total_header_bytes := ?t, rp_request := r\<lparr>req_body := []\<rparr>,
     rp_headers_received := length (req_headers r),
     rp_state := if requires_body r then Body else Complete\<rparr>)"
    by (simp add: rp_end_of_headers_def consume_bytes_eq Let_def rp_new_def request_has_body_def
        requires_body_def)
  also have "\<dots> = \<lparr>rp_state = Complete, rp_request = r, rp_config = c, rp_buffer = rest, rp_error = [],
     rp_headers_received = length (req_headers r), rp_total_header_bytes = ?t\<rparr>"
  proof (cases "requires_body r")
    case False
    with fr have "req_body r = []" by (simp add: request_framed_def Let_def)
    then have "r\<lparr>req_body := []\<rparr> = r" by simp
    with False \<open>req_body r = []\<close> show ?thesis by (simp add: rp_new_def)
  next
    case True
    show ?thesis
    proof (cases "request_get_header r ''Content-Length'' = []")
      case cl: True
      with True fr have "req_body r = []" by (simp add: request_framed_def Let_def)
      then have "r\<lparr>req_body := []\<rparr> = r" by simp
      with True cl \<open>req_body r = []\<close> show ?thesis
        by (simp add: rp_loop_Body parse_body_def rp_new_def)
    next
      case cl: False
      with True fr have "stoul (request_get_header r ''Content-Length'') = Some (length (req_body r))"
        by (simp add: request_framed_def Let_def)
      with True cl assms(2) show ?thesis
        by (simp add: rp_loop_Body parse_body_def rp_new_def consume_bytes_eq within_limits_def)
    qed
  qed
  finally show ?thesis using q by simp
qed

subsection \<open>Properties\<close>



text \<open>
  C2: the parser reads back every request it can represent.  For a request whose
  target and version are words, whose header names are tokens and values are
  trimmed and free of carriage returns, and whose body is framed by its
  Content-Length, a fresh parser fed the wire form completes with exactly that
  request and leaves what follows in its buffer.
\<close>

theorem request_roundtrip:
  assumes "wire_ok r" "within_limits c r"
  shows "rp_state (rp_feed (wire_request r @ rest) (rp_new c)) = Complete \<and>
    fst (take_request (rp_feed (wire_request r @ rest) (rp_new c))) = r \<and>
    rp_buffer (rp_feed (wire_request r @ rest) (rp_new c)) = rest"
proof -
  have "rp_feed (wire_request r @ rest) (rp_new c) = rp_loop ((rp_new c)\<lparr>rp_buffer := wire_request r @ rest\<rparr>)"
    by (simp add: rp_feed_def rp_new_def)
  with rp_loop_wire [OF assms, of rest] show ?thesis by (simp add: take_request_def)
qed

definition sample_post :: HttpRequest where
  "sample_post = \<lparr>req_method = POST, req_target = ''/submit'', req_version = ''HTTP/1.1'',
     req_headers = [make_header ''Host'' ''example.org'', make_header ''Content-Length'' ''5''],
     req_body = ''hello''\<rparr>"

lemma request_roundtrip_witness:
  "wire_ok sample_post \<and> within_limits default_config sample_post \<and>
   fst (take_request (rp_feed (wire_request sample_post @ ''GET'') (rp_new default_config))) = sample_post"
proof -
  have "wire_ok sample_post" "within_limits default_config sample_post" by code_simp+
  from request_roundtrip [OF this] this show ?thesis by blast
qed



text \<open>
  The line limits only apply to a line that is still incomplete.  A request
  line of any length is accepted when it arrives together with its line end,
  although \<^verbatim>\<open>max_request_line_bytes\<close> is smaller.
\<close>

theorem request_line_limit_not_enforced:
  "rp_state (rp_feed (''GET /'' @ replicate n CHR ''a'' @ '' HTTP/1.1'' @ CRLF @ CRLF) (rp_new c)) = Complete"
proof -
  let ?r = "new_request\<lparr>req_target := ''/'' @ replicate n CHR ''a''\<rparr>"
  have "wire_ok ?r"
    by (auto simp: wire_ok_def new_request_def word_ok_def class_defs code_def request_framed_def
        requires_body_def list_all_iff Let_def)
  moreover have "within_limits c ?r" by (simp add: within_limits_def new_request_def)
  ultimately have "rp_state (rp_feed (wire_request ?r @ []) (rp_new c)) = Complete"
    using rp_loop_wire [of ?r c "[]"] by (simp add: rp_feed_def rp_new_def)
  moreover have "wire_request ?r @ [] = ''GET /'' @ replicate n CHR ''a'' @ '' HTTP/1.1'' @ CRLF @ CRLF"
    by (simp add: wire_request_def request_line_def new_request_def http_method_to_string_def)
  ultimately show ?thesis by simp
qed

text \<open>
  A second, pipelined request that arrives in the same chunk stays in the
  buffer of the finished parser, and the next call of \<^verbatim>\<open>feed\<close> throws it away:
  the parser then behaves as if it had never been sent.
\<close>

theorem pipelined_request_is_dropped:
  assumes "wire_ok r" "within_limits c r"
  shows "rp_feed later (rp_feed (wire_request r @ pipelined) (rp_new c)) = rp_feed later (rp_new c)"
  using rp_loop_wire [OF assms, of pipelined]
  by (simp add: rp_feed_def rp_new_def rp_reset_def)

lemma pipelined_request_is_dropped_witness:
  "wire_ok sample_post \<and> within_limits default_config sample_post \<and>
   rp_feed ''GET'' (rp_feed (wire_request sample_post @ wire_request sample_post) (rp_new default_config)) =
   rp_feed ''GET'' (rp_new default_config)"
proof -
  have "wire_ok sample_post" "within_limits default_config sample_post" by code_simp+
  from pipelined_request_is_dropped [OF this] this show ?thesis by blast
qed

end
