(* ===== verification/Byte_Queue.thy ===== *)
theory Byte_Queue
  imports Prelude
begin

section \<open>Byte queues\<close>

text \<open>
  Several classes keep bytes in a \<^verbatim>\<open>std::string\<close> together with a read offset and
  erase the consumed front only now and then.  The locale states what their
  clients rely on; the component theories interpret it on their own
  representation.
\<close>

locale byte_queue =
  fixes contents :: "'q \<Rightarrow> 'a list"
    and push :: "'a list \<Rightarrow> 'q \<Rightarrow> 'q"
    and drop_front :: "nat \<Rightarrow> 'q \<Rightarrow> 'q"
    and wipe :: "'q \<Rightarrow> 'q"
    and q_ok :: "'q \<Rightarrow> bool"
  assumes contents_push: "q_ok q \<Longrightarrow> contents (push s q) = contents q @ s"
    and contents_drop: "q_ok q \<Longrightarrow> n \<le> length (contents q) \<Longrightarrow> contents (drop_front n q) = drop n (contents q)"
    and contents_wipe: "contents (wipe q) = []"
    and ok_push: "q_ok q \<Longrightarrow> q_ok (push s q)"
    and ok_drop: "q_ok q \<Longrightarrow> n \<le> length (contents q) \<Longrightarrow> q_ok (drop_front n q)"
    and ok_wipe: "q_ok (wipe q)"
begin

lemma contents_push_all: "q_ok q \<Longrightarrow> contents (fold push ss q) = contents q @ concat ss"
  by (induction ss arbitrary: q) (auto simp: contents_push ok_push)

lemma drop_then_push:
  "q_ok q \<Longrightarrow> n \<le> length (contents q) \<Longrightarrow>
     contents (push s (drop_front n q)) = contents (drop_front n (push s q))"
  by (simp add: contents_push contents_drop ok_push ok_drop)

lemma drop_twice:
  "q_ok q \<Longrightarrow> m + n \<le> length (contents q) \<Longrightarrow>
     contents (drop_front n (drop_front m q)) = contents (drop_front (m + n) q)"
  by (simp add: contents_drop ok_drop add.commute)

text \<open>Draining in pieces of any sizes delivers the contents, in order.\<close>

fun drain :: "nat list \<Rightarrow> 'q \<Rightarrow> 'a list" where
  "drain [] q = []"
| "drain (n # ns) q = take n (contents q) @ drain ns (drop_front (min n (length (contents q))) q)"

lemma drain_prefix: "q_ok q \<Longrightarrow> drain ns q = take (sum_list ns) (contents q)"
proof (induction ns arbitrary: q)
  case (Cons n ns)
  let ?q = "drop_front (min n (length (contents q))) q"
  have q: "q_ok ?q" "contents ?q = drop n (contents q)"
    using Cons.prems by (simp_all add: ok_drop contents_drop) (simp add: min_def)
  have "drain ns ?q = take (sum_list ns) (drop n (contents q))"
    using Cons.IH [OF q(1)] q(2) by simp
  then show ?case by (simp add: take_add)
qed simp

lemma drain_all: "q_ok q \<Longrightarrow> length (contents q) \<le> sum_list ns \<Longrightarrow> drain ns q = contents q"
  by (simp add: drain_prefix)

end

end
