(* ===== verification/WS_Frame.thy ===== *)
theory WS_Frame
  imports Prelude Byte_Queue
begin

section \<open>WebSocket frames: \<^verbatim>\<open>websocket_frame.cpp\<close>\<close>

text \<open>
  Frames are byte strings, so bytes are \<^typ>\<open>byte\<close> here and payload lengths keep
  their width (\<^verbatim>\<open>uint16_t\<close>, \<^verbatim>\<open>uint64_t\<close>) in the readers and writers.
  \<open>fp_next\<close> is \<^verbatim>\<open>FrameParser::next\<close>: the result, the frame when one is ready,
  and the updated parser.
\<close>

unbundle bit_operations_syntax

subsection \<open>Opcodes and frames\<close>

datatype Opcode = Continuation | Text | Binary | Close | Ping | Pong

definition opcode_value :: "Opcode \<Rightarrow> byte" where
  "opcode_value op =
     (case op of Continuation \<Rightarrow> 0x0 | Text \<Rightarrow> 0x1 | Binary \<Rightarrow> 0x2
      | Close \<Rightarrow> 0x8 | Ping \<Rightarrow> 0x9 | Pong \<Rightarrow> 0xA)"

definition is_control_opcode :: "Opcode \<Rightarrow> bool" where
  "is_control_opcode op \<longleftrightarrow> opcode_value op AND 0x08 \<noteq> 0"

definition is_data_opcode :: "Opcode \<Rightarrow> bool" where
  "is_data_opcode op \<longleftrightarrow> opcode_value op \<le> 0x02"

definition opcode_name :: "Opcode \<Rightarrow> string" where
  "opcode_name op =
     (case op of Continuation \<Rightarrow> ''continuation'' | Text \<Rightarrow> ''text'' | Binary \<Rightarrow> ''binary''
      | Close \<Rightarrow> ''close'' | Ping \<Rightarrow> ''ping'' | Pong \<Rightarrow> ''pong'')"

definition is_known_opcode :: "byte \<Rightarrow> bool" where
  "is_known_opcode raw \<longleftrightarrow> raw \<in> set [0x0, 0x1, 0x2, 0x8, 0x9, 0xA]"

text \<open>The cast \<^verbatim>\<open>static_cast<Opcode>(raw)\<close>, applied to known opcodes only.\<close>

definition opcode_of_raw :: "byte \<Rightarrow> Opcode" where
  "opcode_of_raw raw =
     (if raw = 0x0 then Continuation else if raw = 0x1 then Text else if raw = 0x2 then Binary
      else if raw = 0x8 then Close else if raw = 0x9 then Ping else Pong)"

record Frame =
  frame_fin :: bool
  frame_rsv :: byte
  frame_opcode :: Opcode
  frame_masked :: bool
  frame_mask_key :: "byte list"
  frame_payload :: "byte list"

datatype ParseStatus = NeedMore | FrameReady Frame | ParseFailed

datatype ParseError = NoError | ProtocolViolation | PayloadTooLarge

subsection \<open>Big-endian integers\<close>

definition read_be16 :: "byte list \<Rightarrow> 16 word" where
  "read_be16 d = push_bit 8 (ucast (d ! 0)) OR ucast (d ! 1)"

definition read_be64 :: "byte list \<Rightarrow> 64 word" where
  "read_be64 d = foldl (\<lambda>v i. push_bit 8 v OR ucast (d ! i)) 0 [0..<8]"

definition append_be16 :: "byte list \<Rightarrow> 16 word \<Rightarrow> byte list" where
  "append_be16 out v = out @ [ucast (drop_bit 8 v AND 0xFF), ucast (v AND 0xFF)]"

definition append_be64 :: "byte list \<Rightarrow> 64 word \<Rightarrow> byte list" where
  "append_be64 out v = foldl (\<lambda>out i. out @ [ucast (drop_bit (i * 8) v AND 0xFF)]) out (rev [0..<8])"

subsection \<open>The parser\<close>

record FrameParser =
  fp_buffer :: "byte list"
  fp_max_payload :: "64 word"
  fp_error :: ParseError
  fp_error_message :: string

definition fp_new :: "64 word \<Rightarrow> FrameParser" where
  "fp_new m = \<lparr>fp_buffer = [], fp_max_payload = m, fp_error = NoError, fp_error_message = []\<rparr>"

definition fp_feed :: "byte list \<Rightarrow> FrameParser \<Rightarrow> FrameParser" where
  "fp_feed data p =
     (if fp_error p \<noteq> NoError \<or> length data = 0 then p else p\<lparr>fp_buffer := fp_buffer p @ data\<rparr>)"

definition fp_clear :: "FrameParser \<Rightarrow> FrameParser" where
  "fp_clear p = p\<lparr>fp_buffer := [], fp_error := NoError, fp_error_message := []\<rparr>"

definition fp_has_error :: "FrameParser \<Rightarrow> bool" where
  "fp_has_error p \<longleftrightarrow> fp_error p \<noteq> NoError"

definition fp_fail :: "ParseError \<Rightarrow> string \<Rightarrow> FrameParser \<Rightarrow> FrameParser" where
  "fp_fail e msg p = p\<lparr>fp_error := e, fp_error_message := msg\<rparr>"

definition xor_mask :: "byte list \<Rightarrow> byte list \<Rightarrow> byte list" where
  "xor_mask key payload = map (\<lambda>i. (payload ! i) XOR (key ! (i mod 4))) [0..<length payload]"

text \<open>The payload length field: more input needed, a violation, or length and header size.\<close>

datatype LengthField = LengthNeedMore | LengthMsbSet | LengthIs "64 word" nat

definition read_length :: "byte list \<Rightarrow> LengthField" where
  "read_length buf =
     (let len7 = (buf ! 1) AND 0x7F in
      if len7 = 126 then
        (if length buf < 2 + 2 then LengthNeedMore
         else LengthIs (ucast (read_be16 (drop 2 buf))) 4)
      else if len7 = 127 then
        (if length buf < 2 + 8 then LengthNeedMore
         else let value = read_be64 (drop 2 buf) in
           if value AND 0x8000000000000000 \<noteq> 0 then LengthMsbSet else LengthIs value 10)
      else LengthIs (ucast len7) 2)"

text \<open>
  The checks of \<^verbatim>\<open>next\<close> that come before the mask key and the payload are
  awaited: more input needed, a violation with its message, or the fields.
\<close>

datatype FrameHeader =
  HeaderMore | HeaderBad ParseError string
  | HeaderOk (hdr_fin: bool) (hdr_rsv: byte) (hdr_opcode: Opcode) (hdr_masked: bool) "64 word" nat

definition frame_header :: "64 word \<Rightarrow> byte list \<Rightarrow> FrameHeader" where
  "frame_header max_payload buf =
     (let fin = (buf ! 0) AND 0x80 \<noteq> 0;
          rsv = drop_bit 4 ((buf ! 0) AND 0x70);
          raw_opcode = (buf ! 0) AND 0x0F;
          masked = (buf ! 1) AND 0x80 \<noteq> 0
      in if rsv \<noteq> 0
         then HeaderBad ProtocolViolation ''RSV bits set without a negotiated extension''
         else if \<not> is_known_opcode raw_opcode
         then HeaderBad ProtocolViolation (''reserved opcode '' @ to_string (unat raw_opcode))
         else case read_length buf of
           LengthNeedMore \<Rightarrow> HeaderMore
         | LengthMsbSet \<Rightarrow> HeaderBad ProtocolViolation ''64-bit payload length has MSB set''
         | LengthIs payload_length offset \<Rightarrow>
             let opcode = opcode_of_raw raw_opcode in
             if is_control_opcode opcode \<and> \<not> fin
             then HeaderBad ProtocolViolation ''control frames must not be fragmented''
             else if is_control_opcode opcode \<and> payload_length > 125
             then HeaderBad ProtocolViolation ''control frame payload exceeds 125 bytes''
             else if payload_length > max_payload
             then HeaderBad PayloadTooLarge
                    (''declared payload length '' @ to_string (unat payload_length) @
                     '' exceeds limit '' @ to_string (unat max_payload))
             else HeaderOk fin rsv opcode masked payload_length offset)"

definition fp_next :: "FrameParser \<Rightarrow> ParseStatus \<times> FrameParser" where
  "fp_next p =
     (if fp_error p \<noteq> NoError then (ParseFailed, p)
      else let buf = fp_buffer p in
      if length buf < 2 then (NeedMore, p)
      else case frame_header (fp_max_payload p) buf of
        HeaderMore \<Rightarrow> (NeedMore, p)
      | HeaderBad e msg \<Rightarrow> (ParseFailed, fp_fail e msg p)
      | HeaderOk fin rsv opcode masked payload_length offset \<Rightarrow>
          if masked \<and> length buf < offset + 4 then (NeedMore, p)
          else
            let mask_key = (if masked then take 4 (drop offset buf) else [0, 0, 0, 0]);
                offset = (if masked then offset + 4 else offset);
                n = unat payload_length
            in if length buf < offset + n then (NeedMore, p)
               else
                 let payload = take n (drop offset buf);
                     payload = (if masked then xor_mask mask_key payload else payload)
                 in (FrameReady \<lparr>frame_fin = fin, frame_rsv = rsv, frame_opcode = opcode,
                       frame_masked = masked, frame_mask_key = mask_key, frame_payload = payload\<rparr>,
                     p\<lparr>fp_buffer := drop (offset + n) buf\<rparr>))"

subsection \<open>The encoder\<close>

definition encode_frame :: "Opcode \<Rightarrow> byte list \<Rightarrow> bool \<Rightarrow> bool \<Rightarrow> byte list \<Rightarrow> byte list" where
  "encode_frame opcode payload fin masking mask_key =
     (let len = length payload;
          byte0 = opcode_value opcode AND 0x0F;
          byte0 = (if fin then byte0 OR 0x80 else byte0);
          out = [byte0];
          byte1 = (if masking then 0x80 else 0x00);
          out = (if len < 126 then out @ [byte1 OR of_nat len]
                 else if len \<le> 0xFFFF then append_be16 (out @ [byte1 OR 126]) (of_nat len)
                 else append_be64 (out @ [byte1 OR 127]) (of_nat len))
      in if masking then out @ take 4 mask_key @ xor_mask mask_key payload
         else out @ payload)"

subsection \<open>Words\<close>

lemma and_low_byte: "x AND 0xFF = take_bit 8 (x :: 'a::len word)"
  by (simp add: take_bit_eq_mask mask_eq_exp_minus_1)

lemma ucast_low_byte [simp]:
  "(ucast (x AND 0xFF :: 16 word) :: byte) = ucast x" "(ucast (y AND 0xFF :: 64 word) :: byte) = ucast y"
  unfolding and_low_byte by (rule bit_word_eqI; simp add: bit_simps)+

lemma be16_roundtrip: "read_be16 (append_be16 [] v @ rest) = v"
proof -
  have "append_be16 [] v = [ucast (drop_bit 8 v), ucast v]" by (simp add: append_be16_def)
  then show ?thesis
    unfolding read_be16_def by (auto intro!: bit_word_eqI simp: bit_simps)
qed

lemma upt_8: "[0..<8] = [0, 1, 2, 3, 4, 5, 6, 7::nat]"
  by (simp add: upt_rec)

lemma append_be64_eq:
  "append_be64 out v = out @ [ucast (drop_bit 56 v), ucast (drop_bit 48 v), ucast (drop_bit 40 v),
     ucast (drop_bit 32 v), ucast (drop_bit 24 v), ucast (drop_bit 16 v), ucast (drop_bit 8 v), ucast v]"
  unfolding append_be64_def upt_8 by simp

text \<open>One turn of the reading loop puts the next lower byte back.\<close>

lemma read_byte_step:
  "push_bit 8 (drop_bit (k + 8) v) OR ucast (ucast (drop_bit k v) :: byte) = drop_bit k (v :: 64 word)"
proof (rule bit_word_eqI)
  fix n assume "n < LENGTH(64)"
  then show "bit (push_bit 8 (drop_bit (k + 8) v) OR ucast (ucast (drop_bit k v) :: byte)) n = bit (drop_bit k v) n"
    by (cases "n < 8") (auto simp: bit_simps add.assoc not_less le_iff_add)
qed

lemma be64_roundtrip: "read_be64 (append_be64 [] v @ rest) = v"
proof -
  have "drop_bit 64 v = 0" by (rule bit_word_eqI) (simp add: bit_simps bit_word.rep_eq)
  then show ?thesis
    unfolding append_be64_eq read_be64_def upt_8
    using read_byte_step [of 56 v] read_byte_step [of 48 v] read_byte_step [of 40 v] read_byte_step [of 32 v]
      read_byte_step [of 24 v] read_byte_step [of 16 v] read_byte_step [of 8 v] read_byte_step [of 0 v]
    by simp
qed

lemma append_be_length [simp]: "length (append_be16 out v) = length out + 2" "length (append_be64 out w) = length out + 8"
  by (simp_all add: append_be16_def append_be64_eq)

lemma append_be_prefix: "append_be16 out v = out @ append_be16 [] v" "append_be64 out w = out @ append_be64 [] w"
  by (simp_all add: append_be16_def append_be64_eq)

lemma xor_mask_length [simp]: "length (xor_mask k p) = length p"
  by (simp add: xor_mask_def)

text \<open>Masking is an involution.\<close>

lemma xor_mask_twice [simp]: "xor_mask k (xor_mask k p) = p"
  by (rule nth_equalityI) (simp_all add: xor_mask_def xor.assoc)

lemma opcode_bits [simp]:
  "opcode_value op AND 0x0F = opcode_value op"
  "is_known_opcode (opcode_value op)" "opcode_of_raw (opcode_value op) = op"
  by (cases op; simp add: opcode_value_def is_known_opcode_def opcode_of_raw_def)+

lemma is_control_iff: "is_control_opcode op \<longleftrightarrow> op \<in> {Close, Ping, Pong}"
  by (cases op) (simp_all add: is_control_opcode_def opcode_value_def)

lemma is_data_iff: "is_data_opcode op \<longleftrightarrow> \<not> is_control_opcode op"
  by (cases op) (simp_all add: is_data_opcode_def is_control_opcode_def opcode_value_def)

lemma header_byte0:
  "(opcode_value op OR 0x80) AND 0x80 \<noteq> 0" "opcode_value op AND 0x80 = 0"
  "drop_bit 4 ((opcode_value op OR 0x80) AND 0x70) = 0" "drop_bit 4 (opcode_value op AND 0x70) = 0"
  "(opcode_value op OR 0x80) AND 0x0F = opcode_value op"
  by (cases op; simp add: opcode_value_def)+

lemma ucast_len16: "k < 2 ^ 16 \<Longrightarrow> ucast (of_nat k :: 16 word) = (of_nat k :: 64 word)"
  by (simp add: word_unat_eq_iff unsigned_of_nat unsigned_ucast_eq take_bit_nat_eq_self)

lemma bit_small: "k < 128 \<Longrightarrow> bit (of_nat k :: byte) i \<Longrightarrow> i < 7"
proof -
  assume k: "k < 128" and b: "bit (of_nat k :: byte) i"
  have "bit k i" using b by (simp add: bit_simps)
  then have "2 ^ i \<le> k" by (metis bit_iff_odd div_less even_zero linorder_not_less)
  with k have "(2::nat) ^ i < 2 ^ 7" by simp
  then show ?thesis by (simp only: power_strict_increasing_iff one_less_numeral_iff semiring_norm)
qed

lemma not_bit_63: "k < 2 ^ 63 \<Longrightarrow> \<not> bit (of_nat k :: 64 word) 63"
proof -
  assume "k < 2 ^ 63"
  then have "\<not> bit k 63" by (simp add: bit_iff_odd)
  moreover have "bit (of_nat k :: 64 word) i \<Longrightarrow> bit k i" for i by (simp add: bit_simps)
  ultimately show ?thesis by blast
qed

lemma msb_clear: "k < 2 ^ 63 \<Longrightarrow> (of_nat k :: 64 word) AND 0x8000000000000000 = 0"
proof -
  assume k: "k < 2 ^ 63"
  have e: "(0x8000000000000000 :: 64 word) = 2 ^ 63" by simp
  show ?thesis unfolding e and_exp_eq_0_iff_not_bit by (rule not_bit_63 [OF k])
qed

lemma bit_128: "bit (0x80 :: byte) n \<longleftrightarrow> n = 7"
proof -
  have "(0x80 :: byte) = 2 ^ 7" by simp
  then show ?thesis by (simp only: bit_exp_iff) (auto simp: possible_bit_word)
qed

lemma low7: fixes b :: byte
  assumes "\<And>i. bit b i \<Longrightarrow> i < 7"
  shows "(0x80 OR b) AND 0x7F = b" "b AND 0x7F = b" "(0x80 OR b) AND 0x80 \<noteq> 0" "b AND 0x80 = 0"
proof -
  have m: "(0x7F::byte) = mask 7" "(0x80::byte) = 2^7" by (simp_all add: mask_eq_exp_minus_1)
  show "b AND 0x7F = b" unfolding m
    by (rule bit_word_eqI) (use assms in \<open>auto simp: bit_simps\<close>)
  have "bit ((0x80 OR b) AND 0x7F) n \<longleftrightarrow> (n = 7 \<or> bit b n) \<and> n < 7" for n
    unfolding m(1) by (simp only: bit_and_iff bit_or_iff bit_128 bit_mask_iff) (auto simp: possible_bit_word)
  then show "(0x80 OR b) AND 0x7F = b"
    by (intro bit_word_eqI) (use assms in auto)
  show "(0x80 OR b) AND 0x80 \<noteq> 0" "b AND 0x80 = 0" unfolding m and_exp_eq_0_iff_not_bit 
    using assms[of 7] by (auto simp: bit_simps)
qed

text \<open>A length below 126 sits in the low seven bits of the second byte.\<close>

lemma small_byte:
  assumes "k < 126"
  shows "(0x80 OR of_nat k :: byte) AND 0x7F = of_nat k" "(of_nat k :: byte) AND 0x7F = of_nat k"
    "(0x80 OR of_nat k :: byte) AND 0x80 \<noteq> 0" "(of_nat k :: byte) AND 0x80 = 0"
    "(of_nat k :: byte) \<noteq> 126" "(of_nat k :: byte) \<noteq> 127"
    "ucast (of_nat k :: byte) = (of_nat k :: 64 word)"
proof -
  have k: "k < 128" using assms by simp
  show "(0x80 OR of_nat k :: byte) AND 0x7F = of_nat k" "(of_nat k :: byte) AND 0x7F = of_nat k"
    "(0x80 OR of_nat k :: byte) AND 0x80 \<noteq> 0" "(of_nat k :: byte) AND 0x80 = 0"
    using low7 [OF bit_small [OF k]] by auto
  show "(of_nat k :: byte) \<noteq> 126" "(of_nat k :: byte) \<noteq> 127"
    using assms by (auto simp: word_unat_eq_iff unsigned_of_nat take_bit_nat_eq_self)
  show "ucast (of_nat k :: byte) = (of_nat k :: 64 word)"
    using assms by (simp add: word_unat_eq_iff unsigned_of_nat unsigned_ucast_eq take_bit_nat_eq_self)
qed

text \<open>The mask bit and the length field, as the encoder writes them.\<close>

definition length_bytes :: "bool \<Rightarrow> nat \<Rightarrow> byte list" where
  "length_bytes masking len =
     (let byte1 = (if masking then 0x80 else 0x00) in
      if len < 126 then [byte1 OR of_nat len]
      else if len \<le> 0xFFFF then (byte1 OR 126) # append_be16 [] (of_nat len)
      else (byte1 OR 127) # append_be64 [] (of_nat len))"

lemma encode_frame_bytes:
  "encode_frame op payload fin masking key =
     (if fin then opcode_value op OR 0x80 else opcode_value op) # length_bytes masking (length payload) @
     (if masking then take 4 key @ xor_mask key payload else payload)"
  by (simp add: encode_frame_def length_bytes_def Let_def append_be_prefix [where out = "_ # _"])

lemma read_length_bytes:
  assumes "len < 2 ^ 63"
  shows "read_length (b # length_bytes masking len @ rest) =
      LengthIs (of_nat len) (1 + length (length_bytes masking len))"
    "(b # length_bytes masking len @ rest) ! 1 AND 0x80 \<noteq> 0 \<longleftrightarrow> masking"
    "length (length_bytes masking len) \<ge> 1"
proof -
  show "read_length (b # length_bytes masking len @ rest) =
      LengthIs (of_nat len) (1 + length (length_bytes masking len))"
    using assms
    by (auto simp: length_bytes_def read_length_def Let_def small_byte be16_roundtrip be64_roundtrip
         ucast_len16 msb_clear)
  show "(b # length_bytes masking len @ rest) ! 1 AND 0x80 \<noteq> 0 \<longleftrightarrow> masking" "length (length_bytes masking len) \<ge> 1"
    by (auto simp: length_bytes_def Let_def small_byte)
qed

lemma fp_next_ready:
  assumes buf_def: "buf = b # L @ K @ P @ rest"
    and e: "fp_error p = NoError" "fp_buffer p = buf"
    and b: "b AND 0x80 \<noteq> 0 \<longleftrightarrow> fin" "drop_bit 4 (b AND 0x70) = 0" "b AND 0x0F = opcode_value op"
    and l: "read_length buf = LengthIs n (1 + length L)" "buf ! 1 AND 0x80 \<noteq> 0 \<longleftrightarrow> masking" "1 \<le> length L"
    and c: "is_control_opcode op \<longrightarrow> fin" "\<not> (is_control_opcode op \<and> 125 < n)" "\<not> fp_max_payload p < n"
    and k: "length K = (if masking then 4 else 0)" "length P = unat n"
  shows "fp_next p =
    (FrameReady \<lparr>frame_fin = fin, frame_rsv = 0, frame_opcode = op, frame_masked = masking,
       frame_mask_key = (if masking then K else [0, 0, 0, 0]),
       frame_payload = (if masking then xor_mask K P else P)\<rparr>,
     p\<lparr>fp_buffer := rest\<rparr>)"
proof -
  have b0: "buf ! 0 = b" "2 \<le> length buf" using l(3) by (auto simp: buf_def)
  have d: "drop (1 + length L) buf = K @ P @ rest" "length buf = 1 + length L + length K + length P + length rest"
    by (simp_all add: buf_def)
  have d2: "drop (1 + length L + length K) buf = P @ rest"
    "drop (1 + length L + length K + length P) buf = rest"
    by (simp_all add: buf_def)
  have d3: "length K = 0 \<Longrightarrow> K = []" by simp
  have f: "\<not> (is_control_opcode op \<and> \<not> fin)" "\<not> (is_control_opcode op \<and> b AND 0x80 = 0)" using c(1) b(1) by blast+
  have n1: "\<not> length buf < 2" using b0(2) by simp
  note eqs = fp_next_def frame_header_def FrameHeader.case Let_def e b0(1) b n1 opcode_bits l(1,2) f c(2,3) if_False if_True LengthField.case simp_thms
  show ?thesis
  proof (cases masking)
    case True
    then have "length K = 4" using k by simp
    with d d2 k(2) have "take 4 (drop (1 + length L) buf) = K" "drop (1 + length L + 4) buf = P @ rest"
      "\<not> length buf < 1 + length L + 4" "\<not> length buf < 1 + length L + 4 + unat n"
      "take (unat n) (P @ rest) = P" "drop (1 + length L + 4 + unat n) buf = rest"
      by auto
    with True show ?thesis by (simp only: eqs)
  next
    case False
    then have "K = []" using k by simp
    with d d2 k(2) have "drop (1 + length L) buf = P @ rest"
      "\<not> length buf < 1 + length L + unat n"
      "take (unat n) (P @ rest) = P" "drop (1 + length L + unat n) buf = rest"
      by auto
    with False show ?thesis by (simp only: eqs)
  qed
qed

subsection \<open>How \<open>fp_next\<close> uses its input\<close>

text \<open>\<open>fp_ext t p\<close> is the parser with more input appended.\<close>

definition fp_ext :: "byte list \<Rightarrow> FrameParser \<Rightarrow> FrameParser" where
  "fp_ext t p = p\<lparr>fp_buffer := fp_buffer p @ t\<rparr>"

lemma fp_ext_simps [simp]:
  "fp_buffer (fp_ext t p) = fp_buffer p @ t" "fp_error (fp_ext t p) = fp_error p"
  "fp_max_payload (fp_ext t p) = fp_max_payload p" "fp_error_message (fp_ext t p) = fp_error_message p"
  "fp_fail e m (fp_ext t p) = fp_ext t (fp_fail e m p)"
  by (simp_all add: fp_ext_def fp_fail_def)

lemma read_be_append:
  "2 \<le> length d \<Longrightarrow> read_be16 (d @ t) = read_be16 d"
  "8 \<le> length e \<Longrightarrow> read_be64 (e @ t) = read_be64 e"
proof -
  assume "2 \<le> length d"
  then have "(d @ t) ! i = d ! i" if "i < 2" for i using that by (simp add: nth_append)
  then show "read_be16 (d @ t) = read_be16 d" by (simp only: read_be16_def)
next
  assume "8 \<le> length e"
  then have "(e @ t) ! i = e ! i" if "i \<in> set [0..<8]" for i using that by (simp add: nth_append)
  then show "read_be64 (e @ t) = read_be64 e" unfolding read_be64_def by (intro foldl_cong) simp_all
qed

lemma read_length_append:
  assumes "2 \<le> length buf" "read_length buf \<noteq> LengthNeedMore"
  shows "read_length (buf @ t) = read_length buf"
proof -
  have "(buf @ t) ! 1 = buf ! 1" using assms(1) by (simp add: nth_append)
  with assms show ?thesis
    by (simp add: read_length_def Let_def read_be_append split: if_split_asm)
qed

lemma read_length_offset: "2 \<le> length buf \<Longrightarrow> read_length buf = LengthIs n k \<Longrightarrow> 2 \<le> k \<and> k \<le> length buf"
  by (auto simp: read_length_def Let_def split: if_splits)

lemma frame_header_ok:
  assumes "frame_header m buf = HeaderOk fin rsv op masked n off" "2 \<le> length buf"
  shows "2 \<le> off \<and> off \<le> length buf" "is_control_opcode op \<longrightarrow> fin \<and> n \<le> 125" "n \<le> m" "rsv = 0"
proof -
  have "read_length buf = LengthIs n off \<and> rsv = 0 \<and> (is_control_opcode op \<longrightarrow> fin \<and> n \<le> 125) \<and> n \<le> m"
    using assms(1) by (simp add: frame_header_def Let_def not_less split: if_split_asm LengthField.split_asm)
  with read_length_offset [OF assms(2), of n off]
  show "2 \<le> off \<and> off \<le> length buf" "is_control_opcode op \<longrightarrow> fin \<and> n \<le> 125" "n \<le> m" "rsv = 0"
    by simp_all
qed

definition header_length :: "bool \<Rightarrow> nat \<Rightarrow> nat" where
  "header_length masked off = (if masked then off + 4 else off)"

definition frame_of :: "bool \<Rightarrow> byte \<Rightarrow> Opcode \<Rightarrow> bool \<Rightarrow> nat \<Rightarrow> nat \<Rightarrow> byte list \<Rightarrow> Frame" where
  "frame_of fin rsv op masked n off buf =
     (let key = (if masked then take 4 (drop off buf) else [0, 0, 0, 0]);
          payload = take n (drop (header_length masked off) buf)
      in \<lparr>frame_fin = fin, frame_rsv = rsv, frame_opcode = op, frame_masked = masked, frame_mask_key = key,
          frame_payload = (if masked then xor_mask key payload else payload)\<rparr>)"

lemma fp_next_eq:
  "fp_next p =
     (if fp_error p \<noteq> NoError then (ParseFailed, p)
      else if length (fp_buffer p) < 2 then (NeedMore, p)
      else case frame_header (fp_max_payload p) (fp_buffer p) of
          HeaderMore \<Rightarrow> (NeedMore, p)
        | HeaderBad e m \<Rightarrow> (ParseFailed, fp_fail e m p)
        | HeaderOk fin rsv op masked n off \<Rightarrow>
            if length (fp_buffer p) < header_length masked off + unat n then (NeedMore, p)
            else (FrameReady (frame_of fin rsv op masked (unat n) off (fp_buffer p)),
                  p\<lparr>fp_buffer := drop (header_length masked off + unat n) (fp_buffer p)\<rparr>))"
  unfolding fp_next_def header_length_def frame_of_def Let_def
  by (simp split: FrameHeader.split)

lemma frame_header_append:
  assumes "2 \<le> length buf" "frame_header m buf \<noteq> HeaderMore"
  shows "frame_header m (buf @ t) = frame_header m buf"
proof -
  have i: "(buf @ t) ! 0 = buf ! 0" "(buf @ t) ! 1 = buf ! 1" using assms(1) by (auto simp: nth_append)
  show ?thesis
  proof (cases "read_length buf = LengthNeedMore")
    case True
    with assms(2) show ?thesis by (simp add: frame_header_def Let_def i split: if_split_asm)
  next
    case False
    then have "read_length (buf @ t) = read_length buf" using assms(1) by (rule read_length_append [rotated])
    then show ?thesis by (simp only: frame_header_def Let_def i)
  qed
qed

lemma frame_of_append:
  assumes "header_length masked off + n \<le> length buf"
  shows "frame_of fin rsv op masked n off (buf @ t) = frame_of fin rsv op masked n off buf"
  using assms by (cases masked) (simp_all add: frame_of_def header_length_def Let_def)

text \<open>A decision, once reached, is not changed by more input.\<close>

lemma fp_next_append:
  assumes "fp_next p = (r, q)" "r \<noteq> NeedMore"
  shows "fp_next (fp_ext t p) = (r, fp_ext t q)"
proof (cases "fp_error p = NoError")
  case False
  with assms(1) show ?thesis by (simp add: fp_next_eq)
next
  case e: True
  with assms have l: "2 \<le> length (fp_buffer p)" "frame_header (fp_max_payload p) (fp_buffer p) \<noteq> HeaderMore"
    by (auto simp: fp_next_eq split: if_split_asm)
  note h = frame_header_append [OF this, of t]
  show ?thesis
  proof (cases "frame_header (fp_max_payload p) (fp_buffer p)")
    case (HeaderOk fin rsv op masked n off)
    with assms e l have "header_length masked off + unat n \<le> length (fp_buffer p)"
      "r = FrameReady (frame_of fin rsv op masked (unat n) off (fp_buffer p))"
      "q = p\<lparr>fp_buffer := drop (header_length masked off + unat n) (fp_buffer p)\<rparr>"
      by (auto simp: fp_next_eq split: if_split_asm)
    then show ?thesis
      using e l h HeaderOk frame_of_append [of masked off "unat n" "fp_buffer p" fin rsv op t]
      by (simp add: fp_next_eq fp_ext_def)
  qed (use assms e l h in \<open>auto simp: fp_next_eq\<close>)
qed

lemma fp_next_frame:
  assumes "fp_next p = (FrameReady f, q)"
  shows "length (fp_buffer q) + 2 \<le> length (fp_buffer p)" "fp_error p = NoError"
    "q = p\<lparr>fp_buffer := fp_buffer q\<rparr>"
    "frame_rsv f = 0" "is_control_opcode (frame_opcode f) \<longrightarrow> frame_fin f \<and> length (frame_payload f) \<le> 125"
    "length (frame_payload f) \<le> unat (fp_max_payload p)"
proof -
  have l: "2 \<le> length (fp_buffer p)" "fp_error p = NoError"
    using assms by (auto simp: fp_next_eq split: if_split_asm)
  then obtain fin rsv op masked n off where h: "frame_header (fp_max_payload p) (fp_buffer p) = HeaderOk fin rsv op masked n off"
    using assms by (auto simp: fp_next_eq split: FrameHeader.split_asm)
  note ok = frame_header_ok [OF h l(1)]
  have r: "header_length masked off + unat n \<le> length (fp_buffer p)"
    "f = frame_of fin rsv op masked (unat n) off (fp_buffer p)"
    "q = p\<lparr>fp_buffer := drop (header_length masked off + unat n) (fp_buffer p)\<rparr>"
    using assms l h by (auto simp: fp_next_eq split: if_split_asm)
  have f: "length (frame_payload f) = unat n" "frame_opcode f = op" "frame_fin f = fin" "frame_rsv f = rsv"
    using r(1,2) by (auto simp: frame_of_def Let_def)
  show "fp_error p = NoError" by (rule l)
  show "q = p\<lparr>fp_buffer := fp_buffer q\<rparr>" using r(3) by simp
  show "length (fp_buffer q) + 2 \<le> length (fp_buffer p)"
    using r(1,3) ok(1) by (cases masked) (auto simp: header_length_def)
  show "frame_rsv f = 0" using f ok by simp
  show "is_control_opcode (frame_opcode f) \<longrightarrow> frame_fin f \<and> length (frame_payload f) \<le> 125"
    using f ok(2) by (auto simp: word_le_nat_alt)
  show "length (frame_payload f) \<le> unat (fp_max_payload p)"
    using f ok(3) by (simp add: word_le_nat_alt)
qed

lemma frame_header_bad:
  "frame_header m buf = HeaderBad e msg \<Longrightarrow> e \<noteq> NoError"
  by (simp add: frame_header_def Let_def split: if_split_asm LengthField.split_asm)

lemma fp_next_failed: "fp_next p = (ParseFailed, q) \<Longrightarrow> fp_error q \<noteq> NoError"
  by (auto simp: fp_next_eq fp_fail_def frame_header_bad split: if_split_asm FrameHeader.split_asm)

lemma fp_next_failed_buffer: "fp_next p = (ParseFailed, q) \<Longrightarrow> fp_buffer q = fp_buffer p"
  by (auto simp: fp_next_eq fp_fail_def split: if_split_asm FrameHeader.split_asm)

lemma fp_next_NeedMore: "fp_next p = (NeedMore, q) \<Longrightarrow> q = p"
  by (auto simp: fp_next_eq split: if_split_asm FrameHeader.split_asm)
subsection \<open>Round trip\<close>

lemma fp_next_encode:
  assumes "length key = 4" "length payload < 2 ^ 63" "length payload \<le> unat (fp_max_payload p)"
    and "is_control_opcode op \<longrightarrow> fin \<and> length payload \<le> 125"
    and "fp_error p = NoError" "fp_buffer p = encode_frame op payload fin masking key @ rest"
  shows "fp_next p =
    (FrameReady \<lparr>frame_fin = fin, frame_rsv = 0, frame_opcode = op, frame_masked = masking,
       frame_mask_key = (if masking then key else [0, 0, 0, 0]), frame_payload = payload\<rparr>,
     p\<lparr>fp_buffer := rest\<rparr>)"
proof -
  let ?b = "if fin then opcode_value op OR 0x80 else opcode_value op"
  let ?l = "length_bytes masking (length payload)"
  let ?body = "if masking then key @ xor_mask key payload else payload"
  have buf: "fp_buffer p = ?b # ?l @ ?body @ rest"
    using assms(1,6) by (simp add: encode_frame_bytes)
  have b: "?b AND 0x80 \<noteq> 0 \<longleftrightarrow> fin" "drop_bit 4 (?b AND 0x70) = 0" "?b AND 0x0F = opcode_value op"
    by (cases fin; simp only: header_byte0 if_True if_False simp_thms opcode_bits)+
  have u: "unat (of_nat (length payload) :: 64 word) = length payload"
    using assms(2) by (simp add: unsigned_of_nat take_bit_nat_eq_self)
  have small: "\<not> (is_control_opcode op \<and> (of_nat (length payload) :: 64 word) > 125)"
    "\<not> (of_nat (length payload) :: 64 word) > fp_max_payload p"
    using assms(3,4) u by (auto simp: word_less_nat_alt)
  have fp: "fp_buffer p = ?b # ?l @ (if masking then key else []) @ (if masking then xor_mask key payload else payload) @ rest"
    using buf by simp
  show ?thesis
    by (rule fp_next_ready [OF refl assms(5) fp b(1,2,3), THEN trans])
      (use read_length_bytes [OF assms(2)] small assms(1,4) u in \<open>auto simp: u\<close>)
qed

lemma fp_next_client:
  assumes "length key = 4" "length payload < 2 ^ 63" "length payload \<le> unat (fp_max_payload p)"
    and "is_control_opcode op \<longrightarrow> fin \<and> length payload \<le> 125"
    and "fp_error p = NoError" "fp_buffer p = encode_frame op payload fin True key @ rest"
  shows "fp_next p =
    (FrameReady \<lparr>frame_fin = fin, frame_rsv = 0, frame_opcode = op, frame_masked = True,
       frame_mask_key = key, frame_payload = payload\<rparr>,
     p\<lparr>fp_buffer := rest\<rparr>)"
  using fp_next_encode [OF assms] by simp

text \<open>
  A frame written by the encoder and followed by anything is read back
  exactly, masked or not, in all three length encodings, as long as it respects
  the control-frame rules and the configured limit; what follows stays buffered.
\<close>

theorem frame_roundtrip:
  assumes "length key = 4" "length payload < 2 ^ 63" "length payload \<le> unat (fp_max_payload p)"
    and "is_control_opcode op \<longrightarrow> fin \<and> length payload \<le> 125"
    and "fp_error p = NoError" "fp_buffer p = encode_frame op payload fin masking key @ rest"
  shows "fp_next p =
    (FrameReady \<lparr>frame_fin = fin, frame_rsv = 0, frame_opcode = op, frame_masked = masking,
       frame_mask_key = (if masking then key else [0, 0, 0, 0]), frame_payload = payload\<rparr>,
     p\<lparr>fp_buffer := rest\<rparr>)"
  by (rule fp_next_encode [OF assms])

theorem frame_roundtrip_witness:
  "fp_next (fp_feed (encode_frame Text [0x68, 0x69] True True [1, 2, 3, 4] @ [0x88]) (fp_new 1024)) =
    (FrameReady \<lparr>frame_fin = True, frame_rsv = 0, frame_opcode = Text, frame_masked = True,
       frame_mask_key = [1, 2, 3, 4], frame_payload = [0x68, 0x69]\<rparr>,
     (fp_new 1024)\<lparr>fp_buffer := [0x88]\<rparr>)"
  using frame_roundtrip [of "[1, 2, 3, 4]" "[0x68, 0x69]"
      "fp_feed (encode_frame Text [0x68, 0x69] True True [1, 2, 3, 4] @ [0x88]) (fp_new 1024)" Text True True "[0x88]"]
  by (simp add: is_control_iff fp_feed_def fp_new_def encode_frame_bytes)

end
