(* ===== verification/WS_Connection.thy ===== *)
theory WS_Connection
  imports WS_Frame
begin

section \<open>The WebSocket session: \<^verbatim>\<open>websocket_connection.cpp\<close>\<close>

text \<open>
  The session owns what follows a successful upgrade: masking policy,
  reassembly of fragments, echo, Pong replies, the close handshake and the
  keepalive pings.  The event loop calls \<open>ws_feed\<close> with the bytes it read and
  drains \<open>take_output\<close>; both are state transformers on the record \<open>Session\<close>.
  The clock is an argument, in milliseconds.
\<close>

unbundle bit_operations_syntax

subsection \<open>State\<close>

datatype WebSocketState = Established | Closing | Closed

record Session =
  ws_parser :: FrameParser
  ws_max :: "64 word"
  ws_output :: "byte list"
  ws_state :: WebSocketState
  ws_close_sent :: bool
  ws_close_received :: bool
  ws_error :: bool
  ws_frag_active :: bool
  ws_frag_opcode :: Opcode
  ws_frag_payload :: "byte list"
  ws_last_ping :: millis

definition ws_new :: "64 word \<Rightarrow> millis \<Rightarrow> Session" where
  "ws_new max_message now =
     \<lparr>ws_parser = fp_new max_message, ws_max = max_message, ws_output = [], ws_state = Established,
      ws_close_sent = False, ws_close_received = False, ws_error = False, ws_frag_active = False,
      ws_frag_opcode = Text, ws_frag_payload = [], ws_last_ping = now\<rparr>"

definition take_output :: "Session \<Rightarrow> byte list \<times> Session" where
  "take_output c = (ws_output c, c\<lparr>ws_output := []\<rparr>)"

definition has_pending_output :: "Session \<Rightarrow> bool" where
  "has_pending_output c \<longleftrightarrow> ws_output c \<noteq> []"

definition ready_to_close :: "Session \<Rightarrow> bool" where
  "ready_to_close c \<longleftrightarrow> ws_close_sent c \<and> ws_close_received c \<and> ws_output c = []"

subsection \<open>Helpers\<close>

definition bytes_of :: "string \<Rightarrow> byte list" where
  "bytes_of s = map of_char s"

definition append_close_code :: "byte list \<Rightarrow> 16 word \<Rightarrow> byte list" where
  "append_close_code payload cc = payload @ [ucast (drop_bit 8 cc AND 0xFF), ucast (cc AND 0xFF)]"

definition read_close_code :: "byte list \<Rightarrow> 16 word" where
  "read_close_code payload = push_bit 8 (ucast (payload ! 0)) OR ucast (payload ! 1)"

definition valid_close_code :: "16 word \<Rightarrow> bool" where
  "valid_close_code cc \<longleftrightarrow>
     \<not> (cc < 1000 \<or> cc > 4999) \<and> cc \<noteq> 1004 \<and> cc \<noteq> 1005 \<and> cc \<noteq> 1006 \<and> cc \<noteq> 1015"

text \<open>The lead byte: how many continuation bytes follow, its bits, the least code point.\<close>

definition utf8_lead :: "byte \<Rightarrow> (nat \<times> 32 word \<times> 32 word) option" where
  "utf8_lead b =
     (if b AND 0xE0 = 0xC0 then Some (1, ucast (b AND 0x1F), 0x80)
      else if b AND 0xF0 = 0xE0 then Some (2, ucast (b AND 0x0F), 0x800)
      else if b AND 0xF8 = 0xF0 then Some (3, ucast (b AND 0x07), 0x10000)
      else None)"

text \<open>The inner loop over the continuation bytes.\<close>

fun utf8_continue :: "32 word \<Rightarrow> byte list \<Rightarrow> 32 word option" where
  "utf8_continue cp [] = Some cp"
| "utf8_continue cp (c # cs) =
     (if c AND 0xC0 \<noteq> 0x80 then None else utf8_continue (push_bit 6 cp OR ucast (c AND 0x3F)) cs)"

definition code_point_ok :: "32 word \<Rightarrow> 32 word \<Rightarrow> bool" where
  "code_point_ok least cp \<longleftrightarrow> \<not> (cp < least \<or> cp > 0x10FFFF \<or> (cp \<ge> 0xD800 \<and> cp \<le> 0xDFFF))"

function valid_utf8_from :: "byte list \<Rightarrow> nat \<Rightarrow> bool" where
  "valid_utf8_from text i =
     (if i < length text then
        if text ! i \<le> 0x7F then valid_utf8_from text (i + 1)
        else case utf8_lead (text ! i) of None \<Rightarrow> False
          | Some (extra, cp, least) \<Rightarrow>
              if i + extra \<ge> length text then False
              else case utf8_continue cp (take extra (drop (i + 1) text)) of None \<Rightarrow> False
                | Some cp \<Rightarrow> if code_point_ok least cp then valid_utf8_from text (i + (extra + 1)) else False
      else True)"
  by pat_completeness auto
termination by (relation "measure (\<lambda>(text, i). length text - i)") auto

declare valid_utf8_from.simps [simp del]

definition valid_utf8 :: "byte list \<Rightarrow> bool" where
  "valid_utf8 text \<longleftrightarrow> valid_utf8_from text 0"

definition queue_frame :: "Opcode \<Rightarrow> byte list \<Rightarrow> bool \<Rightarrow> Session \<Rightarrow> Session" where
  "queue_frame op payload fin c = c\<lparr>ws_output := ws_output c @ encode_frame op payload fin False []\<rparr>"

subsection \<open>Close handshake\<close>

definition fail_connection :: "16 word \<Rightarrow> string \<Rightarrow> Session \<Rightarrow> Session" where
  "fail_connection cc reason c =
     (if ws_error c then c
      else
        let c = c\<lparr>ws_error := True\<rparr>;
            c = (if \<not> ws_close_sent c
                 then (queue_frame Close (append_close_code [] cc @ bytes_of (take 123 reason)) True c)
                        \<lparr>ws_close_sent := True\<rparr>
                 else c);
            c = c\<lparr>ws_state := Closing, ws_frag_active := False, ws_frag_payload := []\<rparr>
        in if ws_close_sent c \<and> ws_close_received c then c\<lparr>ws_state := Closed\<rparr> else c)"

definition handle_close_payload :: "byte list \<Rightarrow> Session \<Rightarrow> Session" where
  "handle_close_payload payload c =
     (let c = c\<lparr>ws_close_received := True\<rparr> in
      if length payload = 1 then fail_connection 1002 ''malformed close frame payload'' c
      else if length payload \<ge> 2 \<and> \<not> valid_close_code (read_close_code payload)
      then fail_connection 1002 ''invalid close status code'' c
      else
        let c = (if ws_state c = Established
                 then (queue_frame Close payload True c)\<lparr>ws_close_sent := True\<rparr> else c)
        in if ws_close_sent c \<and> ws_close_received c then c\<lparr>ws_state := Closed\<rparr> else c)"

definition initiate_close :: "16 word \<Rightarrow> Session \<Rightarrow> Session" where
  "initiate_close cc c =
     (if ws_state c \<noteq> Established \<or> ws_close_sent c then c
      else (queue_frame Close (append_close_code [] cc) True c)
             \<lparr>ws_close_sent := True, ws_state := Closing\<rparr>)"

subsection \<open>Messages, frames and input\<close>

definition deliver_message :: "Opcode \<Rightarrow> byte list \<Rightarrow> Session \<Rightarrow> Session" where
  "deliver_message op payload c =
     (if op = Text \<and> \<not> valid_utf8 payload
      then fail_connection 1007 ''text message is not valid UTF-8'' c
      else queue_frame op payload True c)"

definition process_frame :: "Frame \<Rightarrow> Session \<Rightarrow> Session" where
  "process_frame f c =
     (if \<not> frame_masked f then fail_connection 1002 ''client frame was not masked'' c
      else if ws_state c \<noteq> Established then
        (if frame_opcode f = Close \<and> \<not> ws_close_received c
         then handle_close_payload (frame_payload f) c else c)
      else case frame_opcode f of
        Close \<Rightarrow> handle_close_payload (frame_payload f) c
      | Ping \<Rightarrow> queue_frame Pong (frame_payload f) True c
      | Pong \<Rightarrow> c
      | Continuation \<Rightarrow>
          if \<not> ws_frag_active c
          then fail_connection 1002 ''continuation frame without a started message'' c
          else if length (ws_frag_payload c) + length (frame_payload f) > unat (ws_max c)
          then fail_connection 1009 ''fragmented message exceeds size limit'' c
          else
            let c = c\<lparr>ws_frag_payload := ws_frag_payload c @ frame_payload f\<rparr> in
            if frame_fin f
            then (deliver_message (ws_frag_opcode c) (ws_frag_payload c) (c\<lparr>ws_frag_active := False\<rparr>))
                   \<lparr>ws_frag_payload := []\<rparr>
            else c
      | op \<Rightarrow> \<comment> \<open>Text and Binary\<close>
          if ws_frag_active c
          then fail_connection 1002 ''new data frame during a fragmented message'' c
          else if frame_fin f then deliver_message op (frame_payload f) c
          else c\<lparr>ws_frag_active := True, ws_frag_opcode := op, ws_frag_payload := frame_payload f\<rparr>)"

lemma keeps_parser [simp]:
  "ws_parser (queue_frame op pl fin c) = ws_parser c"
  "ws_parser (fail_connection cc reason c) = ws_parser c"
  "ws_parser (handle_close_payload pl c) = ws_parser c"
  "ws_parser (deliver_message op pl c) = ws_parser c"
  "ws_parser (process_frame f c) = ws_parser c"
proof -
  show q: "ws_parser (queue_frame op pl fin c) = ws_parser c" for op pl fin c by (simp add: queue_frame_def)
  show f: "ws_parser (fail_connection cc reason c) = ws_parser c" for cc reason c
    by (simp add: fail_connection_def Let_def q)
  show h: "ws_parser (handle_close_payload pl c) = ws_parser c" for pl c
    by (simp add: handle_close_payload_def Let_def q f)
  show d: "ws_parser (deliver_message op pl c) = ws_parser c" for op pl c
    by (simp add: deliver_message_def q f)
  show "ws_parser (process_frame f c) = ws_parser c"
    by (simp add: process_frame_def Let_def q f h d split: Opcode.split)
qed

text \<open>The loop of \<^verbatim>\<open>feed\<close>: every turn consumes a frame or has found a parse error.\<close>

function ws_loop :: "Session \<Rightarrow> Session" where
  "ws_loop c =
     (if fp_has_error (ws_parser c) then
        (let cleared = c\<lparr>ws_parser := fp_clear (ws_parser c)\<rparr> in
         if ws_error c then cleared
         else fail_connection (if fp_error (ws_parser c) = PayloadTooLarge then 1009 else 1002)
                (fp_error_message (ws_parser c)) cleared)
      else case fp_next (ws_parser c) of
        (NeedMore, p) \<Rightarrow> c\<lparr>ws_parser := p\<rparr>
      | (ParseFailed, p) \<Rightarrow> ws_loop (c\<lparr>ws_parser := p\<rparr>)
      | (FrameReady f, p) \<Rightarrow>
          let c' = process_frame f (c\<lparr>ws_parser := p\<rparr>) in
          if ws_error c' then c'\<lparr>ws_parser := fp_clear (ws_parser c')\<rparr> else ws_loop c')"
  by pat_completeness auto
termination
  by (relation "measures [\<lambda>c. length (fp_buffer (ws_parser c)), \<lambda>c. if fp_has_error (ws_parser c) then 0 else 1]")
    (auto simp: fp_has_error_def dest!: sym [of "(_, _)" "fp_next _"] dest: fp_next_failed fp_next_frame(1) fp_next_failed_buffer)

declare ws_loop.simps [simp del]

definition ws_feed :: "byte list \<Rightarrow> Session \<Rightarrow> Session" where
  "ws_feed data c =
     (if ws_state c = Closed then c else ws_loop (c\<lparr>ws_parser := fp_feed data (ws_parser c)\<rparr>))"

definition maybe_queue_ping :: "nat \<Rightarrow> millis \<Rightarrow> Session \<Rightarrow> bool \<times> Session" where
  "maybe_queue_ping interval now c =
     (if interval = 0 \<or> ws_state c \<noteq> Established then (False, c)
      else if now - ws_last_ping c < interval then (False, c)
      else (True, queue_frame Ping [] True (c\<lparr>ws_last_ping := now\<rparr>)))"

subsection \<open>Invariant and wire discipline\<close>

definition ws_ok :: "Session \<Rightarrow> bool" where
  "ws_ok c \<longleftrightarrow>
     fp_max_payload (ws_parser c) = ws_max c \<and>
     (ws_state c = Established \<longleftrightarrow> \<not> ws_close_sent c) \<and>
     (ws_state c = Established \<longrightarrow> \<not> ws_close_received c \<and> \<not> ws_error c) \<and>
     (ws_state c = Closed \<longrightarrow> ws_close_received c) \<and>
     (ws_frag_active c \<longrightarrow> length (ws_frag_payload c) \<le> unat (ws_max c) \<and> is_data_opcode (ws_frag_opcode c) \<and> ws_frag_opcode c \<noteq> Continuation)"

definition msg_bytes :: "Opcode \<times> byte list \<Rightarrow> byte list" where
  "msg_bytes x = encode_frame (fst x) (snd x) True False []"

definition msg_ok :: "64 word \<Rightarrow> Opcode \<times> byte list \<Rightarrow> bool" where
  "msg_ok m x \<longleftrightarrow> (if is_control_opcode (fst x) then length (snd x) \<le> 125 else length (snd x) \<le> unat m)"

definition wire_ok :: "64 word \<Rightarrow> byte list \<Rightarrow> bool \<Rightarrow> bool" where
  "wire_ok m bs sent \<longleftrightarrow>
     (\<exists>ms. bs = concat (map msg_bytes ms) \<and> list_all (msg_ok m) ms \<and>
        list_all (\<lambda>x. fst x \<noteq> Close) (if sent then butlast ms else ms) \<and>
        (sent \<longrightarrow> ms \<noteq> [] \<and> fst (last ms) = Close))"

definition ws_inv :: "byte list \<Rightarrow> Session \<Rightarrow> bool" where
  "ws_inv e c \<longleftrightarrow> ws_ok c \<and> wire_ok (ws_max c) (e @ ws_output c) (ws_close_sent c)"

lemma wire_ok_queue:
  assumes "wire_ok m bs False" "msg_ok m (op, pl)"
  shows "wire_ok m (bs @ encode_frame op pl True False []) (op = Close)"
proof -
  obtain ms where ms: "bs = concat (map msg_bytes ms)" "list_all (msg_ok m) ms" "list_all (\<lambda>x. fst x \<noteq> Close) ms"
    using assms(1) by (auto simp: wire_ok_def)
  show ?thesis unfolding wire_ok_def
    by (rule exI [where x = "ms @ [(op, pl)]"]) (use ms assms(2) in \<open>simp add: msg_bytes_def\<close>)
qed

lemma control_Close [simp]: "is_control_opcode Close" "is_control_opcode Ping" "is_control_opcode Pong"
  "\<not> is_control_opcode Text" "\<not> is_control_opcode Binary" "\<not> is_control_opcode Continuation"
  by (simp_all add: is_control_iff)

lemma ws_inv_queue:
  assumes "ws_inv e c" "ws_state c = Established" "op \<noteq> Close" "msg_ok (ws_max c) (op, pl)"
  shows "ws_inv e (queue_frame op pl True c)"
proof -
  have o: "ws_ok c" "\<not> ws_close_sent c" using assms(1,2) by (auto simp: ws_inv_def ws_ok_def)
  then have "wire_ok (ws_max c) (e @ ws_output c) False" using assms(1) by (simp add: ws_inv_def)
  from wire_ok_queue [OF this assms(4)] assms(3) o show ?thesis
    by (simp add: ws_inv_def ws_ok_def queue_frame_def)
qed

lemma ws_inv_fail:
  assumes "ws_ok c \<or> ws_ok (c\<lparr>ws_close_received := False\<rparr>)" "wire_ok (ws_max c) (e @ ws_output c) (ws_close_sent c)"
  shows "ws_inv e (fail_connection cc reason c)"
proof -
  have m: "msg_ok (ws_max c) (Close, append_close_code [] cc @ bytes_of (take 123 reason))"
    by (simp add: msg_ok_def append_close_code_def bytes_of_def)
  show ?thesis
  proof (cases "ws_error c")
    case True
    with assms show ?thesis by (auto simp: fail_connection_def ws_inv_def ws_ok_def)
  next
    case False
    then show ?thesis
    using assms wire_ok_queue [OF _ m, of "e @ ws_output c"]
    by (auto simp: fail_connection_def Let_def ws_inv_def ws_ok_def queue_frame_def)
  qed
qed

lemma ws_inv_close_payload:
  assumes "ws_inv e c" "length pl \<le> 125"
  shows "ws_inv e (handle_close_payload pl c)"
proof -
  let ?c = "c\<lparr>ws_close_received := True\<rparr>"
  have w: "wire_ok (ws_max c) (e @ ws_output c) (ws_close_sent c)" "ws_ok c" using assms by (auto simp: ws_inv_def)
  have f: "ws_inv e (fail_connection cc reason ?c)" for cc reason
  proof (rule ws_inv_fail)
    show "ws_ok ?c \<or> ws_ok (?c\<lparr>ws_close_received := False\<rparr>)"
      using w(2) by (cases "ws_state c = Established") (auto simp: ws_ok_def)
  qed (use w in simp)
  have m: "msg_ok (ws_max c) (Close, pl)" using assms(2) by (simp add: msg_ok_def)
  show ?thesis
  proof (cases "length pl = 1 \<or> (length pl \<ge> 2 \<and> \<not> valid_close_code (read_close_code pl))")
    case True
    then show ?thesis using f by (auto simp: handle_close_payload_def Let_def)
  next
    case good: False
    then have g: "\<not> length pl = 1" "\<not> (length pl \<ge> 2 \<and> \<not> valid_close_code (read_close_code pl))" by blast+
    have h: "handle_close_payload pl c =
        (let c = ?c; c = (if ws_state c = Established
                 then (queue_frame Close pl True c)\<lparr>ws_close_sent := True\<rparr> else c)
        in if ws_close_sent c \<and> ws_close_received c then c\<lparr>ws_state := Closed\<rparr> else c)"
      by (simp only: handle_close_payload_def g if_False Let_def)
    show ?thesis
    proof (cases "ws_state c = Established")
      case True
      then have "\<not> ws_close_sent c" using w(2) by (simp add: ws_ok_def)
      with True show ?thesis
        using w wire_ok_queue [OF _ m, of "e @ ws_output c"]
        unfolding h Let_def
        by (simp add: ws_inv_def ws_ok_def queue_frame_def)
    next
      case False
      with w show ?thesis
        unfolding h Let_def
        by (auto simp: ws_inv_def ws_ok_def)
    qed
  qed
qed

lemma ws_inv_deliver:
  assumes "ws_inv e c" "ws_state c = Established" "op = Text \<or> op = Binary" "length pl \<le> unat (ws_max c)"
  shows "ws_inv e (deliver_message op pl c)"
proof -
  have "msg_ok (ws_max c) (op, pl)" using assms(3,4) by (auto simp: msg_ok_def)
  moreover have "ws_inv e (fail_connection 1007 ''text message is not valid UTF-8'' c)"
    using assms(1) by (intro ws_inv_fail) (auto simp: ws_inv_def)
  ultimately show ?thesis using assms ws_inv_queue [of e c op pl] by (auto simp: deliver_message_def)
qed

lemma ws_keep_max [simp]:
  "ws_max (queue_frame op pl fin c) = ws_max c" "ws_max (fail_connection cc reason c) = ws_max c"
  "ws_max (handle_close_payload pl c) = ws_max c" "ws_max (deliver_message op pl c) = ws_max c"
  by (simp_all add: queue_frame_def fail_connection_def handle_close_payload_def deliver_message_def Let_def)

lemma ws_inv_frag:
  "ws_inv e c \<Longrightarrow> ws_inv e (c\<lparr>ws_frag_payload := []\<rparr>)" "ws_inv e c \<Longrightarrow> ws_inv e (c\<lparr>ws_frag_active := False\<rparr>)"
  "ws_inv e c \<Longrightarrow> length pl \<le> unat (ws_max c) \<Longrightarrow> ws_inv e (c\<lparr>ws_frag_payload := pl\<rparr>)"
  "ws_inv e c \<Longrightarrow> length pl \<le> unat (ws_max c) \<Longrightarrow> op = Text \<or> op = Binary \<Longrightarrow>
     ws_inv e (c\<lparr>ws_frag_active := True, ws_frag_opcode := op, ws_frag_payload := pl\<rparr>)"
  by (auto simp: ws_inv_def ws_ok_def is_data_iff)

lemma ws_inv_any_fail: "ws_inv e c \<Longrightarrow> ws_inv e (fail_connection cc reason c)"
  by (rule ws_inv_fail) (auto simp: ws_inv_def)

lemma ws_inv_frag_opcode: "ws_inv e c \<Longrightarrow> ws_frag_active c \<Longrightarrow> ws_frag_opcode c = Text \<or> ws_frag_opcode c = Binary"
  by (cases "ws_frag_opcode c") (auto simp: ws_inv_def ws_ok_def is_data_iff)

definition frame_ok :: "64 word \<Rightarrow> Frame \<Rightarrow> bool" where
  "frame_ok m f \<longleftrightarrow> length (frame_payload f) \<le> unat m \<and>
     (is_control_opcode (frame_opcode f) \<longrightarrow> frame_fin f \<and> length (frame_payload f) \<le> 125)"

lemma ws_inv_continuation:
  assumes "ws_inv e c" "ws_state c = Established" "ws_frag_active c"
    "length pl \<le> unat (ws_max c)"
  shows "ws_inv e ((deliver_message (ws_frag_opcode c) pl (c\<lparr>ws_frag_payload := x, ws_frag_active := False\<rparr>))\<lparr>ws_frag_payload := []\<rparr>)"
proof (rule ws_inv_frag(1), rule ws_inv_deliver)
  show "ws_inv e (c\<lparr>ws_frag_payload := x, ws_frag_active := False\<rparr>)"
    using assms(1) by (auto simp: ws_inv_def ws_ok_def)
qed (use assms ws_inv_frag_opcode in auto)

lemma ws_inv_process:
  assumes inv: "ws_inv e c" and f: "frame_ok (ws_max c) f"
  shows "ws_inv e (process_frame f c)"
proof (cases "frame_masked f \<and> ws_state c = Established")
  case False
  then show ?thesis
    using ws_inv_any_fail [OF inv] ws_inv_close_payload [OF inv] inv f
    by (auto simp: process_frame_def frame_ok_def)
next
  case True
  note q = ws_inv_queue [OF inv _ _ , of Pong "frame_payload f"]
  note d = ws_inv_deliver [OF inv, of _ "frame_payload f"]
  note frag = ws_inv_frag(4) [OF inv, of "frame_payload f"]
  note ct = ws_inv_continuation [OF inv] ws_inv_frag(3) [OF inv]
  have l: "length (frame_payload f) \<le> unat (ws_max c)" using f by (simp add: frame_ok_def)
  show ?thesis
  proof (cases "frame_opcode f")
    case Continuation
    with True ct ws_inv_any_fail [OF inv] show ?thesis by (simp add: process_frame_def Let_def not_less)
  next
    case Text
    with True d frag l ws_inv_any_fail [OF inv] show ?thesis by (simp add: process_frame_def)
  next
    case Binary
    with True d frag l ws_inv_any_fail [OF inv] show ?thesis by (simp add: process_frame_def)
  next
    case Close
    with True f ws_inv_close_payload [OF inv] show ?thesis by (simp add: process_frame_def frame_ok_def)
  next
    case Ping
    with True f q show ?thesis by (simp add: process_frame_def frame_ok_def msg_ok_def)
  next
    case Pong
    with True inv show ?thesis by (simp add: process_frame_def)
  qed
qed

lemma ws_inv_set_parser:
  "ws_inv e c \<Longrightarrow> fp_max_payload p = fp_max_payload (ws_parser c) \<Longrightarrow> ws_inv e (c\<lparr>ws_parser := p\<rparr>)"
  by (simp add: ws_inv_def ws_ok_def)

lemma fp_next_max: "fp_next p = (r, q) \<Longrightarrow> fp_max_payload q = fp_max_payload p"
  by (auto simp: fp_next_eq fp_fail_def split: if_split_asm FrameHeader.split_asm)

lemma fp_next_frame_ok: "fp_next p = (FrameReady f, q) \<Longrightarrow> frame_ok (fp_max_payload p) f"
  using fp_next_frame(5,6) by (simp add: frame_ok_def)

lemma ws_loop_cases:
  obtains (bad) "fp_has_error (ws_parser c)"
    | (need) "\<not> fp_has_error (ws_parser c)" "fp_next (ws_parser c) = (NeedMore, ws_parser c)" "ws_loop c = c"
    | (failed) p where "\<not> fp_has_error (ws_parser c)" "fp_next (ws_parser c) = (ParseFailed, p)" "fp_has_error p" "ws_loop c = ws_loop (c\<lparr>ws_parser := p\<rparr>)"
    | (frame) f p where "\<not> fp_has_error (ws_parser c)" "fp_next (ws_parser c) = (FrameReady f, p)"
proof -
  obtain r p where n: "fp_next (ws_parser c) = (r, p)" by fastforce
  show thesis
  proof (cases "fp_has_error (ws_parser c)")
    case False
    show thesis
    proof (cases r)
      case NeedMore
      have "p = ws_parser c" using n NeedMore fp_next_NeedMore by blast
      then show thesis using need False n NeedMore by (simp add: ws_loop.simps [of c])
    next
      case (FrameReady f)
      then show thesis using frame False n by blast
    next
      case ParseFailed
      have "fp_has_error p" using n ParseFailed fp_next_failed by (simp add: fp_has_error_def)
      then show thesis using failed [of p] False n ParseFailed by (simp add: ws_loop.simps [of c])
    qed
  qed (rule bad)
qed

lemma ws_loop_inv: "ws_inv e c \<Longrightarrow> ws_inv e (ws_loop c)"
proof (induction c rule: ws_loop.induct)
  case (1 c)
  have max: "fp_max_payload (ws_parser c) = ws_max c" using 1(3) by (simp add: ws_inv_def ws_ok_def)
  show ?case
  proof (cases c rule: ws_loop_cases)
    case bad
    then show ?thesis
      using ws_inv_set_parser [OF 1(3), of "fp_clear (ws_parser c)"]
      by (subst ws_loop.simps) (simp add: Let_def fp_clear_def ws_inv_any_fail)
  next
    case need
    with 1(3) show ?thesis by simp
  next
    case (failed p)
    then have "ws_inv e (ws_loop (c\<lparr>ws_parser := p\<rparr>))"
      using 1(2) [OF failed(1) failed(2) [symmetric] refl] ws_inv_set_parser [OF 1(3)] fp_next_max [OF failed(2)] by simp
    with failed(4) show ?thesis by simp
  next
    case (frame f p)
    let ?c = "process_frame f (c\<lparr>ws_parser := p\<rparr>)"
    have p: "fp_max_payload p = ws_max c" using frame(2) fp_next_max max by fastforce
    have ok: "frame_ok (ws_max (c\<lparr>ws_parser := p\<rparr>)) f" using fp_next_frame_ok [OF frame(2)] max by simp
    have i: "ws_inv e ?c"
      by (rule ws_inv_process [OF ws_inv_set_parser [OF 1(3)] ok]) (simp add: p max)
    have "ws_inv e (?c\<lparr>ws_parser := fp_clear p\<rparr>)"
      by (rule ws_inv_set_parser [OF i]) (simp add: fp_clear_def)
    moreover have "\<not> ws_error ?c \<Longrightarrow> ws_inv e (ws_loop ?c)"
      using 1(1) [OF frame(1) frame(2) [symmetric] refl refl] i by simp
    ultimately show ?thesis
      using frame i by (subst ws_loop.simps) (simp add: Let_def)
  qed
qed

lemma ws_feed_inv: "ws_inv e c \<Longrightarrow> ws_inv e (ws_feed data c)"
  by (simp add: ws_feed_def ws_loop_inv ws_inv_set_parser fp_feed_def)

text \<open>
  Everything a session can do, with the bytes handed to the socket so far.
\<close>

inductive ws_run :: "64 word \<Rightarrow> byte list \<Rightarrow> Session \<Rightarrow> bool" for m where
  start: "ws_run m [] (ws_new m now)"
| feed: "ws_run m e c \<Longrightarrow> ws_run m e (ws_feed data c)"
| shutdown: "ws_run m e c \<Longrightarrow> ws_run m e (initiate_close cc c)"
| ping: "ws_run m e c \<Longrightarrow> ws_run m e (snd (maybe_queue_ping interval now c))"
| drain: "ws_run m e c \<Longrightarrow> ws_run m (e @ fst (take_output c)) (snd (take_output c))"

lemma ws_max_process [simp]: "ws_max (process_frame f c) = ws_max c"
  by (simp add: process_frame_def Let_def split: Opcode.split)

lemma ws_max_loop [simp]: "ws_max (ws_loop c) = ws_max c"
proof (induction c rule: ws_loop.induct)
  case (1 c)
  show ?case
  proof (cases c rule: ws_loop_cases)
    case (failed p)
    then show ?thesis using 1(2) [OF failed(1) failed(2) [symmetric] refl] by simp
  next
    case (frame f p)
    then show ?thesis using 1(1) [OF frame(1) frame(2) [symmetric] refl refl]
      by (subst ws_loop.simps) (simp add: Let_def)
  qed (subst ws_loop.simps; simp add: Let_def)+
qed

lemma ws_inv_initiate: "ws_inv e c \<Longrightarrow> ws_inv e (initiate_close cc c)"
proof -
  assume inv: "ws_inv e c"
  have m: "msg_ok (ws_max c) (Close, append_close_code [] cc)" by (simp add: msg_ok_def append_close_code_def)
  show ?thesis
  proof (cases "ws_state c = Established \<and> \<not> ws_close_sent c")
    case True
    then have "wire_ok (ws_max c) (e @ ws_output c) False" using inv by (simp add: ws_inv_def)
    from wire_ok_queue [OF this m] inv True show ?thesis
      by (simp add: initiate_close_def ws_inv_def ws_ok_def queue_frame_def)
  qed (use inv in \<open>auto simp: initiate_close_def\<close>)
qed

lemma ws_inv_ping: "ws_inv e c \<Longrightarrow> ws_inv e (snd (maybe_queue_ping interval now c))"
  using ws_inv_queue [of e "c\<lparr>ws_last_ping := now\<rparr>" Ping "[]"]
  by (simp add: maybe_queue_ping_def msg_ok_def) (simp add: ws_inv_def ws_ok_def)

lemma ws_run_inv: "ws_run m e c \<Longrightarrow> ws_inv e c \<and> ws_max c = m"
proof (induction rule: ws_run.induct)
  case (start now)
  have "wire_ok m [] False" unfolding wire_ok_def by (rule exI [where x = "[]"]) simp
  then show ?case by (simp add: ws_new_def ws_inv_def ws_ok_def fp_new_def)
next
  case (drain e c)
  then show ?case by (auto simp: take_output_def ws_inv_def ws_ok_def)
qed (simp_all add: ws_feed_inv ws_inv_initiate ws_inv_ping, simp_all add: ws_feed_def initiate_close_def maybe_queue_ping_def)

text \<open>
  C24: Whatever the client sends and whenever the server pings, shuts down or
  flushes, the bytes produced for the socket are a sequence of whole, final,
  unmasked frames within the size limits; a Close frame is sent at most once and
  nothing follows it; the session is open exactly as long as no Close was sent,
  and it is closed only when the peer's Close has arrived too.
\<close>

theorem close_discipline:
  assumes "ws_run m e c"
  shows "\<exists>ms. e @ ws_output c = concat (map msg_bytes ms) \<and> list_all (msg_ok m) ms \<and>
     list_all (\<lambda>x. fst x \<noteq> Close) (if ws_close_sent c then butlast ms else ms) \<and>
     (ws_close_sent c \<longrightarrow> ms \<noteq> [] \<and> fst (last ms) = Close) \<and>
     (ws_state c = Established \<longleftrightarrow> \<not> ws_close_sent c) \<and> (ws_state c = Closed \<longrightarrow> ws_close_received c)"
  using ws_run_inv [OF assms] unfolding ws_inv_def ws_ok_def wire_ok_def by auto

theorem close_discipline_witness:
  "\<exists>ms. [] @ ws_output (initiate_close 1001 (ws_new 1024 0)) = concat (map msg_bytes ms) \<and> list_all (msg_ok 1024) ms \<and>
     list_all (\<lambda>x. fst x \<noteq> Close) (if ws_close_sent (initiate_close 1001 (ws_new 1024 0)) then butlast ms else ms) \<and>
     (ws_close_sent (initiate_close 1001 (ws_new 1024 0)) \<longrightarrow> ms \<noteq> [] \<and> fst (last ms) = Close) \<and>
     (ws_state (initiate_close 1001 (ws_new 1024 0)) = Established \<longleftrightarrow> \<not> ws_close_sent (initiate_close 1001 (ws_new 1024 0))) \<and>
     (ws_state (initiate_close 1001 (ws_new 1024 0)) = Closed \<longrightarrow> ws_close_received (initiate_close 1001 (ws_new 1024 0)))"
  by (rule close_discipline [OF ws_run.shutdown [OF ws_run.start]])

subsection \<open>Cutting the input\<close>

lemma swap_parser:
  "c\<lparr>ws_parser := p, ws_close_received := b\<rparr> = c\<lparr>ws_close_received := b, ws_parser := p\<rparr>"
  "c\<lparr>ws_parser := p, ws_frag_payload := x\<rparr> = c\<lparr>ws_frag_payload := x, ws_parser := p\<rparr>"
  "c\<lparr>ws_parser := p, ws_frag_active := a\<rparr> = c\<lparr>ws_frag_active := a, ws_parser := p\<rparr>"
  "c\<lparr>ws_parser := p, ws_frag_opcode := op\<rparr> = c\<lparr>ws_frag_opcode := op, ws_parser := p\<rparr>"
  by (cases c; simp)+

lemma commute_parser:
  "queue_frame op pl fin (c\<lparr>ws_parser := p\<rparr>) = (queue_frame op pl fin c)\<lparr>ws_parser := p\<rparr>"
  "fail_connection cc reason (c\<lparr>ws_parser := p\<rparr>) = (fail_connection cc reason c)\<lparr>ws_parser := p\<rparr>"
  "handle_close_payload pl (c\<lparr>ws_parser := p\<rparr>) = (handle_close_payload pl c)\<lparr>ws_parser := p\<rparr>"
  "deliver_message op pl (c\<lparr>ws_parser := p\<rparr>) = (deliver_message op pl c)\<lparr>ws_parser := p\<rparr>"
proof -
  show q: "queue_frame op pl fin (c\<lparr>ws_parser := p\<rparr>) = (queue_frame op pl fin c)\<lparr>ws_parser := p\<rparr>" for op pl fin c
    by (simp add: queue_frame_def)
  show f: "fail_connection cc reason (c\<lparr>ws_parser := p\<rparr>) = (fail_connection cc reason c)\<lparr>ws_parser := p\<rparr>" for cc reason c
    by (simp add: fail_connection_def Let_def queue_frame_def)
  show "handle_close_payload pl (c\<lparr>ws_parser := p\<rparr>) = (handle_close_payload pl c)\<lparr>ws_parser := p\<rparr>"
    using f [of _ _ "c\<lparr>ws_close_received := True\<rparr>"]
    by (simp add: handle_close_payload_def Let_def queue_frame_def swap_parser)
  show "deliver_message op pl (c\<lparr>ws_parser := p\<rparr>) = (deliver_message op pl c)\<lparr>ws_parser := p\<rparr>"
    by (simp add: deliver_message_def q f)
qed

lemma process_parser: "process_frame f (c\<lparr>ws_parser := p\<rparr>) = (process_frame f c)\<lparr>ws_parser := p\<rparr>"
  by (cases "frame_opcode f"; simp only: process_frame_def Let_def Opcode.case commute_parser
      swap_parser if_distrib [of "ws_parser_update _"]; simp cong: if_cong)

definition ws_ext :: "byte list \<Rightarrow> Session \<Rightarrow> Session" where
  "ws_ext t c = c\<lparr>ws_parser := fp_ext t (ws_parser c)\<rparr>"

lemma ws_fail_error [simp]: "ws_error (fail_connection cc reason c)"
  by (simp add: fail_connection_def queue_frame_def Let_def)

lemma ws_loop_bad: "fp_has_error (ws_parser c) \<Longrightarrow> ws_error (ws_loop c)"
  by (subst ws_loop.simps) (simp add: Let_def)

text \<open>Without a violation, the loop resumes where the previous read left it.\<close>

lemma ws_loop_resume:
  "\<not> ws_error (ws_loop c) \<Longrightarrow> ws_loop (ws_ext t c) = ws_loop (ws_ext t (ws_loop c))"
proof (induction c rule: ws_loop.induct)
  case (1 c)
  show ?case
  proof (cases c rule: ws_loop_cases)
    case bad
    then show ?thesis using ws_loop_bad 1(3) by blast
  next
    case need
    then show ?thesis by simp
  next
    case (failed p)
    then show ?thesis using ws_loop_bad [of "c\<lparr>ws_parser := p\<rparr>"] 1(3) by simp
  next
    case (frame f p)
    let ?c = "process_frame f (c\<lparr>ws_parser := p\<rparr>)"
    have eq: "ws_loop c = (if ws_error ?c then ?c\<lparr>ws_parser := fp_clear (ws_parser ?c)\<rparr> else ws_loop ?c)"
      using frame by (subst ws_loop.simps) (simp add: Let_def)
    have good: "\<not> ws_error ?c"
    proof
      assume "ws_error ?c"
      then have "ws_error (ws_loop c)" by (simp add: eq)
      with 1(3) show False by simp
    qed
    have n: "fp_next (fp_ext t (ws_parser c)) = (FrameReady f, fp_ext t p)"
      by (rule fp_next_append [OF frame(2)]) simp
    have e: "\<not> fp_has_error (fp_ext t (ws_parser c))" using frame(1) by (simp add: fp_has_error_def)
    have ext: "process_frame f (ws_ext t c\<lparr>ws_parser := fp_ext t p\<rparr>) = ws_ext t ?c"
      by (simp add: ws_ext_def process_parser)
    have ge: "\<not> ws_error (ws_ext t ?c)" using good by (simp add: ws_ext_def)
    have pe: "ws_parser (ws_ext t c) = fp_ext t (ws_parser c)" by (simp add: ws_ext_def)
    have "ws_loop (ws_ext t c) = ws_loop (ws_ext t ?c)"
      by (subst ws_loop.simps [of "ws_ext t c"]) (simp add: Let_def pe n e ext ge)
    moreover have "ws_loop (ws_ext t ?c) = ws_loop (ws_ext t (ws_loop ?c))"
      using 1(1) [OF frame(1) frame(2) [symmetric] refl refl] good 1(3) eq by simp
    ultimately show ?thesis using eq good by simp
  qed
qed

text \<open>Between two reads the parser holds no error: the loop reports it and clears it.\<close>

lemma ws_loop_clean: "\<not> fp_has_error (ws_parser (ws_loop c))"
proof (induction c rule: ws_loop.induct)
  case (1 c)
  show ?case
  proof (cases c rule: ws_loop_cases)
    case bad
    then show ?thesis by (subst ws_loop.simps) (simp add: Let_def fp_clear_def fp_has_error_def)
  next
    case need
    then show ?thesis by simp
  next
    case (failed p)
    then show ?thesis using 1(2) [OF failed(1) failed(2) [symmetric] refl] by simp
  next
    case (frame f p)
    then show ?thesis
      using 1(1) [OF frame(1) frame(2) [symmetric] refl refl]
      by (subst ws_loop.simps) (simp add: Let_def fp_clear_def fp_has_error_def)
  qed
qed

lemma ws_run_clean: "ws_run m e c \<Longrightarrow> \<not> fp_has_error (ws_parser c)"
proof (induction rule: ws_run.induct)
  case (feed e c data)
  then show ?case by (simp add: ws_feed_def ws_loop_clean)
qed (simp_all add: ws_new_def fp_new_def fp_has_error_def initiate_close_def maybe_queue_ping_def take_output_def)

lemma ws_feed_eq: "\<not> fp_has_error (ws_parser c) \<Longrightarrow> ws_state c \<noteq> Closed \<Longrightarrow> ws_feed t c = ws_loop (ws_ext t c)"
  by (cases t) (auto simp: ws_feed_def fp_feed_def ws_ext_def fp_ext_def fp_has_error_def intro!: arg_cong [of _ _ ws_loop])

lemma ws_ext_ext: "ws_ext b (ws_ext a c) = ws_ext (a @ b) c"
  by (simp add: ws_ext_def fp_ext_def)

text \<open>What the peer and the event loop observe of a session.\<close>

definition ws_view :: "Session \<Rightarrow> byte list \<times> WebSocketState \<times> bool \<times> bool" where
  "ws_view c = (ws_output c, ws_state c, ws_close_sent c, ws_close_received c)"

text \<open>Once both Close frames are exchanged nothing changes what is observed.\<close>

lemma ws_closed_fail:
  assumes "ws_state c = Closed" "ws_close_sent c" "ws_close_received c"
  shows "ws_view (fail_connection cc reason c) = ws_view c"
  using assms by (simp add: ws_view_def fail_connection_def Let_def)

lemma ws_closed_process:
  assumes "ws_state c = Closed" "ws_close_sent c" "ws_close_received c"
  shows "ws_view (process_frame f c) = ws_view c"
  using assms ws_closed_fail [OF assms] by (simp add: process_frame_def)

lemma ws_view_parser [simp]: "ws_view (c\<lparr>ws_parser := p\<rparr>) = ws_view c"
  by (simp add: ws_view_def)

lemma ws_closed_loop:
  "ws_state c = Closed \<Longrightarrow> ws_close_sent c \<Longrightarrow> ws_close_received c \<Longrightarrow> ws_view (ws_loop c) = ws_view c"
proof (induction c rule: ws_loop.induct)
  case (1 c)
  show ?case
  proof (cases c rule: ws_loop_cases)
    case bad
    then show ?thesis
      using ws_closed_fail [of "c\<lparr>ws_parser := fp_clear (ws_parser c)\<rparr>"] 1(3-5)
      by (subst ws_loop.simps) (simp add: Let_def)
  next
    case need
    then show ?thesis by simp
  next
    case (failed p)
    then show ?thesis using 1(2) [OF failed(1) failed(2) [symmetric] refl] 1(3-5) by simp
  next
    case (frame f p)
    let ?c = "process_frame f (c\<lparr>ws_parser := p\<rparr>)"
    have v: "ws_view ?c = ws_view c" using ws_closed_process [of "c\<lparr>ws_parser := p\<rparr>"] 1(3-5) by simp
    then have "ws_state ?c = Closed" "ws_close_sent ?c" "ws_close_received ?c"
      using 1(3-5) by (auto simp: ws_view_def)
    then have "\<not> ws_error ?c \<Longrightarrow> ws_view (ws_loop ?c) = ws_view ?c"
      using 1(1) [OF frame(1) frame(2) [symmetric] refl refl] by blast
    then show ?thesis using frame v by (subst ws_loop.simps) (simp add: Let_def)
  qed
qed



end
