(* ===== verification/WS_Utf8.thy ===== *)
theory WS_Utf8
  imports WS_Connection
begin

section \<open>The UTF-8 validator against RFC 3629\<close>

text \<open>
  \<open>valid_utf8\<close> works on bits of 32-bit words with an index loop.  This theory
  relates it to the textbook definition: a text is valid exactly when it is the
  concatenation of the encodings of Unicode scalar values.
\<close>

unbundle bit_operations_syntax

lemma unat_byte_lt: "unat (b :: byte) < 256"
  using unsigned_less [of b] by simp

lemma low_bits:
  fixes b :: byte
  shows "unat (b AND 0x1F) = unat b mod 32" "unat (b AND 0x0F) = unat b mod 16"
    "unat (b AND 0x07) = unat b mod 8" "unat (b AND 0x3F) = unat b mod 64"
proof -
  have m: "b AND mask n = take_bit n b" for n by (simp add: take_bit_eq_mask)
  have "unat (b AND mask n) = unat b mod 2 ^ n" for n
    unfolding m unsigned_take_bit_eq by (rule take_bit_eq_mod)
  from this [of 5] this [of 4] this [of 3] this [of 6]
  show "unat (b AND 0x1F) = unat b mod 32" "unat (b AND 0x0F) = unat b mod 16"
    "unat (b AND 0x07) = unat b mod 8" "unat (b AND 0x3F) = unat b mod 64"
    by (simp_all add: mask_eq_exp_minus_1)
qed

lemma high_bits: 
  fixes b :: byte
  assumes "k \<le> 8"
  shows "unat (b AND push_bit k (mask (8 - k))) = unat b div 2 ^ k * 2 ^ k"
proof -
  have "b AND push_bit k (mask (8 - k)) = push_bit k (drop_bit k b)"
    using assms by (intro bit_word_eqI) (auto simp: bit_simps)
  moreover have "unat (push_bit k (drop_bit k b)) = unat b div 2 ^ k * 2 ^ k"
  proof -
    have "unat b div 2 ^ k * 2 ^ k \<le> unat b" by simp
    then have "unat b div 2 ^ k * 2 ^ k < 256" using unat_byte_lt [of b] by linarith
    moreover have "take_bit 8 (unat b) = unat b" using unat_byte_lt [of b] by (simp add: take_bit_nat_eq_self)
    ultimately show ?thesis
      unfolding unsigned_push_bit_eq unsigned_drop_bit_eq
      by (simp add: drop_bit_eq_div push_bit_eq_mult take_bit_nat_eq_self)
  qed
  ultimately show ?thesis by simp
qed

lemma byte_classes:
  fixes b :: byte
  shows "b \<le> 0x7F \<longleftrightarrow> unat b < 128" "b AND 0xE0 = 0xC0 \<longleftrightarrow> 192 \<le> unat b \<and> unat b < 224"
    "b AND 0xF0 = 0xE0 \<longleftrightarrow> 224 \<le> unat b \<and> unat b < 240" "b AND 0xF8 = 0xF0 \<longleftrightarrow> 240 \<le> unat b \<and> unat b < 248"
    "b AND 0xC0 = 0x80 \<longleftrightarrow> 128 \<le> unat b \<and> unat b < 192"
proof -
  have h: "unat (b AND 0xE0) = unat b div 32 * 32" "unat (b AND 0xF0) = unat b div 16 * 16"
    "unat (b AND 0xF8) = unat b div 8 * 8" "unat (b AND 0xC0) = unat b div 64 * 64"
    using high_bits [of 5 b] high_bits [of 4 b] high_bits [of 3 b] high_bits [of 6 b]
    by (simp_all add: mask_eq_exp_minus_1 push_bit_eq_mult)
  show "b \<le> 0x7F \<longleftrightarrow> unat b < 128" by (simp add: word_le_nat_alt) linarith
  show "b AND 0xE0 = 0xC0 \<longleftrightarrow> 192 \<le> unat b \<and> unat b < 224"
    unfolding word_unat_eq_iff [where 'a = 8] h by simp linarith
  show "b AND 0xF0 = 0xE0 \<longleftrightarrow> 224 \<le> unat b \<and> unat b < 240"
    unfolding word_unat_eq_iff [where 'a = 8] h by simp linarith
  show "b AND 0xF8 = 0xF0 \<longleftrightarrow> 240 \<le> unat b \<and> unat b < 248"
    unfolding word_unat_eq_iff [where 'a = 8] h by simp linarith
  show "b AND 0xC0 = 0x80 \<longleftrightarrow> 128 \<le> unat b \<and> unat b < 192"
    unfolding word_unat_eq_iff [where 'a = 8] h by simp linarith
qed

lemma shift_or: "k < 64 \<Longrightarrow> push_bit 6 m OR k = m * 64 + (k :: nat)"
proof -
  assume k: "k < 64"
  have "\<not> bit (push_bit 6 m) n \<or> \<not> bit k n" for n
  proof (cases "n < 6")
    case False
    then have "(2::nat) ^ 6 \<le> 2 ^ n" by (intro power_increasing) auto
    with k have "\<not> bit k n" by (simp add: bit_iff_odd)
    then show ?thesis by simp
  qed (simp add: bit_simps)
  then have "push_bit 6 m + k = push_bit 6 m OR k" by (rule disjunctive_add)
  then show ?thesis by (simp add: push_bit_eq_mult)
qed

lemma continue_step:
  assumes "unat cp < 2 ^ 26"
  shows "unat (push_bit 6 cp OR ucast (c AND 0x3F :: byte) :: 32 word) = unat cp * 64 + unat c mod 64"
proof -
  have "unat (ucast (c AND 0x3F :: byte) :: 32 word) = unat c mod 64"
    using low_bits(4) [of c] by (simp add: unsigned_ucast_eq take_bit_nat_eq_self)
  moreover have "unat (push_bit 6 cp) = push_bit 6 (unat cp)"
    unfolding unsigned_push_bit_eq using assms by (simp only: push_bit_eq_mult) (simp add: take_bit_nat_eq_self)
  ultimately show ?thesis by (simp add: unsigned_or_eq shift_or)
qed

text \<open>The specification: Unicode scalar values and their encoding (RFC 3629).\<close>

definition scalar_value :: "nat \<Rightarrow> bool" where
  "scalar_value u \<longleftrightarrow> u \<le> 0x10FFFF \<and> \<not> (0xD800 \<le> u \<and> u \<le> 0xDFFF)"

definition utf8_encode :: "nat \<Rightarrow> byte list" where
  "utf8_encode u = map of_nat
     (if u < 0x80 then [u]
      else if u < 0x800 then [0xC0 + u div 64, 0x80 + u mod 64]
      else if u < 0x10000 then [0xE0 + u div 64 div 64, 0x80 + u div 64 mod 64, 0x80 + u mod 64]
      else [0xF0 + u div 64 div 64 div 64, 0x80 + u div 64 div 64 mod 64, 0x80 + u div 64 mod 64, 0x80 + u mod 64])"

definition is_cont :: "byte \<Rightarrow> bool" where
  "is_cont c \<longleftrightarrow> 128 \<le> unat c \<and> unat c < 192"

text \<open>The value the inner loop computes, in natural numbers.\<close>

definition cont_value :: "nat \<Rightarrow> byte list \<Rightarrow> nat" where
  "cont_value v cs = foldl (\<lambda>v c. v * 64 + unat c mod 64) v cs"

lemma utf8_continue_value:
  assumes "unat cp < 2 ^ (32 - 6 * length cs)" "length cs \<le> 3"
  shows "case utf8_continue cp cs of None \<Rightarrow> \<not> list_all is_cont cs
     | Some w \<Rightarrow> list_all is_cont cs \<and> unat w = cont_value (unat cp) cs"
  using assms
proof (induction cs arbitrary: cp)
  case (Cons c cs)
  let ?cp = "push_bit 6 cp OR ucast (c AND 0x3F :: byte)"
  have "(2::nat) ^ (32 - 6 * length (c # cs)) \<le> 2 ^ 26" by (intro power_increasing) auto
  with Cons.prems have v: "unat ?cp = unat cp * 64 + unat c mod 64" using continue_step by simp
  have e: "32 - 6 * length cs = Suc (Suc (Suc (Suc (Suc (Suc (32 - 6 * length (c # cs)))))))"
    using Cons.prems(2) by simp
  have "unat ?cp < 2 ^ (32 - 6 * length cs)"
    using Cons.prems(1) unfolding v e power_Suc by (simp add: Suc_le_eq)
  from Cons.IH [OF this] Cons.prems(2) show ?case
    by (cases "is_cont c") (auto simp: byte_classes is_cont_def v cont_value_def split: option.split_asm)
qed (simp add: cont_value_def)

lemma cons_bytes_iff: "u < 256 \<Longrightarrow> (b :: byte) = of_nat u \<longleftrightarrow> unat b = u"
  by (auto simp: word_unat_eq_iff unsigned_of_nat take_bit_nat_eq_self)

lemma unat_byte [simp]: "u < 256 \<Longrightarrow> unat (of_nat u :: byte) = u"
  by (simp add: unsigned_of_nat take_bit_nat_eq_self)

lemma horner: "k < 64 \<Longrightarrow> (m * 64 + k) div 64 = (m :: nat)" "k < 64 \<Longrightarrow> (m * 64 + k) mod 64 = k"
  by simp_all

text \<open>Lead byte and continuation bytes written as base plus digit.\<close>

lemma encode_digits:
  "x < 32 \<Longrightarrow> y < 64 \<Longrightarrow> 0x80 \<le> x * 64 + y \<Longrightarrow> utf8_encode (x * 64 + y) = [of_nat (192 + x), of_nat (128 + y)]"
  "x < 16 \<Longrightarrow> y < 64 \<Longrightarrow> z < 64 \<Longrightarrow> 0x800 \<le> (x * 64 + y) * 64 + z \<Longrightarrow>
     utf8_encode ((x * 64 + y) * 64 + z) = [of_nat (224 + x), of_nat (128 + y), of_nat (128 + z)]"
  "x < 8 \<Longrightarrow> y < 64 \<Longrightarrow> z < 64 \<Longrightarrow> w < 64 \<Longrightarrow> 0x10000 \<le> ((x * 64 + y) * 64 + z) * 64 + w \<Longrightarrow>
     utf8_encode (((x * 64 + y) * 64 + z) * 64 + w) = [of_nat (240 + x), of_nat (128 + y), of_nat (128 + z), of_nat (128 + w)]"
proof -
  show "utf8_encode (x * 64 + y) = [of_nat (192 + x), of_nat (128 + y)]" if "x < 32" "y < 64" "0x80 \<le> x * 64 + y"
    using that unfolding utf8_encode_def by (simp only: horner) simp
  show "utf8_encode ((x * 64 + y) * 64 + z) = [of_nat (224 + x), of_nat (128 + y), of_nat (128 + z)]"
    if "x < 16" "y < 64" "z < 64" "0x800 \<le> (x * 64 + y) * 64 + z"
    using that unfolding utf8_encode_def by (simp only: horner) simp
  show "utf8_encode (((x * 64 + y) * 64 + z) * 64 + w) = [of_nat (240 + x), of_nat (128 + y), of_nat (128 + z), of_nat (128 + w)]"
    if "x < 8" "y < 64" "z < 64" "w < 64" "0x10000 \<le> ((x * 64 + y) * 64 + z) * 64 + w"
    using that unfolding utf8_encode_def by (simp only: horner) simp
qed

lemma byte_digit:
  assumes "base \<le> unat b" "unat b < base + k" "base mod k = 0"
  obtains x where "x < k" "unat b = base + x" "unat b mod k = x" "b = (of_nat (base + x) :: byte)"
proof
  show "unat b - base < k" "unat b = base + (unat b - base)" "b = of_nat (base + (unat b - base))"
    using assms by auto
  obtain q where "base = k * q" using assms(3) by (metis dvdE mod_eq_0_iff_dvd)
  moreover obtain d where "unat b = base + d" "d < k" using assms(1,2) by (metis add_less_cancel_left le_Suc_ex)
  ultimately show "unat b mod k = unat b - base" by simp
qed

text \<open>One turn of the outer loop: how many bytes the character at the front takes.\<close>

definition utf8_head :: "byte list \<Rightarrow> nat option" where
  "utf8_head t =
     (if hd t \<le> 0x7F then Some 1
      else case utf8_lead (hd t) of None \<Rightarrow> None
        | Some (extra, cp, least) \<Rightarrow>
            if extra \<ge> length t then None
            else case utf8_continue cp (take extra (tl t)) of None \<Rightarrow> None
              | Some cp \<Rightarrow> if code_point_ok least cp then Some (extra + 1) else None)"

lemma valid_utf8_from_head:
  "valid_utf8_from text i = (i < length text \<longrightarrow>
     (case utf8_head (drop i text) of None \<Rightarrow> False | Some k \<Rightarrow> valid_utf8_from text (i + k)))"
proof (cases "i < length text")
  case True
  then have "hd (drop i text) = text ! i" "tl (drop i text) = drop (i + 1) text"
    "\<And>e. length text \<le> i + e \<longleftrightarrow> length (drop i text) \<le> e"
    by (auto simp: hd_drop_conv_nth drop_Suc tl_drop)
  with True show ?thesis
    by (subst valid_utf8_from.simps) (simp add: utf8_head_def split: option.split)
qed (subst valid_utf8_from.simps, simp)

lemma code_point_ok_nat: "code_point_ok least cp \<longleftrightarrow> unat least \<le> unat cp \<and> scalar_value (unat cp)"
  by (auto simp: code_point_ok_def scalar_value_def word_less_nat_alt word_le_nat_alt not_less)

lemma utf8_lead_cases:
  "192 \<le> unat b \<and> unat b < 224 \<Longrightarrow> utf8_lead b = Some (1, ucast (b AND 0x1F), 0x80)"
  "224 \<le> unat b \<and> unat b < 240 \<Longrightarrow> utf8_lead b = Some (2, ucast (b AND 0x0F), 0x800)"
  "240 \<le> unat b \<and> unat b < 248 \<Longrightarrow> utf8_lead b = Some (3, ucast (b AND 0x07), 0x10000)"
  "unat b < 192 \<or> 248 \<le> unat b \<Longrightarrow> utf8_lead b = None"
  by (auto simp: utf8_lead_def byte_classes)

lemma unat_lead: "unat (ucast (x :: byte) :: 32 word) = unat x"
proof -
  have "unat x < 2 ^ 32" using unat_byte_lt [of x] by simp
  then show ?thesis by (simp add: unsigned_ucast_eq take_bit_nat_eq_self)
qed

text \<open>A multi-byte character at the front, in natural numbers.\<close>

lemma utf8_head_multi:
  assumes "\<not> unat b < 128" "utf8_lead b = Some (extra, cp, least)" "extra \<le> 3" "unat cp < 2 ^ (32 - 6 * extra)" "length cs = extra"
  shows "utf8_head (b # cs @ r) =
    (if list_all is_cont cs \<and> unat least \<le> cont_value (unat cp) cs \<and> scalar_value (cont_value (unat cp) cs)
     then Some (extra + 1) else None)"
  using utf8_continue_value [of cp cs] assms
  by (auto simp: utf8_head_def byte_classes code_point_ok_nat split: option.split_asm)

lemma utf8_head_short:
  assumes "\<not> unat b < 128" "utf8_lead b = Some (extra, cp, least)" "length r < extra"
  shows "utf8_head (b # r) = None"
  using assms by (simp add: utf8_head_def byte_classes)

lemmas cont_value_simps = cont_value_def foldl_Cons foldl_Nil

lemma byte_digit_ex:
  "base \<le> unat b \<Longrightarrow> unat b < base + k \<Longrightarrow> base mod k = 0 \<Longrightarrow> \<exists>x. x < k \<and> unat b mod k = x \<and> b = (of_nat (base + x) :: byte)"
  by (rule byte_digit [of base b k]) blast+

lemma list_of_length:
  "length xs = 1 \<Longrightarrow> \<exists>a. xs = [a]" "length xs = 2 \<Longrightarrow> \<exists>a b. xs = [a, b]" "length xs = 3 \<Longrightarrow> \<exists>a b c. xs = [a, b, c]"
  by (auto simp: length_Suc_conv numeral_2_eq_2 numeral_3_eq_3)

lemma utf8_head_lead:
  assumes "\<not> unat b < 128" "utf8_head (b # r) = Some k"
  obtains (two) c r' x y where "r = c # r'" "k = 2" "x < 32" "y < 64" "b = of_nat (192 + x)" "c = of_nat (128 + y)"
      "0x80 \<le> x * 64 + y" "scalar_value (x * 64 + y)"
    | (three) c d r' x y z where "r = c # d # r'" "k = 3" "x < 16" "y < 64" "z < 64"
      "b = of_nat (224 + x)" "c = of_nat (128 + y)" "d = of_nat (128 + z)"
      "0x800 \<le> (x * 64 + y) * 64 + z" "scalar_value ((x * 64 + y) * 64 + z)"
    | (four) c d e r' x y z w where "r = c # d # e # r'" "k = 4" "x < 8" "y < 64" "z < 64" "w < 64"
      "b = of_nat (240 + x)" "c = of_nat (128 + y)" "d = of_nat (128 + z)" "e = of_nat (128 + w)"
      "0x10000 \<le> ((x * 64 + y) * 64 + z) * 64 + w" "scalar_value (((x * 64 + y) * 64 + z) * 64 + w)"
proof -
  obtain extra cp least where l: "utf8_lead b = Some (extra, cp, least)"
    using assms by (auto simp: utf8_head_def byte_classes split: option.split_asm)
  have len: "extra \<le> length r" using utf8_head_short [OF assms(1) l, of r] assms(2) by (cases "length r < extra") auto
  then have r: "r = take extra r @ drop extra r" "length (take extra r) = extra" by simp_all
  have g: "list_all is_cont (take extra r) \<and> unat least \<le> cont_value (unat cp) (take extra r) \<and>
      scalar_value (cont_value (unat cp) (take extra r)) \<and> k = extra + 1"
    if "unat cp < 2 ^ (32 - 6 * extra)" "extra \<le> 3"
  proof -
    have "utf8_head (b # take extra r @ drop extra r) = Some k" using assms(2) by simp
    then show ?thesis
      unfolding utf8_head_multi [OF assms(1) l that(2,1) r(2), of "drop extra r"] by (auto split: if_split_asm)
  qed
  have dig: "is_cont c \<Longrightarrow> \<exists>y. y < 64 \<and> unat c mod 64 = y \<and> c = of_nat (128 + y)" for c
    by (rule byte_digit_ex) (simp_all add: is_cont_def)
  consider "192 \<le> unat b \<and> unat b < 224" | "224 \<le> unat b \<and> unat b < 240" | "240 \<le> unat b \<and> unat b < 248"
    using l utf8_lead_cases(4) [of b] by fastforce
  then show thesis
  proof cases
    case 1
    with l have e: "extra = 1" "cp = ucast (b AND 0x1F)" "least = 0x80" using utf8_lead_cases(1) by auto
    then obtain c where c: "take extra r = [c]" using list_of_length(1) [OF r(2) [unfolded e(1)]] e(1) by blast
    obtain x where x: "x < 32" "unat b mod 32 = x" "b = of_nat (192 + x)"
      by (rule exE [OF byte_digit_ex [of 192 b 32]]) (use 1 in \<open>simp_all del: of_nat_add\<close>)
    have cp: "unat cp = x" using e x by (simp add: unat_lead low_bits)
    have "list_all is_cont [c] \<and> 0x80 \<le> cont_value x [c] \<and> scalar_value (cont_value x [c]) \<and> k = 2"
      using g x(1) cp unfolding c by (simp add: e(1,3))
    then have h: "is_cont c" and v: "scalar_value (cont_value x [c])" "k = 2"
      "0x80 \<le> cont_value x [c]" by simp_all
    obtain r' where r': "r = c # r'" using r(1) [unfolded c] by (metis append_Cons append_Nil)
    obtain y where y: "y < 64" "unat c mod 64 = y" "c = of_nat (128 + y)" using dig [OF h(1)] by blast
    have cv: "cont_value x [c] = x * 64 + y" by (simp add: cont_value_simps y(2))
    show thesis
      by (rule two [OF r' v(2) x(1) y(1) x(3) y(3) v(3) [unfolded cv] v(1) [unfolded cv]])
  next
    case 2
    with l have e: "extra = 2" "cp = ucast (b AND 0x0F)" "least = 0x800" using utf8_lead_cases(2) by auto
    then obtain c d where c: "take extra r = [c, d]" using list_of_length(2) [OF r(2) [unfolded e(1)]] e(1) by blast
    obtain x where x: "x < 16" "unat b mod 16 = x" "b = of_nat (224 + x)"
      by (rule exE [OF byte_digit_ex [of 224 b 16]]) (use 2 in \<open>simp_all del: of_nat_add\<close>)
    have cp: "unat cp = x" using e x by (simp add: unat_lead low_bits)
    have "list_all is_cont [c, d] \<and> 0x800 \<le> cont_value x [c, d] \<and> scalar_value (cont_value x [c, d]) \<and> k = 3"
      using g x(1) cp unfolding c by (simp add: e(1,3))
    then have h: "is_cont c" "is_cont d" and v: "scalar_value (cont_value x [c, d])" "k = 3"
      "0x800 \<le> cont_value x [c, d]" by simp_all
    obtain r' where r': "r = c # d # r'" using r(1) [unfolded c] by (metis append_Cons append_Nil)
    obtain y where y: "y < 64" "unat c mod 64 = y" "c = of_nat (128 + y)" using dig [OF h(1)] by blast
    obtain z where z: "z < 64" "unat d mod 64 = z" "d = of_nat (128 + z)" using dig [OF h(2)] by blast
    have cv: "cont_value x [c, d] = (x * 64 + y) * 64 + z" by (simp add: cont_value_simps y(2) z(2))
    show thesis
      by (rule three [OF r' v(2) x(1) y(1) z(1) x(3) y(3) z(3) v(3) [unfolded cv] v(1) [unfolded cv]])
  next
    case 3
    with l have e: "extra = 3" "cp = ucast (b AND 0x07)" "least = 0x10000" using utf8_lead_cases(3) by auto
    then obtain c d f where c: "take extra r = [c, d, f]" using list_of_length(3) [OF r(2) [unfolded e(1)]] e(1) by blast
    obtain x where x: "x < 8" "unat b mod 8 = x" "b = of_nat (240 + x)"
      by (rule exE [OF byte_digit_ex [of 240 b 8]]) (use 3 in \<open>simp_all del: of_nat_add\<close>)
    have cp: "unat cp = x" using e x by (simp add: unat_lead low_bits)
    have "list_all is_cont [c, d, f] \<and> 0x10000 \<le> cont_value x [c, d, f] \<and> scalar_value (cont_value x [c, d, f]) \<and> k = 4"
      using g x(1) cp unfolding c by (simp add: e(1,3))
    then have h: "is_cont c" "is_cont d" "is_cont f" and v: "scalar_value (cont_value x [c, d, f])" "k = 4"
      "0x10000 \<le> cont_value x [c, d, f]" by simp_all
    obtain r' where r': "r = c # d # f # r'" using r(1) [unfolded c] by (metis append_Cons append_Nil)
    obtain y where y: "y < 64" "unat c mod 64 = y" "c = of_nat (128 + y)" using dig [OF h(1)] by blast
    obtain z where z: "z < 64" "unat d mod 64 = z" "d = of_nat (128 + z)" using dig [OF h(2)] by blast
    obtain w where w: "w < 64" "unat f mod 64 = w" "f = of_nat (128 + w)" using dig [OF h(3)] by blast
    have cv: "cont_value x [c, d, f] = ((x * 64 + y) * 64 + z) * 64 + w" by (simp add: cont_value_simps y(2) z(2) w(2))
    show thesis
      by (rule four [OF r' v(2) x(1) y(1) z(1) w(1) x(3) y(3) z(3) w(3) v(3) [unfolded cv] v(1) [unfolded cv]])
  qed
qed

lemma utf8_head_decode:
  assumes "t \<noteq> []" "utf8_head t = Some k"
  obtains u where "scalar_value u" "take k t = utf8_encode u" "1 \<le> k" "k \<le> length t"
proof -
  obtain b r where t: "t = b # r" using assms(1) by (cases t) auto
  show thesis
  proof (cases "unat b < 128")
    case True
    with assms(2) t have "k = 1" by (simp add: utf8_head_def byte_classes)
    with True t show thesis by (intro that [of "unat b"]) (auto simp: scalar_value_def utf8_encode_def)
  next
    case False
    from assms(2) t have "utf8_head (b # r) = Some k" by simp
    with False show thesis
    proof (cases rule: utf8_head_lead)
      case (two c r' x y)
      then show thesis using encode_digits(1) [of x y] t by (intro that [of "x * 64 + y"]) simp_all
    next
      case (three c d r' x y z)
      then show thesis using encode_digits(2) [of x y z] t by (intro that [of "(x * 64 + y) * 64 + z"]) simp_all
    next
      case (four c d e r' x y z w)
      then show thesis using encode_digits(3) [of x y z w] t
        by (intro that [of "((x * 64 + y) * 64 + z) * 64 + w"]) simp_all
    qed
  qed
qed

lemma head_encode_digits:
  assumes "x < k" "unat b = base + x" "base mod k = 0" "\<not> unat b < 128"
    "utf8_lead b = Some (length cs, ucast (b AND m), least)" "unat (b AND m) = unat b mod k"
    "k \<le> 32" "length cs \<le> 3" "k * 2 ^ (6 * length cs) \<le> 2 ^ 21"
    "list_all is_cont cs" "unat least \<le> cont_value x cs" "scalar_value (cont_value x cs)"
  shows "utf8_head (b # cs @ r) = Some (length (b # cs))"
proof -
  have cp: "unat (ucast (b AND m) :: 32 word) = x"
    using assms(1,2,3,6) by (simp add: unat_lead mod_add_eq [symmetric, of base])
  have "x < 2 ^ (32 - 6 * length cs)"
  proof -
    have "(32::nat) \<le> 2 ^ (32 - 6 * length cs)"
      using assms(8) by (intro order_trans [OF _ power_increasing [of 5 "32 - 6 * length cs" 2]]) auto
    then show ?thesis using assms(1,7) by linarith
  qed
  with cp have "unat (ucast (b AND m) :: 32 word) < 2 ^ (32 - 6 * length cs)" by simp
  from utf8_head_multi [OF assms(4,5,8) this refl, of r] cp assms(10-12) show ?thesis by simp
qed

lemma cont_digit: "(128 + k) mod 64 = k mod (64 :: nat)"
  using mod_mult_self2 [of k 64 2] by (simp add: add.commute)

lemma utf8_head_encode:
  assumes "scalar_value u"
  shows "utf8_head (utf8_encode u @ r) = Some (length (utf8_encode u))"
proof -
  have "u < 0x110000" using assms by (simp add: scalar_value_def)
  then consider "u < 0x80" | "0x80 \<le> u" "u < 0x800" | "0x800 \<le> u" "u < 0x10000" | "0x10000 \<le> u" "u < 0x110000"
    by linarith
  then show ?thesis
  proof cases
    case 1
    then show ?thesis by (simp add: utf8_encode_def utf8_head_def byte_classes)
  next
    case 2
    define x y where "x = u div 64" and "y = u mod 64"
    have u: "u = x * 64 + y" "x < 32" "y < 64" using 2 by (simp_all add: x_def y_def)
    from encode_digits(1) [OF u(2,3)] 2 u(1) have e: "utf8_encode u = [of_nat (192 + x), of_nat (128 + y)]" by simp
    have b: "unat (of_nat (192 + x) :: byte) = 192 + x" using u by (intro unat_byte) simp
    have h: "utf8_head (of_nat (192 + x) # [of_nat (128 + y)] @ r) = Some (length [of_nat (192 + x), of_nat (128 + y) :: byte])"
    proof (rule head_encode_digits [OF u(2) b _ _ _ low_bits(1)])
      show "utf8_lead (of_nat (192 + x)) = Some (length [of_nat (128 + y) :: byte], ucast (of_nat (192 + x) AND 31 :: byte), 128)"
        using utf8_lead_cases(1) [of "of_nat (192 + x)"] u(2) unfolding b by simp
    qed (use u 2 assms in \<open>simp_all add: b is_cont_def cont_value_def cont_digit del: of_nat_add\<close>)
    then show ?thesis unfolding e by (simp del: of_nat_add)
  next
    case 3
    define x y z where "x = u div 64 div 64" and "y = u div 64 mod 64" and "z = u mod 64"
    have u: "u = (x * 64 + y) * 64 + z" "y < 64" "z < 64" unfolding x_def y_def z_def by (simp_all add: div_mult_mod_eq)
    have x: "x < 16" unfolding x_def using 3 by simp
    from encode_digits(2) [OF x u(2,3)] 3 u(1)
    have e: "utf8_encode u = [of_nat (224 + x), of_nat (128 + y), of_nat (128 + z)]" by simp
    have b: "unat (of_nat (224 + x) :: byte) = 224 + x" using x by (intro unat_byte) simp
    have h: "utf8_head (of_nat (224 + x) # [of_nat (128 + y), of_nat (128 + z)] @ r) =
        Some (length [of_nat (224 + x), of_nat (128 + y), of_nat (128 + z) :: byte])"
    proof (rule head_encode_digits [OF x b _ _ _ low_bits(2)])
      show "utf8_lead (of_nat (224 + x)) =
          Some (length [of_nat (128 + y) :: byte, of_nat (128 + z)], ucast (of_nat (224 + x) AND 15 :: byte), 2048)"
        using utf8_lead_cases(2) [of "of_nat (224 + x)"] x unfolding b by simp
    qed (use u x 3 assms in \<open>simp_all add: b is_cont_def cont_value_def cont_digit del: of_nat_add\<close>)
    then show ?thesis unfolding e by (simp del: of_nat_add)
  next
    case 4
    define x y z w where "x = u div 64 div 64 div 64" and "y = u div 64 div 64 mod 64" and "z = u div 64 mod 64" and "w = u mod 64"
    have u: "u = ((x * 64 + y) * 64 + z) * 64 + w" "y < 64" "z < 64" "w < 64"
      unfolding x_def y_def z_def w_def by (simp_all add: div_mult_mod_eq)
    have x: "x < 8" unfolding x_def using 4 by simp
    from encode_digits(3) [OF x u(2-4)] 4 u(1)
    have e: "utf8_encode u = [of_nat (240 + x), of_nat (128 + y), of_nat (128 + z), of_nat (128 + w)]" by simp
    have b: "unat (of_nat (240 + x) :: byte) = 240 + x" using x by (intro unat_byte) simp
    have h: "utf8_head (of_nat (240 + x) # [of_nat (128 + y), of_nat (128 + z), of_nat (128 + w)] @ r) =
        Some (length [of_nat (240 + x), of_nat (128 + y), of_nat (128 + z), of_nat (128 + w) :: byte])"
    proof (rule head_encode_digits [OF x b _ _ _ low_bits(3)])
      show "utf8_lead (of_nat (240 + x)) =
          Some (length [of_nat (128 + y) :: byte, of_nat (128 + z), of_nat (128 + w)], ucast (of_nat (240 + x) AND 7 :: byte), 65536)"
        using utf8_lead_cases(3) [of "of_nat (240 + x)"] x unfolding b by simp
    qed (use u x 4 assms in \<open>simp_all add: b is_cont_def cont_value_def cont_digit del: of_nat_add\<close>)
    then show ?thesis unfolding e by (simp del: of_nat_add)
  qed
qed

lemma valid_utf8_sound:
  "i \<le> length text \<Longrightarrow> valid_utf8_from text i \<Longrightarrow>
     \<exists>us. list_all scalar_value us \<and> drop i text = concat (map utf8_encode us)"
proof (induction "length text - i" arbitrary: i rule: less_induct)
  case less
  show ?case
  proof (cases "i < length text")
    case False
    then show ?thesis by (intro exI [of _ "[]"]) simp
  next
    case True
    with less.prems(2) obtain k where k: "utf8_head (drop i text) = Some k" "valid_utf8_from text (i + k)"
      by (subst (asm) valid_utf8_from_head) (auto split: option.split_asm)
    have "drop i text \<noteq> []" using True by simp
    then obtain u where u: "scalar_value u" "take k (drop i text) = utf8_encode u" "1 \<le> k" "k \<le> length text - i"
      using k(1) by (rule utf8_head_decode) simp
    have "length text - (i + k) < length text - i" "i + k \<le> length text" using u(3,4) True by auto
    from less.hyps [OF this k(2)] obtain us where
      us: "list_all scalar_value us" "drop (i + k) text = concat (map utf8_encode us)" by blast
    have "drop i text = take k (drop i text) @ drop (i + k) text" by (metis append_take_drop_id drop_drop add.commute)
    with u us show ?thesis by (intro exI [of _ "u # us"]) simp
  qed
qed

lemma valid_utf8_complete:
  "list_all scalar_value us \<Longrightarrow> drop i text = concat (map utf8_encode us) \<Longrightarrow> valid_utf8_from text i"
proof (induction us arbitrary: i)
  case Nil
  then show ?case by (subst valid_utf8_from_head) simp
next
  case (Cons u us)
  then have h: "utf8_head (drop i text) = Some (length (utf8_encode u))" by (simp add: utf8_head_encode)
  have "drop (i + length (utf8_encode u)) text = drop (length (utf8_encode u)) (drop i text)" by (simp add: add.commute)
  also have "\<dots> = concat (map utf8_encode us)" using Cons.prems(2) by simp
  finally have "valid_utf8_from text (i + length (utf8_encode u))" using Cons by simp
  with h show ?case by (subst valid_utf8_from_head) simp
qed

text \<open>
  C26: The UTF-8 check of text messages accepts exactly the concatenations of
  encodings of Unicode scalar values: overlong forms, surrogates, values above
  U+10FFFF, stray continuation bytes and truncated characters are all refused.
\<close>

theorem valid_utf8_iff:
  "valid_utf8 text = (\<exists>us. list_all scalar_value us \<and> text = concat (map utf8_encode us))"
  using valid_utf8_sound [of 0 "text"] valid_utf8_complete [of _ 0 "text"]
  by (auto simp: valid_utf8_def)

end
