(* ===== verification/WS_Echo.thy ===== *)
theory WS_Echo
  imports WS_Utf8
begin

section \<open>What a well-behaved client gets back\<close>

text \<open>
  The endpoint echoes every message as one final frame and answers every Ping.
  The client is described by the items it sends (\<open>ClientItem\<close>), each with its
  frames on the wire and the reply it is owed; the main theorem runs the whole
  parser and session on the wire form.  The last section holds the behaviour
  after a protocol violation.
\<close>

unbundle bit_operations_syntax

subsection \<open>The client's side\<close>

datatype ClientItem =
    CPing "byte list"
  | CPong "byte list"
  | CMessage Opcode "byte list" "(byte list list \<times> byte list) list"

definition client_frame :: "byte list \<Rightarrow> Opcode \<Rightarrow> bool \<Rightarrow> byte list \<Rightarrow> byte list" where
  "client_frame key op fin pl = encode_frame op pl fin True key"

definition client_pings :: "byte list \<Rightarrow> byte list list \<Rightarrow> byte list" where
  "client_pings key ps = concat (map (client_frame key Ping True) ps)"

text \<open>The continuation frames of a message, each after the pings sent before it.\<close>

fun wire_rest :: "byte list \<Rightarrow> (byte list list \<times> byte list) list \<Rightarrow> byte list" where
  "wire_rest key [] = []"
| "wire_rest key ((ps, part) # r) =
     client_pings key ps @ client_frame key Continuation (r = []) part @ wire_rest key r"

fun item_wire :: "byte list \<Rightarrow> ClientItem \<Rightarrow> byte list" where
  "item_wire key (CPing pl) = client_frame key Ping True pl"
| "item_wire key (CPong pl) = client_frame key Pong True pl"
| "item_wire key (CMessage op first r) = client_frame key op (r = []) first @ wire_rest key r"

definition message_text :: "byte list \<Rightarrow> (byte list list \<times> byte list) list \<Rightarrow> byte list" where
  "message_text first r = first @ concat (map snd r)"

definition pong_replies :: "byte list list \<Rightarrow> byte list" where
  "pong_replies ps = concat (map (\<lambda>p. msg_bytes (Pong, p)) ps)"

fun item_reply :: "ClientItem \<Rightarrow> byte list" where
  "item_reply (CPing pl) = msg_bytes (Pong, pl)"
| "item_reply (CPong pl) = []"
| "item_reply (CMessage op first r) =
     pong_replies (concat (map fst r)) @ msg_bytes (op, message_text first r)"

definition control_ok :: "64 word \<Rightarrow> byte list \<Rightarrow> bool" where
  "control_ok m pl \<longleftrightarrow> length pl \<le> 125 \<and> length pl \<le> unat m"

fun item_ok :: "64 word \<Rightarrow> ClientItem \<Rightarrow> bool" where
  "item_ok m (CPing pl) = control_ok m pl"
| "item_ok m (CPong pl) = control_ok m pl"
| "item_ok m (CMessage op first r) =
     ((op = Text \<or> op = Binary) \<and> length (message_text first r) \<le> unat m \<and>
      length (message_text first r) < 2 ^ 63 \<and>
      list_all (\<lambda>x. list_all (control_ok m) (fst x)) r \<and>
      (op = Text \<longrightarrow> valid_utf8 (message_text first r)))"

subsection \<open>The session step by step\<close>

text \<open>An open session, mid-message (\<open>frag\<close>) or not, with unread input.\<close>

definition session_at :: "64 word \<Rightarrow> (Opcode \<times> byte list) option \<Rightarrow> byte list \<Rightarrow> byte list \<Rightarrow> Session \<Rightarrow> bool" where
  "session_at m frag out buf c \<longleftrightarrow>
     ws_state c = Established \<and> \<not> ws_error c \<and> ws_max c = m \<and> fp_max_payload (ws_parser c) = m \<and>
     fp_error (ws_parser c) = NoError \<and> fp_buffer (ws_parser c) = buf \<and> ws_output c = out \<and>
     (case frag of None \<Rightarrow> \<not> ws_frag_active c
      | Some (op, acc) \<Rightarrow> ws_frag_active c \<and> ws_frag_opcode c = op \<and> ws_frag_payload c = acc)"

lemma session_at_frame:
  assumes "session_at m frag out (client_frame key op fin pl @ rest) c" "length key = 4"
    and "length pl \<le> unat m" "length pl < 2 ^ 63" "is_control_opcode op \<longrightarrow> fin \<and> length pl \<le> 125"
  obtains f c0 where "session_at m frag out rest c0" "frame_fin f = fin" "frame_opcode f = op" "frame_masked f"
    "frame_payload f = pl" "\<not> ws_error (process_frame f c0) \<Longrightarrow> ws_loop c = ws_loop (process_frame f c0)"
proof -
  let ?p = "ws_parser c"
  let ?f = "\<lparr>frame_fin = fin, frame_rsv = 0, frame_opcode = op, frame_masked = True,
       frame_mask_key = key, frame_payload = pl\<rparr>"
  let ?c = "c\<lparr>ws_parser := ?p\<lparr>fp_buffer := rest\<rparr>\<rparr>"
  have "fp_next ?p = (FrameReady ?f, ?p\<lparr>fp_buffer := rest\<rparr>)"
    using fp_next_client [of key pl ?p op fin rest] assms by (simp add: session_at_def client_frame_def)
  moreover have "\<not> fp_has_error ?p" using assms(1) by (simp add: session_at_def fp_has_error_def)
  ultimately have "\<not> ws_error (process_frame ?f ?c) \<Longrightarrow> ws_loop c = ws_loop (process_frame ?f ?c)"
    by (subst ws_loop.simps) (simp add: Let_def)
  moreover have "session_at m frag out rest ?c" using assms(1) by (simp add: session_at_def split: option.splits prod.splits)
  ultimately show thesis by (intro that [of ?c ?f]) simp_all
qed

text \<open>One step per kind of frame; \<open>session_runs\<close> says the loop goes on from the later state.\<close>

definition session_runs :: "64 word \<Rightarrow> Session \<Rightarrow> (Opcode \<times> byte list) option \<Rightarrow> byte list \<Rightarrow> byte list \<Rightarrow> bool" where
  "session_runs m c frag out buf \<longleftrightarrow> (\<exists>c'. session_at m frag out buf c' \<and> ws_loop c = ws_loop c')"

lemma session_runs_start: "session_at m frag out buf c \<Longrightarrow> session_runs m c frag out buf"
  by (auto simp: session_runs_def)

lemma session_runs_frame:
  assumes "session_runs m c frag out (client_frame key op fin pl @ rest)" "length key = 4"
    and "length pl \<le> unat m" "length pl < 2 ^ 63" "is_control_opcode op \<longrightarrow> fin \<and> length pl \<le> 125"
    and step: "\<And>f c0. session_at m frag out rest c0 \<Longrightarrow> frame_fin f = fin \<Longrightarrow> frame_opcode f = op \<Longrightarrow>
      frame_masked f \<Longrightarrow> frame_payload f = pl \<Longrightarrow> session_at m frag' out' rest (process_frame f c0)"
  shows "session_runs m c frag' out' rest"
proof -
  obtain c' where c': "session_at m frag out (client_frame key op fin pl @ rest) c'" "ws_loop c = ws_loop c'"
    using assms(1) by (auto simp: session_runs_def)
  from session_at_frame [OF c'(1) assms(2-5)] obtain f c0 where f:
    "session_at m frag out rest c0" "frame_fin f = fin" "frame_opcode f = op" "frame_masked f"
    "frame_payload f = pl" "\<not> ws_error (process_frame f c0) \<Longrightarrow> ws_loop c' = ws_loop (process_frame f c0)" by blast
  from step [OF f(1-5)] have s: "session_at m frag' out' rest (process_frame f c0)" .
  then have "\<not> ws_error (process_frame f c0)" by (simp add: session_at_def)
  with f(6) s c'(2) show ?thesis by (auto simp: session_runs_def)
qed

lemma deliver_at:
  assumes "session_at m None out rest c" "op = Text \<longrightarrow> valid_utf8 pl"
  shows "session_at m None (out @ msg_bytes (op, pl)) rest (deliver_message op pl c)"
  using assms by (simp add: session_at_def deliver_message_def queue_frame_def msg_bytes_def)

lemma session_ping:
  assumes "session_runs m c frag out (client_frame key Ping True pl @ rest)" "length key = 4" "control_ok m pl"
  shows "session_runs m c frag (out @ msg_bytes (Pong, pl)) rest"
  by (rule session_runs_frame [OF assms(1,2)])
    (use assms(3) in \<open>auto simp: control_ok_def session_at_def process_frame_def queue_frame_def msg_bytes_def split: option.splits\<close>)

lemma session_pong:
  assumes "session_runs m c frag out (client_frame key Pong True pl @ rest)" "length key = 4" "control_ok m pl"
  shows "session_runs m c frag out rest"
  by (rule session_runs_frame [OF assms(1,2)])
    (use assms(3) in \<open>auto simp: control_ok_def session_at_def process_frame_def split: option.splits\<close>)

lemma session_first:
  assumes "session_runs m c None out (client_frame key op False pl @ rest)" "length key = 4"
    "op = Text \<or> op = Binary" "length pl \<le> unat m" "length pl < 2 ^ 63"
  shows "session_runs m c (Some (op, pl)) out rest"
  by (rule session_runs_frame [OF assms(1,2,4,5)])
    (use assms(3) in \<open>auto simp: session_at_def process_frame_def\<close>)

lemma session_single:
  assumes "session_runs m c None out (client_frame key op True pl @ rest)" "length key = 4"
    "op = Text \<or> op = Binary" "length pl \<le> unat m" "length pl < 2 ^ 63" "op = Text \<longrightarrow> valid_utf8 pl"
  shows "session_runs m c None (out @ msg_bytes (op, pl)) rest"
proof (rule session_runs_frame [OF assms(1,2,4,5)])
  fix f :: Frame and c0 assume f: "session_at m None out rest c0" "frame_fin f = True" "frame_opcode f = op" "frame_masked f" "frame_payload f = pl"
  then have "process_frame f c0 = deliver_message op pl c0"
    using assms(3) by (auto simp: process_frame_def session_at_def)
  then show "session_at m None (out @ msg_bytes (op, pl)) rest (process_frame f c0)"
    using deliver_at [OF f(1) assms(6)] by simp
qed (use assms(3) in auto)

lemma session_middle:
  assumes "session_runs m c (Some (op, acc)) out (client_frame key Continuation False pl @ rest)" "length key = 4"
    "length (acc @ pl) \<le> unat m" "length (acc @ pl) < 2 ^ 63"
  shows "session_runs m c (Some (op, acc @ pl)) out rest"
  by (rule session_runs_frame [OF assms(1,2)])
    (use assms(3,4) in \<open>auto simp: session_at_def process_frame_def Let_def\<close>)

lemma session_last:
  assumes "session_runs m c (Some (op, acc)) out (client_frame key Continuation True pl @ rest)" "length key = 4"
    "length (acc @ pl) \<le> unat m" "length (acc @ pl) < 2 ^ 63" "op = Text \<longrightarrow> valid_utf8 (acc @ pl)"
  shows "session_runs m c None (out @ msg_bytes (op, acc @ pl)) rest"
proof (rule session_runs_frame [OF assms(1,2)])
  fix f :: Frame and c0 assume f: "session_at m (Some (op, acc)) out rest c0" "frame_fin f = True" "frame_opcode f = Continuation"
    "frame_masked f" "frame_payload f = pl"
  let ?c = "c0\<lparr>ws_frag_payload := acc @ pl, ws_frag_active := False\<rparr>"
  have "process_frame f c0 = (deliver_message op (acc @ pl) ?c)\<lparr>ws_frag_payload := []\<rparr>"
    using f assms(3) by (simp add: process_frame_def session_at_def Let_def)
  moreover have "session_at m None out rest ?c" using f(1) by (simp add: session_at_def)
  ultimately show "session_at m None (out @ msg_bytes (op, acc @ pl)) rest (process_frame f c0)"
    using deliver_at [of m out rest ?c op "acc @ pl"] assms(5) by (simp add: session_at_def)
qed (use assms(3,4) in auto)

lemma session_pings:
  "session_runs m c frag out (client_pings key ps @ rest) \<Longrightarrow> length key = 4 \<Longrightarrow> list_all (control_ok m) ps \<Longrightarrow>
     session_runs m c frag (out @ pong_replies ps) rest"
proof (induction ps arbitrary: out)
  case (Cons p ps)
  then show ?case using session_ping [of m c frag out key p "client_pings key ps @ rest"] Cons.IH [of "out @ msg_bytes (Pong, p)"]
    by (simp add: client_pings_def pong_replies_def)
qed (simp add: client_pings_def pong_replies_def)

lemma session_rest:
  "session_runs m c (Some (op, acc)) out (wire_rest key r @ rest) \<Longrightarrow> r \<noteq> [] \<Longrightarrow> length key = 4 \<Longrightarrow>
     list_all (\<lambda>x. list_all (control_ok m) (fst x)) r \<Longrightarrow> length (message_text acc r) \<le> unat m \<Longrightarrow>
     length (message_text acc r) < 2 ^ 63 \<Longrightarrow> op = Text \<longrightarrow> valid_utf8 (message_text acc r) \<Longrightarrow>
     session_runs m c None (out @ pong_replies (concat (map fst r)) @ msg_bytes (op, message_text acc r)) rest"
proof (induction r arbitrary: acc out)
  case (Cons x r)
  obtain ps part where x: "x = (ps, part)" by (cases x)
  have t: "message_text acc (x # r) = message_text (acc @ part) r" by (simp add: x message_text_def)
  have pr: "pong_replies (concat (map fst (x # r))) = pong_replies ps @ pong_replies (concat (map fst r))"
    by (simp add: x pong_replies_def)
  have 1: "session_runs m c (Some (op, acc)) (out @ pong_replies ps)
      (client_frame key Continuation (r = []) part @ wire_rest key r @ rest)"
    using Cons.prems(1,3,4) x by (intro session_pings) auto
  have l: "length (acc @ part) \<le> unat m" "length (acc @ part) < 2 ^ 63"
    using Cons.prems(5,6) by (auto simp: message_text_def x)
  show ?case
  proof (cases "r = []")
    case True
    with session_last [OF _ Cons.prems(3) l, of c op "out @ pong_replies ps" rest] 1 Cons.prems(7) show ?thesis
      by (simp add: x message_text_def pong_replies_def)
  next
    case False
    with session_middle [OF _ Cons.prems(3) l, of c op "out @ pong_replies ps" "wire_rest key r @ rest"] 1
    have "session_runs m c (Some (op, acc @ part)) (out @ pong_replies ps) (wire_rest key r @ rest)" by simp
    from Cons.IH [OF this False Cons.prems(3)] Cons.prems(4-7) show ?thesis
      unfolding t pr by simp
  qed
qed simp

lemma session_item:
  assumes "session_runs m c None out (item_wire key it @ rest)" "length key = 4" "item_ok m it"
  shows "session_runs m c None (out @ item_reply it) rest"
proof (cases it)
  case (CPing pl)
  with assms session_ping show ?thesis by simp
next
  case (CPong pl)
  with assms session_pong show ?thesis by simp
next
  case (CMessage op first r)
  show ?thesis
  proof (cases "r = []")
    case True
    with CMessage assms session_single [of m c out key op first rest] show ?thesis
      by (simp add: message_text_def pong_replies_def)
  next
    case False
    with CMessage assms have "session_runs m c (Some (op, first)) out (wire_rest key r @ rest)"
      by (intro session_first [of m c out key]) (auto simp: message_text_def)
    from session_rest [OF this False assms(2)] CMessage assms(3) show ?thesis by simp
  qed
qed

lemma session_items:
  "session_runs m c None out (concat (map (item_wire key) its)) \<Longrightarrow> length key = 4 \<Longrightarrow> list_all (item_ok m) its \<Longrightarrow>
     session_runs m c None (out @ concat (map item_reply its)) []"
proof (induction its arbitrary: out)
  case (Cons it its)
  from session_item [of m c out key it "concat (map (item_wire key) its)"] Cons
  have "session_runs m c None (out @ item_reply it) (concat (map (item_wire key) its))" by simp
  from Cons.IH [OF this] Cons.prems show ?case by simp
qed simp

lemma session_stops: "session_at m frag out [] c \<Longrightarrow> ws_loop c = c"
  by (subst ws_loop.simps) (simp add: session_at_def fp_has_error_def fp_next_def)

text \<open>
  C17: A client that sends any sequence of Pings, Pongs and text or binary
  messages, whole or cut into fragments with Pings between them, masked and
  within the size limit, gets back exactly one Pong per Ping and one final frame
  with the reassembled message per message, in the order sent.
\<close>

theorem echo_server:
  assumes "length key = 4" "list_all (item_ok m) its"
  shows "ws_output (ws_feed (concat (map (item_wire key) its)) (ws_new m now)) = concat (map item_reply its)"
proof -
  let ?w = "concat (map (item_wire key) its)"
  have clean: "\<not> fp_has_error (ws_parser (ws_new m now))" "ws_state (ws_new m now) \<noteq> Closed"
    by (simp_all add: ws_new_def fp_new_def fp_has_error_def)
  have "session_at m None [] ?w (ws_ext ?w (ws_new m now))"
    by (simp add: session_at_def ws_ext_def ws_new_def fp_new_def)
  from session_items [OF session_runs_start [OF this] assms] obtain c' where
    c': "session_at m None (concat (map item_reply its)) [] c'" "ws_loop (ws_ext ?w (ws_new m now)) = ws_loop c'"
    by (auto simp: session_runs_def)
  with session_stops [OF c'(1)] show ?thesis
    by (simp add: ws_feed_eq [OF clean] session_at_def)
qed

subsection \<open>After a violation\<close>

text \<open>A session that failed with its parser cleared, as every failing read leaves it.\<close>

lemma violation_frame_ignored:
  assumes "ws_error c" "ws_state c = Closing" "fp_error (ws_parser c) = NoError"
    and "fp_buffer (ws_parser c) = client_frame key op fin pl @ rest" "op \<noteq> Close"
    and "length key = 4" "length pl < 2 ^ 63" "length pl \<le> unat (fp_max_payload (ws_parser c))"
    and "is_control_opcode op \<longrightarrow> fin \<and> length pl \<le> 125"
  shows "ws_loop c = c\<lparr>ws_parser := fp_clear (ws_parser c)\<rparr>"
proof -
  let ?p = "ws_parser c"
  let ?f = "\<lparr>frame_fin = fin, frame_rsv = 0, frame_opcode = op, frame_masked = True,
       frame_mask_key = key, frame_payload = pl\<rparr>"
  have n: "fp_next ?p = (FrameReady ?f, ?p\<lparr>fp_buffer := rest\<rparr>)"
    using fp_next_client [of key pl ?p op fin rest] assms by (simp add: client_frame_def)
  have "process_frame ?f (c\<lparr>ws_parser := ?p\<lparr>fp_buffer := rest\<rparr>\<rparr>) = c\<lparr>ws_parser := ?p\<lparr>fp_buffer := rest\<rparr>\<rparr>"
    using assms(2,5) by (simp add: process_frame_def)
  with n assms(1,3) show ?thesis
    by (subst ws_loop.simps) (simp add: Let_def fp_has_error_def fp_clear_def)
qed

text \<open>
  After a protocol violation the session waits for the peer's Close, but a
  read that starts with any other frame is dropped whole: the Close that follows
  in the same read is not seen and the session changes in nothing.
\<close>

theorem violation_drops_batch:
  assumes "ws_run m e c" "ws_error c" "ws_state c = Closing" "fp_buffer (ws_parser c) = []" "op \<noteq> Close" "length key = 4"
    and "length pl < 2 ^ 63" "length pl \<le> unat (ws_max c)" "is_control_opcode op \<longrightarrow> fin \<and> length pl \<le> 125"
  shows "ws_view (ws_feed (client_frame key op fin pl @ rest) c) = ws_view c"
proof -
  have clean: "\<not> fp_has_error (ws_parser c)" and max: "fp_max_payload (ws_parser c) = ws_max c"
    using ws_run_clean ws_run_inv assms(1) by (auto simp: ws_inv_def ws_ok_def)
  let ?c = "ws_ext (client_frame key op fin pl @ rest) c"
  have "ws_loop ?c = ?c\<lparr>ws_parser := fp_clear (ws_parser ?c)\<rparr>"
    using assms clean max by (intro violation_frame_ignored) (auto simp: ws_ext_def fp_has_error_def)
  then show ?thesis
    using ws_feed_eq [OF clean, of "client_frame key op fin pl @ rest"] assms(3) by (simp add: ws_ext_def)
qed

theorem violation_drops_batch_witness:
  "ws_view (ws_feed (client_frame [1, 2, 3, 4] Ping True [7] @ client_frame [1, 2, 3, 4] Close True [])
      (ws_feed [0xF0, 0] (ws_new 1024 0))) = ws_view (ws_feed [0xF0, 0] (ws_new 1024 0))"
proof (rule violation_drops_batch)
  show "ws_run 1024 [] (ws_feed [0xF0, 0] (ws_new 1024 0))" by (intro ws_run.intros)
  show "ws_error (ws_feed [0xF0, 0] (ws_new 1024 0))" by code_simp
  show "ws_state (ws_feed [0xF0, 0] (ws_new 1024 0)) = Closing" by code_simp
  show "fp_buffer (ws_parser (ws_feed [0xF0, 0] (ws_new 1024 0))) = []" by code_simp
  show "length [7 :: byte] \<le> unat (ws_max (ws_feed [0xF0, 0] (ws_new 1024 0)))" by code_simp
qed simp_all

theorem echo_server_witness:
  "ws_output (ws_feed (concat (map (item_wire [1, 2, 3, 4])
      [CPing [1], CMessage Text [0x68] [([[9]], [0x69]), ([], [0x21])], CMessage Binary [255] []])) (ws_new 64 0)) =
    concat (map item_reply [CPing [1], CMessage Text [0x68] [([[9]], [0x69]), ([], [0x21])], CMessage Binary [255] []])"
proof (rule echo_server)
  show "list_all (item_ok 64) [CPing [1], CMessage Text [0x68] [([[9]], [0x69]), ([], [0x21])], CMessage Binary [255] []]"
    by code_simp
qed simp

end
