(* ===== verification/Response_Parser.thy ===== *)
theory Response_Parser
  imports Http_Message Byte_Queue
begin

section \<open>The parser for upstream responses: \<^verbatim>\<open>proxy_response_parser.cpp\<close>\<close>

text \<open>
  The parser object is the record \<open>RespParser\<close>.  Its receive buffer
  (\<^verbatim>\<open>buffer_\<close> with the read position \<^verbatim>\<open>offset_\<close>, compacted now and then) is
  the record \<open>RecvBuffer\<close>, interpreted as a byte queue.  Each
  \<^verbatim>\<open>bool parse_xxx()\<close> returns whether the loop of \<^verbatim>\<open>process\<close> goes on, together
  with the updated object.  Sizes are \<^typ>\<open>nat\<close>: the longest number the parser
  reads has 19 digits, so no \<^verbatim>\<open>size_t\<close> arithmetic wraps (lemma
  \<open>content_length_fits\<close>).
\<close>

subsection \<open>State\<close>

datatype State =
  StatusLine | Headers | Body | ChunkSize | ChunkData | ChunkDataCrlf | Trailer | Complete | Error

datatype Framing = NoBody | ContentLength | Chunked | UntilClose

record RespConfig =
  max_header_bytes :: nat
  max_response_body :: nat
  request_was_head :: bool

definition default_resp_config :: RespConfig where
  "default_resp_config =
     \<lparr>max_header_bytes = 65536, max_response_body = 4194304, request_was_head = False\<rparr>"

record RecvBuffer =
  rb_bytes :: string
  rb_offset :: nat

record RespParser =
  pr_buf :: RecvBuffer
  pr_headers :: HttpHeaders
  pr_body :: string
  pr_reason :: string
  pr_error :: string
  pr_state :: State
  pr_framing :: Framing
  pr_config :: RespConfig
  pr_status :: nat
  pr_content_length :: nat
  pr_chunk_remaining :: nat
  pr_header_bytes :: nat
  pr_saw_cl :: bool
  pr_saw_te :: bool
  pr_close :: bool
  pr_interim :: bool

definition empty_buf :: RecvBuffer where
  "empty_buf = \<lparr>rb_bytes = [], rb_offset = 0\<rparr>"

definition pr_new :: "RespConfig \<Rightarrow> RespParser" where
  "pr_new c = \<lparr>pr_buf = empty_buf, pr_headers = [], pr_body = [], pr_reason = [], pr_error = [],
     pr_state = StatusLine, pr_framing = NoBody, pr_config = c, pr_status = 0,
     pr_content_length = 0, pr_chunk_remaining = 0, pr_header_bytes = 0,
     pr_saw_cl = False, pr_saw_te = False, pr_close = False, pr_interim = False\<rparr>"

definition pr_reset :: "RespConfig \<Rightarrow> RespParser \<Rightarrow> RespParser" where
  "pr_reset c p = p\<lparr>pr_buf := empty_buf, pr_headers := [], pr_body := [], pr_reason := [],
     pr_error := [], pr_state := StatusLine, pr_framing := NoBody, pr_config := c, pr_status := 0,
     pr_content_length := 0, pr_chunk_remaining := 0, pr_header_bytes := 0,
     pr_saw_cl := False, pr_saw_te := False, pr_close := False, pr_interim := False\<rparr>"

subsection \<open>The receive buffer\<close>

definition rb_avail :: "RecvBuffer \<Rightarrow> string" where
  "rb_avail b = drop (rb_offset b) (rb_bytes b)"

definition rb_append :: "string \<Rightarrow> RecvBuffer \<Rightarrow> RecvBuffer" where
  "rb_append s b = b\<lparr>rb_bytes := rb_bytes b @ s\<rparr>"

definition kCompactThreshold :: nat where
  "kCompactThreshold = 8 * 1024"

definition rb_consume :: "nat \<Rightarrow> RecvBuffer \<Rightarrow> RecvBuffer" where
  "rb_consume count b =
     (let b = b\<lparr>rb_offset := rb_offset b + count\<rparr> in
      if rb_offset b \<ge> length (rb_bytes b) then empty_buf
      else if rb_offset b \<ge> kCompactThreshold
      then b\<lparr>rb_bytes := drop (rb_offset b) (rb_bytes b), rb_offset := 0\<rparr>
      else b)"

definition rb_ok :: "RecvBuffer \<Rightarrow> bool" where
  "rb_ok b \<longleftrightarrow> rb_offset b \<le> length (rb_bytes b)"

lemma rb_avail_empty [simp]: "rb_avail empty_buf = []"
  by (simp add: rb_avail_def empty_buf_def)

lemma rb_ok_empty [simp]: "rb_ok empty_buf"
  by (simp add: rb_ok_def empty_buf_def)

lemma rb_avail_consume [simp]: "rb_avail (rb_consume n b) = drop n (rb_avail b)"
proof (cases "length (rb_bytes b) \<le> rb_offset b + n")
  case True
  then have "rb_consume n b = empty_buf" "drop n (rb_avail b) = []"
    by (simp_all add: rb_consume_def rb_avail_def add.commute)
  then show ?thesis by simp
qed (simp add: rb_consume_def Let_def rb_avail_def add.commute)

lemma rb_avail_append: "rb_ok b \<Longrightarrow> rb_avail (rb_append s b) = rb_avail b @ s"
  by (simp add: rb_avail_def rb_append_def rb_ok_def)

lemma rb_ok_append [simp]: "rb_ok b \<Longrightarrow> rb_ok (rb_append s b)"
  by (simp add: rb_ok_def rb_append_def)

lemma rb_ok_consume [simp]: "rb_ok (rb_consume n b)"
proof (cases "length (rb_bytes b) \<le> rb_offset b + n")
  case True
  then have "rb_consume n b = empty_buf" by (simp add: rb_consume_def)
  then show ?thesis by simp
qed (simp add: rb_consume_def Let_def rb_ok_def)

interpretation recv: byte_queue rb_avail rb_append rb_consume "\<lambda>_. empty_buf" rb_ok
  by unfold_locales (simp_all add: rb_avail_append)

definition pr_avail :: "RespParser \<Rightarrow> string" where
  "pr_avail p = rb_avail (pr_buf p)"

definition pr_find_crlf :: "RespParser \<Rightarrow> nat option" where
  "pr_find_crlf p = find_sub CRLF (pr_avail p)"

definition pr_consume :: "nat \<Rightarrow> RespParser \<Rightarrow> RespParser" where
  "pr_consume n p = p\<lparr>pr_buf := rb_consume n (pr_buf p)\<rparr>"

definition pr_fail :: "string \<Rightarrow> RespParser \<Rightarrow> RespParser" where
  "pr_fail msg p = p\<lparr>pr_state := Error, pr_error := msg, pr_body := [], pr_buf := empty_buf\<rparr>"

definition finish_message :: "RespParser \<Rightarrow> RespParser" where
  "finish_message p = p\<lparr>pr_state := Complete, pr_buf := empty_buf\<rparr>"

subsection \<open>Header values\<close>

definition ascii_iequals :: "char \<Rightarrow> char \<Rightarrow> bool" where
  "ascii_iequals a b \<longleftrightarrow> to_lower a = to_lower b"

definition is_token_sep :: "char \<Rightarrow> bool" where
  "is_token_sep c \<longleftrightarrow> c = CHR '','' \<or> c = CHR '' '' \<or> c = TAB"

definition contains_token :: "string \<Rightarrow> string \<Rightarrow> bool" where
  "contains_token v t \<longleftrightarrow>
     \<not> (t = [] \<or> length v < length t) \<and>
     list_ex (\<lambda>i.
         list_all (\<lambda>j. ascii_iequals (v ! (i + j)) (t ! j)) [0..<length t] \<and>
         (i = 0 \<or> is_token_sep (v ! (i - 1))) \<and>
         (i + length t \<ge> length v \<or> is_token_sep (v ! (i + length t))))
       [0..<length v - length t + 1]"

definition trim_ows :: "string \<Rightarrow> string" where
  "trim_ows v = trim_loop is_ows v"

subsection \<open>Status line\<close>

definition header_limit_msg :: string where
  "header_limit_msg = ''upstream response header limit exceeded''"

text \<open>
  The checks on one status line, \<^verbatim>\<open>version SP status-code [SP reason-phrase]\<close>:
  the error text, or the code and the reason.
\<close>

definition read_status_line :: "string \<Rightarrow> string + (nat \<times> string)" where
  "read_status_line line =
     (case find_char (CHR '' '') line of
        None \<Rightarrow> Inl ''malformed upstream status line''
      | Some first_space \<Rightarrow>
          let version = substr line 0 first_space;
              rest = drop (first_space + 1) line;
              second_space = find_char (CHR '' '') rest;
              code_text = (case second_space of None \<Rightarrow> rest | Some k \<Rightarrow> take k rest)
          in if version \<noteq> ''HTTP/1.1'' \<and> version \<noteq> ''HTTP/1.0''
             then Inl (''unsupported upstream protocol version '' @ [CHR 0x27] @ version @ [CHR 0x27])
             else if length code_text \<noteq> 3 \<or> \<not> list_all is_digit code_text
             then Inl (''malformed upstream status code '' @ [CHR 0x27] @ code_text @ [CHR 0x27])
             else let status = digits_value code_text in
             if status < 100 \<or> status > 599
             then Inl ''upstream status code out of range''
             else Inr (status, case second_space of None \<Rightarrow> []
                               | Some k \<Rightarrow> trim_ows (drop (k + 1) rest)))"

definition parse_status_line :: "RespParser \<Rightarrow> bool \<times> RespParser" where
  "parse_status_line p =
     (case pr_find_crlf p of
        None \<Rightarrow>
          (False, if length (pr_avail p) > max_header_bytes (pr_config p)
                  then pr_fail header_limit_msg p else p)
      | Some crlf \<Rightarrow>
          let line = take crlf (pr_avail p);
              p = pr_consume (crlf + 2) p;
              p = p\<lparr>pr_header_bytes := pr_header_bytes p + (length line + 2)\<rparr>
          in case read_status_line line of
               Inl msg \<Rightarrow> (False, pr_fail msg p)
             | Inr (status, reason) \<Rightarrow>
                 let p = p\<lparr>pr_status := status, pr_reason := reason\<rparr> in
                 if 100 \<le> status \<and> status < 200 then
                   (if status = 101
                    then (False, pr_fail ''upstream requested a protocol upgrade (101)'' p)
                    else (True, p\<lparr>pr_interim := True, pr_headers := [], pr_saw_cl := False,
                                  pr_saw_te := False, pr_close := False, pr_state := Headers\<rparr>))
                 else (True, p\<lparr>pr_interim := False, pr_state := Headers\<rparr>))"

subsection \<open>Header lines and framing\<close>

definition pr_bodyless :: "RespParser \<Rightarrow> bool" where
  "pr_bodyless p \<longleftrightarrow> request_was_head (pr_config p) \<or> pr_status p = 204 \<or> pr_status p = 304"

definition decide_framing :: "RespParser \<Rightarrow> RespParser" where
  "decide_framing p =
     (if pr_saw_te p \<and> pr_saw_cl p
      then pr_fail ''upstream sent both Content-Length and Transfer-Encoding'' p
      else if request_was_head (pr_config p) \<or> pr_status p = 204 \<or> pr_status p = 304
      then finish_message (p\<lparr>pr_framing := NoBody\<rparr>)
      else if pr_saw_te p then p\<lparr>pr_framing := Chunked, pr_state := ChunkSize\<rparr>
      else if pr_saw_cl p then
        (let p = p\<lparr>pr_framing := ContentLength\<rparr>
         in if pr_content_length p = 0 then finish_message p else p\<lparr>pr_state := Body\<rparr>)
      else p\<lparr>pr_framing := UntilClose, pr_state := Body\<rparr>)"

definition bad_cl_msg :: "string \<Rightarrow> string" where
  "bad_cl_msg v = ''malformed upstream Content-Length '' @ [CHR 0x27] @ v @ [CHR 0x27]"

text \<open>The framing fields: the outer result is \<^const>\<open>None\<close> when parsing goes on.\<close>

definition check_framing_field :: "HttpHeader \<Rightarrow> string \<Rightarrow> RespParser \<Rightarrow> string option \<times> RespParser" where
  "check_framing_field h value p =
     (if header_norm h = ''content-length'' then
        if pr_saw_cl p \<and> headers_get (pr_headers p) ''Content-Length'' \<noteq> value
        then (Some ''conflicting Content-Length headers from upstream'', p)
        else if value = [] \<or> length value > 19 then (Some (bad_cl_msg value), p)
        else if \<not> list_all is_digit value then (Some (bad_cl_msg value), p)
        else let n = digits_value value in
          if \<not> pr_bodyless p \<and> n > max_response_body (pr_config p)
          then (Some ''upstream Content-Length exceeds the configured limit'', p)
          else (None, p\<lparr>pr_content_length := n, pr_saw_cl := True\<rparr>)
      else if header_norm h = ''transfer-encoding'' then
        if \<not> contains_token value ''chunked''
        then (Some (''unsupported upstream Transfer-Encoding '' @ [CHR 0x27] @ value @ [CHR 0x27]), p)
        else (None, p\<lparr>pr_saw_te := True\<rparr>)
      else if header_norm h = ''connection'' then
        if contains_token value ''close'' then (None, p\<lparr>pr_close := True\<rparr>) else (None, p)
      else (None, p))"

text \<open>The checks on the text of one header line: the error text, or name and value.\<close>

definition read_header_line :: "string \<Rightarrow> string + (string \<times> string)" where
  "read_header_line line =
     (case find_char (CHR '':'') line of
        None \<Rightarrow> Inl ''malformed upstream header line''
      | Some colon \<Rightarrow>
          if colon = 0 then Inl ''malformed upstream header line''
          else let name = substr line 0 colon;
                   value = trim_ows (drop (colon + 1) line) in
          if \<not> header_is_valid (make_header name value)
          then Inl (''invalid upstream header '' @ [CHR 0x27] @ name @ [CHR 0x27])
          else Inr (name, value))"

definition parse_header_line :: "RespParser \<Rightarrow> bool \<times> RespParser" where
  "parse_header_line p =
     (case pr_find_crlf p of
        None \<Rightarrow>
          (False, if length (pr_avail p) > max_header_bytes (pr_config p)
                  then pr_fail header_limit_msg p else p)
      | Some crlf \<Rightarrow>
          if crlf = 0 then
            let p = pr_consume 2 p; p = p\<lparr>pr_header_bytes := pr_header_bytes p + 2\<rparr>
            in if pr_interim p
               then (True, p\<lparr>pr_interim := False, pr_headers := [], pr_state := StatusLine\<rparr>)
               else let p = decide_framing p in (pr_state p \<noteq> Complete, p)
          else
            let line = take crlf (pr_avail p) in
            if line ! 0 = CHR '' '' \<or> line ! 0 = TAB
            then (False, pr_fail ''obsolete header line folding in upstream response'' p)
            else let p = pr_consume (crlf + 2) p;
                     p = p\<lparr>pr_header_bytes := pr_header_bytes p + (length line + 2)\<rparr> in
            if pr_header_bytes p > max_header_bytes (pr_config p)
            then (False, pr_fail header_limit_msg p)
            else case read_header_line line of
                Inl msg \<Rightarrow> (False, pr_fail msg p)
              | Inr (name, value) \<Rightarrow>
                  (case check_framing_field (make_header name value) value p of
                     (Some msg, p) \<Rightarrow> (False, pr_fail msg p)
                   | (None, p) \<Rightarrow> (True, p\<lparr>pr_headers := headers_set (pr_headers p) name value\<rparr>)))"

subsection \<open>Body and chunked coding\<close>

definition body_limit_msg :: string where
  "body_limit_msg = ''upstream response body exceeds the configured limit''"

definition pr_take_body :: "nat \<Rightarrow> RespParser \<Rightarrow> RespParser" where
  "pr_take_body n p = pr_consume n (p\<lparr>pr_body := pr_body p @ take n (pr_avail p)\<rparr>)"

definition parse_resp_body :: "RespParser \<Rightarrow> bool \<times> RespParser" where
  "parse_resp_body p =
     (if pr_framing p = ContentLength then
        let remaining = pr_content_length p - length (pr_body p) in
        if remaining = 0 then (False, finish_message p)
        else let n = (if remaining < length (pr_avail p) then remaining else length (pr_avail p)) in
          if n = 0 then (False, p)
          else let p = pr_take_body n p
               in (False, if length (pr_body p) = pr_content_length p then finish_message p else p)
      else
        let n = length (pr_avail p) in
        if n = 0 then (False, p)
        else if length (pr_body p) + n > max_response_body (pr_config p)
        then (False, pr_fail body_limit_msg p)
        else (False, pr_take_body n p))"

definition hex_digit :: "char \<Rightarrow> nat option" where
  "hex_digit c =
     (if is_digit c then Some (code c - 48)
      else if 97 \<le> code c \<and> code c \<le> 102 then Some (code c - 97 + 10)
      else if 65 \<le> code c \<and> code c \<le> 70 then Some (code c - 65 + 10)
      else None)"

text \<open>The digit loop of a chunk-size line; \<open>Inl\<close> is the error.\<close>

fun chunk_size_loop :: "nat \<Rightarrow> string \<Rightarrow> string \<Rightarrow> nat \<Rightarrow> string + nat" where
  "chunk_size_loop limit line [] acc = Inr acc"
| "chunk_size_loop limit line (c # cs) acc =
     (case hex_digit c of
        None \<Rightarrow> Inl (''malformed upstream chunk size '' @ [CHR 0x27] @ line @ [CHR 0x27])
      | Some d \<Rightarrow>
          let v = acc * 16 + d in
          if v > limit then Inl ''upstream chunk size exceeds the configured limit''
          else chunk_size_loop limit line cs v)"

definition kMaxLineLength :: nat where
  "kMaxLineLength = 8 * 1024"

definition parse_chunk_size :: "RespParser \<Rightarrow> bool \<times> RespParser" where
  "parse_chunk_size p =
     (case pr_find_crlf p of
        None \<Rightarrow>
          (False, if length (pr_avail p) > kMaxLineLength
                  then pr_fail ''malformed upstream chunk size line'' p else p)
      | Some crlf \<Rightarrow>
          let line = take crlf (pr_avail p);
              p = pr_consume (crlf + 2) p;
              line = (case find_char (CHR '';'') line of None \<Rightarrow> line | Some k \<Rightarrow> substr line 0 k);
              line = trim_ows line
          in if line = [] \<or> length line > 8
             then (False, pr_fail ''malformed upstream chunk size line'' p)
             else case chunk_size_loop (max_response_body (pr_config p)) line line 0 of
                 Inl msg \<Rightarrow> (False, pr_fail msg p)
               | Inr v \<Rightarrow>
                   if v = 0 then (True, p\<lparr>pr_state := Trailer\<rparr>)
                   else (True, p\<lparr>pr_chunk_remaining := v, pr_state := ChunkData\<rparr>))"

definition parse_chunk_data :: "RespParser \<Rightarrow> bool \<times> RespParser" where
  "parse_chunk_data p =
     (if pr_chunk_remaining p = 0 then (True, p\<lparr>pr_state := ChunkDataCrlf\<rparr>)
      else let n = (if pr_chunk_remaining p < length (pr_avail p) then pr_chunk_remaining p
                    else length (pr_avail p)) in
        if n = 0 then (False, p)
        else if length (pr_body p) + n > max_response_body (pr_config p)
        then (False, pr_fail body_limit_msg p)
        else let p = pr_take_body n p;
                 p = p\<lparr>pr_chunk_remaining := pr_chunk_remaining p - n\<rparr>
             in (True, if pr_chunk_remaining p = 0 then p\<lparr>pr_state := ChunkDataCrlf\<rparr> else p))"

definition parse_chunk_crlf :: "RespParser \<Rightarrow> bool \<times> RespParser" where
  "parse_chunk_crlf p =
     (if length (pr_avail p) < 2 then (False, p)
      else if pr_avail p ! 0 \<noteq> CR \<or> pr_avail p ! 1 \<noteq> LF
      then (False, pr_fail ''malformed chunk terminator in upstream response'' p)
      else (True, (pr_consume 2 p)\<lparr>pr_state := ChunkSize\<rparr>))"

definition parse_trailer_line :: "RespParser \<Rightarrow> bool \<times> RespParser" where
  "parse_trailer_line p =
     (case pr_find_crlf p of
        None \<Rightarrow>
          (False, if length (pr_avail p) > max_header_bytes (pr_config p)
                  then pr_fail header_limit_msg p else p)
      | Some crlf \<Rightarrow>
          if crlf = 0 then (False, finish_message (pr_consume 2 p))
          else let line = take crlf (pr_avail p) in
            if line ! 0 = CHR '' '' \<or> line ! 0 = TAB
            then (False, pr_fail ''obsolete header line folding in upstream trailer'' p)
            else if find_char (CHR '':'') line = None
            then (False, pr_fail ''malformed upstream trailer line'' p)
            else let p = pr_consume (crlf + 2) p;
                     p = p\<lparr>pr_header_bytes := pr_header_bytes p + (length line + 2)\<rparr> in
            if pr_header_bytes p > max_header_bytes (pr_config p)
            then (False, pr_fail header_limit_msg p)
            else (True, p))"

subsection \<open>The loop\<close>

definition pr_step :: "RespParser \<Rightarrow> bool \<times> RespParser" where
  "pr_step p =
     (case pr_state p of
        StatusLine \<Rightarrow> parse_status_line p
      | Headers \<Rightarrow> parse_header_line p
      | Body \<Rightarrow> parse_resp_body p
      | ChunkSize \<Rightarrow> parse_chunk_size p
      | ChunkData \<Rightarrow> parse_chunk_data p
      | ChunkDataCrlf \<Rightarrow> parse_chunk_crlf p
      | Trailer \<Rightarrow> parse_trailer_line p
      | Complete \<Rightarrow> (False, p)
      | Error \<Rightarrow> (False, p))"

definition pr_measure :: "RespParser \<Rightarrow> nat" where
  "pr_measure p = 2 * length (pr_avail p) + (if pr_state p = ChunkData then 1 else 0)"

lemma pr_avail_simps [simp]:
  "pr_avail (pr_consume n p) = drop n (pr_avail p)"
  "pr_avail (pr_fail m p) = []" "pr_avail (finish_message p) = []"
  "pr_avail (p\<lparr>pr_headers := hs\<rparr>) = pr_avail p" "pr_avail (p\<lparr>pr_body := b\<rparr>) = pr_avail p"
  "pr_avail (p\<lparr>pr_reason := r\<rparr>) = pr_avail p" "pr_avail (p\<lparr>pr_state := st\<rparr>) = pr_avail p"
  "pr_avail (p\<lparr>pr_framing := f\<rparr>) = pr_avail p" "pr_avail (p\<lparr>pr_status := n\<rparr>) = pr_avail p"
  "pr_avail (p\<lparr>pr_content_length := n\<rparr>) = pr_avail p"
  "pr_avail (p\<lparr>pr_chunk_remaining := n\<rparr>) = pr_avail p"
  "pr_avail (p\<lparr>pr_header_bytes := n\<rparr>) = pr_avail p" "pr_avail (p\<lparr>pr_saw_cl := t\<rparr>) = pr_avail p"
  "pr_avail (p\<lparr>pr_saw_te := t\<rparr>) = pr_avail p" "pr_avail (p\<lparr>pr_close := t\<rparr>) = pr_avail p"
  "pr_avail (p\<lparr>pr_interim := t\<rparr>) = pr_avail p"
  "pr_avail (p\<lparr>pr_buf := bf\<rparr>) = rb_avail bf"
  by (simp_all add: pr_avail_def pr_consume_def pr_fail_def finish_message_def)

lemma pr_consume_sel [simp]:
  "pr_headers (pr_consume n p) = pr_headers p" "pr_body (pr_consume n p) = pr_body p"
  "pr_state (pr_consume n p) = pr_state p" "pr_framing (pr_consume n p) = pr_framing p"
  "pr_config (pr_consume n p) = pr_config p" "pr_status (pr_consume n p) = pr_status p"
  "pr_content_length (pr_consume n p) = pr_content_length p"
  "pr_chunk_remaining (pr_consume n p) = pr_chunk_remaining p"
  "pr_header_bytes (pr_consume n p) = pr_header_bytes p" "pr_saw_cl (pr_consume n p) = pr_saw_cl p"
  "pr_saw_te (pr_consume n p) = pr_saw_te p" "pr_close (pr_consume n p) = pr_close p"
  "pr_interim (pr_consume n p) = pr_interim p" "pr_reason (pr_consume n p) = pr_reason p"
  "pr_error (pr_consume n p) = pr_error p"
  by (simp_all add: pr_consume_def)

lemma pr_fail_sel [simp]:
  "pr_headers (pr_fail m p) = pr_headers p" "pr_body (pr_fail m p) = []"
  "pr_state (pr_fail m p) = Error" "pr_framing (pr_fail m p) = pr_framing p"
  "pr_config (pr_fail m p) = pr_config p" "pr_status (pr_fail m p) = pr_status p"
  "pr_content_length (pr_fail m p) = pr_content_length p" "pr_saw_cl (pr_fail m p) = pr_saw_cl p"
  "pr_saw_te (pr_fail m p) = pr_saw_te p" "pr_error (pr_fail m p) = m"
  by (simp_all add: pr_fail_def)

lemma finish_message_sel [simp]:
  "pr_headers (finish_message p) = pr_headers p" "pr_body (finish_message p) = pr_body p"
  "pr_state (finish_message p) = Complete" "pr_framing (finish_message p) = pr_framing p"
  "pr_config (finish_message p) = pr_config p" "pr_status (finish_message p) = pr_status p"
  "pr_content_length (finish_message p) = pr_content_length p"
  "pr_saw_cl (finish_message p) = pr_saw_cl p" "pr_saw_te (finish_message p) = pr_saw_te p"
  by (simp_all add: finish_message_def)

lemma pr_find_crlf_SomeD: "pr_find_crlf p = Some n \<Longrightarrow> n + 2 \<le> length (pr_avail p)"
  using find_sub_SomeD [of CRLF "pr_avail p" n] by (simp add: pr_find_crlf_def)

lemma check_framing_avail: "check_framing_field h v p = (r, q) \<Longrightarrow> pr_avail q = pr_avail p \<and> pr_state q = pr_state p"
  by (auto simp: check_framing_field_def Let_def split: if_splits)

lemma decide_framing_avail:
  "length (pr_avail (decide_framing p)) \<le> length (pr_avail p) \<and> pr_state (decide_framing p) \<noteq> ChunkData \<or>
   decide_framing p = p\<lparr>pr_framing := UntilClose, pr_state := Body\<rparr>"
  by (auto simp: decide_framing_def Let_def)

lemma decide_framing_le: "length (pr_avail (decide_framing p)) \<le> length (pr_avail p)"
  using decide_framing_avail [of p] by auto

lemma decide_framing_state: "pr_state (decide_framing p) \<noteq> ChunkData"
  using decide_framing_avail [of p] by auto

lemma status_line_decreases:
  "parse_status_line p = (True, q) \<Longrightarrow> length (pr_avail q) < length (pr_avail p) \<and> pr_state q = Headers"
  by (auto simp: parse_status_line_def Let_def split: option.splits if_splits sum.splits dest!: pr_find_crlf_SomeD)

lemma header_line_decreases:
  assumes "parse_header_line p = (True, q)" "pr_state p = Headers"
  shows "length (pr_avail q) < length (pr_avail p) \<and> pr_state q \<noteq> ChunkData"
proof -
  from assms obtain n where n: "pr_find_crlf p = Some n"
    by (auto simp: parse_header_line_def split: option.splits)
  note le = pr_find_crlf_SomeD [OF n]
  show ?thesis
  proof (cases "n = 0")
    case True
    let ?p = "(pr_consume 2 p)\<lparr>pr_header_bytes := pr_header_bytes p + 2\<rparr>"
    from decide_framing_le [of ?p] decide_framing_state [of ?p] assms n True le show ?thesis
      by (auto simp: parse_header_line_def Let_def split: if_splits)
  next
    case False
    with assms n le show ?thesis
      by (auto simp: parse_header_line_def Let_def split: if_splits option.splits prod.splits sum.splits
          dest!: check_framing_avail)
  qed
qed

lemma chunk_size_decreases:
  "parse_chunk_size p = (True, q) \<Longrightarrow> length (pr_avail q) + 2 \<le> length (pr_avail p)"
  by (auto simp: parse_chunk_size_def Let_def split: option.splits if_splits sum.splits
      dest!: pr_find_crlf_SomeD)

lemma chunk_data_decreases:
  "parse_chunk_data p = (True, q) \<Longrightarrow> pr_state p = ChunkData \<Longrightarrow> pr_measure q < pr_measure p"
  by (auto simp: parse_chunk_data_def pr_take_body_def Let_def pr_measure_def split: if_splits)

lemma chunk_crlf_decreases:
  "parse_chunk_crlf p = (True, q) \<Longrightarrow> length (pr_avail q) < length (pr_avail p) \<and> pr_state q = ChunkSize"
  by (auto simp: parse_chunk_crlf_def split: if_splits)

lemma trailer_decreases:
  "parse_trailer_line p = (True, q) \<Longrightarrow> length (pr_avail q) < length (pr_avail p) \<and> pr_state q = pr_state p"
  by (auto simp: parse_trailer_line_def Let_def split: option.splits if_splits dest!: pr_find_crlf_SomeD)

lemma resp_body_stops: "fst (parse_resp_body p) = False"
  by (simp add: parse_resp_body_def Let_def)

lemma pr_step_decreases:
  assumes "pr_step p = (True, q)"
  shows "pr_measure q < pr_measure p"
proof (cases "pr_state p")
  case StatusLine
  with assms status_line_decreases [of p q] show ?thesis by (simp add: pr_step_def pr_measure_def)
next
  case Headers
  with assms header_line_decreases [of p q] show ?thesis by (simp add: pr_step_def pr_measure_def)
next
  case Body
  with assms resp_body_stops [of p] show ?thesis by (simp add: pr_step_def)
next
  case ChunkSize
  with assms chunk_size_decreases [of p q] show ?thesis by (simp add: pr_step_def pr_measure_def)
next
  case ChunkData
  with assms chunk_data_decreases [of p q] show ?thesis by (simp add: pr_step_def)
next
  case ChunkDataCrlf
  with assms chunk_crlf_decreases [of p q] show ?thesis by (simp add: pr_step_def pr_measure_def)
next
  case Trailer
  with assms trailer_decreases [of p q] show ?thesis by (simp add: pr_step_def pr_measure_def)
qed (use assms in \<open>simp_all add: pr_step_def\<close>)

function process :: "RespParser \<Rightarrow> RespParser" where
  "process p = (let (progressed, q) = pr_step p in if progressed then process q else q)"
  by pat_completeness auto
termination
  by (relation "measure pr_measure") (auto dest!: sym [of "(_, _)"] dest: pr_step_decreases)

declare process.simps [simp del]

definition pr_feed :: "string \<Rightarrow> RespParser \<Rightarrow> bool \<times> RespParser" where
  "pr_feed data p =
     (if pr_state p = Error then (False, p)
      else if pr_state p = Complete \<or> length data = 0 then (pr_state p \<noteq> Error, p)
      else if length (pr_avail p) + length data >
              max_header_bytes (pr_config p) + max_response_body (pr_config p)
      then (False, pr_fail ''upstream response buffer limit exceeded'' p)
      else let p = process (p\<lparr>pr_buf := rb_append data (pr_buf p)\<rparr>)
           in (pr_state p \<noteq> Error, p))"

definition finish_on_eof :: "RespParser \<Rightarrow> bool \<times> RespParser" where
  "finish_on_eof p =
     (if pr_state p = Complete then (True, p)
      else if pr_state p = Error then (False, p)
      else if pr_state p = Body \<and> pr_framing p = UntilClose
      then (True, finish_message (p\<lparr>pr_buf := empty_buf\<rparr>))
      else (False, pr_fail ''upstream closed the connection before the response was complete'' p))"

definition upstream_keep_alive :: "RespParser \<Rightarrow> bool" where
  "upstream_keep_alive p =
     (if pr_state p \<noteq> Complete then False
      else if pr_close p then False
      else pr_framing p \<noteq> UntilClose)"

subsection \<open>The invariant\<close>

text \<open>
  The body never exceeds the configured cap, a length that will be used for
  framing is within the cap, the two framings exclude each other once the head
  has been read, and a failed parser holds no body.
\<close>

definition pr_common :: "RespParser \<Rightarrow> bool" where
  "pr_common p \<longleftrightarrow>
     rb_ok (pr_buf p) \<and> headers_wf (pr_headers p) \<and> list_all header_is_valid (pr_headers p) \<and>
     length (pr_body p) \<le> max_response_body (pr_config p) \<and> pr_content_length p < 10 ^ 19"

definition pr_length_ok :: "RespParser \<Rightarrow> bool" where
  "pr_length_ok p \<longleftrightarrow>
     (pr_saw_cl p \<and> \<not> pr_bodyless p \<longrightarrow> pr_content_length p \<le> max_response_body (pr_config p))"

definition pr_state_ok :: "RespParser \<Rightarrow> bool" where
  "pr_state_ok p \<longleftrightarrow>
     (case pr_state p of
        StatusLine \<Rightarrow> pr_body p = [] \<and> pr_status p < 200 \<and> \<not> pr_interim p \<and> pr_length_ok p
      | Headers \<Rightarrow> pr_body p = [] \<and> (pr_interim p \<longrightarrow> pr_status p < 200) \<and> pr_length_ok p
      | Body \<Rightarrow> \<not> (pr_saw_cl p \<and> pr_saw_te p) \<and> pr_length_ok p \<and> \<not> pr_bodyless p \<and>
                (if pr_framing p = ContentLength
                 then pr_saw_cl p \<and> length (pr_body p) < pr_content_length p
                 else pr_framing p = UntilClose)
      | Complete \<Rightarrow> \<not> (pr_saw_cl p \<and> pr_saw_te p) \<and>
                (pr_framing p = NoBody \<longrightarrow> pr_bodyless p \<and> pr_body p = []) \<and>
                (pr_framing p = ContentLength \<longrightarrow> pr_saw_cl p \<and> length (pr_body p) = pr_content_length p)
      | Error \<Rightarrow> pr_body p = []
      | _ \<Rightarrow> pr_framing p = Chunked \<and> pr_saw_te p \<and> \<not> pr_saw_cl p)"

definition pr_ok :: "RespParser \<Rightarrow> bool" where
  "pr_ok p \<longleftrightarrow> pr_common p \<and> pr_state_ok p"

lemma pr_common_update [simp]:
  "pr_common (p\<lparr>pr_reason := r\<rparr>) = pr_common p" "pr_common (p\<lparr>pr_state := st\<rparr>) = pr_common p"
  "pr_common (p\<lparr>pr_framing := f\<rparr>) = pr_common p" "pr_common (p\<lparr>pr_status := n\<rparr>) = pr_common p"
  "pr_common (p\<lparr>pr_chunk_remaining := n\<rparr>) = pr_common p"
  "pr_common (p\<lparr>pr_header_bytes := n\<rparr>) = pr_common p" "pr_common (p\<lparr>pr_saw_cl := t\<rparr>) = pr_common p"
  "pr_common (p\<lparr>pr_saw_te := t\<rparr>) = pr_common p" "pr_common (p\<lparr>pr_close := t\<rparr>) = pr_common p"
  "pr_common (p\<lparr>pr_interim := t\<rparr>) = pr_common p"
  by (simp_all add: pr_common_def)

lemma pr_common_ops [simp]:
  "pr_common p \<Longrightarrow> pr_common (pr_consume n p)" "pr_common p \<Longrightarrow> pr_common (pr_fail m p)"
  "pr_common p \<Longrightarrow> pr_common (finish_message p)" "pr_common p \<Longrightarrow> pr_common (p\<lparr>pr_headers := []\<rparr>)"
  "pr_common p \<Longrightarrow> pr_common (p\<lparr>pr_buf := rb_append s (pr_buf p)\<rparr>)"
  "pr_common p \<Longrightarrow> pr_common (p\<lparr>pr_buf := empty_buf\<rparr>)"
  by (simp_all add: pr_common_def pr_consume_def pr_fail_def finish_message_def)

lemma pr_state_ok_fail [simp]: "pr_state_ok (pr_fail m p)"
  by (simp add: pr_state_ok_def)

lemma pr_ok_fail [simp]: "pr_common p \<Longrightarrow> pr_ok (pr_fail m p)"
  by (simp add: pr_ok_def pr_state_ok_def)

lemma pr_bodyless_update [simp]:
  "pr_bodyless (p\<lparr>pr_header_bytes := n\<rparr>) = pr_bodyless p" "pr_bodyless (p\<lparr>pr_state := st\<rparr>) = pr_bodyless p"
  "pr_bodyless (p\<lparr>pr_framing := f\<rparr>) = pr_bodyless p" "pr_bodyless (pr_consume n p) = pr_bodyless p"
  "pr_bodyless (p\<lparr>pr_content_length := n\<rparr>) = pr_bodyless p" "pr_bodyless (p\<lparr>pr_saw_cl := t\<rparr>) = pr_bodyless p"
  "pr_bodyless (p\<lparr>pr_saw_te := t\<rparr>) = pr_bodyless p" "pr_bodyless (p\<lparr>pr_close := t\<rparr>) = pr_bodyless p"
  "pr_bodyless (p\<lparr>pr_interim := t\<rparr>) = pr_bodyless p" "pr_bodyless (p\<lparr>pr_headers := hs\<rparr>) = pr_bodyless p"
  "pr_bodyless (p\<lparr>pr_body := b\<rparr>) = pr_bodyless p" "pr_bodyless (finish_message p) = pr_bodyless p"
  by (simp_all add: pr_bodyless_def pr_consume_def finish_message_def)

lemma pr_ok_new [simp]: "pr_ok (pr_new c)"
  by (simp add: pr_ok_def pr_common_def pr_state_ok_def pr_new_def pr_length_ok_def)

lemma pr_ok_reset [simp]: "pr_ok (pr_reset c p)"
  by (simp add: pr_ok_def pr_common_def pr_state_ok_def pr_reset_def pr_length_ok_def)

lemma pr_length_ok_update [simp]:
  "pr_length_ok (p\<lparr>pr_header_bytes := n\<rparr>) = pr_length_ok p" "pr_length_ok (p\<lparr>pr_state := st\<rparr>) = pr_length_ok p"
  "pr_length_ok (p\<lparr>pr_framing := f\<rparr>) = pr_length_ok p" "pr_length_ok (pr_consume n p) = pr_length_ok p"
  "pr_length_ok (p\<lparr>pr_saw_te := t\<rparr>) = pr_length_ok p" "pr_length_ok (p\<lparr>pr_close := t\<rparr>) = pr_length_ok p"
  "pr_length_ok (p\<lparr>pr_interim := t\<rparr>) = pr_length_ok p" "pr_length_ok (p\<lparr>pr_headers := hs\<rparr>) = pr_length_ok p"
  "pr_length_ok (p\<lparr>pr_body := b\<rparr>) = pr_length_ok p"
  by (simp_all add: pr_length_ok_def)

lemma pr_length_ok_no_cl [simp]: "\<not> pr_saw_cl p \<Longrightarrow> pr_length_ok p"
  by (simp add: pr_length_ok_def)

text \<open>A new status line keeps a length read from an interim head within the cap.\<close>

lemma pr_length_ok_status:
  "pr_length_ok p \<Longrightarrow> pr_status p < 200 \<Longrightarrow> pr_length_ok (p\<lparr>pr_status := n\<rparr>)"
  by (auto simp: pr_length_ok_def pr_bodyless_def)

lemma read_status_line_range: "read_status_line l = Inr (n, r) \<Longrightarrow> 100 \<le> n \<and> n \<le> 599"
  by (auto simp: read_status_line_def Let_def split: option.splits if_splits)

lemma status_line_ok:
  assumes "pr_ok p" "pr_state p = StatusLine" "parse_status_line p = (t, q)"
  shows "pr_ok q"
proof (cases "pr_find_crlf p")
  case None
  with assms show ?thesis by (auto simp: parse_status_line_def pr_ok_def split: if_splits)
next
  case (Some n)
  let ?p = "(pr_consume (n + 2) p)\<lparr>pr_header_bytes := pr_header_bytes p + (length (take n (pr_avail p)) + 2)\<rparr>"
  have p: "pr_common ?p" "pr_length_ok ?p" "pr_body ?p = []" "pr_status ?p < 200"
    using assms(1,2) by (simp_all add: pr_ok_def pr_state_ok_def)
  show ?thesis
  proof (cases "read_status_line (take n (pr_avail p))")
    case (Inl m)
    with assms(3) Some p(1) show ?thesis by (auto simp: parse_status_line_def Let_def)
  next
    case (Inr a)
    obtain st r where a: "a = (st, r)" by (cases a)
    let ?q = "?p\<lparr>pr_status := st, pr_reason := r\<rparr>"
    have q: "pr_common ?q" "pr_body ?q = []" "pr_length_ok ?q"
      using p pr_length_ok_status [OF p(2,4), of st] by (simp_all add: pr_length_ok_def pr_bodyless_def)
    consider "st < 200" "st = 101" | "st < 200" "st \<noteq> 101" | "200 \<le> st" by linarith
    then show ?thesis
    proof cases
      case 1
      with assms(3) Some Inr a read_status_line_range q(1) show ?thesis
        by (auto simp: parse_status_line_def Let_def)
    next
      case 2
      with assms(3) Some Inr a read_status_line_range [of "take n (pr_avail p)" st r]
      have "q = ?q\<lparr>pr_interim := True, pr_headers := [], pr_saw_cl := False,
          pr_saw_te := False, pr_close := False, pr_state := Headers\<rparr>"
        by (simp add: parse_status_line_def Let_def)
      moreover have "pr_common (?q\<lparr>pr_interim := True, pr_headers := [], pr_saw_cl := False,
          pr_saw_te := False, pr_close := False, pr_state := Headers\<rparr>)"
        using q(1) by (simp add: pr_common_def)
      ultimately show ?thesis using 2(1) q(2) by (simp add: pr_ok_def pr_state_ok_def)
    next
      case 3
      with assms(3) Some Inr a have "q = ?q\<lparr>pr_interim := False, pr_state := Headers\<rparr>"
        by (simp add: parse_status_line_def Let_def)
      with q show ?thesis by (simp add: pr_ok_def pr_state_ok_def pr_length_ok_def pr_bodyless_def)
    qed
  qed
qed

lemma content_length_fits:
  assumes "list_all is_digit v" "length v \<le> 19"
  shows "digits_value v < 10 ^ 19"
proof -
  have "digits_value v < 10 ^ length v" using assms(1) by (simp add: digits_value_bound list_all_iff)
  also have "\<dots> \<le> 10 ^ 19" using assms(2) by (intro power_increasing) simp_all
  finally show ?thesis .
qed

text \<open>The ways the framing check can end.\<close>

lemma check_framing_cases:
  assumes "check_framing_field h v p = (r, q)"
  obtains (bad) m where "r = Some m" "q = p"
  | (keep) "r = None" "q = p"
  | (close) "r = None" "q = p\<lparr>pr_close := True\<rparr>"
  | (chunked) "r = None" "header_norm h = ''transfer-encoding''" "q = p\<lparr>pr_saw_te := True\<rparr>"
  | (len) n where "r = None" "header_norm h = ''content-length''" "list_all is_digit v" "length v \<le> 19"
      "v \<noteq> []" "n = digits_value v" "\<not> pr_bodyless p \<longrightarrow> n \<le> max_response_body (pr_config p)"
      "q = p\<lparr>pr_content_length := n, pr_saw_cl := True\<rparr>"
proof (cases r)
  case (Some m)
  with assms have "q = p"
    unfolding check_framing_field_def Let_def by (simp split: if_splits)
  with Some bad show ?thesis by blast
next
  case None
  show ?thesis
  proof (cases "header_norm h = ''content-length''")
    case True
    with assms None have "list_all is_digit v" "length v \<le> 19" "v \<noteq> []"
      "\<not> pr_bodyless p \<longrightarrow> digits_value v \<le> max_response_body (pr_config p)"
      "q = p\<lparr>pr_content_length := digits_value v, pr_saw_cl := True\<rparr>"
      unfolding check_framing_field_def Let_def by (auto split: if_splits)
    with None True len show ?thesis by blast
  next
    case F1: False
    show ?thesis
    proof (cases "header_norm h = ''transfer-encoding''")
      case True
      with assms None have "q = p\<lparr>pr_saw_te := True\<rparr>"
        unfolding check_framing_field_def by (simp split: if_splits)
      with None True chunked show ?thesis by blast
    next
      case False
      with F1 assms None have "q = p \<or> q = p\<lparr>pr_close := True\<rparr>"
        unfolding check_framing_field_def by (simp split: if_splits)
      with None keep close show ?thesis by blast
    qed
  qed
qed

lemma check_framing_ok:
  assumes "pr_common p" "pr_length_ok p" "check_framing_field h v p = (r, q)"
  shows "pr_common q \<and> pr_length_ok q \<and> pr_state q = pr_state p \<and> pr_headers q = pr_headers p \<and>
    pr_body q = pr_body p \<and> pr_interim q = pr_interim p \<and> pr_status q = pr_status p"
  using assms(3)
proof (cases rule: check_framing_cases)
  case (len n)
  with assms(1) content_length_fits [of v] show ?thesis by (simp add: pr_common_def pr_length_ok_def)
next
  case close
  with assms show ?thesis by (simp add: pr_common_def)
next
  case chunked
  with assms show ?thesis by (simp add: pr_common_def)
qed (use assms in simp_all)

lemma decide_framing_ok:
  assumes "pr_common p" "pr_length_ok p" "pr_body p = []"
  shows "pr_ok (decide_framing p)"
proof (cases "pr_saw_te p \<and> pr_saw_cl p")
  case True
  with assms show ?thesis by (simp add: decide_framing_def)
next
  case False
  then consider "pr_bodyless p" | "\<not> pr_bodyless p" "pr_saw_te p" "\<not> pr_saw_cl p"
    | "\<not> pr_bodyless p" "\<not> pr_saw_te p" "pr_saw_cl p" | "\<not> pr_bodyless p" "\<not> pr_saw_te p" "\<not> pr_saw_cl p"
    by blast
  then show ?thesis
    using assms False
    by cases (auto simp: decide_framing_def pr_bodyless_def [symmetric] Let_def pr_ok_def pr_state_ok_def)
qed

lemma read_header_line_valid:
  "read_header_line l = Inr (n, v) \<Longrightarrow> header_is_valid (make_header n v)"
  by (auto simp: read_header_line_def Let_def split: option.splits if_splits)

lemma header_line_ok:
  assumes "pr_ok p" "pr_state p = Headers" "parse_header_line p = (t, q)"
  shows "pr_ok q"
proof (cases "pr_find_crlf p")
  case None
  with assms show ?thesis by (auto simp: parse_header_line_def pr_ok_def split: if_splits)
next
  case (Some n)
  have p: "pr_common p" "pr_length_ok p" "pr_body p = []" "pr_interim p \<Longrightarrow> pr_status p < 200"
    using assms(1,2) by (simp_all add: pr_ok_def pr_state_ok_def)
  show ?thesis
  proof (cases "n = 0")
    case True
    let ?p = "(pr_consume 2 p)\<lparr>pr_header_bytes := pr_header_bytes p + 2\<rparr>"
    from p decide_framing_ok [of ?p] assms(3) Some True show ?thesis
      by (auto simp: parse_header_line_def Let_def pr_ok_def pr_state_ok_def split: if_splits)
  next
    case False
    show ?thesis
    proof (cases t)
      case t: False
      let ?p = "(pr_consume (n + 2) p)\<lparr>pr_header_bytes := pr_header_bytes p + (length (take n (pr_avail p)) + 2)\<rparr>"
      have "pr_common ?p" "pr_length_ok ?p" using p by simp_all
      then have "check_framing_field h v ?p = (r, q') \<Longrightarrow> pr_common q'" for h v r q'
        using check_framing_ok by blast
      with assms(3) Some False t p(1) show ?thesis
        by (auto simp: parse_header_line_def Let_def split: option.splits if_splits prod.splits sum.splits)
    next
      case True
      let ?p = "(pr_consume (n + 2) p)\<lparr>pr_header_bytes := pr_header_bytes p + (length (take n (pr_avail p)) + 2)\<rparr>"
      obtain name v r where r: "check_framing_field (make_header name v) v ?p = (None, r)"
        "header_is_valid (make_header name v)" "q = r\<lparr>pr_headers := headers_set (pr_headers r) name v\<rparr>"
        using assms(3) Some False True
        by (auto simp: parse_header_line_def Let_def dest: read_header_line_valid
            split: option.splits if_splits prod.splits sum.splits)
      have "pr_common ?p" "pr_length_ok ?p" using p by simp_all
      from check_framing_ok [OF this r(1)] p assms(2) have f: "pr_common r" "pr_length_ok r"
        "pr_state r = Headers" "pr_body r = []" "pr_interim r \<Longrightarrow> pr_status r < 200" by simp_all
      then have "pr_common q" using r(2,3)
        by (simp add: pr_common_def headers_wf_set headers_set_valid)
      with f r(3) show ?thesis by (simp add: pr_ok_def pr_state_ok_def)
    qed
  qed
qed

lemma pr_take_body_sel [simp]:
  "pr_body (pr_take_body n p) = pr_body p @ take n (pr_avail p)" "pr_state (pr_take_body n p) = pr_state p"
  "pr_framing (pr_take_body n p) = pr_framing p" "pr_saw_cl (pr_take_body n p) = pr_saw_cl p"
  "pr_saw_te (pr_take_body n p) = pr_saw_te p" "pr_bodyless (pr_take_body n p) = pr_bodyless p"
  "pr_content_length (pr_take_body n p) = pr_content_length p" "pr_config (pr_take_body n p) = pr_config p"
  "pr_avail (pr_take_body n p) = drop n (pr_avail p)" "pr_length_ok (pr_take_body n p) = pr_length_ok p"
  "pr_chunk_remaining (pr_take_body n p) = pr_chunk_remaining p"
  by (simp_all add: pr_take_body_def)

lemma pr_common_take:
  "pr_common p \<Longrightarrow> length (pr_body p) + min n (length (pr_avail p)) \<le> max_response_body (pr_config p) \<Longrightarrow>
   pr_common (pr_take_body n p)"
  by (simp add: pr_common_def pr_take_body_def pr_consume_def min.commute)

lemma resp_body_ok:
  assumes "pr_ok p" "pr_state p = Body" "parse_resp_body p = (t, q)"
  shows "pr_ok q"
proof (cases "pr_framing p = ContentLength")
  case True
  let ?n = "min (pr_content_length p - length (pr_body p)) (length (pr_avail p))"
  from assms(1,2) True have p: "pr_common p" "\<not> (pr_saw_cl p \<and> pr_saw_te p)" "pr_length_ok p"
    "\<not> pr_bodyless p" "pr_saw_cl p" "length (pr_body p) < pr_content_length p"
    by (simp_all add: pr_ok_def pr_state_ok_def)
  then have cap: "pr_content_length p \<le> max_response_body (pr_config p)" by (simp add: pr_length_ok_def)
  have q: "q = (if pr_avail p = [] then p
                else if length (pr_body p) + ?n = pr_content_length p then finish_message (pr_take_body ?n p)
                else pr_take_body ?n p)"
    using assms(3) True p(6) by (auto simp: parse_resp_body_def Let_def min_def split: if_splits)
  have "pr_common (pr_take_body ?n p)" using p(1,6) cap by (intro pr_common_take) auto
  with q p True assms(1,2) show ?thesis
    by (auto simp: pr_ok_def pr_state_ok_def min_def split: if_splits)
next
  case False
  with assms show ?thesis
    by (auto simp: parse_resp_body_def Let_def pr_ok_def pr_state_ok_def pr_common_take split: if_splits)
qed

lemma chunk_size_ok:
  assumes "pr_ok p" "pr_state p = ChunkSize" "parse_chunk_size p = (t, q)"
  shows "pr_ok q"
  using assms
  by (auto simp: parse_chunk_size_def Let_def pr_ok_def pr_state_ok_def
      split: option.splits if_splits sum.splits)

lemma chunk_data_ok:
  assumes "pr_ok p" "pr_state p = ChunkData" "parse_chunk_data p = (t, q)"
  shows "pr_ok q"
  using assms
  by (auto simp: parse_chunk_data_def Let_def pr_ok_def pr_state_ok_def pr_common_take
      split: if_splits)

lemma chunk_crlf_ok:
  assumes "pr_ok p" "pr_state p = ChunkDataCrlf" "parse_chunk_crlf p = (t, q)"
  shows "pr_ok q"
  using assms by (auto simp: parse_chunk_crlf_def pr_ok_def pr_state_ok_def split: if_splits)

lemma trailer_ok:
  assumes "pr_ok p" "pr_state p = Trailer" "parse_trailer_line p = (t, q)"
  shows "pr_ok q"
  using assms
  by (auto simp: parse_trailer_line_def Let_def pr_ok_def pr_state_ok_def
      split: option.splits if_splits)

lemma pr_step_ok:
  assumes "pr_ok p" "pr_step p = (t, q)"
  shows "pr_ok q"
proof (cases "pr_state p")
  case StatusLine then show ?thesis using assms status_line_ok by (simp add: pr_step_def)
next
  case Headers then show ?thesis using assms header_line_ok by (simp add: pr_step_def)
next
  case Body then show ?thesis using assms resp_body_ok by (simp add: pr_step_def)
next
  case ChunkSize then show ?thesis using assms chunk_size_ok by (simp add: pr_step_def)
next
  case ChunkData then show ?thesis using assms chunk_data_ok by (simp add: pr_step_def)
next
  case ChunkDataCrlf then show ?thesis using assms chunk_crlf_ok by (simp add: pr_step_def)
next
  case Trailer then show ?thesis using assms trailer_ok by (simp add: pr_step_def)
qed (use assms in \<open>simp_all add: pr_step_def\<close>)

lemma process_ok: "pr_ok p \<Longrightarrow> pr_ok (process p)"
proof (induction p rule: process.induct)
  case (1 p)
  obtain t q where "pr_step p = (t, q)" by (cases "pr_step p")
  with 1 pr_step_ok [OF 1(2) this] show ?case by (subst process.simps) simp
qed

lemma pr_ok_append: "pr_ok p \<Longrightarrow> pr_ok (p\<lparr>pr_buf := rb_append s (pr_buf p)\<rparr>)"
  by (cases "pr_state p") (simp_all add: pr_ok_def pr_state_ok_def pr_length_ok_def pr_bodyless_def)

lemma pr_feed_ok: "pr_ok p \<Longrightarrow> pr_ok (snd (pr_feed s p))"
  by (simp add: pr_feed_def Let_def process_ok pr_ok_append) (simp add: pr_ok_def)

lemma finish_on_eof_ok: "pr_ok p \<Longrightarrow> pr_ok (snd (finish_on_eof p))"
  by (auto simp: finish_on_eof_def pr_ok_def pr_state_ok_def)

subsection \<open>The parser up to the layout of its buffer\<close>

text \<open>
  \<open>pr_norm\<close> forgets where the read position stands inside the buffer.  Every
  operation respects it, so compaction can never be observed.
\<close>

definition pr_norm :: "RespParser \<Rightarrow> RespParser" where
  "pr_norm p = p\<lparr>pr_buf := \<lparr>rb_bytes = pr_avail p, rb_offset = 0\<rparr>\<rparr>"

definition pr_ext :: "string \<Rightarrow> RespParser \<Rightarrow> RespParser" where
  "pr_ext b p = p\<lparr>pr_buf := rb_append b (pr_buf p)\<rparr>"

lemma pr_norm_sel [simp]:
  "pr_headers (pr_norm p) = pr_headers p" "pr_body (pr_norm p) = pr_body p"
  "pr_state (pr_norm p) = pr_state p" "pr_framing (pr_norm p) = pr_framing p"
  "pr_config (pr_norm p) = pr_config p" "pr_status (pr_norm p) = pr_status p"
  "pr_content_length (pr_norm p) = pr_content_length p"
  "pr_chunk_remaining (pr_norm p) = pr_chunk_remaining p"
  "pr_header_bytes (pr_norm p) = pr_header_bytes p" "pr_saw_cl (pr_norm p) = pr_saw_cl p"
  "pr_saw_te (pr_norm p) = pr_saw_te p" "pr_close (pr_norm p) = pr_close p"
  "pr_interim (pr_norm p) = pr_interim p" "pr_avail (pr_norm p) = pr_avail p"
  "pr_error (pr_norm p) = pr_error p" "pr_reason (pr_norm p) = pr_reason p"
  by (simp_all add: pr_norm_def pr_avail_def rb_avail_def)

lemma pr_ext_sel [simp]:
  "pr_headers (pr_ext b p) = pr_headers p" "pr_body (pr_ext b p) = pr_body p"
  "pr_state (pr_ext b p) = pr_state p" "pr_framing (pr_ext b p) = pr_framing p"
  "pr_config (pr_ext b p) = pr_config p" "pr_status (pr_ext b p) = pr_status p"
  "pr_content_length (pr_ext b p) = pr_content_length p"
  "pr_chunk_remaining (pr_ext b p) = pr_chunk_remaining p"
  "pr_header_bytes (pr_ext b p) = pr_header_bytes p" "pr_saw_cl (pr_ext b p) = pr_saw_cl p"
  "pr_saw_te (pr_ext b p) = pr_saw_te p" "pr_close (pr_ext b p) = pr_close p"
  "pr_interim (pr_ext b p) = pr_interim p" "pr_error (pr_ext b p) = pr_error p"
  "pr_reason (pr_ext b p) = pr_reason p"
  by (simp_all add: pr_ext_def)

definition pr_rb_ok :: "RespParser \<Rightarrow> bool" where
  "pr_rb_ok p \<longleftrightarrow> rb_ok (pr_buf p)"

lemma pr_avail_ext [simp]: "pr_rb_ok p \<Longrightarrow> pr_avail (pr_ext b p) = pr_avail p @ b"
  by (simp add: pr_rb_ok_def pr_ext_def rb_avail_append pr_avail_def)

text \<open>Pulling buffer operations outwards.\<close>

named_theorems pr_pull \<open>normal form of nested updates: \<open>pr_norm\<close>, then \<open>pr_consume\<close>, then fields\<close>

lemma pr_consume_pull [pr_pull]:
  "(pr_consume n p)\<lparr>pr_headers := hs\<rparr> = pr_consume n (p\<lparr>pr_headers := hs\<rparr>)"
  "(pr_consume n p)\<lparr>pr_reason := r\<rparr> = pr_consume n (p\<lparr>pr_reason := r\<rparr>)"
  "(pr_consume n p)\<lparr>pr_state := st\<rparr> = pr_consume n (p\<lparr>pr_state := st\<rparr>)"
  "(pr_consume n p)\<lparr>pr_framing := f\<rparr> = pr_consume n (p\<lparr>pr_framing := f\<rparr>)"
  "(pr_consume n p)\<lparr>pr_status := k\<rparr> = pr_consume n (p\<lparr>pr_status := k\<rparr>)"
  "(pr_consume n p)\<lparr>pr_content_length := k\<rparr> = pr_consume n (p\<lparr>pr_content_length := k\<rparr>)"
  "(pr_consume n p)\<lparr>pr_chunk_remaining := k\<rparr> = pr_consume n (p\<lparr>pr_chunk_remaining := k\<rparr>)"
  "(pr_consume n p)\<lparr>pr_header_bytes := k\<rparr> = pr_consume n (p\<lparr>pr_header_bytes := k\<rparr>)"
  "(pr_consume n p)\<lparr>pr_saw_cl := t\<rparr> = pr_consume n (p\<lparr>pr_saw_cl := t\<rparr>)"
  "(pr_consume n p)\<lparr>pr_saw_te := t\<rparr> = pr_consume n (p\<lparr>pr_saw_te := t\<rparr>)"
  "(pr_consume n p)\<lparr>pr_close := t\<rparr> = pr_consume n (p\<lparr>pr_close := t\<rparr>)"
  "(pr_consume n p)\<lparr>pr_interim := t\<rparr> = pr_consume n (p\<lparr>pr_interim := t\<rparr>)"
  by (simp_all add: pr_consume_def)

lemma pr_norm_pull [pr_pull]:
  "(pr_norm p)\<lparr>pr_headers := hs\<rparr> = pr_norm (p\<lparr>pr_headers := hs\<rparr>)"
  "(pr_norm p)\<lparr>pr_body := hb\<rparr> = pr_norm (p\<lparr>pr_body := hb\<rparr>)"
  "(pr_norm p)\<lparr>pr_reason := r\<rparr> = pr_norm (p\<lparr>pr_reason := r\<rparr>)"
  "(pr_norm p)\<lparr>pr_state := st\<rparr> = pr_norm (p\<lparr>pr_state := st\<rparr>)"
  "(pr_norm p)\<lparr>pr_framing := f\<rparr> = pr_norm (p\<lparr>pr_framing := f\<rparr>)"
  "(pr_norm p)\<lparr>pr_status := k\<rparr> = pr_norm (p\<lparr>pr_status := k\<rparr>)"
  "(pr_norm p)\<lparr>pr_content_length := k\<rparr> = pr_norm (p\<lparr>pr_content_length := k\<rparr>)"
  "(pr_norm p)\<lparr>pr_chunk_remaining := k\<rparr> = pr_norm (p\<lparr>pr_chunk_remaining := k\<rparr>)"
  "(pr_norm p)\<lparr>pr_header_bytes := k\<rparr> = pr_norm (p\<lparr>pr_header_bytes := k\<rparr>)"
  "(pr_norm p)\<lparr>pr_saw_cl := t\<rparr> = pr_norm (p\<lparr>pr_saw_cl := t\<rparr>)"
  "(pr_norm p)\<lparr>pr_saw_te := t\<rparr> = pr_norm (p\<lparr>pr_saw_te := t\<rparr>)"
  "(pr_norm p)\<lparr>pr_close := t\<rparr> = pr_norm (p\<lparr>pr_close := t\<rparr>)"
  "(pr_norm p)\<lparr>pr_interim := t\<rparr> = pr_norm (p\<lparr>pr_interim := t\<rparr>)"
  by (simp_all add: pr_norm_def pr_avail_def)

lemma pr_ext_pull [pr_pull]:
  "(pr_ext b p)\<lparr>pr_headers := hs\<rparr> = pr_ext b (p\<lparr>pr_headers := hs\<rparr>)"
  "(pr_ext b p)\<lparr>pr_body := hb\<rparr> = pr_ext b (p\<lparr>pr_body := hb\<rparr>)"
  "(pr_ext b p)\<lparr>pr_reason := r\<rparr> = pr_ext b (p\<lparr>pr_reason := r\<rparr>)"
  "(pr_ext b p)\<lparr>pr_state := st\<rparr> = pr_ext b (p\<lparr>pr_state := st\<rparr>)"
  "(pr_ext b p)\<lparr>pr_framing := f\<rparr> = pr_ext b (p\<lparr>pr_framing := f\<rparr>)"
  "(pr_ext b p)\<lparr>pr_status := k\<rparr> = pr_ext b (p\<lparr>pr_status := k\<rparr>)"
  "(pr_ext b p)\<lparr>pr_content_length := k\<rparr> = pr_ext b (p\<lparr>pr_content_length := k\<rparr>)"
  "(pr_ext b p)\<lparr>pr_chunk_remaining := k\<rparr> = pr_ext b (p\<lparr>pr_chunk_remaining := k\<rparr>)"
  "(pr_ext b p)\<lparr>pr_header_bytes := k\<rparr> = pr_ext b (p\<lparr>pr_header_bytes := k\<rparr>)"
  "(pr_ext b p)\<lparr>pr_saw_cl := t\<rparr> = pr_ext b (p\<lparr>pr_saw_cl := t\<rparr>)"
  "(pr_ext b p)\<lparr>pr_saw_te := t\<rparr> = pr_ext b (p\<lparr>pr_saw_te := t\<rparr>)"
  "(pr_ext b p)\<lparr>pr_close := t\<rparr> = pr_ext b (p\<lparr>pr_close := t\<rparr>)"
  "(pr_ext b p)\<lparr>pr_interim := t\<rparr> = pr_ext b (p\<lparr>pr_interim := t\<rparr>)"
  by (simp_all add: pr_ext_def)

lemma pr_norm_consume:
  "pr_norm (pr_consume n p) = p\<lparr>pr_buf := \<lparr>rb_bytes = drop n (pr_avail p), rb_offset = 0\<rparr>\<rparr>"
  unfolding pr_norm_def by (simp only: pr_avail_simps(1)) (simp add: pr_consume_def)

lemma pr_norm_collapse [pr_pull]:
  "pr_norm (pr_norm p) = pr_norm p" "pr_norm (pr_consume n (pr_norm p)) = pr_norm (pr_consume n p)"
  "pr_fail m (pr_norm p) = pr_fail m p" "pr_fail m (pr_consume n p) = pr_fail m p"
  "pr_fail m (pr_ext b p) = pr_fail m p"
  "finish_message (pr_norm p) = finish_message p" "finish_message (pr_consume n p) = finish_message p"
  "finish_message (pr_ext b p) = finish_message p"
proof -
  show "pr_norm (pr_norm p) = pr_norm p" by (simp add: pr_norm_def rb_avail_def)
  show "pr_norm (pr_consume n (pr_norm p)) = pr_norm (pr_consume n p)"
    unfolding pr_norm_consume pr_norm_sel by (simp add: pr_norm_def)
qed (simp_all add: pr_fail_def finish_message_def pr_norm_def pr_consume_def pr_ext_def)

lemma pr_consume_ext [pr_pull]:
  "pr_rb_ok p \<Longrightarrow> n \<le> length (pr_avail p) \<Longrightarrow>
     pr_norm (pr_consume n (pr_ext b p)) = pr_norm (pr_ext b (pr_consume n p))"
  by (simp add: pr_norm_def pr_consume_def pr_ext_def pr_avail_def rb_avail_append pr_rb_ok_def)

text \<open>Every operation computes the same on the normal form.\<close>

definition same_step :: "bool \<times> RespParser \<Rightarrow> bool \<times> RespParser \<Rightarrow> bool" where
  "same_step a b \<longleftrightarrow> fst a = fst b \<and> pr_norm (snd a) = pr_norm (snd b)"

lemma same_step_simps [simp]:
  "same_step (s, p) (t, q) \<longleftrightarrow> s = t \<and> pr_norm p = pr_norm q"
  "same_step a a"
  by (simp_all add: same_step_def)

lemma pr_find_crlf_norm [simp]: "pr_find_crlf (pr_norm p) = pr_find_crlf p"
  by (simp add: pr_find_crlf_def)

lemma pr_bodyless_norm [simp]: "pr_bodyless (pr_norm p) = pr_bodyless p" "pr_bodyless (pr_ext b p) = pr_bodyless p"
  by (simp_all add: pr_bodyless_def)

lemma case_prod_if: "case_prod f (if b then x else y) = (if b then case_prod f x else case_prod f y)"
  by simp

lemma check_framing_shift:
  "check_framing_field h v (pr_norm p) = (case check_framing_field h v p of (r, q) \<Rightarrow> (r, pr_norm q))"
  "check_framing_field h v (pr_ext b p) = (case check_framing_field h v p of (r, q) \<Rightarrow> (r, pr_ext b q))"
  "check_framing_field h v (pr_consume n p) = (case check_framing_field h v p of (r, q) \<Rightarrow> (r, pr_consume n q))"
  by (simp_all only: check_framing_field_def Let_def case_prod_if prod.case pr_pull pr_norm_sel
      pr_ext_sel pr_consume_sel pr_bodyless_norm pr_bodyless_update)

lemma decide_framing_shift:
  "pr_norm (decide_framing (pr_norm p)) = pr_norm (decide_framing p)"
  "pr_norm (decide_framing (pr_consume n (pr_norm p))) = pr_norm (decide_framing (pr_consume n p))"
  by (simp_all add: decide_framing_def Let_def pr_pull)

lemma status_line_norm: "same_step (parse_status_line (pr_norm p)) (parse_status_line p)"
  by (simp add: parse_status_line_def Let_def pr_pull split: option.split sum.split)

lemma decide_framing_state_shift:
  "pr_state (decide_framing (pr_norm p)) = pr_state (decide_framing p)"
  "pr_state (decide_framing (pr_consume n p)) = pr_state (decide_framing p)"
  "pr_state (decide_framing (pr_ext b p)) = pr_state (decide_framing p)"
  by (simp_all add: decide_framing_def Let_def)

lemma header_line_norm: "same_step (parse_header_line (pr_norm p)) (parse_header_line p)"
  by (auto simp: parse_header_line_def Let_def pr_pull decide_framing_shift decide_framing_state_shift
      check_framing_shift split: option.split sum.split prod.split)

lemma take_body_pull [pr_pull]:
  "pr_norm (pr_take_body n (pr_norm p)) = pr_norm (pr_take_body n p)"
  "finish_message (pr_take_body n (pr_norm p)) = finish_message (pr_take_body n p)"
  "(pr_take_body n p)\<lparr>pr_state := st\<rparr> = pr_take_body n (p\<lparr>pr_state := st\<rparr>)"
  "(pr_take_body n p)\<lparr>pr_chunk_remaining := k\<rparr> = pr_take_body n (p\<lparr>pr_chunk_remaining := k\<rparr>)"
  by (simp_all add: pr_take_body_def pr_pull) (simp_all add: pr_consume_def)

lemma resp_body_norm: "same_step (parse_resp_body (pr_norm p)) (parse_resp_body p)"
  by (simp add: parse_resp_body_def Let_def pr_pull)

lemma chunk_size_norm: "same_step (parse_chunk_size (pr_norm p)) (parse_chunk_size p)"
  by (simp add: parse_chunk_size_def Let_def pr_pull split: option.split sum.split)

lemma chunk_data_norm: "same_step (parse_chunk_data (pr_norm p)) (parse_chunk_data p)"
  by (simp add: parse_chunk_data_def Let_def pr_pull)

lemma chunk_crlf_norm: "same_step (parse_chunk_crlf (pr_norm p)) (parse_chunk_crlf p)"
  by (simp add: parse_chunk_crlf_def pr_pull)

lemma trailer_norm: "same_step (parse_trailer_line (pr_norm p)) (parse_trailer_line p)"
  by (simp add: parse_trailer_line_def Let_def pr_pull split: option.split)

lemma pr_step_norm: "same_step (pr_step (pr_norm p)) (pr_step p)"
  by (cases "pr_state p")
     (simp_all add: pr_step_def status_line_norm header_line_norm resp_body_norm chunk_size_norm
        chunk_data_norm chunk_crlf_norm trailer_norm pr_pull)

lemma pr_step_cong: "pr_norm p = pr_norm q \<Longrightarrow> same_step (pr_step p) (pr_step q)"
  using pr_step_norm [of p] pr_step_norm [of q] by (simp add: same_step_def)

lemma process_cong: "pr_norm p = pr_norm q \<Longrightarrow> pr_norm (process p) = pr_norm (process q)"
proof (induction p arbitrary: q rule: process.induct)
  case (1 p)
  obtain t p' where p': "pr_step p = (t, p')" by (cases "pr_step p")
  obtain u q' where q': "pr_step q = (u, q')" by (cases "pr_step q")
  from pr_step_cong [OF 1(2)] p' q' have "t = u" "pr_norm p' = pr_norm q'" by simp_all
  with 1 p' q' show ?case by (subst (1 2) process.simps) simp
qed

subsection \<open>More input\<close>

lemma pr_find_crlf_ext: "pr_rb_ok p \<Longrightarrow> pr_find_crlf p = Some n \<Longrightarrow> pr_find_crlf (pr_ext b p) = Some n"
  by (simp add: pr_find_crlf_def find_sub_append)

lemma pr_rb_ok_simps [simp]:
  "pr_rb_ok (pr_consume n p)" "pr_rb_ok (pr_fail m p)" "pr_rb_ok (finish_message p)"
  "pr_rb_ok p \<Longrightarrow> pr_rb_ok (pr_ext b p)"
  "pr_rb_ok (p\<lparr>pr_headers := hs\<rparr>) = pr_rb_ok p" "pr_rb_ok (p\<lparr>pr_body := hb\<rparr>) = pr_rb_ok p"
  "pr_rb_ok (p\<lparr>pr_reason := r\<rparr>) = pr_rb_ok p" "pr_rb_ok (p\<lparr>pr_state := st\<rparr>) = pr_rb_ok p"
  "pr_rb_ok (p\<lparr>pr_framing := f\<rparr>) = pr_rb_ok p" "pr_rb_ok (p\<lparr>pr_status := k\<rparr>) = pr_rb_ok p"
  "pr_rb_ok (p\<lparr>pr_content_length := k\<rparr>) = pr_rb_ok p"
  "pr_rb_ok (p\<lparr>pr_chunk_remaining := k\<rparr>) = pr_rb_ok p"
  "pr_rb_ok (p\<lparr>pr_header_bytes := k\<rparr>) = pr_rb_ok p" "pr_rb_ok (p\<lparr>pr_saw_cl := t\<rparr>) = pr_rb_ok p"
  "pr_rb_ok (p\<lparr>pr_saw_te := t\<rparr>) = pr_rb_ok p" "pr_rb_ok (p\<lparr>pr_close := t\<rparr>) = pr_rb_ok p"
  "pr_rb_ok (p\<lparr>pr_interim := t\<rparr>) = pr_rb_ok p" "pr_rb_ok (pr_take_body n p)"
  by (simp_all add: pr_rb_ok_def pr_consume_def pr_fail_def finish_message_def pr_ext_def pr_take_body_def)

text \<open>
  The line-based states: a line that is complete is handled in the same way
  however much follows it.
\<close>

lemma decide_framing_cong: "pr_norm p = pr_norm q \<Longrightarrow> pr_norm (decide_framing p) = pr_norm (decide_framing q)"
  by (metis decide_framing_shift(1))

lemma decide_framing_ext:
  "pr_state (decide_framing p) \<noteq> Error \<Longrightarrow>
   decide_framing (pr_ext b p) =
     (if pr_state (decide_framing p) = Complete then decide_framing p else pr_ext b (decide_framing p))"
  by (auto simp: decide_framing_def Let_def pr_pull split: if_splits)

lemma status_line_ext:
  assumes "parse_status_line p = (t, q)" "pr_state q \<noteq> Error" "pr_rb_ok p" "pr_find_crlf p \<noteq> None"
  shows "same_step (parse_status_line (pr_ext b p)) (t, pr_ext b q) \<and> t"
proof -
  from assms(4) obtain n where n: "pr_find_crlf p = Some n" by auto
  from assms n pr_find_crlf_ext [OF assms(3) n, of b] pr_find_crlf_SomeD [OF n] show ?thesis
    by (auto simp: parse_status_line_def Let_def pr_pull split: sum.splits if_splits)
qed

lemma check_framing_rb: "check_framing_field h v p = (r, q) \<Longrightarrow> pr_rb_ok q = pr_rb_ok p"
  by (erule check_framing_cases) simp_all

lemma header_line_ext:
  assumes "parse_header_line p = (t, q)" "pr_state q \<noteq> Error" "pr_rb_ok p" "pr_find_crlf p \<noteq> None"
    "pr_state p = Headers"
  shows "same_step (parse_header_line (pr_ext b p)) (t, if pr_state q = Complete then q else pr_ext b q) \<and>
    (t \<longleftrightarrow> pr_state q \<noteq> Complete)"
proof -
  from assms(4) obtain n where n: "pr_find_crlf p = Some n" by auto
  note ext = pr_find_crlf_ext [OF assms(3) n, of b] and le = pr_find_crlf_SomeD [OF n]
  show ?thesis
  proof (cases "n = 0")
    case True
    let ?p = "p\<lparr>pr_header_bytes := pr_header_bytes p + 2\<rparr>"
    have norm: "pr_norm (decide_framing (pr_consume 2 (pr_ext b ?p))) =
        pr_norm (decide_framing (pr_ext b (pr_consume 2 ?p)))"
      by (rule decide_framing_cong) (use assms(3) le True in \<open>simp add: pr_consume_ext\<close>)
    show ?thesis
    proof (cases "pr_interim p")
      case int: True
      with assms(1) n True ext le assms(3) show ?thesis
        by (auto simp: parse_header_line_def Let_def pr_pull)
    next
      case False
      with assms(1) n True have q: "q = decide_framing (pr_consume 2 ?p)"
        "t \<longleftrightarrow> pr_state (decide_framing (pr_consume 2 ?p)) \<noteq> Complete"
        by (auto simp: parse_header_line_def Let_def pr_pull)
      have "parse_header_line (pr_ext b p) =
          (pr_state (decide_framing (pr_consume 2 (pr_ext b ?p))) \<noteq> Complete,
           decide_framing (pr_consume 2 (pr_ext b ?p)))"
        using ext True False by (simp add: parse_header_line_def Let_def pr_pull)
      with q norm assms(2) decide_framing_ext [of "pr_consume 2 ?p" b] show ?thesis
        by (simp add: decide_framing_state_shift)
    qed
  next
    case False
    with assms n ext le show ?thesis
      by (auto simp: parse_header_line_def Let_def pr_pull check_framing_shift nth_append
          dest: check_framing_avail split: sum.splits if_splits prod.splits option.splits)
         (frule check_framing_rb, drule check_framing_avail, simp add: pr_consume_ext)
  qed
qed

lemma chunk_size_ext:
  assumes "parse_chunk_size p = (t, q)" "pr_state q \<noteq> Error" "pr_rb_ok p" "pr_find_crlf p \<noteq> None"
  shows "same_step (parse_chunk_size (pr_ext b p)) (t, pr_ext b q) \<and> t"
proof -
  from assms(4) obtain n where n: "pr_find_crlf p = Some n" by auto
  from assms n pr_find_crlf_ext [OF assms(3) n, of b] pr_find_crlf_SomeD [OF n] show ?thesis
    by (auto simp: parse_chunk_size_def Let_def pr_pull split: sum.splits if_splits)
qed

lemma chunk_crlf_ext:
  assumes "parse_chunk_crlf p = (True, q)" "pr_rb_ok p"
  shows "same_step (parse_chunk_crlf (pr_ext b p)) (True, pr_ext b q)"
  using assms by (auto simp: parse_chunk_crlf_def pr_pull nth_append split: if_splits)

lemma trailer_ext:
  assumes "parse_trailer_line p = (t, q)" "pr_state q \<noteq> Error" "pr_rb_ok p" "pr_find_crlf p \<noteq> None"
    "pr_state p = Trailer"
  shows "same_step (parse_trailer_line (pr_ext b p)) (t, if pr_state q = Complete then q else pr_ext b q) \<and>
    (t \<longleftrightarrow> pr_state q \<noteq> Complete)"
proof -
  from assms(4) obtain n where n: "pr_find_crlf p = Some n" by auto
  from assms n pr_find_crlf_ext [OF assms(3) n, of b] pr_find_crlf_SomeD [OF n] show ?thesis
    by (auto simp: parse_trailer_line_def Let_def pr_pull nth_append split: if_splits)
qed

text \<open>A line-based state without a complete line waits or fails.\<close>

lemma line_states_wait:
  assumes "pr_find_crlf p = None"
  shows "parse_status_line p = (t, q) \<Longrightarrow> pr_state q \<noteq> Error \<Longrightarrow> q = p \<and> \<not> t"
    "parse_header_line p = (t, q) \<Longrightarrow> pr_state q \<noteq> Error \<Longrightarrow> q = p \<and> \<not> t"
    "parse_chunk_size p = (t, q) \<Longrightarrow> pr_state q \<noteq> Error \<Longrightarrow> q = p \<and> \<not> t"
    "parse_trailer_line p = (t, q) \<Longrightarrow> pr_state q \<noteq> Error \<Longrightarrow> q = p \<and> \<not> t"
  using assms
  by (auto simp: parse_status_line_def parse_header_line_def parse_chunk_size_def
      parse_trailer_line_def split: if_splits)

text \<open>
  Body bytes may be taken in one go or in two; what is compared after a failure
  leaves out the count of outstanding chunk bytes.
\<close>

definition pr_view :: "RespParser \<Rightarrow> RespParser" where
  "pr_view p = pr_norm (if pr_state p = Error then p\<lparr>pr_chunk_remaining := 0\<rparr> else p)"

lemma pr_view_norm: "pr_norm p = pr_norm q \<Longrightarrow> pr_view p = pr_view q"
proof -
  assume *: "pr_norm p = pr_norm q"
  then have "pr_state p = pr_state q" by (metis pr_norm_sel(3))
  moreover have "pr_norm (p\<lparr>pr_chunk_remaining := 0\<rparr>) = pr_norm (q\<lparr>pr_chunk_remaining := 0\<rparr>)"
    using * by (metis pr_norm_pull(8))
  ultimately show ?thesis using * by (simp add: pr_view_def)
qed

lemma process_stop: "pr_step p = (False, q) \<Longrightarrow> process p = q"
  by (subst process.simps) simp

lemma process_go: "pr_step p = (True, q) \<Longrightarrow> process p = process q"
  by (subst process.simps) simp

lemma process_done [simp]: "pr_state p = Error \<Longrightarrow> process p = p" "pr_state p = Complete \<Longrightarrow> process p = p"
  by (rule process_stop, simp add: pr_step_def)+

lemma pr_ext_Nil [simp]: "pr_ext [] p = p"
  by (simp add: pr_ext_def rb_append_def)

lemma take_body_ext:
  "pr_rb_ok p \<Longrightarrow> n \<le> length (pr_avail p) \<Longrightarrow>
     pr_norm (pr_take_body n (pr_ext b p)) = pr_norm (pr_ext b (pr_take_body n p))"
  by (simp add: pr_take_body_def pr_pull)

lemma take_body_more:
  "pr_rb_ok p \<Longrightarrow> pr_norm (pr_take_body (length (pr_avail p) + m) (pr_ext b p)) =
     pr_norm (pr_take_body m (pr_ext b (pr_take_body (length (pr_avail p)) p)))"
  by (simp add: pr_take_body_def pr_norm_consume)

lemma take_body_overwrite:
  "(pr_take_body m (pr_ext b (x\<lparr>pr_chunk_remaining := j\<rparr>)))\<lparr>pr_chunk_remaining := k\<rparr> =
   (pr_take_body m (pr_ext b x))\<lparr>pr_chunk_remaining := k\<rparr>"
  by (simp add: pr_take_body_def pr_consume_def pr_ext_def pr_avail_def)

lemma norm_update:
  "pr_norm x = pr_norm y \<Longrightarrow> pr_norm (x\<lparr>pr_state := st\<rparr>) = pr_norm (y\<lparr>pr_state := st\<rparr>)"
  "pr_norm x = pr_norm y \<Longrightarrow> pr_norm (x\<lparr>pr_chunk_remaining := k\<rparr>) = pr_norm (y\<lparr>pr_chunk_remaining := k\<rparr>)"
  by (metis pr_norm_pull(4), metis pr_norm_pull(8))

lemma chunk_data_ext:
  assumes st: "pr_state p = ChunkData" and rb: "pr_rb_ok p"
    and step: "pr_step p = (True, q)"
  shows "pr_view (process (pr_ext b p)) = pr_view (process (pr_ext b q))"
proof (cases "pr_chunk_remaining p = 0")
  case True
  with step st have "pr_step (pr_ext b p) = (True, pr_ext b q)"
    by (auto simp: pr_step_def parse_chunk_data_def pr_pull)
  then show ?thesis by (simp add: process_go)
next
  case rem: False
  let ?r = "pr_chunk_remaining p" and ?a = "pr_avail p" and ?max = "max_response_body (pr_config p)"
  let ?n = "min ?r (length ?a)"
  have ne: "?a \<noteq> []" and lim: "length (pr_body p) + ?n \<le> ?max"
    using step st rem by (auto simp: pr_step_def parse_chunk_data_def Let_def min_def split: if_splits)
  have q: "q = (let r = (pr_take_body ?n p)\<lparr>pr_chunk_remaining := ?r - ?n\<rparr>
                in if ?r - ?n = 0 then r\<lparr>pr_state := ChunkDataCrlf\<rparr> else r)"
    using step st rem ne lim
    by (auto simp: pr_step_def parse_chunk_data_def Let_def min_def split: if_splits)
  show ?thesis
  proof (cases "?r \<le> length ?a")
    case True
    show ?thesis
    proof (cases "b = []")
      case True
      with step show ?thesis by (simp add: process_go)
    next
    case b: False
    with True have lt: "?r < length ?a + length b" by (cases b) simp_all
    have nn: "?n = ?r" using True by simp
    have q': "q = (pr_take_body ?r p)\<lparr>pr_chunk_remaining := 0, pr_state := ChunkDataCrlf\<rparr>"
      using q unfolding nn by (simp add: Let_def)
    have go: "pr_step (pr_ext b p) =
        (True, (pr_take_body ?r (pr_ext b p))\<lparr>pr_chunk_remaining := 0, pr_state := ChunkDataCrlf\<rparr>)"
      using st rem lim rb lt unfolding nn by (simp add: pr_step_def parse_chunk_data_def Let_def)
    have "pr_norm ((pr_take_body ?r (pr_ext b p))\<lparr>pr_chunk_remaining := 0, pr_state := ChunkDataCrlf\<rparr>) =
        pr_norm (pr_ext b q)"
      using take_body_ext [OF rb True, of b] unfolding q' pr_ext_pull [symmetric]
      by (intro norm_update)
    from process_cong [OF this] show ?thesis unfolding process_go [OF go] by (rule pr_view_norm)
    qed
  next
    case False
    then have qq: "q = (pr_take_body (length ?a) p)\<lparr>pr_chunk_remaining := ?r - length ?a\<rparr>"
      and n: "?n = length ?a"
      using q by (simp_all add: Let_def min_def)
    show ?thesis
    proof (cases "b = []")
      case True
      with step show ?thesis by (simp add: process_go)
    next
      case b: False
      let ?m = "min (?r - length ?a) (length b)"
      have cond: "length (pr_body p) + min ?r (length ?a + length b) > ?max \<longleftrightarrow>
          length (pr_body p) + length ?a + ?m > ?max"
        using False by auto
      show ?thesis
      proof (cases "length (pr_body p) + length ?a + ?m > ?max")
        case True
        have "pr_step (pr_ext b p) = (False, pr_fail body_limit_msg p)"
          using st rem rb ne True cond
          by (auto simp: pr_step_def parse_chunk_data_def Let_def min_def pr_pull split: if_splits)
        moreover have "pr_step (pr_ext b q) = (False, pr_fail body_limit_msg q)"
          using qq st rb False b True
          by (auto simp: pr_step_def parse_chunk_data_def Let_def min_def pr_pull split: if_splits)
        moreover have "pr_view (pr_fail body_limit_msg p) = pr_view (pr_fail body_limit_msg q)"
          unfolding qq by (simp add: pr_view_def pr_fail_def pr_take_body_def pr_consume_def)
        ultimately show ?thesis by (simp add: process_stop)
      next
        case ok: False
        let ?k = "length ?a + ?m"
        have k: "?k = min ?r (length ?a + length b)" using False by auto
        define r1 where "r1 = (let r = (pr_take_body ?k (pr_ext b p))\<lparr>pr_chunk_remaining := ?r - ?k\<rparr>
                in if ?r - ?k = 0 then r\<lparr>pr_state := ChunkDataCrlf\<rparr> else r)"
        have 1: "pr_step (pr_ext b p) = (True, r1)"
          using st rem rb ne ok k unfolding r1_def
          by (auto simp: pr_step_def parse_chunk_data_def Let_def min_def split: if_splits)
        define r2 where "r2 = (let r = (pr_take_body ?m (pr_ext b q))\<lparr>pr_chunk_remaining := ?r - ?k\<rparr>
                in if ?r - ?k = 0 then r\<lparr>pr_state := ChunkDataCrlf\<rparr> else r)"
        have 2: "pr_step (pr_ext b q) = (True, r2)"
          using st rb ne ok False b unfolding r2_def qq
          by (auto simp: pr_step_def parse_chunk_data_def Let_def min_def split: if_splits)
        have "pr_norm (pr_take_body ?k (pr_ext b p)) = pr_norm (pr_take_body ?m (pr_ext b (pr_take_body (length ?a) p)))"
          by (rule take_body_more [OF rb])
        note n2 = norm_update(2) [OF this, of "?r - ?k"]
        note n1 = norm_update(1) [OF n2, of ChunkDataCrlf]
        have "pr_norm r1 = pr_norm r2"
        proof (cases "?r - ?k = 0")
          case True
          show ?thesis
            unfolding r1_def r2_def qq Let_def take_body_overwrite if_P [OF True] by (rule n1)
        next
          case False
          show ?thesis
            unfolding r1_def r2_def qq Let_def take_body_overwrite if_not_P [OF False] by (rule n2)
        qed
        then show ?thesis
          unfolding process_go [OF 1] process_go [OF 2] by (rule pr_view_norm [OF process_cong])
      qed
    qed
  qed
qed

lemma resp_body_cl:
  assumes "pr_framing p = ContentLength" "length (pr_body p) < pr_content_length p" "pr_avail p \<noteq> []"
  shows "snd (parse_resp_body p) =
    (let n = min (pr_content_length p - length (pr_body p)) (length (pr_avail p));
         x = pr_take_body n p
     in if length (pr_body p) + n = pr_content_length p then finish_message x else x)"
proof -
  have "(if a < b then a else b) = min a b" for a b :: nat by simp
  with assms show ?thesis by (simp add: parse_resp_body_def Let_def)
qed

lemma resp_body_done_ext:
  assumes "pr_state p = Body" "pr_rb_ok p" "parse_resp_body p = (t, q)" "pr_state q = Complete"
  shows "same_step (parse_resp_body (pr_ext b p)) (t, q)"
proof -
  let ?r = "pr_content_length p - length (pr_body p)" and ?a = "pr_avail p"
  have cl: "pr_framing p = ContentLength" using assms by (auto simp: parse_resp_body_def Let_def split: if_splits)
  show ?thesis
  proof (cases "?r = 0")
    case True
    with assms cl show ?thesis by (auto simp: parse_resp_body_def pr_pull)
  next
    case False
    have "length (pr_body p) + length ?a = pr_content_length p \<Longrightarrow> length ?a = ?r" by arith
    with False assms cl have n: "?r \<le> length ?a" "?a \<noteq> []" "length (pr_body p) + ?r = pr_content_length p"
      "q = finish_message (pr_take_body ?r p)" "\<not> t"
      by (auto simp: parse_resp_body_def Let_def not_less split: if_splits)
    have "finish_message (pr_take_body ?r (pr_ext b p)) = finish_message (pr_take_body ?r p)"
      using n(1) assms(2) by (simp add: pr_take_body_def pr_pull)
    moreover have i: "(if ?r < length (pr_avail (pr_ext b p)) then ?r else length (pr_avail (pr_ext b p))) = ?r"
      using n(1) assms(2) by simp
    ultimately show ?thesis using assms(2) cl False n
      unfolding parse_resp_body_def Let_def pr_ext_sel i by simp
  qed
qed

lemma resp_body_ext:
  assumes st: "pr_state p = Body" and rb: "pr_rb_ok p" and step: "parse_resp_body p = (t, q)"
    and st': "pr_state q = Body"
  shows "pr_view (process (pr_ext b p)) = pr_view (process (pr_ext b q))"
proof (cases "pr_avail p = [] \<or> b = []")
  case True
  then show ?thesis
  proof
    assume "pr_avail p = []"
    with step st' st have "q = p" by (auto simp: parse_resp_body_def Let_def split: if_splits)
    then show ?thesis by simp
  next
    assume b: "b = []"
    have "process p = q" using step st resp_body_stops [of p] by (simp add: process_stop pr_step_def)
    moreover have "pr_avail q = [] \<and> (pr_framing q = ContentLength \<longrightarrow> length (pr_body q) < pr_content_length q)"
      using step st' st by (simp add: parse_resp_body_def Let_def split: if_splits) auto
    then have "parse_resp_body q = (False, q)" by (auto simp: parse_resp_body_def)
    then have "process q = q" using st' by (simp add: process_stop pr_step_def)
    ultimately show ?thesis using b by simp
  qed
next
  case False
  let ?a = "pr_avail p"
  have one: "process (pr_ext b p) = snd (parse_resp_body (pr_ext b p))"
    "process (pr_ext b q) = snd (parse_resp_body (pr_ext b q))"
    using resp_body_stops [of "pr_ext b p"] resp_body_stops [of "pr_ext b q"] st st'
    by (intro process_stop; simp add: pr_step_def prod_eq_iff)+
  have qq: "q = pr_take_body (length ?a) p"
    using step st' st False by (auto simp: parse_resp_body_def Let_def split: if_splits)
  have tk: "pr_norm (pr_take_body (length ?a + m) (pr_ext b p)) = pr_norm (pr_take_body m (pr_ext b q))" for m
    using take_body_more [OF rb, of m b] unfolding qq .
  have fin: "pr_norm x = pr_norm y \<Longrightarrow> finish_message x = finish_message y" for x y
    by (metis pr_norm_collapse(6))
  show ?thesis
  proof (cases "pr_framing p = ContentLength")
    case True
    let ?r = "pr_content_length p - length (pr_body p)"
    have r: "length ?a < ?r" using step st' st False True
      by (auto simp: parse_resp_body_def Let_def split: if_splits)
    let ?m = "min (?r - length ?a) (length b)"
    have m: "length ?a + ?m = min ?r (length ?a + length b)" using r by auto
    have "length (pr_body p) < pr_content_length p" using r by simp
    then have e1: "snd (parse_resp_body (pr_ext b p)) =
        (let x = pr_take_body (length ?a + ?m) (pr_ext b p)
         in if length (pr_body p) + (length ?a + ?m) = pr_content_length p then finish_message x else x)"
      using resp_body_cl [of "pr_ext b p"] rb False True unfolding m by (simp add: Let_def)
    have "?r - length ?a = pr_content_length p - (length (pr_body p) + length ?a)" by simp
    then have e2: "snd (parse_resp_body (pr_ext b q)) =
        (let x = pr_take_body ?m (pr_ext b q)
         in if length (pr_body p) + (length ?a + ?m) = pr_content_length p then finish_message x else x)"
      using resp_body_cl [of "pr_ext b q"] r rb False True unfolding qq by (simp add: add.assoc Let_def)
    show ?thesis
    proof (cases "length (pr_body p) + (length ?a + ?m) = pr_content_length p")
      case True
      show ?thesis unfolding one e1 e2 Let_def if_P [OF True] by (simp only: fin [OF tk])
    next
      case False
      show ?thesis unfolding one e1 e2 Let_def if_not_P [OF False] by (rule pr_view_norm [OF tk])
    qed
  next
    case uc: False
    show ?thesis
    proof (cases "length (pr_body p) + (length ?a + length b) > max_response_body (pr_config p)")
      case True
      then have "snd (parse_resp_body (pr_ext b p)) = pr_fail body_limit_msg p"
        "snd (parse_resp_body (pr_ext b q)) = pr_fail body_limit_msg q"
        using uc rb False unfolding qq by (simp_all add: parse_resp_body_def pr_pull)
      moreover have "pr_fail body_limit_msg p = pr_fail body_limit_msg q"
        unfolding qq by (simp add: pr_fail_def pr_take_body_def pr_consume_def)
      ultimately show ?thesis using one by simp
    next
      case ok: False
      then have e: "snd (parse_resp_body (pr_ext b p)) = pr_take_body (length ?a + length b) (pr_ext b p)"
        "snd (parse_resp_body (pr_ext b q)) = pr_take_body (length b) (pr_ext b q)"
        using uc rb False unfolding qq by (simp_all add: parse_resp_body_def)
      show ?thesis unfolding one e by (rule pr_view_norm [OF tk])
    qed
  qed
qed

lemma pr_step_rb_ok:
  assumes "pr_step p = (t, q)" "pr_rb_ok p"
  shows "pr_rb_ok q"
proof -
  have d: "pr_rb_ok p \<Longrightarrow> pr_rb_ok (decide_framing p)" for p by (simp add: decide_framing_def Let_def)
  from assms show ?thesis
    by (cases "pr_state p")
       (auto simp: pr_step_def parse_status_line_def parse_header_line_def parse_resp_body_def
          parse_chunk_size_def parse_chunk_data_def parse_chunk_crlf_def parse_trailer_line_def Let_def d
          dest: check_framing_rb split: option.splits if_splits sum.splits prod.splits)
qed

lemma pr_step_go_state: "pr_step p = (True, q) \<Longrightarrow> pr_state q \<noteq> Complete"
  by (cases "pr_state p")
     (auto simp: pr_step_def parse_status_line_def parse_header_line_def parse_resp_body_def
        parse_chunk_size_def parse_chunk_data_def parse_chunk_crlf_def parse_trailer_line_def Let_def
        dest: check_framing_avail split: option.splits if_splits sum.splits prod.splits)

text \<open>One turn of the loop with more input behind it.\<close>

lemma pr_step_ext:
  assumes step: "pr_step p = (t, q)" and rb: "pr_rb_ok p"
    and ne: "pr_state p \<noteq> Complete" "pr_state q \<noteq> Error"
  shows "(pr_state q = Complete \<and> \<not> t \<and> pr_view (process (pr_ext b p)) = pr_view q) \<or>
         (pr_state q \<noteq> Complete \<and> pr_view (process (pr_ext b p)) = pr_view (process (pr_ext b q)))"
proof -
  have go: "pr_view (process (pr_ext b p)) = pr_view (process (pr_ext b q))"
    if "same_step (pr_step (pr_ext b p)) (True, pr_ext b q)"
  proof -
    from that obtain r where r: "pr_step (pr_ext b p) = (True, r)" "pr_norm r = pr_norm (pr_ext b q)"
      by (cases "pr_step (pr_ext b p)") simp
    show ?thesis unfolding process_go [OF r(1)] by (rule pr_view_norm [OF process_cong [OF r(2)]])
  qed
  have stop: "pr_view (process (pr_ext b p)) = pr_view q"
    if "same_step (pr_step (pr_ext b p)) (False, q)"
  proof -
    from that obtain r where r: "pr_step (pr_ext b p) = (False, r)" "pr_norm r = pr_norm q"
      by (cases "pr_step (pr_ext b p)") simp
    show ?thesis unfolding process_stop [OF r(1)] by (rule pr_view_norm [OF r(2)])
  qed
  show ?thesis
  proof (cases "pr_state p")
    case StatusLine
    show ?thesis
    proof (cases "pr_find_crlf p")
      case None
      with line_states_wait(1) [OF None] step ne StatusLine show ?thesis by (auto simp: pr_step_def)
    next
      case (Some n)
      with status_line_ext [of p t q b] step ne rb StatusLine go pr_step_go_state [of p q] show ?thesis
        by (auto simp: pr_step_def)
    qed
  next
    case Headers
    show ?thesis
    proof (cases "pr_find_crlf p")
      case None
      with line_states_wait(2) [OF None] step ne Headers show ?thesis by (auto simp: pr_step_def)
    next
      case (Some n)
      with header_line_ext [of p t q b] step ne rb Headers go stop show ?thesis
        by (cases "pr_state q = Complete") (auto simp: pr_step_def)
    qed
  next
    case ChunkSize
    show ?thesis
    proof (cases "pr_find_crlf p")
      case None
      with line_states_wait(3) [OF None] step ne ChunkSize show ?thesis by (auto simp: pr_step_def)
    next
      case (Some n)
      with chunk_size_ext [of p t q b] step ne rb ChunkSize go pr_step_go_state [of p q] show ?thesis
        by (auto simp: pr_step_def)
    qed
  next
    case Trailer
    show ?thesis
    proof (cases "pr_find_crlf p")
      case None
      with line_states_wait(4) [OF None] step ne Trailer show ?thesis by (auto simp: pr_step_def)
    next
      case (Some n)
      with trailer_ext [of p t q b] step ne rb Trailer go stop show ?thesis
        by (cases "pr_state q = Complete") (auto simp: pr_step_def)
    qed
  next
    case ChunkDataCrlf
    show ?thesis
    proof (cases t)
      case True
      with chunk_crlf_ext [of p q b] step rb ChunkDataCrlf go pr_step_go_state [of p q] show ?thesis
        by (auto simp: pr_step_def)
    next
      case False
      with step ne ChunkDataCrlf have "q = p" by (auto simp: pr_step_def parse_chunk_crlf_def split: if_splits)
      with ChunkDataCrlf show ?thesis by simp
    qed
  next
    case ChunkData
    show ?thesis
    proof (cases t)
      case True
      with chunk_data_ext [OF ChunkData rb, of q b] step pr_step_go_state [of p q] show ?thesis by simp
    next
      case False
      with step ne ChunkData have "q = p"
        by (auto simp: pr_step_def parse_chunk_data_def Let_def split: if_splits)
      with ChunkData show ?thesis by simp
    qed
  next
    case Body
    then have b: "parse_resp_body p = (t, q)" "\<not> t"
      using step resp_body_stops [of p] by (auto simp: pr_step_def)
    then have "pr_state q = Complete \<or> pr_state q = Body"
      using Body ne(2) by (auto simp: parse_resp_body_def Let_def split: if_splits)
    then show ?thesis
    proof
      assume "pr_state q = Complete"
      with resp_body_done_ext [OF Body rb b(1), of b] b(2) Body stop show ?thesis by (simp add: pr_step_def)
    next
      assume "pr_state q = Body"
      with resp_body_ext [OF Body rb b(1), of b] show ?thesis by simp
    qed
  qed (use step ne in \<open>auto simp: pr_step_def\<close>)
qed

lemma process_ext:
  assumes "pr_rb_ok p" "pr_state p \<noteq> Complete" "pr_state (process p) \<noteq> Error"
  shows "pr_view (process (pr_ext b p)) =
    (if pr_state (process p) = Complete then pr_view (process p)
     else pr_view (process (pr_ext b (process p))))"
  using assms
proof (induction p rule: process.induct)
  case (1 p)
  obtain t q where q: "pr_step p = (t, q)" by (cases "pr_step p")
  show ?case
  proof (cases t)
    case True
    with q have l: "process p = process q" by (simp add: process_go)
    have ne: "pr_state q \<noteq> Complete" using q True pr_step_go_state by simp
    have "pr_state q \<noteq> Error" using 1(4) l by (cases "pr_state q") auto
    with pr_step_ext [OF q 1(2,3), of b] ne
    have "pr_view (process (pr_ext b p)) = pr_view (process (pr_ext b q))" by simp
    with 1 q True l ne pr_step_rb_ok [OF q 1(2)] show ?thesis by simp
  next
    case False
    with q have l: "process p = q" by (simp add: process_stop)
    with pr_step_ext [OF q 1(2,3), of b] 1(4) show ?thesis by auto
  qed
qed

end
