(* ===== verification/Response_Roundtrip.thy ===== *)
theory Response_Roundtrip
  imports Response_Parser
begin

section \<open>What the response parser reads, and its properties\<close>

text \<open>
  Round trips through the parser: heads written as \<^verbatim>\<open>HttpResponseSerializer\<close>
  writes them, bodies framed by a length, by chunks and by the end of the
  connection.  The properties of the component stand at the end.
\<close>

subsection \<open>Steps on a known line\<close>

definition pr_at :: "string \<Rightarrow> RespParser \<Rightarrow> RespParser" where
  "pr_at s p = p\<lparr>pr_buf := \<lparr>rb_bytes = s, rb_offset = 0\<rparr>\<rparr>"

lemma pr_at_avail [simp]: "pr_avail (pr_at s p) = s"
  by (simp add: pr_at_def rb_avail_def)

lemma pr_at_sel [simp]:
  "pr_headers (pr_at b p) = pr_headers p" "pr_body (pr_at b p) = pr_body p"
  "pr_state (pr_at b p) = pr_state p" "pr_framing (pr_at b p) = pr_framing p"
  "pr_config (pr_at b p) = pr_config p" "pr_status (pr_at b p) = pr_status p"
  "pr_content_length (pr_at b p) = pr_content_length p"
  "pr_chunk_remaining (pr_at b p) = pr_chunk_remaining p"
  "pr_header_bytes (pr_at b p) = pr_header_bytes p" "pr_saw_cl (pr_at b p) = pr_saw_cl p"
  "pr_saw_te (pr_at b p) = pr_saw_te p" "pr_close (pr_at b p) = pr_close p"
  "pr_interim (pr_at b p) = pr_interim p" "pr_error (pr_at b p) = pr_error p"
  "pr_reason (pr_at b p) = pr_reason p" "pr_bodyless (pr_at b p) = pr_bodyless p"
  by (simp_all add: pr_at_def pr_bodyless_def)

lemma pr_norm_at: "pr_norm p = pr_at (pr_avail p) p"
  by (simp add: pr_norm_def pr_at_def)

lemma pr_norm_at_iff: "pr_norm p = pr_norm (pr_at s q) \<longleftrightarrow> pr_at (pr_avail p) p = pr_at s q"
  by (simp add: pr_norm_at) (simp add: pr_at_def)

lemma pr_at_at [simp]: "pr_at s (pr_at t p) = pr_at s p"
  by (simp add: pr_at_def)

lemma consume_at: "pr_norm (pr_consume n (pr_at s p)) = pr_norm (pr_at (drop n s) p)"
  unfolding pr_norm_consume pr_norm_at by (simp add: pr_at_def rb_avail_def)

text \<open>Two states that agree up to the buffer layout run alike.\<close>

lemma process_to:
  assumes "pr_step p = (True, q)" "pr_norm q = pr_norm r"
  shows "pr_norm (process p) = pr_norm (process r)"
  using process_cong [OF assms(2)] assms(1) by (simp add: process_go)

subsection \<open>Status line\<close>

lemma length_to_string:
  assumes "100 \<le> n" "n < 1000"
  shows "length (to_string n) = 3"
proof -
  have "n div 10 \<ge> 10" "n div 10 div 10 < 10" using assms by auto
  then show ?thesis
    using assms by (simp add: to_string.simps [of n] to_string.simps [of "n div 10"]
        to_string.simps [of "n div 10 div 10"] del: to_string.simps)
qed

lemma to_string_no_space: "CHR '' '' \<notin> set (to_string n)" "CR \<notin> set (to_string n)" "CHR '';'' \<notin> set (to_string n)"
  by (auto dest!: to_string_digits simp: is_digit_def code_def)

definition reason_ok :: "string \<Rightarrow> bool" where
  "reason_ok r \<longleftrightarrow> CR \<notin> set r \<and> trim_by is_ows r = r"

lemma read_status_line_wire:
  assumes "100 \<le> n" "n \<le> 599" "reason_ok r"
  shows "read_status_line (''HTTP/1.1 '' @ to_string n @ '' '' @ r) = Inr (n, r)"
proof -
  let ?l = "''HTTP/1.1'' @ CHR '' '' # (to_string n @ CHR '' '' # r)"
  have f1: "find_char (CHR '' '') ?l = Some 8"
    using find_char_first [of "CHR '' ''" "''HTTP/1.1''"] by simp
  have f2: "find_char (CHR '' '') (to_string n @ CHR '' '' # r) = Some 3"
    using find_char_first [of "CHR '' ''" "to_string n" r] length_to_string [of n] assms
    by (simp add: to_string_no_space)
  have len: "length (to_string n) = 3" using length_to_string [of n] assms by simp
  have dig: "list_all is_digit (to_string n)" by (simp add: list_all_iff to_string_digits)
  have "read_status_line ?l = Inr (n, r)"
    unfolding read_status_line_def f1 option.case Let_def
    using assms f2 len dig
    by (simp add: substr_def digits_value_to_string trim_ows_def trim_loop_eq reason_ok_def)
  then show ?thesis by simp
qed

lemma status_line_wire:
  assumes "pr_state p = StatusLine" "200 \<le> n" "n \<le> 599" "reason_ok r"
    "l = ''HTTP/1.1 '' @ to_string n @ '' '' @ r"
  shows "pr_norm (process (pr_at (l @ CR # LF # rest) p)) =
    pr_norm (process (pr_at rest (p\<lparr>pr_header_bytes := pr_header_bytes p + length l + 2,
       pr_status := n, pr_reason := r, pr_interim := False, pr_state := Headers\<rparr>)))"
proof (rule process_to)
  let ?p = "pr_at (l @ CR # LF # rest) p"
  have "CR \<notin> set l" using assms(4,5) by (auto simp: to_string_no_space reason_ok_def)
  then have c: "pr_find_crlf ?p = Some (length l)" by (simp add: pr_find_crlf_def find_crlf_line)
  have rl: "read_status_line l = Inr (n, r)" using read_status_line_wire [of n r] assms by simp
  show "pr_step ?p = (True, (pr_consume (length l + 2) ?p)\<lparr>pr_header_bytes := pr_header_bytes p + length l + 2,
      pr_status := n, pr_reason := r, pr_interim := False, pr_state := Headers\<rparr>)"
    using assms(1,2) c rl by (simp add: pr_step_def parse_status_line_def Let_def)
  show "pr_norm ((pr_consume (length l + 2) ?p)\<lparr>pr_header_bytes := pr_header_bytes p + length l + 2,
      pr_status := n, pr_reason := r, pr_interim := False, pr_state := Headers\<rparr>) =
    pr_norm (pr_at rest (p\<lparr>pr_header_bytes := pr_header_bytes p + length l + 2,
       pr_status := n, pr_reason := r, pr_interim := False, pr_state := Headers\<rparr>))"
    unfolding pr_consume_pull pr_norm_consume by (simp add: pr_at_def pr_norm_def rb_avail_def)
qed

subsection \<open>Header lines\<close>

lemma lws_trimmed_ows:
  assumes "trim_whitespace v = v"
  shows "trim_by is_ows v = v" "trim_by is_ows (CHR '' '' # v) = v"
proof -
  have e: "v = [] \<or> (\<not> is_ows (hd v) \<and> \<not> is_ows (last v))"
    using trim_by_ends [of is_lws v] assms ows_is_lws by (auto simp: trim_whitespace_eq)
  then show v: "trim_by is_ows v = v" by (rule trim_by_id)
  then show "trim_by is_ows (CHR '' '' # v) = v"
    by (simp add: trim_by_def is_ows_def)
qed

definition resp_header_ok :: "HttpHeader \<Rightarrow> bool" where
  "resp_header_ok h \<longleftrightarrow>
     header_is_valid h \<and> normalize_name (header_name h) = header_norm h \<and>
     trim_whitespace (header_value h) = header_value h \<and>
     (header_norm h = ''transfer-encoding'' \<longrightarrow> contains_token (header_value h) ''chunked'') \<and>
     (header_norm h = ''content-length'' \<longrightarrow> (\<exists>n < 10 ^ 19. header_value h = to_string n))"

definition is_cl :: "HttpHeader \<Rightarrow> bool" where
  "is_cl h \<longleftrightarrow> header_norm h = ''content-length''"

definition is_te :: "HttpHeader \<Rightarrow> bool" where
  "is_te h \<longleftrightarrow> header_norm h = ''transfer-encoding''"

definition wants_close :: "HttpHeader \<Rightarrow> bool" where
  "wants_close h \<longleftrightarrow> header_norm h = ''connection'' \<and> contains_token (header_value h) ''close''"

lemma read_header_line_wire:
  assumes "resp_header_ok h"
  shows "read_header_line (build_header_line h) = Inr (header_name h, header_value h)"
    "make_header (header_name h) (header_value h) = h"
proof -
  from assms have v: "header_is_valid h" "header_name h \<noteq> []"
    by (simp_all add: resp_header_ok_def header_is_valid_def is_valid_name_def)
  show m: "make_header (header_name h) (header_value h) = h"
    using assms by (simp add: resp_header_ok_def make_header_def)
  have c: "find_char (CHR '':'') (header_name h @ CHR '':'' # (CHR '' '' # header_value h)) = Some (length (header_name h))"
    using header_is_valid_no_break(5) [OF v(1)] by (rule find_char_first)
  have mv: "header_is_valid (make_header (header_name h) (header_value h))" by (simp only: m v(1))
  show "read_header_line (build_header_line h) = Inr (header_name h, header_value h)"
    using c v mv assms lws_trimmed_ows(2) [of "header_value h"]
    by (simp add: read_header_line_def build_header_line_def substr_def trim_ows_def trim_loop_eq
        resp_header_ok_def Let_def)
qed

lemma length_to_string_le: "n < 10 ^ k \<Longrightarrow> 0 < k \<Longrightarrow> length (to_string n) \<le> k"
proof (induction n arbitrary: k rule: to_string.induct)
  case (1 n)
  show ?case
  proof (cases "n < 10")
    case True
    with 1(3) show ?thesis by (subst to_string.simps) simp
  next
    case False
    then obtain k' where k': "k = Suc k'" "0 < k'"
      using 1(2,3) by (cases k; cases "k - 1") auto
    with 1(2) have "n div 10 < 10 ^ k'" by (simp add: less_mult_imp_div_less mult.commute)
    with 1(1) [OF False this k'(2)] False k' show ?thesis by (subst to_string.simps) simp
  qed
qed

lemma check_framing_wire:
  assumes "resp_header_ok h" "is_cl h \<Longrightarrow> \<not> pr_saw_cl p"
    "is_cl h \<Longrightarrow> pr_bodyless p \<or> digits_value (header_value h) \<le> max_response_body (pr_config p)"
  shows "check_framing_field h (header_value h) p = (None,
    if is_cl h then p\<lparr>pr_content_length := digits_value (header_value h), pr_saw_cl := True\<rparr>
    else if is_te h then p\<lparr>pr_saw_te := True\<rparr>
    else if wants_close h then p\<lparr>pr_close := True\<rparr> else p)"
proof (cases "is_cl h")
  case True
  then obtain n where n: "n < 10 ^ 19" "header_value h = to_string n"
    using assms(1) by (auto simp: resp_header_ok_def is_cl_def)
  with True assms length_to_string_le [OF n(1)] show ?thesis
    by (auto simp: check_framing_field_def is_cl_def Let_def list_all_iff to_string_digits)
next
  case False
  with assms(1) show ?thesis
    by (auto simp: check_framing_field_def is_cl_def is_te_def wants_close_def resp_header_ok_def)
qed

definition wire_header_block :: "HttpHeaders \<Rightarrow> string" where
  "wire_header_block hs = concat (map (\<lambda>h. build_header_line h @ CRLF) hs)"

lemma wire_header_block_simps [simp]:
  "wire_header_block [] = []"
  "wire_header_block (h # hs) = build_header_line h @ CR # LF # wire_header_block hs"
  by (simp_all add: wire_header_block_def)

text \<open>The state after a block of header lines.\<close>

definition after_headers :: "HttpHeaders \<Rightarrow> RespParser \<Rightarrow> RespParser" where
  "after_headers hs p = p\<lparr>
     pr_headers := pr_headers p @ hs,
     pr_header_bytes := pr_header_bytes p + length (wire_header_block hs),
     pr_content_length := (case filter is_cl hs of [] \<Rightarrow> pr_content_length p | h # _ \<Rightarrow> digits_value (header_value h)),
     pr_saw_cl := (pr_saw_cl p \<or> list_ex is_cl hs),
     pr_saw_te := (pr_saw_te p \<or> list_ex is_te hs),
     pr_close := (pr_close p \<or> list_ex wants_close hs)\<rparr>"

lemma header_line_wire:
  assumes h: "resp_header_ok h" and st: "pr_state p = Headers"
    and cl: "is_cl h \<Longrightarrow> \<not> pr_saw_cl p"
      "is_cl h \<Longrightarrow> pr_bodyless p \<or> digits_value (header_value h) \<le> max_response_body (pr_config p)"
    and fresh: "\<not> headers_has (pr_headers p) (header_name h)"
    and lim: "pr_header_bytes p + length (build_header_line h) + 2 \<le> max_header_bytes (pr_config p)"
  shows "pr_norm (process (pr_at (build_header_line h @ CR # LF # rest) p)) =
    pr_norm (process (pr_at rest (after_headers [h] p)))"
proof (rule process_to)
  let ?l = "build_header_line h" and ?p = "pr_at (build_header_line h @ CR # LF # rest) p"
  note rh = read_header_line_wire [OF h]
  from h have v: "header_is_valid h" "header_name h \<noteq> []"
    by (simp_all add: resp_header_ok_def header_is_valid_def is_valid_name_def)
  then have "CR \<notin> set ?l" using header_is_valid_no_break [OF v(1)] by (simp add: build_header_line_def)
  then have c: "pr_find_crlf ?p = Some (length ?l)" by (simp add: pr_find_crlf_def find_crlf_line)
  have "is_token_char (header_name h ! 0)"
    using v by (auto simp: header_is_valid_def is_valid_name_def list_all_iff nth_mem)
  then have sp: "?l ! 0 \<noteq> CHR '' ''" "?l ! 0 \<noteq> TAB" "?l \<noteq> []"
    using v(2) token_char_not_special [of "header_name h ! 0"]
    by (auto simp: build_header_line_def nth_append)
  let ?r = "(pr_consume (length ?l + 2) ?p)\<lparr>pr_header_bytes := pr_header_bytes p + (length ?l + 2)\<rparr>"
  let ?q = "if is_cl h then ?r\<lparr>pr_content_length := digits_value (header_value h), pr_saw_cl := True\<rparr>
       else if is_te h then ?r\<lparr>pr_saw_te := True\<rparr>
       else if wants_close h then ?r\<lparr>pr_close := True\<rparr> else ?r"
  have cf: "check_framing_field h (header_value h) ?r = (None, ?q)"
    by (rule check_framing_wire [OF h]) (use cl in simp_all)
  have hq: "pr_headers ?q = pr_headers p" by simp
  show "pr_step ?p = (True, ?q\<lparr>pr_headers := pr_headers p @ [h]\<rparr>)"
    using st c sp lim rh cf hq headers_set_fresh [OF fresh]
    by (simp add: pr_step_def parse_header_line_def Let_def nth_append rh(2)) 
  show "pr_norm (?q\<lparr>pr_headers := pr_headers p @ [h]\<rparr>) = pr_norm (pr_at rest (after_headers [h] p))"
    by (simp add: pr_norm_at after_headers_def is_cl_def is_te_def wants_close_def)
       (cases p, auto simp: pr_at_def pr_consume_def)
qed

text \<open>What must hold of a head for the parser to accept it.\<close>

definition head_ok :: "RespParser \<Rightarrow> HttpHeaders \<Rightarrow> bool" where
  "head_ok p hs \<longleftrightarrow>
     list_all resp_header_ok hs \<and> headers_wf (pr_headers p @ hs) \<and>
     (pr_saw_cl p \<longrightarrow> list_ex is_cl (pr_headers p)) \<and>
     (\<forall>h \<in> set hs. is_cl h \<longrightarrow> pr_bodyless p \<or> digits_value (header_value h) \<le> max_response_body (pr_config p)) \<and>
     pr_header_bytes p + length (wire_header_block hs) \<le> max_header_bytes (pr_config p)"

lemma after_headers_sel [simp]:
  "pr_state (after_headers hs p) = pr_state p" "pr_config (after_headers hs p) = pr_config p"
  "pr_headers (after_headers hs p) = pr_headers p @ hs" "pr_bodyless (after_headers hs p) = pr_bodyless p"
  "pr_interim (after_headers hs p) = pr_interim p" "pr_body (after_headers hs p) = pr_body p"
  "pr_status (after_headers hs p) = pr_status p"
  "pr_saw_te (after_headers hs p) = (pr_saw_te p \<or> list_ex is_te hs)"
  "pr_reason (after_headers hs p) = pr_reason p" "pr_error (after_headers hs p) = pr_error p"
  "pr_header_bytes (after_headers hs p) = pr_header_bytes p + length (wire_header_block hs)"
  "pr_saw_cl (after_headers hs p) = (pr_saw_cl p \<or> list_ex is_cl hs)"
  by (simp_all add: after_headers_def pr_bodyless_def)

lemma after_headers_Nil [simp]: "after_headers [] p = p"
  by (simp add: after_headers_def)

lemma filter_is_cl_absent: "\<not> list_ex is_cl hs \<Longrightarrow> filter is_cl hs = []"
  by (induction hs) auto

lemma after_headers_Cons:
  "(is_cl h \<Longrightarrow> \<not> list_ex is_cl hs) \<Longrightarrow> after_headers hs (after_headers [h] p) = after_headers (h # hs) p"
  by (cases p; cases "is_cl h") (auto simp: after_headers_def filter_is_cl_absent split: list.split)

lemma headers_block_wire:
  assumes "head_ok p hs" "pr_state p = Headers"
  shows "pr_norm (process (pr_at (wire_header_block hs @ rest) p)) =
    pr_norm (process (pr_at rest (after_headers hs p)))"
  using assms
proof (induction hs arbitrary: p)
  case (Cons h hs)
  have h: "resp_header_ok h" using Cons.prems by (simp add: head_ok_def)
  have nh: "normalize_name (header_name h) = header_norm h" using h by (simp add: resp_header_ok_def)
  have wf: "header_norm h \<notin> header_norm ` set (pr_headers p)" "header_norm h \<notin> header_norm ` set hs"
    using Cons.prems(1) by (auto simp: head_ok_def headers_wf_def)
  then have fresh: "\<not> headers_has (pr_headers p) (header_name h)"
    by (auto simp: headers_has_def nh find_None) (metis imageI)
  have cl1: "is_cl h \<Longrightarrow> \<not> pr_saw_cl p"
    using wf(1) Cons.prems(1) by (auto simp: head_ok_def list_ex_iff is_cl_def image_iff)
  have cl2: "is_cl h \<Longrightarrow> \<not> list_ex is_cl hs"
    using wf(2) by (auto simp: list_ex_iff is_cl_def image_iff)
  have lim: "is_cl h \<Longrightarrow> pr_bodyless p \<or> digits_value (header_value h) \<le> max_response_body (pr_config p)"
    "pr_header_bytes p + length (build_header_line h) + 2 \<le> max_header_bytes (pr_config p)"
    using Cons.prems(1) by (auto simp: head_ok_def)
  have "head_ok (after_headers [h] p) hs"
    using Cons.prems(1) by (auto simp: head_ok_def)
  from Cons.IH [OF this] Cons.prems(2)
  have "pr_norm (process (pr_at (wire_header_block hs @ rest) (after_headers [h] p))) =
      pr_norm (process (pr_at rest (after_headers (h # hs) p)))"
    using after_headers_Cons [of h hs p] cl2 by simp
  moreover have "pr_norm (process (pr_at (build_header_line h @ CR # LF # (wire_header_block hs @ rest)) p)) =
      pr_norm (process (pr_at (wire_header_block hs @ rest) (after_headers [h] p)))"
    by (rule header_line_wire [OF h Cons.prems(2) cl1 lim(1) fresh lim(2)])
  ultimately show ?case by simp
qed simp

lemma end_of_head_wire:
  assumes "pr_state p = Headers" "\<not> pr_interim p"
  defines "q \<equiv> decide_framing (p\<lparr>pr_header_bytes := pr_header_bytes p + 2\<rparr>)"
  shows "pr_norm (process (pr_at (CR # LF # rest) p)) =
    (if pr_state q = Complete then pr_norm q
     else if pr_state q = Error then pr_norm q
     else pr_norm (process (pr_at rest q)))"
proof -
  let ?p = "pr_at (CR # LF # rest) p"
  let ?d = "decide_framing (pr_consume 2 (?p\<lparr>pr_header_bytes := pr_header_bytes p + 2\<rparr>))"
  have c: "pr_find_crlf ?p = Some 0" by (simp add: pr_find_crlf_def)
  have step: "pr_step ?p = (pr_state ?d \<noteq> Complete, ?d)"
    using assms(1,2) c by (simp add: pr_step_def parse_header_line_def Let_def pr_consume_pull)
  have n: "pr_norm (pr_consume 2 (?p\<lparr>pr_header_bytes := pr_header_bytes p + 2\<rparr>)) =
      pr_norm (pr_at rest (p\<lparr>pr_header_bytes := pr_header_bytes p + 2\<rparr>))"
    unfolding pr_norm_consume by (simp add: pr_at_def pr_norm_def rb_avail_def)
  have d: "pr_norm ?d = pr_norm (decide_framing (pr_at rest (p\<lparr>pr_header_bytes := pr_header_bytes p + 2\<rparr>)))"
    by (rule decide_framing_cong [OF n])
  have e: "decide_framing (pr_at rest x) =
      (if pr_state (decide_framing x) = Complete \<or> pr_state (decide_framing x) = Error
       then decide_framing x else pr_at rest (decide_framing x))" for x
    by (auto simp: decide_framing_def Let_def finish_message_def pr_fail_def pr_at_def)
  have st: "pr_state ?d = pr_state q"
    using arg_cong [OF d, of pr_state] by (simp add: e q_def)
  show ?thesis
  proof (cases "pr_state q = Complete \<or> pr_state q = Error")
    case True
    then have "process ?p = ?d" using step st
      by (cases "pr_state q = Complete") (simp_all add: process_stop process_go)
    with d e True st show ?thesis unfolding q_def by auto
  next
    case False
    then have "process ?p = process ?d" using step st by (simp add: process_go)
    moreover have "pr_norm (process ?d) = pr_norm (process (pr_at rest q))"
      by (rule process_cong) (use d e False st in \<open>simp add: q_def\<close>)
    ultimately show ?thesis using False by simp
  qed
qed

subsection \<open>Chunks\<close>

definition wire_chunk :: "string \<Rightarrow> string" where
  "wire_chunk c = to_hex (length c) @ CRLF @ c @ CRLF"

definition wire_chunks :: "string list \<Rightarrow> string" where
  "wire_chunks cs = concat (map wire_chunk cs) @ ''0'' @ CRLF @ CRLF"

lemma hex_digit_char: "d < 16 \<Longrightarrow> hex_digit (hex_char d) = Some d"
  by (auto simp: hex_digit_def hex_char_def is_digit_def)

lemma chunk_size_loop_snoc:
  "chunk_size_loop lim l xs acc = Inr v \<Longrightarrow> hex_digit c = Some d \<Longrightarrow> v * 16 + d \<le> lim \<Longrightarrow>
   chunk_size_loop lim l (xs @ [c]) acc = Inr (v * 16 + d)"
  by (induction xs arbitrary: acc) (auto simp: Let_def split: option.splits if_splits)

lemma chunk_size_loop_hex: "n \<le> lim \<Longrightarrow> chunk_size_loop lim l (to_hex n) 0 = Inr n"
proof (induction n rule: to_hex.induct)
  case (1 n)
  show ?case
  proof (cases "n < 16")
    case True
    with 1(2) show ?thesis by (simp add: to_hex.simps [of n] hex_digit_char)
  next
    case False
    have "n div 16 \<le> lim" using 1(2) by (meson div_le_dividend le_trans)
    from chunk_size_loop_snoc [OF 1(1) [OF False this] hex_digit_char [of "n mod 16"]] 1(2) False
    show ?thesis by (simp add: to_hex.simps [of n])
  qed
qed

lemma to_hex_length: "n < 16 ^ k \<Longrightarrow> 0 < k \<Longrightarrow> length (to_hex n) \<le> k"
proof (induction n arbitrary: k rule: to_hex.induct)
  case (1 n)
  show ?case
  proof (cases "n < 16")
    case True
    with 1(3) show ?thesis by (subst to_hex.simps) simp
  next
    case False
    then obtain k' where k': "k = Suc k'" "0 < k'"
      using 1(2,3) by (cases k; cases "k - 1") auto
    with 1(2) have "n div 16 < 16 ^ k'" by (simp add: less_mult_imp_div_less mult.commute)
    with 1(1) [OF False this k'(2)] False k' show ?thesis by (subst to_hex.simps) simp
  qed
qed

lemma hex_char_class: "d < 16 \<Longrightarrow> hex_char d \<noteq> CR \<and> hex_char d \<noteq> CHR '';'' \<and> \<not> is_ows (hex_char d)"
proof -
  assume "d < 16"
  then have "code (hex_char d) \<ge> 48 \<and> code (hex_char d) \<noteq> 59" by (auto simp: hex_char_def)
  then show ?thesis by (auto simp: is_ows_def code_def)
qed

lemma to_hex_chars: "c \<in> set (to_hex n) \<Longrightarrow> c \<noteq> CR \<and> c \<noteq> CHR '';'' \<and> \<not> is_ows c"
proof (induction n rule: to_hex.induct)
  case (1 n)
  show ?case
  proof (cases "n < 16")
    case True
    with 1(2) have "c = hex_char n" by (simp add: to_hex.simps [of n])
    with True hex_char_class show ?thesis by simp
  next
    case False
    with 1(2) have "c \<in> set (to_hex (n div 16)) \<or> c = hex_char (n mod 16)" by (auto simp: to_hex.simps [of n])
    with 1(1) [OF False] hex_char_class [of "n mod 16"] show ?thesis by auto
  qed
qed

lemma chunk_line_wire:
  assumes "n \<le> max_response_body (pr_config p)" "n < 16 ^ 8" "pr_state p = ChunkSize"
  shows "pr_norm (process (pr_at (to_hex n @ CR # LF # rest) p)) =
    pr_norm (process (pr_at rest (if n = 0 then p\<lparr>pr_state := Trailer\<rparr>
       else p\<lparr>pr_chunk_remaining := n, pr_state := ChunkData\<rparr>)))"
proof (rule process_to)
  let ?p = "pr_at (to_hex n @ CR # LF # rest) p"
  have "CR \<notin> set (to_hex n)" using to_hex_chars by blast
  then have c: "pr_find_crlf ?p = Some (length (to_hex n))" by (simp add: pr_find_crlf_def find_crlf_line)
  have s: "find_char (CHR '';'') (to_hex n) = None" using to_hex_chars by (intro find_char_None) blast
  have t: "trim_ows (to_hex n) = to_hex n"
    unfolding trim_ows_def trim_loop_eq using to_hex_chars by (intro trim_by_none) blast
  have "length (to_hex n) \<le> 8" by (rule to_hex_length [OF assms(2)]) simp
  with assms(1,3) c s t show "pr_step ?p = (True, if n = 0 then (pr_consume (length (to_hex n) + 2) ?p)\<lparr>pr_state := Trailer\<rparr>
       else (pr_consume (length (to_hex n) + 2) ?p)\<lparr>pr_chunk_remaining := n, pr_state := ChunkData\<rparr>)"
    by (simp add: pr_step_def parse_chunk_size_def Let_def chunk_size_loop_hex)
  show "pr_norm (if n = 0 then (pr_consume (length (to_hex n) + 2) ?p)\<lparr>pr_state := Trailer\<rparr>
       else (pr_consume (length (to_hex n) + 2) ?p)\<lparr>pr_chunk_remaining := n, pr_state := ChunkData\<rparr>) =
     pr_norm (pr_at rest (if n = 0 then p\<lparr>pr_state := Trailer\<rparr>
       else p\<lparr>pr_chunk_remaining := n, pr_state := ChunkData\<rparr>))"
    by (simp add: pr_norm_at) (simp add: pr_at_def pr_consume_def)
qed

lemma chunk_payload_wire:
  assumes "c \<noteq> []" "length (pr_body p) + length c \<le> max_response_body (pr_config p)"
    "pr_state p = ChunkData" "pr_chunk_remaining p = length c"
  shows "pr_norm (process (pr_at (c @ CR # LF # rest) p)) =
    pr_norm (process (pr_at rest (p\<lparr>pr_body := pr_body p @ c, pr_chunk_remaining := 0, pr_state := ChunkSize\<rparr>)))"
proof -
  let ?q = "p\<lparr>pr_body := pr_body p @ c, pr_chunk_remaining := 0, pr_state := ChunkDataCrlf\<rparr>"
  have "pr_norm (process (pr_at (c @ CR # LF # rest) p)) = pr_norm (process (pr_at (CR # LF # rest) ?q))"
  proof (rule process_to)
    show "pr_step (pr_at (c @ CR # LF # rest) p) = (True,
        (pr_take_body (length c) (pr_at (c @ CR # LF # rest) p))\<lparr>pr_chunk_remaining := 0, pr_state := ChunkDataCrlf\<rparr>)"
      using assms by (simp add: pr_step_def parse_chunk_data_def Let_def)
    show "pr_norm ((pr_take_body (length c) (pr_at (c @ CR # LF # rest) p))\<lparr>pr_chunk_remaining := 0, pr_state := ChunkDataCrlf\<rparr>) =
        pr_norm (pr_at (CR # LF # rest) ?q)"
      by (simp add: pr_norm_at) (simp add: pr_at_def pr_take_body_def pr_consume_def pr_avail_def rb_avail_def)
  qed
  also have "\<dots> = pr_norm (process (pr_at rest (?q\<lparr>pr_state := ChunkSize\<rparr>)))"
  proof (rule process_to)
    show "pr_step (pr_at (CR # LF # rest) ?q) = (True, (pr_consume 2 (pr_at (CR # LF # rest) ?q))\<lparr>pr_state := ChunkSize\<rparr>)"
      by (simp add: pr_step_def parse_chunk_crlf_def)
    show "pr_norm ((pr_consume 2 (pr_at (CR # LF # rest) ?q))\<lparr>pr_state := ChunkSize\<rparr>) =
        pr_norm (pr_at rest (?q\<lparr>pr_state := ChunkSize\<rparr>))"
      by (simp add: pr_norm_at) (simp add: pr_at_def pr_consume_def)
  qed
  finally show ?thesis by simp
qed

lemma chunks_wire:
  assumes "\<forall>c \<in> set cs. c \<noteq> [] \<and> length c < 16 ^ 8"
    "length (pr_body p) + length (concat cs) \<le> max_response_body (pr_config p)"
    "pr_state p = ChunkSize"
  shows "pr_state (process (pr_at (wire_chunks cs @ rest) p)) = Complete \<and>
    pr_body (process (pr_at (wire_chunks cs @ rest) p)) = pr_body p @ concat cs \<and>
    pr_headers (process (pr_at (wire_chunks cs @ rest) p)) = pr_headers p \<and>
    pr_status (process (pr_at (wire_chunks cs @ rest) p)) = pr_status p \<and>
    pr_framing (process (pr_at (wire_chunks cs @ rest) p)) = pr_framing p"
  using assms
proof (induction cs arbitrary: p)
  case Nil
  have "''0'' = to_hex 0" by code_simp
  then have "pr_norm (process (pr_at (wire_chunks [] @ rest) p)) =
      pr_norm (process (pr_at (CR # LF # rest) (p\<lparr>pr_state := Trailer\<rparr>)))"
    using chunk_line_wire [of 0 p "CR # LF # rest"] Nil(3) by (simp add: wire_chunks_def)
  moreover have "process (pr_at (CR # LF # rest) (p\<lparr>pr_state := Trailer\<rparr>)) =
      finish_message (pr_consume 2 (pr_at (CR # LF # rest) (p\<lparr>pr_state := Trailer\<rparr>)))"
    by (rule process_stop) (simp add: pr_step_def parse_trailer_line_def pr_find_crlf_def)
  ultimately have "pr_norm (process (pr_at (wire_chunks [] @ rest) p)) =
      pr_norm (finish_message (pr_consume 2 (pr_at (CR # LF # rest) (p\<lparr>pr_state := Trailer\<rparr>))))" by simp
  from arg_cong [OF this, of pr_state] arg_cong [OF this, of pr_body] arg_cong [OF this, of pr_headers]
    arg_cong [OF this, of pr_status] arg_cong [OF this, of pr_framing]
  show ?case by simp
next
  case (Cons c cs)
  let ?w = "wire_chunks cs @ rest"
  have c: "c \<noteq> []" "length c < 16 ^ 8" "length c \<le> max_response_body (pr_config p)"
    "length (pr_body p) + length c \<le> max_response_body (pr_config p)"
    using Cons.prems by auto
  let ?p1 = "p\<lparr>pr_chunk_remaining := length c, pr_state := ChunkData\<rparr>"
  let ?p2 = "?p1\<lparr>pr_body := pr_body p @ c, pr_chunk_remaining := 0, pr_state := ChunkSize\<rparr>"
  have "wire_chunks (c # cs) @ rest = to_hex (length c) @ CR # LF # (c @ CR # LF # ?w)"
    by (simp add: wire_chunks_def wire_chunk_def)
  then have "pr_norm (process (pr_at (wire_chunks (c # cs) @ rest) p)) =
      pr_norm (process (pr_at (c @ CR # LF # ?w) ?p1))"
    using chunk_line_wire [of "length c" p "c @ CR # LF # ?w"] c Cons.prems(3) by simp
  also have "\<dots> = pr_norm (process (pr_at ?w ?p2))"
    using chunk_payload_wire [of c ?p1 ?w] c by simp
  finally have n: "pr_norm (process (pr_at (wire_chunks (c # cs) @ rest) p)) = pr_norm (process (pr_at ?w ?p2))" .
  from arg_cong [OF n, of pr_state] arg_cong [OF n, of pr_body] arg_cong [OF n, of pr_headers]
    arg_cong [OF n, of pr_status] arg_cong [OF n, of pr_framing] Cons.IH [of ?p2] Cons.prems
  show ?case by simp
qed

subsection \<open>Whole responses\<close>

definition status_line :: "nat \<Rightarrow> string \<Rightarrow> string" where
  "status_line n reason = ''HTTP/1.1 '' @ to_string n @ '' '' @ reason"

definition wire_head :: "nat \<Rightarrow> string \<Rightarrow> HttpHeaders \<Rightarrow> string" where
  "wire_head n reason hs = status_line n reason @ CRLF @ wire_header_block hs @ CRLF"

text \<open>A head the parser with configuration \<open>c\<close> accepts.\<close>

definition head_accepted :: "RespConfig \<Rightarrow> nat \<Rightarrow> string \<Rightarrow> HttpHeaders \<Rightarrow> bool" where
  "head_accepted c n reason hs \<longleftrightarrow>
     200 \<le> n \<and> n \<le> 599 \<and> reason_ok reason \<and>
     list_all resp_header_ok hs \<and> headers_wf hs \<and>
     list_all (\<lambda>h. is_cl h \<longrightarrow> request_was_head c \<or> n = 204 \<or> n = 304 \<or>
        digits_value (header_value h) \<le> max_response_body c) hs \<and>
     length (wire_head n reason hs) \<le> max_header_bytes c"

definition head_read :: "RespConfig \<Rightarrow> nat \<Rightarrow> string \<Rightarrow> HttpHeaders \<Rightarrow> RespParser" where
  "head_read c n reason hs =
     decide_framing ((after_headers hs ((pr_new c)\<lparr>pr_header_bytes := length (status_line n reason) + 2,
        pr_status := n, pr_reason := reason, pr_state := Headers\<rparr>))
        \<lparr>pr_header_bytes := length (wire_head n reason hs)\<rparr>)"

lemma pr_new_sel [simp]:
  "pr_headers (pr_new c) = []" "pr_body (pr_new c) = []" "pr_state (pr_new c) = StatusLine"
  "pr_config (pr_new c) = c" "pr_header_bytes (pr_new c) = 0" "pr_saw_cl (pr_new c) = False"
  "pr_saw_te (pr_new c) = False" "pr_interim (pr_new c) = False" "pr_avail (pr_new c) = []"
  "pr_content_length (pr_new c) = 0" "pr_close (pr_new c) = False"
  by (simp_all add: pr_new_def pr_avail_def)

lemma head_wire:
  assumes "head_accepted c n reason hs"
  shows "pr_norm (process (pr_at (wire_head n reason hs @ rest) (pr_new c))) =
    (if pr_state (head_read c n reason hs) = Complete \<or> pr_state (head_read c n reason hs) = Error
     then pr_norm (head_read c n reason hs)
     else pr_norm (process (pr_at rest (head_read c n reason hs))))"
proof -
  let ?P = "(pr_new c)\<lparr>pr_header_bytes := length (status_line n reason) + 2,
        pr_status := n, pr_reason := reason, pr_state := Headers\<rparr>"
  let ?block = "wire_header_block hs @ CR # LF # rest"
  have P: "(pr_new c)\<lparr>pr_header_bytes := length (status_line n reason) + 2,
        pr_status := n, pr_reason := reason, pr_interim := False, pr_state := Headers\<rparr> = ?P"
    by (simp add: pr_new_def)
  have w: "wire_head n reason hs @ rest = status_line n reason @ CR # LF # ?block"
    by (simp add: wire_head_def)
  have 1: "pr_norm (process (pr_at (wire_head n reason hs @ rest) (pr_new c))) = pr_norm (process (pr_at ?block ?P))"
    using status_line_wire [of "pr_new c" n reason "status_line n reason" ?block] assms
    unfolding w P [symmetric] by (simp add: head_accepted_def status_line_def)
  have ok: "head_ok ?P hs"
    using assms by (auto simp: head_ok_def head_accepted_def wire_head_def pr_bodyless_def list_all_iff)
  have 2: "pr_norm (process (pr_at ?block ?P)) = pr_norm (process (pr_at (CR # LF # rest) (after_headers hs ?P)))"
    using headers_block_wire [OF ok, of "CR # LF # rest"] by simp
  have hb: "pr_header_bytes (after_headers hs ?P) + 2 = length (wire_head n reason hs)"
    by (simp add: wire_head_def)
  show ?thesis
    unfolding 1 2 using end_of_head_wire [of "after_headers hs ?P" rest, unfolded hb]
    by (simp add: head_read_def)
qed

lemma pr_feed_new:
  assumes "s \<noteq> []" "length s \<le> max_header_bytes c + max_response_body c"
  shows "snd (pr_feed s (pr_new c)) = process (pr_at s (pr_new c))"
proof -
  have "(pr_new c)\<lparr>pr_buf := rb_append s (pr_buf (pr_new c))\<rparr> = pr_at s (pr_new c)"
    by (simp add: pr_new_def pr_at_def rb_append_def empty_buf_def)
  with assms show ?thesis by (simp add: pr_feed_def Let_def)
qed

definition pr_output :: "RespParser \<Rightarrow> State \<times> nat \<times> HttpHeaders \<times> string" where
  "pr_output p = (pr_state p, pr_status p, pr_headers p, pr_body p)"

lemma pr_output_norm: "pr_output (pr_norm p) = pr_output p"
  by (simp add: pr_output_def)

lemma pr_output_cong: "pr_norm p = pr_norm q \<Longrightarrow> pr_output p = pr_output q"
  by (metis pr_output_norm)

lemma length_body_read:
  assumes acc: "head_accepted c n reason hs" and f: "filter is_cl hs = [h]" "header_value h = to_string (length body)"
    and te: "\<not> list_ex is_te hs" and nb: "\<not> request_was_head c" "n \<noteq> 204" "n \<noteq> 304"
  shows "pr_output (process (pr_at (wire_head n reason hs @ body @ rest) (pr_new c))) = (Complete, n, hs, body)"
proof -
  let ?h = "head_read c n reason hs"
  have "h \<in> set (filter is_cl hs)" using f(1) by simp
  then have cl: "list_ex is_cl hs" by (auto simp: list_ex_iff)
  let ?A = "(after_headers hs ((pr_new c)\<lparr>pr_header_bytes := length (status_line n reason) + 2,
        pr_status := n, pr_reason := reason, pr_state := Headers\<rparr>))
        \<lparr>pr_header_bytes := length (wire_head n reason hs)\<rparr>"
  have len: "pr_content_length ?A = length body"
    using f by (simp add: after_headers_def digits_value_to_string)
  have r: "?h = (if body = [] then finish_message (?A\<lparr>pr_framing := ContentLength\<rparr>)
                 else ?A\<lparr>pr_framing := ContentLength, pr_state := Body\<rparr>)"
    unfolding head_read_def decide_framing_def using cl te nb len by (simp add: Let_def)
  show ?thesis
  proof (cases "body = []")
    case True
    with r head_wire [OF acc, of rest] have "pr_norm (process (pr_at (wire_head n reason hs @ rest) (pr_new c))) = pr_norm ?h"
      by simp
    from pr_output_cong [OF this] r True show ?thesis by (simp add: pr_output_def)
  next
    case False
    let ?B = "?A\<lparr>pr_framing := ContentLength, pr_state := Body\<rparr>"
    have hB: "?h = ?B" using r False by simp
    have "pr_norm (process (pr_at (wire_head n reason hs @ body @ rest) (pr_new c))) =
        pr_norm (process (pr_at (body @ rest) ?h))"
      using head_wire [OF acc, of "body @ rest"] hB by simp
    moreover have "process (pr_at (body @ rest) ?h) = finish_message (pr_take_body (length body) (pr_at (body @ rest) ?h))"
    proof (rule process_stop)
      have k: "min (length body) (length body + length rest) = length body" by simp
      have s: "snd (parse_resp_body (pr_at (body @ rest) ?h)) =
          finish_message (pr_take_body (length body) (pr_at (body @ rest) ?h))"
        using resp_body_cl [of "pr_at (body @ rest) ?h"] False len unfolding hB by (simp add: Let_def)
      show "pr_step (pr_at (body @ rest) ?h) =
          (False, finish_message (pr_take_body (length body) (pr_at (body @ rest) ?h)))"
        using s resp_body_stops [of "pr_at (body @ rest) ?h"] hB
        by (simp add: pr_step_def prod_eq_iff)
    qed
    ultimately have n: "pr_norm (process (pr_at (wire_head n reason hs @ body @ rest) (pr_new c))) =
        pr_norm (finish_message (pr_take_body (length body) (pr_at (body @ rest) ?h)))" by simp
    have "pr_status (pr_take_body m (pr_at t ?h)) = n" "pr_headers (pr_take_body m (pr_at t ?h)) = hs"
      "pr_body ?h = []" for m t
      unfolding hB by (simp_all add: pr_take_body_def)
    with pr_output_cong [OF n] show ?thesis by (simp add: pr_output_def)
  qed
qed

lemma chunked_body_read:
  assumes acc: "head_accepted c n reason hs" and te: "list_ex is_te hs" "\<not> list_ex is_cl hs"
    and nb: "\<not> request_was_head c" "n \<noteq> 204" "n \<noteq> 304"
    and cs: "\<forall>c \<in> set cs. c \<noteq> [] \<and> length c < 16 ^ 8" "length (concat cs) \<le> max_response_body c"
  shows "pr_output (process (pr_at (wire_head n reason hs @ wire_chunks cs @ rest) (pr_new c))) =
    (Complete, n, hs, concat cs)"
proof -
  let ?h = "head_read c n reason hs"
  let ?A = "(after_headers hs ((pr_new c)\<lparr>pr_header_bytes := length (status_line n reason) + 2,
        pr_status := n, pr_reason := reason, pr_state := Headers\<rparr>))
        \<lparr>pr_header_bytes := length (wire_head n reason hs), pr_framing := Chunked, pr_state := ChunkSize\<rparr>"
  have r: "?h = ?A"
    unfolding head_read_def decide_framing_def using te nb by simp
  have "pr_norm (process (pr_at (wire_head n reason hs @ wire_chunks cs @ rest) (pr_new c))) =
      pr_norm (process (pr_at (wire_chunks cs @ rest) ?A))"
    using head_wire [OF acc, of "wire_chunks cs @ rest"] r by simp
  from pr_output_cong [OF this] chunks_wire [OF cs(1), of ?A rest] cs(2)
  show ?thesis by (simp add: pr_output_def)
qed

subsection \<open>Reachable parsers\<close>

text \<open>The states a parser can be in: fresh, after a chunk of input, after the peer closed.\<close>

inductive resp_reachable :: "RespConfig \<Rightarrow> RespParser \<Rightarrow> bool" for c where
  fresh: "resp_reachable c (pr_new c)"
| chunk: "resp_reachable c p \<Longrightarrow> resp_reachable c (snd (pr_feed s p))"
| eof: "resp_reachable c p \<Longrightarrow> resp_reachable c (snd (finish_on_eof p))"

lemma pr_step_config: "pr_step p = (t, q) \<Longrightarrow> pr_config q = pr_config p"
  by (cases "pr_state p")
     (auto simp: pr_step_def parse_status_line_def parse_header_line_def parse_resp_body_def
        parse_chunk_size_def parse_chunk_data_def parse_chunk_crlf_def parse_trailer_line_def Let_def
        decide_framing_def check_framing_field_def
        split: option.splits if_splits sum.splits prod.splits)

lemma process_config [simp]: "pr_config (process p) = pr_config p"
proof (induction p rule: process.induct)
  case (1 p)
  obtain t q where q: "pr_step p = (t, q)" by (cases "pr_step p")
  with 1 pr_step_config [OF q] show ?case by (subst process.simps) simp
qed

lemma resp_reachable_ok: "resp_reachable c p \<Longrightarrow> pr_ok p \<and> pr_config p = c"
proof (induction rule: resp_reachable.induct)
  case (chunk p s)
  then show ?case by (simp add: pr_feed_ok) (simp add: pr_feed_def Let_def)
next
  case (eof p)
  then show ?case by (simp add: finish_on_eof_ok) (simp add: finish_on_eof_def)
qed simp

lemma pr_step_avail: "pr_step p = (t, q) \<Longrightarrow> length (pr_avail q) \<le> length (pr_avail p)"
proof (cases t)
  case True
  assume "pr_step p = (t, q)"
  with pr_step_decreases [of p q] True show ?thesis by (auto simp: pr_measure_def split: if_splits)
next
  case False
  assume s: "pr_step p = (t, q)"
  have "\<And>x. length (pr_avail (decide_framing x)) \<le> length (pr_avail x)" by (rule decide_framing_le)
  note d = this [of "(pr_consume 2 p)\<lparr>pr_header_bytes := pr_header_bytes p + 2\<rparr>"]
  from s False d show ?thesis
    by (cases "pr_state p")
       (auto simp: pr_step_def parse_status_line_def parse_header_line_def parse_resp_body_def
          parse_chunk_size_def parse_chunk_data_def parse_chunk_crlf_def parse_trailer_line_def Let_def
          split: option.splits if_splits sum.splits prod.splits)
qed

lemma process_avail: "length (pr_avail (process p)) \<le> length (pr_avail p)"
proof (induction p rule: process.induct)
  case (1 p)
  obtain t q where q: "pr_step p = (t, q)" by (cases "pr_step p")
  show ?case
  proof (cases t)
    case True
    have "length (pr_avail (process q)) \<le> length (pr_avail q)"
      by (rule 1 [OF q [symmetric] refl True])
    with True pr_step_avail [OF q] q show ?thesis by (simp add: process_go)
  next
    case False
    with pr_step_avail [OF q] q show ?thesis by (simp add: process_stop)
  qed
qed

subsection \<open>Properties\<close>

text \<open>What a caller can see of a parser.\<close>

definition pr_results :: "RespParser \<Rightarrow> (State \<times> string \<times> nat \<times> string) \<times> HttpHeaders \<times> string \<times> Framing \<times> bool \<times> nat" where
  "pr_results p = ((pr_state p, pr_error p, pr_status p, pr_reason p), pr_headers p, pr_body p,
     pr_framing p, upstream_keep_alive p, pr_header_bytes p)"

lemma pr_results_view: "pr_view p = pr_view q \<Longrightarrow> pr_results p = pr_results q"
proof -
  assume v: "pr_view p = pr_view q"
  have sel: "pr_state (pr_view p) = pr_state p" "pr_error (pr_view p) = pr_error p" "pr_status (pr_view p) = pr_status p"
    "pr_reason (pr_view p) = pr_reason p" "pr_headers (pr_view p) = pr_headers p" "pr_body (pr_view p) = pr_body p"
    "pr_framing (pr_view p) = pr_framing p" "pr_close (pr_view p) = pr_close p"
    "pr_header_bytes (pr_view p) = pr_header_bytes p" for p
    by (simp_all add: pr_view_def)
  show ?thesis
    using arg_cong [OF v, of pr_state] arg_cong [OF v, of pr_error] arg_cong [OF v, of pr_status]
      arg_cong [OF v, of pr_reason] arg_cong [OF v, of pr_headers] arg_cong [OF v, of pr_body]
      arg_cong [OF v, of pr_framing] arg_cong [OF v, of pr_close] arg_cong [OF v, of pr_header_bytes]
    by (simp add: sel pr_results_def upstream_keep_alive_def)
qed

lemma pr_feed_split_results:
  assumes ok: "pr_ok p" and first: "fst (pr_feed a p)"
    and size: "length (pr_avail p) + length (a @ b) \<le> max_header_bytes (pr_config p) + max_response_body (pr_config p)"
  shows "pr_results (snd (pr_feed b (snd (pr_feed a p)))) = pr_results (snd (pr_feed (a @ b) p))"
proof (cases "pr_state p = Complete \<or> pr_state p = Error \<or> a = [] \<or> b = []")
  case True
  then show ?thesis using first by (auto simp: pr_feed_def split: if_splits)
next
  case False
  have rb: "pr_rb_ok p" using ok by (simp add: pr_ok_def pr_common_def pr_rb_ok_def)
  have e: "p\<lparr>pr_buf := rb_append s (pr_buf p)\<rparr> = pr_ext s p" for s p by (simp add: pr_ext_def)
  let ?q = "process (pr_ext a p)"
  have fa: "snd (pr_feed a p) = ?q" using False size by (simp add: pr_feed_def Let_def e)
  have ne: "pr_state ?q \<noteq> Error" using first False size by (simp add: pr_feed_def Let_def e split: if_splits)
  have fab: "snd (pr_feed (a @ b) p) = process (pr_ext b (pr_ext a p))"
    using False size by (simp add: pr_feed_def Let_def e) (simp add: pr_ext_def rb_append_def)
  have pe: "pr_view (process (pr_ext b (pr_ext a p))) =
      (if pr_state ?q = Complete then pr_view ?q else pr_view (process (pr_ext b ?q)))"
    by (rule process_ext) (use rb False ne in simp_all)
  have "length (pr_avail ?q) \<le> length (pr_avail (pr_ext a p))" by (rule process_avail)
  then have "length (pr_avail ?q) + length b \<le> max_header_bytes (pr_config ?q) + max_response_body (pr_config ?q)"
    using rb size by simp
  then have "snd (pr_feed b ?q) = (if pr_state ?q = Complete then ?q else process (pr_ext b ?q))"
    using ne False by (simp add: pr_feed_def Let_def e)
  with pe fa fab show ?thesis by (auto intro: pr_results_view)
qed



text \<open>
  C9: in every reachable state the buffered body is within the configured cap
  and the stored header fields are valid; a response is never in its body or
  complete with both a Content-Length and a Transfer-Encoding seen; a complete
  response framed by a length has exactly that many body bytes, one without
  body (HEAD, 204, 304) has none; and a failed parser holds no body.
\<close>

theorem response_parser_invariant:
  assumes "resp_reachable c p"
  shows "length (pr_body p) \<le> max_response_body c \<and>
    list_all header_is_valid (pr_headers p) \<and> headers_wf (pr_headers p) \<and>
    (pr_state p \<in> {StatusLine, Headers, Error} \<or> \<not> (pr_saw_cl p \<and> pr_saw_te p)) \<and>
    (pr_state p = Complete \<and> pr_framing p = ContentLength \<longrightarrow> length (pr_body p) = pr_content_length p) \<and>
    (pr_state p = Complete \<and> pr_framing p = NoBody \<longrightarrow> pr_body p = []) \<and>
    (pr_state p = Error \<longrightarrow> pr_body p = [])"
proof -
  from resp_reachable_ok [OF assms] have "pr_common p" "pr_state_ok p" "pr_config p = c"
    by (simp_all add: pr_ok_def)
  then show ?thesis by (cases "pr_state p") (simp_all add: pr_common_def pr_state_ok_def)
qed

lemma response_parser_invariant_witness:
  "let p = snd (pr_feed (''HTTP/1.1 200 OK'' @ CRLF @ ''Content-Length: 2'' @ CRLF @ CRLF @ ''ok'') (pr_new default_resp_config))
   in pr_state p = Complete \<and> pr_framing p = ContentLength \<and> length (pr_body p) = pr_content_length p"
proof -
  let ?p = "snd (pr_feed (''HTTP/1.1 200 OK'' @ CRLF @ ''Content-Length: 2'' @ CRLF @ CRLF @ ''ok'') (pr_new default_resp_config))"
  have r: "resp_reachable default_resp_config ?p" by (intro chunk fresh)
  have s: "pr_state ?p = Complete" "pr_framing ?p = ContentLength" by code_simp+
  from response_parser_invariant [OF r] s show ?thesis unfolding Let_def by blast
qed

text \<open>
  C22: a chunked response is decoded to the concatenation of its chunks, for any
  head the parser accepts, any number of nonempty chunks below eight hex digits
  whose total is within the cap, and whatever follows on the connection.
\<close>

theorem chunked_roundtrip:
  assumes "head_accepted c n reason hs" "list_ex is_te hs" "\<not> list_ex is_cl hs"
    "\<not> request_was_head c" "n \<noteq> 204" "n \<noteq> 304"
    "list_all (\<lambda>s. s \<noteq> [] \<and> length s < 16 ^ 8) cs" "length (concat cs) \<le> max_response_body c"
    "length (wire_head n reason hs @ wire_chunks cs) \<le> max_header_bytes c + max_response_body c"
  shows "pr_output (snd (pr_feed (wire_head n reason hs @ wire_chunks cs) (pr_new c))) =
    (Complete, n, hs, concat cs)"
proof -
  have ne: "wire_head n reason hs @ wire_chunks cs \<noteq> []" by (simp add: wire_chunks_def)
  from pr_feed_new [OF ne assms(9)] chunked_body_read [OF assms(1-6) _ assms(8), of "[]"] assms(7)
  show ?thesis by (simp add: list_all_iff)
qed

lemma chunked_roundtrip_witness:
  "head_accepted default_resp_config 200 ''OK'' [make_header ''Transfer-Encoding'' ''chunked''] \<and>
   pr_output (snd (pr_feed (wire_head 200 ''OK'' [make_header ''Transfer-Encoding'' ''chunked''] @
       wire_chunks [''hello'', ''!'']) (pr_new default_resp_config))) =
     (Complete, 200, [make_header ''Transfer-Encoding'' ''chunked''], ''hello!'')"
proof -
  let ?hs = "[make_header ''Transfer-Encoding'' ''chunked'']"
  have r: "resp_header_ok (make_header ''Transfer-Encoding'' ''chunked'')"
  proof -
    let ?h = "make_header ''Transfer-Encoding'' ''chunked''"
    have "header_is_valid ?h" "normalize_name (header_name ?h) = header_norm ?h"
      "trim_whitespace (header_value ?h) = header_value ?h" "contains_token (header_value ?h) ''chunked''"
      "header_norm ?h \<noteq> ''content-length''" by code_simp+
    then show ?thesis by (simp only: resp_header_ok_def simp_thms)
  qed
  have h: "head_accepted default_resp_config 200 ''OK'' ?hs"
  proof -
    have "reason_ok ''OK''" "headers_wf ?hs" "length (wire_head 200 ''OK'' ?hs) \<le> max_header_bytes default_resp_config"
      "\<not> is_cl (make_header ''Transfer-Encoding'' ''chunked'')" by code_simp+
    with r show ?thesis by (simp add: head_accepted_def)
  qed
  have "pr_output (snd (pr_feed (wire_head 200 ''OK'' ?hs @ wire_chunks [''hello'', ''!'']) (pr_new default_resp_config))) =
     (Complete, 200, ?hs, concat [''hello'', ''!''])"
    by (rule chunked_roundtrip [OF h]) code_simp+
  with h show ?thesis by simp
qed

text \<open>
  An interim response is not forgotten.  The length announced in the head
  of a 103 response survives it, so a final chunked response is rejected as
  carrying both framings, although the same final response alone is accepted.
\<close>

theorem interim_framing_leaks:
  "let early = ''HTTP/1.1 103 Early Hints'' @ CRLF @ ''Content-Length: 5'' @ CRLF @ CRLF;
       final = ''HTTP/1.1 200 OK'' @ CRLF @ ''Transfer-Encoding: chunked'' @ CRLF @ CRLF @ ''0'' @ CRLF @ CRLF;
       p = snd (pr_feed (early @ final) (pr_new default_resp_config))
   in pr_state p = Error \<and>
      pr_error p = ''upstream sent both Content-Length and Transfer-Encoding'' \<and>
      pr_state (snd (pr_feed final (pr_new default_resp_config))) = Complete"
  by code_simp

end
