(* ===== verification/Config.thy ===== *)
theory Config
  imports Prelude
begin

section \<open>Configuration: \<^verbatim>\<open>config_parser.cpp\<close>, \<^verbatim>\<open>server_config.cpp\<close>, log levels\<close>

text \<open>
  A configuration file is read line by line into a map from keys to texts
  (\<open>parse_text\<close>); \<open>load_from_parser\<close> overlays it on a \<open>ServerConfig\<close> and
  validates the result, an exception being \<^const>\<open>Inl\<close> with its message.  Settings
  keep the width of their C++ type, so the narrowing casts of the loader are the
  word conversions.  Whether TLS is compiled in (\<^verbatim>\<open>AEVRIX_ENABLE_TLS\<close>) is the
  argument \<open>tls\<close>.
\<close>

subsection \<open>Log levels\<close>

datatype LogLevel = DEBUG | INFO | WARN | ERR

definition level_index :: "LogLevel \<Rightarrow> nat" where
  "level_index l = (case l of DEBUG \<Rightarrow> 0 | INFO \<Rightarrow> 1 | WARN \<Rightarrow> 2 | ERR \<Rightarrow> 3)"

instantiation LogLevel :: linorder
begin

definition less_eq_LogLevel :: "LogLevel \<Rightarrow> LogLevel \<Rightarrow> bool" where
  "less_eq_LogLevel a b \<longleftrightarrow> level_index a \<le> level_index b"

definition less_LogLevel :: "LogLevel \<Rightarrow> LogLevel \<Rightarrow> bool" where
  "less_LogLevel a b \<longleftrightarrow> level_index a < level_index b"

instance
proof
  fix x y z :: LogLevel
  show "x < y \<longleftrightarrow> x \<le> y \<and> \<not> y \<le> x" by (auto simp: less_eq_LogLevel_def less_LogLevel_def)
  show "x \<le> x" by (simp add: less_eq_LogLevel_def)
  show "x \<le> y \<Longrightarrow> y \<le> z \<Longrightarrow> x \<le> z" by (auto simp: less_eq_LogLevel_def)
  show "x \<le> y \<Longrightarrow> y \<le> x \<Longrightarrow> x = y"
    by (cases x; cases y) (simp_all add: less_eq_LogLevel_def level_index_def)
  show "x \<le> y \<or> y \<le> x" by (auto simp: less_eq_LogLevel_def)
qed

end

definition level_from_string :: "string \<Rightarrow> LogLevel option" where
  "level_from_string name =
     (let lowered = map to_lower name in
      if find_idx (\<lambda>c. \<not> is_ows c) lowered = None then None
      else let lowered = trim_find is_ows lowered in
        if lowered = ''debug'' then Some DEBUG
        else if lowered = ''info'' then Some INFO
        else if lowered = ''warn'' then Some WARN
        else if lowered = ''error'' \<or> lowered = ''err'' then Some ERR
        else None)"

definition level_to_string :: "LogLevel \<Rightarrow> string" where
  "level_to_string l =
     (case l of DEBUG \<Rightarrow> ''debug'' | INFO \<Rightarrow> ''info'' | WARN \<Rightarrow> ''warn'' | ERR \<Rightarrow> ''error'')"

definition level_name :: "LogLevel \<Rightarrow> string" where
  "level_name l =
     (case l of DEBUG \<Rightarrow> ''DEBUG'' | INFO \<Rightarrow> ''INFO'' | WARN \<Rightarrow> ''WARN'' | ERR \<Rightarrow> ''ERROR'')"

text \<open>The logger's state is its level; \<open>set_level_from_string\<close> keeps it on a bad name.\<close>

definition set_level_from_string :: "string \<Rightarrow> LogLevel \<Rightarrow> bool \<times> LogLevel" where
  "set_level_from_string name level =
     (case level_from_string name of None \<Rightarrow> (False, level) | Some parsed \<Rightarrow> (True, parsed))"

definition should_log :: "LogLevel \<Rightarrow> LogLevel \<Rightarrow> bool" where
  "should_log active level \<longleftrightarrow> level \<ge> active"

definition log_line :: "string \<Rightarrow> LogLevel \<Rightarrow> LogLevel \<Rightarrow> string \<Rightarrow> string option" where
  "log_line timestamp active level message =
     (if \<not> should_log active level then None
      else Some (timestamp @ '' '' @ level_name level @ '' '' @ message))"

definition access_line :: "string \<Rightarrow> LogLevel \<Rightarrow> nat \<Rightarrow> nat \<Rightarrow> string \<Rightarrow> string \<Rightarrow> nat \<Rightarrow> nat \<Rightarrow> nat \<Rightarrow> string option" where
  "access_line timestamp active connection_id request_id meth path status body_size duration_us =
     (if \<not> should_log active INFO then None
      else Some (timestamp @ '' '' @ level_name INFO @ '' conn='' @ to_string connection_id @
             '' req='' @ to_string request_id @ '' '' @ meth @ '' '' @ path @ '' '' @ to_string status @
             '' '' @ to_string body_size @ ''B '' @ to_string duration_us @ ''us''))"

definition connection_line :: "string \<Rightarrow> LogLevel \<Rightarrow> LogLevel \<Rightarrow> nat \<Rightarrow> string \<Rightarrow> string option" where
  "connection_line timestamp active level connection_id message =
     (if \<not> should_log active level then None
      else Some (timestamp @ '' '' @ level_name level @ '' conn='' @ to_string connection_id @ '' '' @ message))"

definition request_log_line :: "string \<Rightarrow> LogLevel \<Rightarrow> LogLevel \<Rightarrow> nat \<Rightarrow> nat \<Rightarrow> string \<Rightarrow> string option" where
  "request_log_line timestamp active level connection_id request_id message =
     (if \<not> should_log active level then None
      else Some (timestamp @ '' '' @ level_name level @ '' conn='' @ to_string connection_id @
             '' req='' @ to_string request_id @ '' '' @ message))"

lemma level_string_roundtrip [simp]: "level_from_string (level_to_string l) = Some l"
proof -
  have "list_all (\<lambda>l. level_from_string (level_to_string l) = Some l) [DEBUG, INFO, WARN, ERR]" by code_simp
  then show ?thesis by (cases l) simp_all
qed

subsection \<open>The file parser\<close>

type_synonym Values = "string \<Rightarrow> string option"

text \<open>Lines as \<^verbatim>\<open>std::getline\<close> returns them: a final newline starts no further line.\<close>

function file_lines :: "string \<Rightarrow> string list" where
  "file_lines s =
     (if s = [] then []
      else takeWhile (\<lambda>c. c \<noteq> LF) s #
        (case dropWhile (\<lambda>c. c \<noteq> LF) s of [] \<Rightarrow> [] | _ # r \<Rightarrow> file_lines r))"
  by pat_completeness auto
termination
proof (relation "measure length")
  fix s :: string and x r assume "s \<noteq> []" "dropWhile (\<lambda>c. c \<noteq> LF) s = x # r"
  then show "(r, s) \<in> measure length"
    using length_dropWhile_le [of "\<lambda>c. c \<noteq> LF" s] by simp
qed simp

declare file_lines.simps [simp del]

definition conf_trim :: "string \<Rightarrow> string" where
  "conf_trim s = trim_find is_lws s"

definition parse_line :: "string \<Rightarrow> Values \<Rightarrow> Values" where
  "parse_line line vals =
     (let trimmed = conf_trim line in
      if trimmed = [] \<or> trimmed ! 0 = CHR ''#'' then vals
      else case find_char (CHR ''='') trimmed of
        None \<Rightarrow> vals
      | Some pos \<Rightarrow>
          let key = conf_trim (take pos trimmed); v = conf_trim (drop (pos + 1) trimmed)
          in if key = [] then vals else vals(key \<mapsto> v))"

definition parse_text :: "string \<Rightarrow> Values" where
  "parse_text content = fold parse_line (file_lines content) (\<lambda>_. None)"

definition get_string :: "Values \<Rightarrow> string \<Rightarrow> string \<Rightarrow> string" where
  "get_string vals key dflt = (case vals key of Some v \<Rightarrow> v | None \<Rightarrow> dflt)"

definition get_int :: "Values \<Rightarrow> string \<Rightarrow> int \<Rightarrow> int" where
  "get_int vals key dflt =
     (case vals key of None \<Rightarrow> dflt
      | Some v \<Rightarrow> (case stoll v of Some n \<Rightarrow> n | None \<Rightarrow> dflt))"

definition get_bool :: "Values \<Rightarrow> string \<Rightarrow> bool \<Rightarrow> bool" where
  "get_bool vals key dflt =
     (case vals key of None \<Rightarrow> dflt
      | Some v \<Rightarrow>
          let v = map to_lower v in
          if v = ''true'' \<or> v = ''yes'' \<or> v = ''1'' then True
          else if v = ''false'' \<or> v = ''no'' \<or> v = ''0'' then False
          else dflt)"

subsection \<open>Comma-separated lists\<close>

text \<open>\<open>find_from P s start\<close> is \<^verbatim>\<open>find_first_not_of\<close> with a start position.\<close>

definition find_from :: "(char \<Rightarrow> bool) \<Rightarrow> string \<Rightarrow> nat \<Rightarrow> nat option" where
  "find_from P s start = map_option (\<lambda>i. start + i) (find_idx P (drop start s))"

function split_csv_from :: "string \<Rightarrow> nat \<Rightarrow> string list" where
  "split_csv_from v start =
     (if start \<le> length v then
        let comma = find_from (\<lambda>c. c = CHR '','') v start;
            stop = (case comma of None \<Rightarrow> length v | Some k \<Rightarrow> k);
            first = find_from (\<lambda>c. \<not> is_ows c) v start;
            item = (case first of None \<Rightarrow> []
              | Some a \<Rightarrow> if a < stop then
                   (case find_last_idx (\<lambda>c. \<not> is_ows c) (take stop v) of None \<Rightarrow> []
                    | Some b \<Rightarrow> if b \<ge> a then [substr v a (b + 1 - a)] else [])
                 else [])
        in item @ (case comma of None \<Rightarrow> [] | Some k \<Rightarrow> split_csv_from v (k + 1))
      else [])"
  by pat_completeness auto
termination
  by (relation "measure (\<lambda>(v, start). Suc (length v) - start)") (auto simp: find_from_def dest!: sym [of "Some _"])

declare split_csv_from.simps [simp del]

definition split_csv :: "string \<Rightarrow> string list" where
  "split_csv v = split_csv_from v 0"

fun join_csv :: "string list \<Rightarrow> string" where
  "join_csv [] = []"
| "join_csv [v] = v"
| "join_csv (v # w # vs) = v @ '','' @ join_csv (w # vs)"

text \<open>What the index arithmetic computes: the trimmed, non-empty items between commas.\<close>

function csv_items :: "string \<Rightarrow> string list" where
  "csv_items s =
     (let item = trim_by is_ows (takeWhile (\<lambda>c. c \<noteq> CHR '','') s) in
      (if item = [] then [] else [item]) @
      (case dropWhile (\<lambda>c. c \<noteq> CHR '','') s of [] \<Rightarrow> [] | _ # r \<Rightarrow> csv_items r))"
  by pat_completeness auto
termination
proof (relation "measure length")
  fix s x :: string and y r assume "dropWhile (\<lambda>c. c \<noteq> CHR '','') s = y # r"
  then show "(r, s) \<in> measure length"
    using length_dropWhile_le [of "\<lambda>c. c \<noteq> CHR '',''" s] by simp
qed simp

declare csv_items.simps [simp del]

lemma find_last_idx_append:
  "find_last_idx P ys = Some j \<Longrightarrow> find_last_idx P (xs @ ys) = Some (length xs + j)"
  by (force simp: find_last_idx_def find_idx_append dest: find_idx_SomeD)

lemma trim_by_Nil_iff: "trim_by P s = [] \<longleftrightarrow> (\<forall>x \<in> set s. P x)"
proof
  assume "trim_by P s = []"
  then have "dropWhile P (rev (dropWhile P s)) = []" by (simp add: trim_by_def)
  then have "\<forall>x \<in> set (dropWhile P s). P x" by simp
  moreover have "x \<in> set (takeWhile P s) \<union> set (dropWhile P s)" if "x \<in> set s" for x
    using that by (metis UnI1 UnI2 set_append takeWhile_dropWhile_id Un_iff)
  ultimately show "\<forall>x \<in> set s. P x" by (metis UnE set_takeWhileD)
next
  assume "\<forall>x \<in> set s. P x"
  then show "trim_by P s = []" by (auto simp: trim_by_def dest: set_dropWhileD)
qed

lemma trim_found:
  assumes "trim_by P s \<noteq> []"
  obtains a b where "find_idx (\<lambda>c. \<not> P c) s = Some a" "find_last_idx (\<lambda>c. \<not> P c) s = Some b" "a \<le> b" "b < length s"
    "trim_by P s = substr s a (b + 1 - a)"
proof -
  have t: "trim_find P s \<noteq> []" using assms by (simp add: trim_find_eq)
  then obtain a b where ab: "find_idx (\<lambda>c. \<not> P c) s = Some a" "find_last_idx (\<lambda>c. \<not> P c) s = Some b"
    by (auto simp: trim_find_def split: option.split_asm)
  with t have e: "trim_find P s = substr s a (b + 1 - a)" by (simp add: trim_find_def)
  with t have "a \<le> b" by (cases "a \<le> b") (auto simp: substr_def)
  moreover have "b < length s" using ab(2) by (force simp: find_last_idx_def dest: find_idx_SomeD)
  ultimately show thesis using that ab e by (simp add: trim_find_eq)
qed

lemma find_from_char:
  "find_from (\<lambda>c. c = d) v start =
     (case dropWhile (\<lambda>c. c \<noteq> d) (drop start v) of [] \<Rightarrow> None
      | _ # _ \<Rightarrow> Some (start + length (takeWhile (\<lambda>c. c \<noteq> d) (drop start v))))"
proof -
  define seg rest where "seg = takeWhile (\<lambda>c. c \<noteq> d) (drop start v)" and "rest = dropWhile (\<lambda>c. c \<noteq> d) (drop start v)"
  have t: "drop start v = seg @ rest" by (simp add: seg_def rest_def)
  have nc: "\<And>c. c \<in> set seg \<Longrightarrow> c \<noteq> d" by (auto simp: seg_def dest: set_takeWhileD)
  show ?thesis
  proof (cases rest)
    case Nil
    with nc have "find_idx (\<lambda>c. c = d) (drop start v) = None" unfolding t by (auto simp: find_idx_None_iff)
    with Nil show ?thesis by (simp add: find_from_def flip: rest_def)
  next
    case (Cons x r)
    then have "rest \<noteq> []" "hd rest = x" by simp_all
    then have "x = d" unfolding rest_def using hd_dropWhile by fast
    with Cons nc have "find_idx (\<lambda>c. c = d) (drop start v) = Some (length seg)" unfolding t by (simp add: find_idx_first)
    with Cons show ?thesis by (simp add: find_from_def flip: rest_def seg_def)
  qed
qed

lemma split_csv_from_eq: "start \<le> length v \<Longrightarrow> split_csv_from v start = csv_items (drop start v)"
proof (induction "length v - start" arbitrary: start rule: less_induct)
  case less
  let ?t = "drop start v"
  let ?comma = "\<lambda>c. c = CHR '',''"
  define seg where "seg = takeWhile (\<lambda>c. c \<noteq> CHR '','') ?t"
  define rest where "rest = dropWhile (\<lambda>c. c \<noteq> CHR '','') ?t"
  define stop where "stop = start + length seg"
  have t: "?t = seg @ rest" by (simp add: seg_def rest_def)
  have v: "v = take start v @ seg @ rest" by (metis append_take_drop_id t)
  have len: "length (take start v) = start" using less.prems by simp
  have seg: "take stop v = take start v @ seg"
    by (subst v) (use less.prems in \<open>simp add: stop_def len del: append_take_drop_id\<close>)
  have comma: "find_from ?comma v start = (case rest of [] \<Rightarrow> None | _ # _ \<Rightarrow> Some stop)"
    unfolding find_from_char rest_def stop_def seg_def by (rule refl)
  have stop: "(case find_from ?comma v start of None \<Rightarrow> length v | Some k \<Rightarrow> k) = stop"
  proof (cases rest)
    case Nil
    then have "length ?t = length seg" using t by simp
    then have "length v = stop" using less.prems by (simp add: stop_def)
    with comma Nil show ?thesis by simp
  qed (simp add: comma)
  have item: "(case find_from (\<lambda>c. \<not> is_ows c) v start of None \<Rightarrow> []
      | Some a \<Rightarrow> if a < stop then
           (case find_last_idx (\<lambda>c. \<not> is_ows c) (take stop v) of None \<Rightarrow> []
            | Some b \<Rightarrow> if b \<ge> a then [substr v a (b + 1 - a)] else [])
         else []) = (if trim_by is_ows seg = [] then [] else [trim_by is_ows seg])"
  proof (cases "trim_by is_ows seg = []")
    case True
    then have "find_idx (\<lambda>c. \<not> is_ows c) seg = None" by (simp add: trim_by_Nil_iff find_idx_None_iff)
    then have "find_from (\<lambda>c. \<not> is_ows c) v start = Some a \<Longrightarrow> stop \<le> a" for a
      by (auto simp: find_from_def t find_idx_append stop_def)
    with True show ?thesis by (auto split: option.split)
  next
    case False
    then obtain a b where ab: "find_idx (\<lambda>c. \<not> is_ows c) seg = Some a" "find_last_idx (\<lambda>c. \<not> is_ows c) seg = Some b"
        "a \<le> b" "b < length seg" "trim_by is_ows seg = substr seg a (b + 1 - a)" by (rule trim_found)
    have "find_from (\<lambda>c. \<not> is_ows c) v start = Some (start + a)" using ab(1) by (simp add: find_from_def t find_idx_append)
    moreover have "find_last_idx (\<lambda>c. \<not> is_ows c) (take stop v) = Some (start + b)"
      using find_last_idx_append [OF ab(2), of "take start v"] by (simp only: seg len)
    moreover have "substr v (start + a) (start + b + 1 - (start + a)) = substr seg a (b + 1 - a)"
    proof -
      have "drop (start + a) v = drop a (seg @ rest)" by (metis add.commute drop_drop t)
      then show ?thesis using ab(3,4) by (simp add: substr_def)
    qed
    moreover have "start + a < stop" using ab(3,4) by (simp add: stop_def)
    ultimately show ?thesis using False ab(3,5) by simp
  qed
  have rec: "(case find_from ?comma v start of None \<Rightarrow> [] | Some k \<Rightarrow> split_csv_from v (k + 1)) =
      (case rest of [] \<Rightarrow> [] | _ # r \<Rightarrow> csv_items r)"
  proof (cases rest)
    case (Cons x r)
    have l: "length v = start + length seg + length rest" by (subst v) (use less.prems in simp)
    have "drop (stop + 1) v = r" by (subst v) (use less.prems in \<open>simp add: Cons stop_def\<close>)
    moreover have "split_csv_from v (stop + 1) = csv_items (drop (stop + 1) v)"
      using l Cons less.prems by (intro less.hyps) (simp_all add: stop_def)
    ultimately show ?thesis using Cons comma by simp
  qed (simp add: comma)
  show ?case
    using less.prems by (subst split_csv_from.simps, subst csv_items.simps)
      (simp only: Let_def stop item rec if_True flip: seg_def rest_def)
qed

definition csv_ok :: "string list \<Rightarrow> bool" where
  "csv_ok vs \<longleftrightarrow> list_all (\<lambda>v. v \<noteq> [] \<and> CHR '','' \<notin> set v \<and> trim_by is_ows v = v) vs"

lemma csv_items_ok: "csv_ok (csv_items s)"
proof (induction s rule: csv_items.induct)
  case (1 s)
  have "CHR '','' \<notin> set (trim_by is_ows (takeWhile (\<lambda>c. c \<noteq> CHR '','') s))"
    using set_trim_by set_takeWhileD by fastforce
  then show ?case using 1
    by (subst csv_items.simps) (auto simp: csv_ok_def Let_def split: list.split)
qed

lemma csv_items_join: "csv_ok vs \<Longrightarrow> csv_items (join_csv vs) = vs"
proof (induction vs rule: join_csv.induct)
  case 1
  then show ?case by (subst csv_items.simps) (simp add: trim_by_def)
next
  case (2 v)
  then have "takeWhile (\<lambda>c. c \<noteq> CHR '','') v = v" "dropWhile (\<lambda>c. c \<noteq> CHR '','') v = []"
    by (auto simp: csv_ok_def takeWhile_eq_all_conv)
  with 2 show ?case by (subst csv_items.simps) (simp add: csv_ok_def Let_def del: takeWhile_eq_all_conv dropWhile_eq_Nil_conv)
next
  case (3 v w vs)
  then have "\<forall>c \<in> set v. c \<noteq> CHR '',''" by (auto simp: csv_ok_def)
  then have "takeWhile (\<lambda>c. c \<noteq> CHR '','') (v @ '','' @ r) = v" "dropWhile (\<lambda>c. c \<noteq> CHR '','') (v @ '','' @ r) = CHR '','' # r" for r
    by (simp_all add: takeWhile_append2 dropWhile_append2)
  with 3 show ?case by (subst csv_items.simps) (simp add: csv_ok_def)
qed

text \<open>Splitting inverts joining on trimmed, non-empty, comma-free items, and yields only such items.\<close>

lemma split_csv_eq: "split_csv v = csv_items v"
  by (simp add: split_csv_def split_csv_from_eq)

lemma split_join_csv [simp]: "csv_ok vs \<Longrightarrow> split_csv (join_csv vs) = vs"
  by (simp add: split_csv_eq csv_items_join)

lemma split_csv_ok [simp]: "csv_ok (split_csv v)"
  by (simp add: split_csv_eq csv_items_ok)

subsection \<open>Reading back a rendered file\<close>

definition render_line :: "string \<times> string \<Rightarrow> string" where
  "render_line kv = fst kv @ '' = '' @ snd kv"

definition render_settings :: "(string \<times> string) list \<Rightarrow> string" where
  "render_settings kvs = concat (map (\<lambda>kv. render_line kv @ [LF]) kvs)"

definition setting_ok :: "string \<times> string \<Rightarrow> bool" where
  "setting_ok kv \<longleftrightarrow>
     fst kv \<noteq> [] \<and> hd (fst kv) \<noteq> CHR ''#'' \<and> CHR ''='' \<notin> set (fst kv) \<and> LF \<notin> set (fst kv) \<and>
     LF \<notin> set (snd kv) \<and> trim_by is_lws (fst kv) = fst kv \<and> trim_by is_lws (snd kv) = snd kv"

lemma trim_by_snoc: "P x \<Longrightarrow> trim_by P (s @ [x]) = trim_by P s"
proof (cases "\<forall>y \<in> set s. P y")
  case True
  assume "P x"
  with True have "trim_by P (s @ [x]) = []" "trim_by P s = []" by (auto simp: trim_by_Nil_iff)
  then show ?thesis by simp
next
  case False
  assume "P x"
  from False obtain y where "y \<in> set s" "\<not> P y" by blast
  then have "dropWhile P (s @ [x]) = dropWhile P s @ [x]" by (rule dropWhile_append1)
  with \<open>P x\<close> show ?thesis by (simp add: trim_by_def)
qed

lemma trim_by_Nil [simp]: "trim_by P [] = []"
  by (simp add: trim_by_def)

lemma trim_by_Cons: "P x \<Longrightarrow> trim_by P (x # s) = trim_by P s"
  by (simp add: trim_by_def)

lemma trim_by_hd: "trim_by P s = s \<Longrightarrow> s \<noteq> [] \<Longrightarrow> \<not> P (hd s) \<and> \<not> P (last s)"
  using trim_by_ends [of P s] by auto

lemma parse_line_render:
  assumes "setting_ok (k, v)"
  shows "parse_line (render_line (k, v)) vals = vals(k \<mapsto> v)"
proof -
  have k: "k \<noteq> []" "hd k \<noteq> CHR ''#''" "CHR ''='' \<notin> set k" "trim_by is_lws k = k" "trim_by is_lws v = v"
    using assms by (simp_all add: setting_ok_def)
  have ws: "is_lws (CHR '' '')" "\<not> is_lws (CHR ''='')" by (simp_all add: is_lws_def)
  define tail where "tail = (if v = [] then [] else CHR '' '' # v)"
  have t: "conf_trim (render_line (k, v)) = k @ CHR '' '' # CHR ''='' # tail"
  proof (cases "v = []")
    case True
    have "trim_by is_lws (k @ '' = '') = trim_by is_lws (k @ '' ='')"
      using trim_by_snoc [of is_lws "CHR '' ''" "k @ '' =''"] ws by simp
    also have "\<dots> = k @ '' =''" using trim_by_hd [OF k(4,1)] k(1) ws by (intro trim_by_id) auto
    finally show ?thesis using True by (simp add: conf_trim_def trim_find_eq render_line_def tail_def)
  next
    case False
    have "trim_by is_lws (k @ '' = '' @ v) = k @ '' = '' @ v"
      using trim_by_hd [OF k(4,1)] trim_by_hd [OF k(5) False] k(1) False by (intro trim_by_id) auto
    then show ?thesis using False by (simp add: conf_trim_def trim_find_eq render_line_def tail_def)
  qed
  have pos: "find_char (CHR ''='') (k @ CHR '' '' # CHR ''='' # tail) = Some (length k + 1)"
    using find_char_first [of "CHR ''=''" "k @ '' ''" tail] k(3) by simp
  have kk: "conf_trim (k @ '' '') = k" using trim_by_snoc [of is_lws "CHR '' ''" k] ws k(4) by (simp add: conf_trim_def trim_find_eq)
  have vv: "conf_trim tail = v" using trim_by_Cons [of is_lws "CHR '' ''" v] ws k(5) by (simp add: conf_trim_def trim_find_eq tail_def)
  have hd: "(k @ CHR '' '' # CHR ''='' # tail) ! 0 \<noteq> CHR ''#''" using k(1,2) by (cases k) auto
  show ?thesis
    using hd k(1) unfolding parse_line_def t Let_def pos by (simp add: kk vv)
qed

lemma file_lines_render:
  assumes "LF \<notin> set line"
  shows "file_lines (line @ LF # r) = line # file_lines r"
proof -
  have "\<forall>c \<in> set line. c \<noteq> LF" using assms by auto
  then have "takeWhile (\<lambda>c. c \<noteq> LF) (line @ LF # r) = line" "dropWhile (\<lambda>c. c \<noteq> LF) (line @ LF # r) = LF # r"
    by (simp_all add: takeWhile_append2 dropWhile_append2)
  then show ?thesis by (subst file_lines.simps) simp
qed

lemma parse_render_fold:
  "list_all setting_ok kvs \<Longrightarrow>
     fold parse_line (file_lines (render_settings kvs)) vals = fold (\<lambda>kv vals. vals(fst kv \<mapsto> snd kv)) kvs vals"
proof (induction kvs arbitrary: vals)
  case Nil
  then show ?case by (simp add: render_settings_def file_lines.simps)
next
  case (Cons kv kvs)
  obtain k v where kv: "kv = (k, v)" by (cases kv)
  have "file_lines (render_settings (kv # kvs)) = render_line kv # file_lines (render_settings kvs)"
    using Cons.prems file_lines_render [of "render_line kv" "render_settings kvs"]
    by (simp add: render_settings_def render_line_def setting_ok_def)
  with Cons parse_line_render [of k v] show ?case by (simp add: kv del: fun_upd_apply)
qed

text \<open>
  A file of \<open>key = value\<close> lines is read back exactly, empty values and values
  with an equals sign included; a key that occurs twice keeps its last value.
\<close>

theorem settings_roundtrip:
  assumes "list_all setting_ok kvs"
  shows "parse_text (render_settings kvs) = map_of (rev kvs)"
proof -
  have "fold (\<lambda>kv vals. vals(fst kv \<mapsto> snd kv)) kvs vals = vals ++ map_of (rev kvs)" for vals
    by (induction kvs arbitrary: vals) (auto simp: map_add_def fun_eq_iff split: option.split)
  then show ?thesis using parse_render_fold [OF assms, of "\<lambda>_. None"]
    by (simp add: parse_text_def map_add_def fun_eq_iff split: option.split)
qed

theorem settings_roundtrip_witness:
  "parse_text (render_settings [(''host'', ''a=b''), (''x'', []), (''host'', ''c d'')]) =
     map_of (rev [(''host'', ''a=b''), (''x'', []), (''host'', ''c d'')])"
proof (rule settings_roundtrip)
  show "list_all setting_ok [(''host'', ''a=b''), (''x'', []), (''host'', ''c d'')]" by code_simp
qed

end
