(* ===== verification/Server_Config.thy ===== *)
theory Server_Config
  imports Config
begin

section \<open>Server settings: \<^verbatim>\<open>server_config.h\<close>, \<^verbatim>\<open>server_config.cpp\<close>\<close>

text \<open>
  The settings object, its default values, the overlay of a parsed file and the
  validation.  \<open>load_from_parser\<close> mutates the object and may throw half-way; every
  caller drops an object whose load threw, so the model returns \<^const>\<open>Inl\<close> with
  the message.  \<open>config_ok\<close> states what a loaded object satisfies.
\<close>

subsection \<open>The settings\<close>

record ServerConfig =
  cfg_header_timeout_ms :: "64 word"
  cfg_body_timeout_ms :: "64 word"
  cfg_keep_alive_timeout_ms :: "64 word"
  cfg_write_timeout_ms :: "64 word"
  cfg_max_connections :: "32 word"
  cfg_max_buffer_size :: "32 word"
  cfg_max_request_body :: "32 word"
  cfg_host :: string
  cfg_port :: "16 word"
  cfg_workers :: "32 word"
  cfg_document_root :: string
  cfg_tls_enabled :: bool
  cfg_tls_cert_file :: string
  cfg_tls_key_file :: string
  cfg_tls_min_version :: string
  cfg_tls_max_version :: string
  cfg_tls_port :: "16 word"
  cfg_proxy_enabled :: bool
  cfg_proxy_pass :: string
  cfg_proxy_prefix :: string
  cfg_proxy_strip_prefix :: bool
  cfg_proxy_connect_timeout_ms :: "64 word"
  cfg_proxy_read_timeout_ms :: "64 word"
  cfg_proxy_max_idle :: "32 word"
  cfg_proxy_max_response :: "32 word"
  cfg_proxy_idle_timeout_ms :: "64 word"
  cfg_ws_enabled :: bool
  cfg_ws_paths :: "string list"
  cfg_ws_max_message :: "32 word"
  cfg_ws_close_timeout_ms :: "64 word"
  cfg_ws_ping_interval_ms :: "64 word"
  cfg_ws_origins :: "string list"
  cfg_log_level :: string
  cfg_admin_enabled :: bool
  cfg_admin_token :: string

text \<open>The constructor with explicit limits; the default constructor fixes them.\<close>

definition config_with_limits ::
  "64 word \<Rightarrow> 64 word \<Rightarrow> 64 word \<Rightarrow> 64 word \<Rightarrow> 32 word \<Rightarrow> 32 word \<Rightarrow> 32 word \<Rightarrow> ServerConfig" where
  "config_with_limits header body keep_alive write conns buf req =
     \<lparr>cfg_header_timeout_ms = header, cfg_body_timeout_ms = body, cfg_keep_alive_timeout_ms = keep_alive,
      cfg_write_timeout_ms = write, cfg_max_connections = conns, cfg_max_buffer_size = buf,
      cfg_max_request_body = req, cfg_host = ''127.0.0.1'', cfg_port = 8080, cfg_workers = 4,
      cfg_document_root = ''./public'', cfg_tls_enabled = False, cfg_tls_cert_file = [],
      cfg_tls_key_file = [], cfg_tls_min_version = [], cfg_tls_max_version = [], cfg_tls_port = 443,
      cfg_proxy_enabled = False, cfg_proxy_pass = [], cfg_proxy_prefix = ''/proxy'',
      cfg_proxy_strip_prefix = True, cfg_proxy_connect_timeout_ms = 5000,
      cfg_proxy_read_timeout_ms = 30000, cfg_proxy_max_idle = 4,
      cfg_proxy_max_response = 4 * 1024 * 1024, cfg_proxy_idle_timeout_ms = 60000,
      cfg_ws_enabled = False, cfg_ws_paths = [''/ws''], cfg_ws_max_message = 1024 * 1024,
      cfg_ws_close_timeout_ms = 5000, cfg_ws_ping_interval_ms = 0, cfg_ws_origins = [],
      cfg_log_level = ''info'', cfg_admin_enabled = False, cfg_admin_token = []\<rparr>"

definition config_default :: ServerConfig where
  "config_default = config_with_limits 10000 30000 5000 30000 1000 65536 10485760"

definition is_buffer_size_valid :: "32 word \<Rightarrow> ServerConfig \<Rightarrow> bool" where
  "is_buffer_size_valid n c \<longleftrightarrow> n \<le> cfg_max_buffer_size c"

definition is_request_body_valid :: "32 word \<Rightarrow> ServerConfig \<Rightarrow> bool" where
  "is_request_body_valid n c \<longleftrightarrow> n \<le> cfg_max_request_body c"

definition is_connection_count_valid :: "32 word \<Rightarrow> ServerConfig \<Rightarrow> bool" where
  "is_connection_count_valid n c \<longleftrightarrow> n \<le> cfg_max_connections c"

subsection \<open>Loading\<close>

text \<open>
  The three casts of the loader: the current value goes to \<^verbatim>\<open>int64_t\<close> as the
  fallback, and the number read comes back reduced to the width of the field.
\<close>

definition load_u64 :: "Values \<Rightarrow> string \<Rightarrow> 64 word \<Rightarrow> 64 word" where
  "load_u64 vals key cur = word_of_int (get_int vals key (sint cur))"

definition load_u32 :: "Values \<Rightarrow> string \<Rightarrow> 32 word \<Rightarrow> 32 word" where
  "load_u32 vals key cur = word_of_int (get_int vals key (uint cur))"

definition load_u16 :: "Values \<Rightarrow> string \<Rightarrow> 16 word \<Rightarrow> 16 word" where
  "load_u16 vals key cur = word_of_int (get_int vals key (uint cur))"

definition load_core :: "Values \<Rightarrow> ServerConfig \<Rightarrow> ServerConfig" where
  "load_core vals c = c\<lparr>
     cfg_host := get_string vals ''host'' (cfg_host c),
     cfg_port := load_u16 vals ''port'' (cfg_port c),
     cfg_workers := load_u32 vals ''workers'' (cfg_workers c),
     cfg_document_root := get_string vals ''document_root'' (cfg_document_root c),
     cfg_header_timeout_ms := load_u64 vals ''header_timeout_ms'' (cfg_header_timeout_ms c),
     cfg_body_timeout_ms := load_u64 vals ''body_timeout_ms'' (cfg_body_timeout_ms c),
     cfg_keep_alive_timeout_ms := load_u64 vals ''keep_alive_timeout_ms'' (cfg_keep_alive_timeout_ms c),
     cfg_write_timeout_ms := load_u64 vals ''write_timeout_ms'' (cfg_write_timeout_ms c),
     cfg_max_connections := load_u32 vals ''max_connections'' (cfg_max_connections c),
     cfg_max_buffer_size := load_u32 vals ''max_buffer_size'' (cfg_max_buffer_size c),
     cfg_max_request_body := load_u32 vals ''max_request_body'' (cfg_max_request_body c)\<rparr>"

definition load_tls :: "Values \<Rightarrow> ServerConfig \<Rightarrow> ServerConfig" where
  "load_tls vals c = c\<lparr>
     cfg_tls_enabled := get_bool vals ''tls_enabled'' (cfg_tls_enabled c),
     cfg_tls_cert_file := get_string vals ''tls_cert_file'' (cfg_tls_cert_file c),
     cfg_tls_key_file := get_string vals ''tls_key_file'' (cfg_tls_key_file c),
     cfg_tls_min_version := get_string vals ''tls_min_version'' (cfg_tls_min_version c),
     cfg_tls_max_version := get_string vals ''tls_max_version'' (cfg_tls_max_version c),
     cfg_tls_port := load_u16 vals ''tls_port'' (cfg_tls_port c)\<rparr>"

definition load_features :: "Values \<Rightarrow> ServerConfig \<Rightarrow> ServerConfig" where
  "load_features vals c = c\<lparr>
     cfg_proxy_enabled := get_bool vals ''proxy_enabled'' (cfg_proxy_enabled c),
     cfg_proxy_pass := get_string vals ''proxy_pass'' (cfg_proxy_pass c),
     cfg_proxy_prefix := get_string vals ''proxy_prefix'' (cfg_proxy_prefix c),
     cfg_proxy_strip_prefix := get_bool vals ''proxy_strip_prefix'' (cfg_proxy_strip_prefix c),
     cfg_proxy_connect_timeout_ms := load_u64 vals ''proxy_connect_timeout_ms'' (cfg_proxy_connect_timeout_ms c),
     cfg_proxy_read_timeout_ms := load_u64 vals ''proxy_read_timeout_ms'' (cfg_proxy_read_timeout_ms c),
     cfg_proxy_max_idle := load_u32 vals ''proxy_max_idle_connections'' (cfg_proxy_max_idle c),
     cfg_proxy_max_response := load_u32 vals ''proxy_max_response_bytes'' (cfg_proxy_max_response c),
     cfg_proxy_idle_timeout_ms := load_u64 vals ''proxy_idle_timeout_ms'' (cfg_proxy_idle_timeout_ms c),
     cfg_ws_enabled := get_bool vals ''websocket_enabled'' (cfg_ws_enabled c),
     cfg_ws_paths := split_csv (get_string vals ''websocket_paths'' (join_csv (cfg_ws_paths c))),
     cfg_ws_max_message := load_u32 vals ''websocket_max_message_bytes'' (cfg_ws_max_message c),
     cfg_ws_close_timeout_ms := load_u64 vals ''websocket_close_timeout_ms'' (cfg_ws_close_timeout_ms c),
     cfg_ws_ping_interval_ms := load_u64 vals ''websocket_ping_interval_ms'' (cfg_ws_ping_interval_ms c),
     cfg_ws_origins := split_csv (get_string vals ''websocket_allowed_origins'' (join_csv (cfg_ws_origins c))),
     cfg_log_level := get_string vals ''log_level'' (cfg_log_level c),
     cfg_admin_enabled := get_bool vals ''admin_api_enabled'' (cfg_admin_enabled c),
     cfg_admin_token := get_string vals ''admin_token'' (cfg_admin_token c)\<rparr>"

text \<open>A run of checks, each of which throws its message when its condition holds.\<close>

fun first_error :: "(bool \<times> string) list \<Rightarrow> string option" where
  "first_error [] = None"
| "first_error ((bad, msg) # r) = (if bad then Some msg else first_error r)"

definition tls_checks :: "ServerConfig \<Rightarrow> (bool \<times> string) list" where
  "tls_checks c =
     [(cfg_tls_enabled c \<and> cfg_tls_cert_file c = [], ''TLS enabled but tls_cert_file not specified''),
      (cfg_tls_enabled c \<and> cfg_tls_key_file c = [], ''TLS enabled but tls_key_file not specified''),
      (cfg_tls_enabled c \<and> cfg_tls_port c = 0, ''Invalid tls_port: must be positive'')]"

definition absolute_path :: "string \<Rightarrow> bool" where
  "absolute_path p \<longleftrightarrow> \<not> (p = [] \<or> p ! 0 \<noteq> CHR ''/'')"

definition final_checks :: "ServerConfig \<Rightarrow> (bool \<times> string) list" where
  "final_checks c =
     [(cfg_proxy_enabled c \<and> cfg_proxy_pass c = [], ''Proxy enabled but proxy_pass not specified''),
      (cfg_proxy_enabled c \<and> \<not> absolute_path (cfg_proxy_prefix c),
         ''proxy_prefix must be an absolute path (e.g. /proxy)''),
      (cfg_ws_enabled c \<and> cfg_ws_paths c = [], ''WebSocket enabled but websocket_paths is empty''),
      (cfg_ws_enabled c \<and> \<not> list_all absolute_path (cfg_ws_paths c),
         ''websocket_paths entries must be absolute paths (e.g. /ws)''),
      (cfg_ws_enabled c \<and> cfg_ws_max_message c = 0, ''Invalid websocket_max_message_bytes: must be positive''),
      (cfg_ws_enabled c \<and> cfg_ws_close_timeout_ms c = 0, ''Invalid websocket_close_timeout_ms: must be positive''),
      (cfg_port c = 0, ''Invalid port: '' @ to_string (unat (cfg_port c))),
      (cfg_workers c = 0, ''Invalid workers: must be at least 1''),
      (cfg_header_timeout_ms c = 0, ''Invalid header_timeout_ms: must be positive''),
      (cfg_body_timeout_ms c = 0, ''Invalid body_timeout_ms: must be positive''),
      (cfg_keep_alive_timeout_ms c = 0, ''Invalid keep_alive_timeout_ms: must be positive''),
      (cfg_write_timeout_ms c = 0, ''Invalid write_timeout_ms: must be positive''),
      (cfg_max_connections c = 0, ''Invalid max_connections: must be at least 1''),
      (cfg_max_buffer_size c = 0, ''Invalid max_buffer_size: must be positive''),
      (cfg_max_request_body c = 0, ''Invalid max_request_body: must be positive'')]"

definition load_from_parser :: "bool \<Rightarrow> Values \<Rightarrow> ServerConfig \<Rightarrow> string + ServerConfig" where
  "load_from_parser tls vals c =
     (let c = load_core vals c;
          c = (if tls then load_tls vals c else c)
      in case first_error (if tls then tls_checks c else []) of
        Some e \<Rightarrow> Inl e
      | None \<Rightarrow>
          let c = load_features vals c in
          case level_from_string (cfg_log_level c) of
            None \<Rightarrow> Inl (''Invalid log_level: '' @ [CHR 0x27] @ cfg_log_level c @ [CHR 0x27] @
                        '' (expected debug, info, warn or error)'')
          | Some parsed \<Rightarrow>
              let c = c\<lparr>cfg_log_level := level_to_string parsed\<rparr> in
              case first_error (final_checks c) of Some e \<Rightarrow> Inl e | None \<Rightarrow> Inr c)"

subsection \<open>Rendering\<close>

definition yes_no :: "bool \<Rightarrow> string" where
  "yes_no b = (if b then ''yes'' else ''no'')"

definition setting :: "string \<Rightarrow> string \<Rightarrow> string" where
  "setting name v = ''  '' @ name @ '': '' @ v @ [LF]"

fun join_with :: "string \<Rightarrow> string list \<Rightarrow> string" where
  "join_with sep [] = []"
| "join_with sep [v] = v"
| "join_with sep (v # w # vs) = v @ sep @ join_with sep (w # vs)"

definition summary :: "bool \<Rightarrow> ServerConfig \<Rightarrow> string" where
  "summary tls c =
     ''Server Configuration:'' @ [LF] @
     setting ''Host'' (cfg_host c) @
     setting ''Port'' (to_string (unat (cfg_port c))) @
     setting ''Workers'' (to_string (unat (cfg_workers c))) @
     setting ''Document root'' (cfg_document_root c) @
     setting ''Log level'' (cfg_log_level c) @
     setting ''Admin API'' (if cfg_admin_enabled c then ''enabled'' else ''disabled'') @
     setting ''Header timeout'' (to_string (unat (cfg_header_timeout_ms c)) @ '' ms'') @
     setting ''Body timeout'' (to_string (unat (cfg_body_timeout_ms c)) @ '' ms'') @
     setting ''Keep-alive timeout'' (to_string (unat (cfg_keep_alive_timeout_ms c)) @ '' ms'') @
     setting ''Write timeout'' (to_string (unat (cfg_write_timeout_ms c)) @ '' ms'') @
     setting ''Max connections'' (to_string (unat (cfg_max_connections c))) @
     setting ''Max buffer size'' (to_string (unat (cfg_max_buffer_size c)) @ '' bytes ('' @
       to_string (unat (cfg_max_buffer_size c) div 1024) @ '' KB)'') @
     setting ''Max request body'' (to_string (unat (cfg_max_request_body c)) @ '' bytes ('' @
       to_string (unat (cfg_max_request_body c) div 1024 div 1024) @ '' MB)'') @
     (if tls then
        setting ''TLS enabled'' (yes_no (cfg_tls_enabled c)) @
        (if cfg_tls_enabled c then
           setting ''TLS certificate'' (cfg_tls_cert_file c) @
           setting ''TLS private key'' (cfg_tls_key_file c) @
           (if cfg_tls_min_version c \<noteq> [] then setting ''TLS min version'' (cfg_tls_min_version c) else []) @
           (if cfg_tls_max_version c \<noteq> [] then setting ''TLS max version'' (cfg_tls_max_version c) else []) @
           setting ''TLS port'' (to_string (unat (cfg_tls_port c)))
         else [])
      else []) @
     setting ''Proxy enabled'' (yes_no (cfg_proxy_enabled c)) @
     (if cfg_proxy_enabled c then
        setting ''Proxy pass'' (cfg_proxy_pass c) @
        setting ''Proxy prefix'' (cfg_proxy_prefix c @
          (if cfg_proxy_strip_prefix c then '' (prefix stripped)'' else '' (prefix preserved)'')) @
        setting ''Proxy connect timeout'' (to_string (unat (cfg_proxy_connect_timeout_ms c)) @ '' ms'') @
        setting ''Proxy read timeout'' (to_string (unat (cfg_proxy_read_timeout_ms c)) @ '' ms'') @
        setting ''Proxy max idle connections'' (to_string (unat (cfg_proxy_max_idle c))) @
        setting ''Proxy max response'' (to_string (unat (cfg_proxy_max_response c)) @ '' bytes'')
      else []) @
     setting ''WebSocket enabled'' (yes_no (cfg_ws_enabled c)) @
     (if cfg_ws_enabled c then
        setting ''WebSocket paths'' (join_with '', '' (cfg_ws_paths c)) @
        setting ''WebSocket max message'' (to_string (unat (cfg_ws_max_message c)) @ '' bytes'') @
        setting ''WebSocket close timeout'' (to_string (unat (cfg_ws_close_timeout_ms c)) @ '' ms'') @
        setting ''WebSocket ping interval'' (to_string (unat (cfg_ws_ping_interval_ms c)) @ '' ms'') @
        setting ''WebSocket allowed origins'' (if cfg_ws_origins c = [] then ''(any)''
          else to_string (length (cfg_ws_origins c)))
      else [])"

subsection \<open>What a loaded configuration satisfies\<close>

definition config_ok :: "bool \<Rightarrow> ServerConfig \<Rightarrow> bool" where
  "config_ok tls c \<longleftrightarrow>
     cfg_port c \<noteq> 0 \<and> cfg_workers c \<noteq> 0 \<and> cfg_header_timeout_ms c \<noteq> 0 \<and> cfg_body_timeout_ms c \<noteq> 0 \<and>
     cfg_keep_alive_timeout_ms c \<noteq> 0 \<and> cfg_write_timeout_ms c \<noteq> 0 \<and> cfg_max_connections c \<noteq> 0 \<and>
     cfg_max_buffer_size c \<noteq> 0 \<and> cfg_max_request_body c \<noteq> 0 \<and>
     cfg_log_level c \<in> {''debug'', ''info'', ''warn'', ''error''} \<and>
     csv_ok (cfg_ws_paths c) \<and> csv_ok (cfg_ws_origins c) \<and>
     (tls \<and> cfg_tls_enabled c \<longrightarrow> cfg_tls_cert_file c \<noteq> [] \<and> cfg_tls_key_file c \<noteq> [] \<and> cfg_tls_port c \<noteq> 0) \<and>
     (cfg_proxy_enabled c \<longrightarrow> cfg_proxy_pass c \<noteq> [] \<and> absolute_path (cfg_proxy_prefix c)) \<and>
     (cfg_ws_enabled c \<longrightarrow> cfg_ws_paths c \<noteq> [] \<and> list_all absolute_path (cfg_ws_paths c) \<and>
        cfg_ws_max_message c \<noteq> 0 \<and> cfg_ws_close_timeout_ms c \<noteq> 0)"

lemma first_error_None: "first_error checks = None \<longleftrightarrow> list_all (\<lambda>(bad, _). \<not> bad) checks"
  by (induction checks rule: first_error.induct) auto

lemma level_to_string_cases: "level_to_string l \<in> {''debug'', ''info'', ''warn'', ''error''}"
  by (cases l) (simp_all add: level_to_string_def)

text \<open>The object before the final checks, and what \<open>load_from_parser\<close> adds to it.\<close>

definition loaded :: "bool \<Rightarrow> Values \<Rightarrow> ServerConfig \<Rightarrow> ServerConfig" where
  "loaded tls vals c = load_features vals (if tls then load_tls vals (load_core vals c) else load_core vals c)"

lemma load_features_keeps:
  "first_error (tls_checks (load_features vals c)) = first_error (tls_checks c)"
  by (simp add: tls_checks_def load_features_def)

lemma load_Inr_iff:
  "load_from_parser tls vals c = Inr c' \<longleftrightarrow>
     (tls \<longrightarrow> first_error (tls_checks (loaded tls vals c)) = None) \<and>
     (\<exists>l. level_from_string (cfg_log_level (loaded tls vals c)) = Some l \<and>
        c' = (loaded tls vals c)\<lparr>cfg_log_level := level_to_string l\<rparr> \<and> first_error (final_checks c') = None)"
  unfolding load_from_parser_def Let_def loaded_def
  by (cases tls) (auto simp: load_features_keeps split: option.split)

lemma loaded_lists: "csv_ok (cfg_ws_paths (loaded tls vals c))" "csv_ok (cfg_ws_origins (loaded tls vals c))"
  by (simp_all add: loaded_def load_features_def)

lemma loaded_config_ok:
  assumes "load_from_parser tls vals c = Inr c'"
  shows "config_ok tls c'"
proof -
  obtain l where l: "tls \<longrightarrow> first_error (tls_checks (loaded tls vals c)) = None"
    "c' = (loaded tls vals c)\<lparr>cfg_log_level := level_to_string l\<rparr>" "first_error (final_checks c') = None"
    using assms by (auto simp: load_Inr_iff)
  have t: "first_error (tls_checks c') = first_error (tls_checks (loaded tls vals c))"
    by (simp add: l(2) tls_checks_def)
  have s: "cfg_log_level c' \<in> {''debug'', ''info'', ''warn'', ''error''}"
    "csv_ok (cfg_ws_paths c')" "csv_ok (cfg_ws_origins c')"
    unfolding l(2) using level_to_string_cases [of l] loaded_lists by simp_all
  have "tls \<longrightarrow> first_error (tls_checks c') = None" using l(1) t by simp
  with l(3) s show ?thesis
    unfolding config_ok_def first_error_None tls_checks_def final_checks_def by auto
qed

lemma load_u_roundtrip [simp]:
  "word_of_int (sint (x :: 64 word)) = x" "word_of_int (uint (y :: 32 word)) = y" "word_of_int (uint (z :: 16 word)) = z"
  by simp_all

lemma load_words_idem [simp]:
  "load_u64 vals key (load_u64 vals key x) = load_u64 vals key x"
  "load_u32 vals key (load_u32 vals key y) = load_u32 vals key y"
  "load_u16 vals key (load_u16 vals key z) = load_u16 vals key z"
  by (auto simp: load_u64_def load_u32_def load_u16_def get_int_def split: option.split)

lemma get_string_idem [simp]: "get_string vals key (get_string vals key s) = get_string vals key s"
  by (simp add: get_string_def split: option.split)

lemma get_bool_idem [simp]: "get_bool vals key (get_bool vals key b) = get_bool vals key b"
  by (auto simp: get_bool_def Let_def split: option.split)

lemma split_csv_idem [simp]:
  "split_csv (get_string vals key (join_csv (split_csv (get_string vals key s)))) = split_csv (get_string vals key s)"
  by (auto simp: get_string_def split: option.split)

lemma loaded_idem:
  "loaded tls vals ((loaded tls vals c)\<lparr>cfg_log_level := s\<rparr>) =
     (loaded tls vals c)\<lparr>cfg_log_level := get_string vals ''log_level'' s\<rparr>"
  by (cases c; cases tls) (simp_all add: loaded_def load_core_def load_tls_def load_features_def)

text \<open>
  Loading a file twice changes nothing the second time: the settings that
  a successful load produces are a fixed point of the same load, lists and the
  canonical log level included.
\<close>

theorem load_idempotent:
  assumes "load_from_parser tls vals c = Inr c'"
  shows "load_from_parser tls vals c' = Inr c'"
proof -
  obtain l where l: "tls \<longrightarrow> first_error (tls_checks (loaded tls vals c)) = None"
    "level_from_string (cfg_log_level (loaded tls vals c)) = Some l"
    "c' = (loaded tls vals c)\<lparr>cfg_log_level := level_to_string l\<rparr>" "first_error (final_checks c') = None"
    using assms by (auto simp: load_Inr_iff)
  let ?s = "get_string vals ''log_level'' (level_to_string l)"
  have again: "loaded tls vals c' = (loaded tls vals c)\<lparr>cfg_log_level := ?s\<rparr>"
    unfolding l(3) by (rule loaded_idem)
  have "cfg_log_level (loaded tls vals c) = get_string vals ''log_level'' (cfg_log_level c)"
    by (cases tls) (simp_all add: loaded_def load_features_def load_tls_def load_core_def)
  with l(2) have s: "level_from_string ?s = Some l"
    by (auto simp: get_string_def split: option.split)
  have t: "first_error (tls_checks (loaded tls vals c')) = first_error (tls_checks (loaded tls vals c))"
    unfolding again tls_checks_def by simp
  have "cfg_log_level (loaded tls vals c') = ?s" unfolding again by simp
  moreover have "c' = (loaded tls vals c')\<lparr>cfg_log_level := level_to_string l\<rparr>" unfolding again by (simp add: l(3))
  ultimately show ?thesis
    unfolding load_Inr_iff t using l(1,4) s by metis
qed

theorem load_idempotent_witness:
  "load_from_parser True (parse_text ''websocket_paths = /a , /b'') (case load_from_parser True (parse_text ''websocket_paths = /a , /b'') config_default of Inr c \<Rightarrow> c) =
   Inr (case load_from_parser True (parse_text ''websocket_paths = /a , /b'') config_default of Inr c \<Rightarrow> c)"
proof -
  have "case load_from_parser True (parse_text ''websocket_paths = /a , /b'') config_default of Inl _ \<Rightarrow> False | Inr _ \<Rightarrow> True" by code_simp
  then obtain c where c: "load_from_parser True (parse_text ''websocket_paths = /a , /b'') config_default = Inr c"
    by (cases "load_from_parser True (parse_text ''websocket_paths = /a , /b'') config_default") simp_all
  from load_idempotent [OF this] show ?thesis unfolding c by simp
qed

text \<open>
  Every configuration that loads is usable: ports, worker and limit values
  are positive, the log level is one of the four names, lists hold trimmed
  non-empty items, and enabled features have what they need (certificate and key,
  upstream and absolute prefix, absolute WebSocket paths and a message limit).
\<close>

theorem load_validates:
  assumes "load_from_parser tls vals c = Inr c'"
  shows "config_ok tls c'"
  by (rule loaded_config_ok [OF assms])

theorem load_validates_witness:
  "config_ok True ((loaded True (parse_text ''port = 9000'') config_default)\<lparr>cfg_log_level := ''info''\<rparr>)"
proof (rule load_validates)
  show "load_from_parser True (parse_text ''port = 9000'') config_default =
     Inr ((loaded True (parse_text ''port = 9000'') config_default)\<lparr>cfg_log_level := ''info''\<rparr>)" by code_simp
qed

subsection \<open>Numbers out of range\<close>

text \<open>
  A port outside 16 bits is not refused but reduced modulo 65536, and the
  validation sees the reduced value: 73616 is accepted and listens on 8080.
\<close>

theorem port_is_reduced:
  assumes "load_from_parser tls vals c = Inr c'" "vals ''port'' = Some s" "stoll s = Some n"
  shows "uint (cfg_port c') = n mod 65536"
proof -
  obtain l where "c' = (loaded tls vals c)\<lparr>cfg_log_level := level_to_string l\<rparr>"
    using assms(1) by (auto simp: load_Inr_iff)
  then have "cfg_port c' = load_u16 vals ''port'' (cfg_port c)"
    by (cases tls) (simp_all add: loaded_def load_features_def load_tls_def load_core_def)
  also have "\<dots> = word_of_int n" using assms(2,3) by (simp add: load_u16_def get_int_def)
  finally show ?thesis by (simp add: uint_word_of_int)
qed

theorem port_is_reduced_witness:
  "uint (cfg_port ((loaded True (parse_text ''port = 73616'') config_default)\<lparr>cfg_log_level := ''info''\<rparr>)) = 73616 mod 65536"
proof (rule port_is_reduced [where s = "''73616''"])
  show "load_from_parser True (parse_text ''port = 73616'') config_default =
     Inr ((loaded True (parse_text ''port = 73616'') config_default)\<lparr>cfg_log_level := ''info''\<rparr>)" by code_simp
  show "parse_text ''port = 73616'' ''port'' = Some ''73616''" by code_simp
  show "stoll ''73616'' = Some 73616" by code_simp
qed

end
