(* ===== verification/Config_Store.thy ===== *)
theory Config_Store
  imports Server_Config
begin

section \<open>Live reload: \<^verbatim>\<open>server_config_store.cpp\<close>\<close>

text \<open>
  The store holds the published configuration, its generation and the reload
  counters.  A reload builds and validates a candidate off to the side and then
  publishes it, or rejects it with a message.  What the file system answers is a
  parameter: \<open>readable\<close> for the TLS files, \<open>read_file\<close> for the configuration.
  Atomics and the mutex make each operation one step, which is how it is
  modelled; the counters do not reach \<open>2 ^ 64\<close>.
\<close>

record ConfigStore =
  st_active :: ServerConfig
  st_generation :: nat
  st_success_count :: nat
  st_failure_count :: nat
  st_source_path :: string
  st_last_error :: string

record ConfigReloadOutcome =
  out_success :: bool
  out_message :: string
  out_generation :: nat
  out_changes :: "string list"
  out_applied_hot :: "string list"
  out_restart_required :: "string list"
  out_snapshot :: "ServerConfig option"

definition store_new :: "ServerConfig \<Rightarrow> string \<Rightarrow> ConfigStore" where
  "store_new initial path =
     \<lparr>st_active = initial, st_generation = 1, st_success_count = 0, st_failure_count = 0,
      st_source_path = path, st_last_error = []\<rparr>"

subsection \<open>Flattening and differences\<close>

definition bool_str :: "bool \<Rightarrow> string" where
  "bool_str b = (if b then ''true'' else ''false'')"

definition masked :: "string \<Rightarrow> string" where
  "masked secret = (if secret = [] then ''(unset)'' else ''(set:'' @ to_string (length secret) @ '')'')"

definition flatten :: "ServerConfig \<Rightarrow> (string \<times> string) list" where
  "flatten c =
     [(''host'', cfg_host c),
      (''port'', to_string (unat (cfg_port c))),
      (''workers'', to_string (unat (cfg_workers c))),
      (''document_root'', cfg_document_root c),
      (''header_timeout_ms'', to_string (unat (cfg_header_timeout_ms c))),
      (''body_timeout_ms'', to_string (unat (cfg_body_timeout_ms c))),
      (''keep_alive_timeout_ms'', to_string (unat (cfg_keep_alive_timeout_ms c))),
      (''write_timeout_ms'', to_string (unat (cfg_write_timeout_ms c))),
      (''max_connections'', to_string (unat (cfg_max_connections c))),
      (''max_buffer_size'', to_string (unat (cfg_max_buffer_size c))),
      (''max_request_body'', to_string (unat (cfg_max_request_body c))),
      (''log_level'', cfg_log_level c),
      (''admin_api_enabled'', bool_str (cfg_admin_enabled c)),
      (''admin_token'', masked (cfg_admin_token c)),
      (''tls_enabled'', bool_str (cfg_tls_enabled c)),
      (''tls_port'', to_string (unat (cfg_tls_port c))),
      (''tls_cert_file'', cfg_tls_cert_file c),
      (''tls_key_file'', cfg_tls_key_file c),
      (''tls_min_version'', cfg_tls_min_version c),
      (''tls_max_version'', cfg_tls_max_version c),
      (''proxy_enabled'', bool_str (cfg_proxy_enabled c)),
      (''proxy_pass'', cfg_proxy_pass c),
      (''proxy_prefix'', cfg_proxy_prefix c),
      (''proxy_strip_prefix'', bool_str (cfg_proxy_strip_prefix c)),
      (''proxy_connect_timeout_ms'', to_string (unat (cfg_proxy_connect_timeout_ms c))),
      (''proxy_read_timeout_ms'', to_string (unat (cfg_proxy_read_timeout_ms c))),
      (''proxy_max_idle_connections'', to_string (unat (cfg_proxy_max_idle c))),
      (''proxy_max_response_bytes'', to_string (unat (cfg_proxy_max_response c))),
      (''proxy_idle_timeout_ms'', to_string (unat (cfg_proxy_idle_timeout_ms c))),
      (''websocket_enabled'', bool_str (cfg_ws_enabled c)),
      (''websocket_paths'', join_with '','' (cfg_ws_paths c)),
      (''websocket_max_message_bytes'', to_string (unat (cfg_ws_max_message c))),
      (''websocket_close_timeout_ms'', to_string (unat (cfg_ws_close_timeout_ms c))),
      (''websocket_ping_interval_ms'', to_string (unat (cfg_ws_ping_interval_ms c))),
      (''websocket_allowed_origins'', join_with '','' (cfg_ws_origins c))]"

text \<open>The positional walk: it stops where the keys differ, and reports differing texts.\<close>

fun diff_walk :: "(string \<times> string) list \<Rightarrow> (string \<times> string) list \<Rightarrow> (string \<times> string) list" where
  "diff_walk ((k, u) # old) ((k', v) # new) =
     (if k \<noteq> k' then []
      else if u \<noteq> v then (k, k @ '': '' @ u @ '' -> '' @ v) # diff_walk old new
      else diff_walk old new)"
| "diff_walk _ _ = []"

definition diff_entries :: "ServerConfig \<Rightarrow> ServerConfig \<Rightarrow> string list \<times> string list" where
  "diff_entries old_config new_config =
     (let changes = diff_walk (flatten old_config) (flatten new_config)
      in (map fst changes, map snd changes))"

definition diff_keys :: "ServerConfig \<Rightarrow> ServerConfig \<Rightarrow> string list" where
  "diff_keys old_config new_config = fst (diff_entries old_config new_config)"

definition is_restart_required :: "string \<Rightarrow> bool" where
  "is_restart_required key \<longleftrightarrow> key \<in> set
     [''host'', ''port'', ''workers'', ''tls_enabled'', ''tls_port'', ''tls_cert_file'', ''tls_key_file'',
      ''tls_min_version'', ''tls_max_version'', ''proxy_enabled'', ''proxy_pass'', ''proxy_prefix'']"

subsection \<open>Reloading\<close>

definition publish :: "ServerConfig \<Rightarrow> string \<Rightarrow> ConfigStore \<Rightarrow> ConfigReloadOutcome \<times> ConfigStore" where
  "publish candidate remember_path st =
     (let (keys, entries) = diff_entries (st_active st) candidate
      in (\<lparr>out_success = True,
           out_message = (if entries \<noteq> [] then '' changed=['' @ join_with '', '' entries @ '']''
                          else ''no values changed''),
           out_generation = st_generation st + 1,
           out_changes = keys,
           out_applied_hot = filter (\<lambda>k. \<not> is_restart_required k) keys,
           out_restart_required = filter is_restart_required keys,
           out_snapshot = Some candidate\<rparr>,
          st\<lparr>st_active := candidate, st_generation := st_generation st + 1,
             st_source_path := (if remember_path \<noteq> [] then remember_path else st_source_path st),
             st_last_error := [], st_success_count := st_success_count st + 1\<rparr>))"

definition reject :: "string \<Rightarrow> string \<Rightarrow> ConfigStore \<Rightarrow> ConfigReloadOutcome \<times> ConfigStore" where
  "reject message err st =
     (\<lparr>out_success = False, out_message = message, out_generation = st_generation st, out_changes = [],
       out_applied_hot = [], out_restart_required = [], out_snapshot = None\<rparr>,
      st\<lparr>st_failure_count := st_failure_count st + 1, st_last_error := err\<rparr>)"

definition candidate_error :: "bool \<Rightarrow> (string \<Rightarrow> bool) \<Rightarrow> ServerConfig \<Rightarrow> string option" where
  "candidate_error tls readable c =
     (if tls \<and> cfg_tls_enabled c \<and> (\<not> readable (cfg_tls_cert_file c) \<or> \<not> readable (cfg_tls_key_file c))
      then Some (''TLS enabled but certificate/key unreadable (cert='' @ [CHR 0x27] @ cfg_tls_cert_file c @
                 [CHR 0x27] @ '' key='' @ [CHR 0x27] @ cfg_tls_key_file c @ [CHR 0x27] @ '')'')
      else None)"

definition try_reload_from_parser ::
  "bool \<Rightarrow> (string \<Rightarrow> bool) \<Rightarrow> Values \<Rightarrow> string \<Rightarrow> string \<Rightarrow> ConfigStore \<Rightarrow> ConfigReloadOutcome \<times> ConfigStore" where
  "try_reload_from_parser tls readable vals label remember_path st =
     (let rejected = (\<lambda>e. reject (''config reload REJECTED ('' @ label @ ''), keeping generation '' @
                       to_string (st_generation st) @ '': '' @ e) e st)
      in case load_from_parser tls vals config_default of
           Inl e \<Rightarrow> rejected e
         | Inr candidate \<Rightarrow>
             (case candidate_error tls readable candidate of
                Some e \<Rightarrow> rejected e
              | None \<Rightarrow> publish candidate remember_path st))"

definition try_reload ::
  "bool \<Rightarrow> (string \<Rightarrow> bool) \<Rightarrow> (string \<Rightarrow> string option) \<Rightarrow> string \<Rightarrow> ConfigStore \<Rightarrow> ConfigReloadOutcome \<times> ConfigStore" where
  "try_reload tls readable read_file path st =
     (let resolved = (if path = [] then st_source_path st else path) in
      if resolved = [] then
        (let m = ''config reload REJECTED: no configuration file path known (start with -c/--config or pass a path)''
         in reject m m st)
      else case read_file resolved of
        None \<Rightarrow>
          (let m = ''config reload REJECTED: cannot open configuration file '' @ [CHR 0x27] @ resolved @
                   [CHR 0x27] @ '', keeping generation '' @ to_string (st_generation st)
           in reject m m st)
      | Some content \<Rightarrow>
          try_reload_from_parser tls readable (parse_text content) (''path='' @ resolved) resolved st)"

definition describe :: "ConfigReloadOutcome \<Rightarrow> string" where
  "describe out =
     (if out_success out then ''applied'' else ''rejected'') @ '' generation='' @ to_string (out_generation out) @
     (if out_changes out \<noteq> [] then '' changed=['' @ join_with '','' (out_changes out) @ '']'' else []) @
     (if out_applied_hot out \<noteq> [] then '' now=['' @ join_with '','' (out_applied_hot out) @ '']'' else []) @
     (if out_restart_required out \<noteq> [] then '' restart=['' @ join_with '','' (out_restart_required out) @ '']'' else []) @
     (if \<not> out_success out \<and> out_message out \<noteq> []
      then '' error='' @ [DQUOTE] @ out_message out @ [DQUOTE] else [])"

subsection \<open>What the differences say\<close>

lemma join_with_csv: "join_with '','' vs = join_csv vs"
  by (induction vs rule: join_csv.induct) simp_all

lemma join_csv_inj: "csv_ok vs \<Longrightarrow> csv_ok ws \<Longrightarrow> join_csv vs = join_csv ws \<longleftrightarrow> vs = ws"
  by (metis split_join_csv)

lemma bool_str_inj [simp]: "bool_str a = bool_str b \<longleftrightarrow> a = b"
  by (simp add: bool_str_def)

lemma unat_inj [simp]: "unat (a :: 'a::len word) = unat b \<longleftrightarrow> a = b"
  by (simp add: word_unat_eq_iff)

lemma masked_eq_iff [simp]: "masked s = masked t \<longleftrightarrow> length s = length t"
  by (auto simp: masked_def)

lemma diff_walk_Nil_iff:
  "map fst xs = map fst ys \<Longrightarrow> diff_walk xs ys = [] \<longleftrightarrow> map snd xs = map snd ys"
  by (induction xs ys rule: diff_walk.induct) auto

lemma flatten_keys: "map fst (flatten c) = map fst (flatten d)"
  by (simp add: flatten_def)

text \<open>
  Between two loaded configurations the reload reports no change exactly when
  they agree on every setting except the admin token, whose length is all that is
  compared: replacing the token by another of the same length goes unreported.
\<close>

theorem diff_complete:
  assumes "config_ok tls c" "config_ok tls' d"
  shows "diff_keys c d = [] \<longleftrightarrow>
    d\<lparr>cfg_admin_token := cfg_admin_token c\<rparr> = c \<and> length (cfg_admin_token c) = length (cfg_admin_token d)"
proof -
  have csv: "csv_ok (cfg_ws_paths c)" "csv_ok (cfg_ws_origins c)" "csv_ok (cfg_ws_paths d)" "csv_ok (cfg_ws_origins d)"
    using assms by (simp_all add: config_ok_def)
  have "diff_keys c d = [] \<longleftrightarrow> map snd (flatten c) = map snd (flatten d)"
    using diff_walk_Nil_iff [OF flatten_keys, of c d] by (simp add: diff_keys_def diff_entries_def Let_def)
  also have "\<dots> \<longleftrightarrow> d\<lparr>cfg_admin_token := cfg_admin_token c\<rparr> = c \<and> length (cfg_admin_token c) = length (cfg_admin_token d)"
    using csv by (cases c; cases d) (auto simp: flatten_def join_with_csv join_csv_inj)
  finally show ?thesis .
qed

theorem diff_complete_witness:
  "diff_keys config_default (config_default\<lparr>cfg_admin_token := ''x''\<rparr>) = [] \<longleftrightarrow>
    (config_default\<lparr>cfg_admin_token := ''x''\<rparr>)\<lparr>cfg_admin_token := cfg_admin_token config_default\<rparr> = config_default \<and>
    length (cfg_admin_token config_default) = length (cfg_admin_token (config_default\<lparr>cfg_admin_token := ''x''\<rparr>))"
proof (rule diff_complete)
  show "config_ok True config_default" "config_ok True (config_default\<lparr>cfg_admin_token := ''x''\<rparr>)" by code_simp+
qed

text \<open>Every reported key is one of the settings, once, and is either hot or needs a restart.\<close>

lemma diff_walk_keys: "set (map fst (diff_walk xs ys)) \<subseteq> set (map fst xs)"
  by (induction xs ys rule: diff_walk.induct) auto

subsection \<open>All or nothing\<close>

lemma publish_outcome:
  "publish cand path st = (out, st') \<Longrightarrow>
     out_success out \<and> st_active st' = cand \<and> out_snapshot out = Some cand \<and>
     st_generation st' = st_generation st + 1 \<and> out_generation out = st_generation st' \<and>
     st_success_count st' = st_success_count st + 1 \<and> st_failure_count st' = st_failure_count st \<and>
     out_changes out = diff_keys (st_active st) cand \<and>
     set (out_changes out) = set (out_applied_hot out) \<union> set (out_restart_required out)"
  by (auto simp: publish_def diff_keys_def split: prod.split_asm)

lemma reject_outcome:
  "reject m e st = (out, st') \<Longrightarrow>
     \<not> out_success out \<and> out_snapshot out = None \<and> out_changes out = [] \<and> out_generation out = st_generation st \<and>
     st' = st\<lparr>st_failure_count := st_failure_count st + 1, st_last_error := e\<rparr>"
  by (auto simp: reject_def)

definition reload_ok :: "bool \<Rightarrow> ConfigStore \<Rightarrow> ConfigReloadOutcome \<Rightarrow> ConfigStore \<Rightarrow> bool" where
  "reload_ok tls st out st' \<longleftrightarrow>
     out_generation out = st_generation st' \<and>
     (if out_success out
      then config_ok tls (st_active st') \<and> out_snapshot out = Some (st_active st') \<and>
        st_generation st' = st_generation st + 1 \<and> st_success_count st' = st_success_count st + 1 \<and>
        st_failure_count st' = st_failure_count st \<and> st_last_error st' = [] \<and>
        out_changes out = diff_keys (st_active st) (st_active st')
      else st_active st' = st_active st \<and> out_snapshot out = None \<and> out_changes out = [] \<and>
        st_generation st' = st_generation st \<and> st_success_count st' = st_success_count st \<and>
        st_failure_count st' = st_failure_count st + 1 \<and> st_source_path st' = st_source_path st)"

lemma reload_ok_reject: "reload_ok tls st (fst (reject m e st)) (snd (reject m e st))"
  by (simp add: reject_def reload_ok_def)

lemma reload_ok_publish: "config_ok tls cand \<Longrightarrow> reload_ok tls st (fst (publish cand path st)) (snd (publish cand path st))"
  by (simp add: publish_def reload_ok_def diff_keys_def split: prod.split)

lemma reload_parser_ok:
  "reload_ok tls st (fst (try_reload_from_parser tls readable vals label path st))
     (snd (try_reload_from_parser tls readable vals label path st))"
  unfolding try_reload_from_parser_def Let_def
  by (auto simp: reload_ok_reject intro!: reload_ok_publish loaded_config_ok split: sum.split option.split)

lemma reload_file_ok:
  "reload_ok tls st (fst (try_reload tls readable read_file path st)) (snd (try_reload tls readable read_file path st))"
  by (simp add: try_reload_def Let_def reload_ok_reject reload_parser_ok split: option.split)

text \<open>
  C16: A reload publishes a validated configuration as the next generation, or
  changes nothing but the failure counter and the recorded error: the running
  configuration, its generation and the source path survive every rejection.
\<close>

theorem reload_all_or_nothing:
  "reload_ok tls st (fst (try_reload tls readable read_file path st)) (snd (try_reload tls readable read_file path st))"
  by (rule reload_file_ok)

text \<open>Everything a running server does to the store.\<close>

inductive store_run :: "bool \<Rightarrow> ServerConfig \<Rightarrow> ConfigStore \<Rightarrow> bool" for tls initial where
  start: "store_run tls initial (store_new initial path)"
| reload: "store_run tls initial st \<Longrightarrow> store_run tls initial (snd (try_reload tls readable read_file path st))"
| memory: "store_run tls initial st \<Longrightarrow>
    store_run tls initial (snd (try_reload_from_parser tls readable vals label path st))"
| set_path: "store_run tls initial st \<Longrightarrow> store_run tls initial (st\<lparr>st_source_path := path\<rparr>)"

definition store_ok :: "bool \<Rightarrow> ServerConfig \<Rightarrow> ConfigStore \<Rightarrow> bool" where
  "store_ok tls initial st \<longleftrightarrow> st_generation st = 1 + st_success_count st \<and>
     (if st_success_count st = 0 then st_active st = initial else config_ok tls (st_active st))"

lemma store_ok_step: "store_ok tls initial st \<Longrightarrow> reload_ok tls st out st' \<Longrightarrow> store_ok tls initial st'"
  by (auto simp: store_ok_def reload_ok_def split: if_split_asm)

text \<open>
  However reloads come and fail, the generation is one more than the number of
  successful reloads and the active configuration is the initial one or a
  validated one.
\<close>

theorem store_invariant:
  assumes "store_run tls initial st"
  shows "store_ok tls initial st"
  using assms
proof induction
  case (start path)
  then show ?case by (simp add: store_ok_def store_new_def)
next
  case (reload st readable read_file path)
  then show ?case using store_ok_step reload_file_ok by blast
next
  case (memory st readable vals label path)
  then show ?case using store_ok_step reload_parser_ok by blast
next
  case (set_path st path)
  then show ?case by (simp add: store_ok_def)
qed

theorem store_invariant_witness:
  "store_ok True config_default (snd (try_reload True (\<lambda>_. True) (\<lambda>_. Some ''port = 0'') ''f''
     (snd (try_reload True (\<lambda>_. True) (\<lambda>_. Some ''port = 9000'') ''f'' (store_new config_default [])))))"
  by (rule store_invariant) (intro store_run.intros)

subsection \<open>Flattening and loading\<close>

text \<open>The flattened settings as file values, with the token in clear.\<close>

definition flat_values :: "ServerConfig \<Rightarrow> Values" where
  "flat_values c = (map_of (flatten c))(''admin_token'' \<mapsto> cfg_admin_token c)"

lemma load_rendered64:
  "vals key = Some (to_string (unat x)) \<Longrightarrow> unat x < 2 ^ 63 \<Longrightarrow> load_u64 vals key cur = x"
  by (simp add: load_u64_def get_int_def stoll_to_string)

lemma load_rendered32: "vals key = Some (to_string (unat x)) \<Longrightarrow> load_u32 vals key cur = x"
proof -
  have "unat x < 2 ^ 32" using unsigned_less [of x] by simp
  then show "vals key = Some (to_string (unat x)) \<Longrightarrow> load_u32 vals key cur = x"
    by (simp add: load_u32_def get_int_def stoll_to_string)
qed

lemma load_rendered16: "vals key = Some (to_string (unat x)) \<Longrightarrow> load_u16 vals key cur = x"
proof -
  have "unat x < 2 ^ 16" using unsigned_less [of x] by simp
  then show "vals key = Some (to_string (unat x)) \<Longrightarrow> load_u16 vals key cur = x"
    by (simp add: load_u16_def get_int_def stoll_to_string)
qed

lemma load_rendered_string: "vals key = Some s \<Longrightarrow> get_string vals key d = s"
  by (simp add: get_string_def)

lemma load_rendered_bool: "vals key = Some (bool_str b) \<Longrightarrow> get_bool vals key e = b"
proof -
  have "map to_lower ''true'' = ''true''" "map to_lower ''false'' = ''false''" by code_simp+
  then show "vals key = Some (bool_str b) \<Longrightarrow> get_bool vals key e = b"
    by (cases b) (simp_all add: get_bool_def bool_str_def Let_def del: list.map)
qed

definition timeouts_fit :: "ServerConfig \<Rightarrow> bool" where
  "timeouts_fit c \<longleftrightarrow> list_all (\<lambda>t. unat t < 2 ^ 63)
     [cfg_header_timeout_ms c, cfg_body_timeout_ms c, cfg_keep_alive_timeout_ms c, cfg_write_timeout_ms c,
      cfg_proxy_connect_timeout_ms c, cfg_proxy_read_timeout_ms c, cfg_proxy_idle_timeout_ms c,
      cfg_ws_close_timeout_ms c, cfg_ws_ping_interval_ms c]"

lemma flatten_distinct: "distinct (map fst (flatten c))"
proof -
  have "map fst (flatten c) = [''host'', ''port'', ''workers'', ''document_root'', ''header_timeout_ms'',
      ''body_timeout_ms'', ''keep_alive_timeout_ms'', ''write_timeout_ms'', ''max_connections'',
      ''max_buffer_size'', ''max_request_body'', ''log_level'', ''admin_api_enabled'',
      ''admin_token'', ''tls_enabled'', ''tls_port'', ''tls_cert_file'', ''tls_key_file'',
      ''tls_min_version'', ''tls_max_version'', ''proxy_enabled'', ''proxy_pass'',
      ''proxy_prefix'', ''proxy_strip_prefix'', ''proxy_connect_timeout_ms'',
      ''proxy_read_timeout_ms'', ''proxy_max_idle_connections'', ''proxy_max_response_bytes'',
      ''proxy_idle_timeout_ms'', ''websocket_enabled'', ''websocket_paths'',
      ''websocket_max_message_bytes'', ''websocket_close_timeout_ms'',
      ''websocket_ping_interval_ms'', ''websocket_allowed_origins'']"
    by (simp add: flatten_def)
  moreover have "distinct [''host'', ''port'', ''workers'', ''document_root'', ''header_timeout_ms'',
      ''body_timeout_ms'', ''keep_alive_timeout_ms'', ''write_timeout_ms'', ''max_connections'',
      ''max_buffer_size'', ''max_request_body'', ''log_level'', ''admin_api_enabled'',
      ''admin_token'', ''tls_enabled'', ''tls_port'', ''tls_cert_file'', ''tls_key_file'',
      ''tls_min_version'', ''tls_max_version'', ''proxy_enabled'', ''proxy_pass'',
      ''proxy_prefix'', ''proxy_strip_prefix'', ''proxy_connect_timeout_ms'',
      ''proxy_read_timeout_ms'', ''proxy_max_idle_connections'', ''proxy_max_response_bytes'',
      ''proxy_idle_timeout_ms'', ''websocket_enabled'', ''websocket_paths'',
      ''websocket_max_message_bytes'', ''websocket_close_timeout_ms'',
      ''websocket_ping_interval_ms'', ''websocket_allowed_origins'']"
    by code_simp
  ultimately show ?thesis by (simp only:)
qed

lemma flat_values_at:
  assumes "flatten c ! i = (k, v)" "i < length (flatten c)" "k \<noteq> ''admin_token''"
  shows "flat_values c k = Some v"
proof -
  have "(k, v) \<in> set (flatten c)" using assms(1,2) nth_mem by metis
  then show ?thesis using assms(3) flatten_distinct by (simp add: flat_values_def)
qed

lemma flat_values_eqs:
  "flat_values c ''host'' = Some (cfg_host c)"
  "flat_values c ''port'' = Some (to_string (unat (cfg_port c)))"
  "flat_values c ''workers'' = Some (to_string (unat (cfg_workers c)))"
  "flat_values c ''document_root'' = Some (cfg_document_root c)"
  "flat_values c ''header_timeout_ms'' = Some (to_string (unat (cfg_header_timeout_ms c)))"
  "flat_values c ''body_timeout_ms'' = Some (to_string (unat (cfg_body_timeout_ms c)))"
  "flat_values c ''keep_alive_timeout_ms'' = Some (to_string (unat (cfg_keep_alive_timeout_ms c)))"
  "flat_values c ''write_timeout_ms'' = Some (to_string (unat (cfg_write_timeout_ms c)))"
  "flat_values c ''max_connections'' = Some (to_string (unat (cfg_max_connections c)))"
  "flat_values c ''max_buffer_size'' = Some (to_string (unat (cfg_max_buffer_size c)))"
  "flat_values c ''max_request_body'' = Some (to_string (unat (cfg_max_request_body c)))"
  "flat_values c ''log_level'' = Some (cfg_log_level c)"
  "flat_values c ''admin_api_enabled'' = Some (bool_str (cfg_admin_enabled c))"
  "flat_values c ''admin_token'' = Some (cfg_admin_token c)"
  "flat_values c ''tls_enabled'' = Some (bool_str (cfg_tls_enabled c))"
  "flat_values c ''tls_port'' = Some (to_string (unat (cfg_tls_port c)))"
  "flat_values c ''tls_cert_file'' = Some (cfg_tls_cert_file c)"
  "flat_values c ''tls_key_file'' = Some (cfg_tls_key_file c)"
  "flat_values c ''tls_min_version'' = Some (cfg_tls_min_version c)"
  "flat_values c ''tls_max_version'' = Some (cfg_tls_max_version c)"
  "flat_values c ''proxy_enabled'' = Some (bool_str (cfg_proxy_enabled c))"
  "flat_values c ''proxy_pass'' = Some (cfg_proxy_pass c)"
  "flat_values c ''proxy_prefix'' = Some (cfg_proxy_prefix c)"
  "flat_values c ''proxy_strip_prefix'' = Some (bool_str (cfg_proxy_strip_prefix c))"
  "flat_values c ''proxy_connect_timeout_ms'' = Some (to_string (unat (cfg_proxy_connect_timeout_ms c)))"
  "flat_values c ''proxy_read_timeout_ms'' = Some (to_string (unat (cfg_proxy_read_timeout_ms c)))"
  "flat_values c ''proxy_max_idle_connections'' = Some (to_string (unat (cfg_proxy_max_idle c)))"
  "flat_values c ''proxy_max_response_bytes'' = Some (to_string (unat (cfg_proxy_max_response c)))"
  "flat_values c ''proxy_idle_timeout_ms'' = Some (to_string (unat (cfg_proxy_idle_timeout_ms c)))"
  "flat_values c ''websocket_enabled'' = Some (bool_str (cfg_ws_enabled c))"
  "flat_values c ''websocket_paths'' = Some (join_csv (cfg_ws_paths c))"
  "flat_values c ''websocket_max_message_bytes'' = Some (to_string (unat (cfg_ws_max_message c)))"
  "flat_values c ''websocket_close_timeout_ms'' = Some (to_string (unat (cfg_ws_close_timeout_ms c)))"
  "flat_values c ''websocket_ping_interval_ms'' = Some (to_string (unat (cfg_ws_ping_interval_ms c)))"
  "flat_values c ''websocket_allowed_origins'' = Some (join_csv (cfg_ws_origins c))"
proof -
  show "flat_values c ''host'' = Some (cfg_host c)"
    by (rule flat_values_at [of _ 0]) (simp_all add: flatten_def join_with_csv)
  show "flat_values c ''port'' = Some (to_string (unat (cfg_port c)))"
    by (rule flat_values_at [of _ 1]) (simp_all add: flatten_def join_with_csv)
  show "flat_values c ''workers'' = Some (to_string (unat (cfg_workers c)))"
    by (rule flat_values_at [of _ 2]) (simp_all add: flatten_def join_with_csv)
  show "flat_values c ''document_root'' = Some (cfg_document_root c)"
    by (rule flat_values_at [of _ 3]) (simp_all add: flatten_def join_with_csv)
  show "flat_values c ''header_timeout_ms'' = Some (to_string (unat (cfg_header_timeout_ms c)))"
    by (rule flat_values_at [of _ 4]) (simp_all add: flatten_def join_with_csv)
  show "flat_values c ''body_timeout_ms'' = Some (to_string (unat (cfg_body_timeout_ms c)))"
    by (rule flat_values_at [of _ 5]) (simp_all add: flatten_def join_with_csv)
  show "flat_values c ''keep_alive_timeout_ms'' = Some (to_string (unat (cfg_keep_alive_timeout_ms c)))"
    by (rule flat_values_at [of _ 6]) (simp_all add: flatten_def join_with_csv)
  show "flat_values c ''write_timeout_ms'' = Some (to_string (unat (cfg_write_timeout_ms c)))"
    by (rule flat_values_at [of _ 7]) (simp_all add: flatten_def join_with_csv)
  show "flat_values c ''max_connections'' = Some (to_string (unat (cfg_max_connections c)))"
    by (rule flat_values_at [of _ 8]) (simp_all add: flatten_def join_with_csv)
  show "flat_values c ''max_buffer_size'' = Some (to_string (unat (cfg_max_buffer_size c)))"
    by (rule flat_values_at [of _ 9]) (simp_all add: flatten_def join_with_csv)
  show "flat_values c ''max_request_body'' = Some (to_string (unat (cfg_max_request_body c)))"
    by (rule flat_values_at [of _ 10]) (simp_all add: flatten_def join_with_csv)
  show "flat_values c ''log_level'' = Some (cfg_log_level c)"
    by (rule flat_values_at [of _ 11]) (simp_all add: flatten_def join_with_csv)
  show "flat_values c ''admin_api_enabled'' = Some (bool_str (cfg_admin_enabled c))"
    by (rule flat_values_at [of _ 12]) (simp_all add: flatten_def join_with_csv)
  show "flat_values c ''admin_token'' = Some (cfg_admin_token c)" by (simp add: flat_values_def)
  show "flat_values c ''tls_enabled'' = Some (bool_str (cfg_tls_enabled c))"
    by (rule flat_values_at [of _ 14]) (simp_all add: flatten_def join_with_csv)
  show "flat_values c ''tls_port'' = Some (to_string (unat (cfg_tls_port c)))"
    by (rule flat_values_at [of _ 15]) (simp_all add: flatten_def join_with_csv)
  show "flat_values c ''tls_cert_file'' = Some (cfg_tls_cert_file c)"
    by (rule flat_values_at [of _ 16]) (simp_all add: flatten_def join_with_csv)
  show "flat_values c ''tls_key_file'' = Some (cfg_tls_key_file c)"
    by (rule flat_values_at [of _ 17]) (simp_all add: flatten_def join_with_csv)
  show "flat_values c ''tls_min_version'' = Some (cfg_tls_min_version c)"
    by (rule flat_values_at [of _ 18]) (simp_all add: flatten_def join_with_csv)
  show "flat_values c ''tls_max_version'' = Some (cfg_tls_max_version c)"
    by (rule flat_values_at [of _ 19]) (simp_all add: flatten_def join_with_csv)
  show "flat_values c ''proxy_enabled'' = Some (bool_str (cfg_proxy_enabled c))"
    by (rule flat_values_at [of _ 20]) (simp_all add: flatten_def join_with_csv)
  show "flat_values c ''proxy_pass'' = Some (cfg_proxy_pass c)"
    by (rule flat_values_at [of _ 21]) (simp_all add: flatten_def join_with_csv)
  show "flat_values c ''proxy_prefix'' = Some (cfg_proxy_prefix c)"
    by (rule flat_values_at [of _ 22]) (simp_all add: flatten_def join_with_csv)
  show "flat_values c ''proxy_strip_prefix'' = Some (bool_str (cfg_proxy_strip_prefix c))"
    by (rule flat_values_at [of _ 23]) (simp_all add: flatten_def join_with_csv)
  show "flat_values c ''proxy_connect_timeout_ms'' = Some (to_string (unat (cfg_proxy_connect_timeout_ms c)))"
    by (rule flat_values_at [of _ 24]) (simp_all add: flatten_def join_with_csv)
  show "flat_values c ''proxy_read_timeout_ms'' = Some (to_string (unat (cfg_proxy_read_timeout_ms c)))"
    by (rule flat_values_at [of _ 25]) (simp_all add: flatten_def join_with_csv)
  show "flat_values c ''proxy_max_idle_connections'' = Some (to_string (unat (cfg_proxy_max_idle c)))"
    by (rule flat_values_at [of _ 26]) (simp_all add: flatten_def join_with_csv)
  show "flat_values c ''proxy_max_response_bytes'' = Some (to_string (unat (cfg_proxy_max_response c)))"
    by (rule flat_values_at [of _ 27]) (simp_all add: flatten_def join_with_csv)
  show "flat_values c ''proxy_idle_timeout_ms'' = Some (to_string (unat (cfg_proxy_idle_timeout_ms c)))"
    by (rule flat_values_at [of _ 28]) (simp_all add: flatten_def join_with_csv)
  show "flat_values c ''websocket_enabled'' = Some (bool_str (cfg_ws_enabled c))"
    by (rule flat_values_at [of _ 29]) (simp_all add: flatten_def join_with_csv)
  show "flat_values c ''websocket_paths'' = Some (join_csv (cfg_ws_paths c))"
    by (rule flat_values_at [of _ 30]) (simp_all add: flatten_def join_with_csv)
  show "flat_values c ''websocket_max_message_bytes'' = Some (to_string (unat (cfg_ws_max_message c)))"
    by (rule flat_values_at [of _ 31]) (simp_all add: flatten_def join_with_csv)
  show "flat_values c ''websocket_close_timeout_ms'' = Some (to_string (unat (cfg_ws_close_timeout_ms c)))"
    by (rule flat_values_at [of _ 32]) (simp_all add: flatten_def join_with_csv)
  show "flat_values c ''websocket_ping_interval_ms'' = Some (to_string (unat (cfg_ws_ping_interval_ms c)))"
    by (rule flat_values_at [of _ 33]) (simp_all add: flatten_def join_with_csv)
  show "flat_values c ''websocket_allowed_origins'' = Some (join_csv (cfg_ws_origins c))"
    by (rule flat_values_at [of _ 34]) (simp_all add: flatten_def join_with_csv)
qed

lemma loaded_flat:
  assumes "config_ok True c" "timeouts_fit c"
  shows "loaded True (flat_values c) d = c"
proof -
  have csv: "csv_ok (cfg_ws_paths c)" "csv_ok (cfg_ws_origins c)" using assms(1) by (simp_all add: config_ok_def)
  have fit: "unat (cfg_header_timeout_ms c) < 2 ^ 63" "unat (cfg_body_timeout_ms c) < 2 ^ 63"
    "unat (cfg_keep_alive_timeout_ms c) < 2 ^ 63" "unat (cfg_write_timeout_ms c) < 2 ^ 63"
    "unat (cfg_proxy_connect_timeout_ms c) < 2 ^ 63" "unat (cfg_proxy_read_timeout_ms c) < 2 ^ 63"
    "unat (cfg_proxy_idle_timeout_ms c) < 2 ^ 63" "unat (cfg_ws_close_timeout_ms c) < 2 ^ 63"
    "unat (cfg_ws_ping_interval_ms c) < 2 ^ 63"
    using assms(2) by (simp_all add: timeouts_fit_def)
  note loads =
    load_rendered_string [where vals = "flat_values c", OF flat_values_eqs(1)] load_rendered16 [where vals = "flat_values c", OF flat_values_eqs(2)]
    load_rendered32 [where vals = "flat_values c", OF flat_values_eqs(3)] load_rendered_string [where vals = "flat_values c", OF flat_values_eqs(4)]
    load_rendered64 [where vals = "flat_values c", OF flat_values_eqs(5) fit(1)] load_rendered64 [where vals = "flat_values c", OF flat_values_eqs(6) fit(2)]
    load_rendered64 [where vals = "flat_values c", OF flat_values_eqs(7) fit(3)] load_rendered64 [where vals = "flat_values c", OF flat_values_eqs(8) fit(4)]
    load_rendered32 [where vals = "flat_values c", OF flat_values_eqs(9)] load_rendered32 [where vals = "flat_values c", OF flat_values_eqs(10)]
    load_rendered32 [where vals = "flat_values c", OF flat_values_eqs(11)] load_rendered_string [where vals = "flat_values c", OF flat_values_eqs(12)]
    load_rendered_bool [where vals = "flat_values c", OF flat_values_eqs(13)] load_rendered_string [where vals = "flat_values c", OF flat_values_eqs(14)]
    load_rendered_bool [where vals = "flat_values c", OF flat_values_eqs(15)] load_rendered16 [where vals = "flat_values c", OF flat_values_eqs(16)]
    load_rendered_string [where vals = "flat_values c", OF flat_values_eqs(17)] load_rendered_string [where vals = "flat_values c", OF flat_values_eqs(18)]
    load_rendered_string [where vals = "flat_values c", OF flat_values_eqs(19)] load_rendered_string [where vals = "flat_values c", OF flat_values_eqs(20)]
    load_rendered_bool [where vals = "flat_values c", OF flat_values_eqs(21)] load_rendered_string [where vals = "flat_values c", OF flat_values_eqs(22)]
    load_rendered_string [where vals = "flat_values c", OF flat_values_eqs(23)] load_rendered_bool [where vals = "flat_values c", OF flat_values_eqs(24)]
    load_rendered64 [where vals = "flat_values c", OF flat_values_eqs(25) fit(5)] load_rendered64 [where vals = "flat_values c", OF flat_values_eqs(26) fit(6)]
    load_rendered32 [where vals = "flat_values c", OF flat_values_eqs(27)] load_rendered32 [where vals = "flat_values c", OF flat_values_eqs(28)]
    load_rendered64 [where vals = "flat_values c", OF flat_values_eqs(29) fit(7)] load_rendered_bool [where vals = "flat_values c", OF flat_values_eqs(30)]
    load_rendered_string [where vals = "flat_values c", OF flat_values_eqs(31)] load_rendered32 [where vals = "flat_values c", OF flat_values_eqs(32)]
    load_rendered64 [where vals = "flat_values c", OF flat_values_eqs(33) fit(8)] load_rendered64 [where vals = "flat_values c", OF flat_values_eqs(34) fit(9)]
    load_rendered_string [where vals = "flat_values c", OF flat_values_eqs(35)]
  have core: "load_core (flat_values c) e = e\<lparr>cfg_host := cfg_host c, cfg_port := cfg_port c,
      cfg_workers := cfg_workers c, cfg_document_root := cfg_document_root c,
      cfg_header_timeout_ms := cfg_header_timeout_ms c, cfg_body_timeout_ms := cfg_body_timeout_ms c,
      cfg_keep_alive_timeout_ms := cfg_keep_alive_timeout_ms c,
      cfg_write_timeout_ms := cfg_write_timeout_ms c, cfg_max_connections := cfg_max_connections c,
      cfg_max_buffer_size := cfg_max_buffer_size c, cfg_max_request_body := cfg_max_request_body c\<rparr>" for e :: ServerConfig
    by (simp only: load_core_def loads)
  have tls: "load_tls (flat_values c) e = e\<lparr>cfg_tls_enabled := cfg_tls_enabled c,
      cfg_tls_cert_file := cfg_tls_cert_file c, cfg_tls_key_file := cfg_tls_key_file c,
      cfg_tls_min_version := cfg_tls_min_version c, cfg_tls_max_version := cfg_tls_max_version c,
      cfg_tls_port := cfg_tls_port c\<rparr>" for e :: ServerConfig
    by (simp only: load_tls_def loads)
  have features: "load_features (flat_values c) e = e\<lparr>cfg_proxy_enabled := cfg_proxy_enabled c,
      cfg_proxy_pass := cfg_proxy_pass c, cfg_proxy_prefix := cfg_proxy_prefix c,
      cfg_proxy_strip_prefix := cfg_proxy_strip_prefix c,
      cfg_proxy_connect_timeout_ms := cfg_proxy_connect_timeout_ms c,
      cfg_proxy_read_timeout_ms := cfg_proxy_read_timeout_ms c, cfg_proxy_max_idle := cfg_proxy_max_idle c,
      cfg_proxy_max_response := cfg_proxy_max_response c,
      cfg_proxy_idle_timeout_ms := cfg_proxy_idle_timeout_ms c, cfg_ws_enabled := cfg_ws_enabled c,
      cfg_ws_paths := cfg_ws_paths c, cfg_ws_max_message := cfg_ws_max_message c,
      cfg_ws_close_timeout_ms := cfg_ws_close_timeout_ms c,
      cfg_ws_ping_interval_ms := cfg_ws_ping_interval_ms c, cfg_ws_origins := cfg_ws_origins c,
      cfg_log_level := cfg_log_level c, cfg_admin_enabled := cfg_admin_enabled c,
      cfg_admin_token := cfg_admin_token c\<rparr>" for e :: ServerConfig
    by (simp only: load_features_def loads csv split_join_csv)
  show ?thesis
    unfolding loaded_def if_True core tls features by (cases c, cases d) simp
qed



end
