(* ===== verification/Base64_Sha1.thy ===== *)
theory Base64_Sha1
  imports Prelude
begin

section \<open>SHA-1 and Base64: \<^verbatim>\<open>websocket_handshake.cpp\<close>\<close>

text \<open>
  The hash and the text encoding of the WebSocket handshake, on 32-bit words and
  bytes.  The hash object buffers input up to 64 bytes (\<open>sha_buffer\<close> is the
  first \<^verbatim>\<open>buffer_length_\<close> bytes of its array) and is related to the one-shot
  definition on the padded message; the two directions of Base64 are related by a
  round trip.
\<close>

unbundle bit_operations_syntax

subsection \<open>The hash object\<close>

record Sha1 =
  sha_state :: "32 word list"
  sha_buffer :: "byte list"
  sha_total :: "64 word"

definition sha_reset :: Sha1 where
  "sha_reset = \<lparr>sha_state = [0x67452301, 0xEFCDAB89, 0x98BADCFE, 0x10325476, 0xC3D2E1F0],
     sha_buffer = [], sha_total = 0\<rparr>"

definition rotl :: "32 word \<Rightarrow> nat \<Rightarrow> 32 word" where
  "rotl value bits = push_bit bits value OR drop_bit (32 - bits) value"

definition block_word :: "byte list \<Rightarrow> nat \<Rightarrow> 32 word" where
  "block_word block i =
     push_bit 24 (ucast (block ! (i * 4 + 0))) OR push_bit 16 (ucast (block ! (i * 4 + 1))) OR
     push_bit 8 (ucast (block ! (i * 4 + 2))) OR ucast (block ! (i * 4 + 3))"

definition schedule :: "byte list \<Rightarrow> 32 word list" where
  "schedule block =
     foldl (\<lambda>w i. w @ [rotl (w ! (i - 3) XOR w ! (i - 8) XOR w ! (i - 14) XOR w ! (i - 16)) 1])
       (map (block_word block) [0..<16]) [16..<80]"

type_synonym Registers = "32 word \<times> 32 word \<times> 32 word \<times> 32 word \<times> 32 word"

definition sha_round :: "32 word list \<Rightarrow> Registers \<Rightarrow> nat \<Rightarrow> Registers" where
  "sha_round w r i =
     (case r of (a, b, c, d, e) \<Rightarrow>
       let (f, k) =
             (if i < 20 then ((b AND c) OR (NOT b AND d), 0x5A827999)
              else if i < 40 then (b XOR c XOR d, 0x6ED9EBA1)
              else if i < 60 then ((b AND c) OR (b AND d) OR (c AND d), 0x8F1BBCDC)
              else (b XOR c XOR d, 0xCA62C1D6));
           temp = rotl a 5 + f + e + k + w ! i
       in (temp, a, rotl b 30, c, d))"

definition process_block :: "byte list \<Rightarrow> 32 word list \<Rightarrow> 32 word list" where
  "process_block block s =
     (case foldl (sha_round (schedule block)) (s ! 0, s ! 1, s ! 2, s ! 3, s ! 4) [0..<80] of
        (a, b, c, d, e) \<Rightarrow> [s ! 0 + a, s ! 1 + b, s ! 2 + c, s ! 3 + d, s ! 4 + e])"

definition sha_push :: "Sha1 \<Rightarrow> byte \<Rightarrow> Sha1" where
  "sha_push s b =
     (let s = s\<lparr>sha_buffer := sha_buffer s @ [b]\<rparr> in
      if length (sha_buffer s) = 64
      then s\<lparr>sha_state := process_block (sha_buffer s) (sha_state s), sha_buffer := []\<rparr> else s)"

definition sha_update :: "byte list \<Rightarrow> Sha1 \<Rightarrow> Sha1" where
  "sha_update data s = foldl sha_push (s\<lparr>sha_total := sha_total s + of_nat (length data)\<rparr>) data"

definition word_bytes :: "32 word \<Rightarrow> byte list" where
  "word_bytes w = [ucast (drop_bit 24 w AND 0xFF), ucast (drop_bit 16 w AND 0xFF),
                   ucast (drop_bit 8 w AND 0xFF), ucast (w AND 0xFF)]"

definition length_field :: "64 word \<Rightarrow> byte list" where
  "length_field total_bits = map (\<lambda>i. ucast (drop_bit (i * 8) total_bits AND 0xFF)) (rev [0..<8])"

definition sha_finish :: "Sha1 \<Rightarrow> byte list" where
  "sha_finish s =
     (let total_bits = sha_total s * 8;
          buf = sha_buffer s @ [0x80];
          (st, buf) = (if length buf > 56
                       then (process_block (buf @ replicate (64 - length buf) 0) (sha_state s), [])
                       else (sha_state s, buf));
          buf = buf @ replicate (56 - length buf) 0;
          buf = buf @ length_field total_bits;
          st = process_block buf st
      in concat (map word_bytes st))"

definition sha1 :: "byte list \<Rightarrow> byte list" where
  "sha1 input = sha_finish (sha_update input sha_reset)"

subsection \<open>The one-shot definition\<close>

text \<open>FIPS 180-4: pad with \<open>0x80\<close>, zeros and the 64-bit bit length, and fold over the blocks.\<close>

definition sha_pad :: "byte list \<Rightarrow> byte list" where
  "sha_pad m = m @ [0x80] @ replicate ((119 - length m mod 64) mod 64) 0 @ length_field (of_nat (8 * length m))"

fun blocks :: "byte list \<Rightarrow> byte list list" where
  "blocks m = (if length m < 64 then [] else take 64 m # blocks (drop 64 m))"

declare blocks.simps [simp del]

definition sha1_spec :: "byte list \<Rightarrow> byte list" where
  "sha1_spec m = concat (map word_bytes (foldl (\<lambda>s b. process_block b s) (sha_state sha_reset) (blocks (sha_pad m))))"

lemma blocks_append: "length b = 64 \<Longrightarrow> blocks (b @ m) = b # blocks m"
  by (subst blocks.simps) simp

lemma blocks_short: "length m < 64 \<Longrightarrow> blocks m = []"
  by (subst blocks.simps) simp

text \<open>What the object holds after some input: the folded full blocks and the rest.\<close>

definition sha_absorbs :: "byte list \<Rightarrow> Sha1 \<Rightarrow> bool" where
  "sha_absorbs m s \<longleftrightarrow>
     (\<exists>full. m = concat full @ sha_buffer s \<and> list_all (\<lambda>b. length b = 64) full \<and> length (sha_buffer s) < 64 \<and>
        sha_state s = foldl (\<lambda>s b. process_block b s) (sha_state sha_reset) full)"

lemma sha_push_absorbs: "sha_absorbs m s \<Longrightarrow> sha_absorbs (m @ [b]) (sha_push s b)"
proof -
  assume "sha_absorbs m s"
  then obtain full where full: "m = concat full @ sha_buffer s" "list_all (\<lambda>b. length b = 64) full"
    "length (sha_buffer s) < 64" "sha_state s = foldl (\<lambda>s b. process_block b s) (sha_state sha_reset) full"
    by (auto simp: sha_absorbs_def)
  show ?thesis
  proof (cases "length (sha_buffer s @ [b]) = 64")
    case True
    with full show ?thesis unfolding sha_absorbs_def
      by (intro exI [of _ "full @ [sha_buffer s @ [b]]"]) (simp add: sha_push_def Let_def)
  next
    case False
    with full show ?thesis unfolding sha_absorbs_def
      by (intro exI [of _ full]) (simp add: sha_push_def Let_def)
  qed
qed

lemma sha_fold_absorbs: "sha_absorbs m s \<Longrightarrow> sha_absorbs (m @ d) (foldl sha_push s d)"
proof (induction d arbitrary: m s)
  case (Cons b d)
  from Cons.IH [OF sha_push_absorbs [OF Cons.prems, of b]] show ?case by simp
qed simp

lemma sha_fold_total [simp]: "sha_total (foldl sha_push s d) = sha_total s"
  by (induction d arbitrary: s) (simp_all add: sha_push_def Let_def)

lemma blocks_concat: "list_all (\<lambda>b. length b = 64) full \<Longrightarrow> blocks (concat full @ m) = full @ blocks m"
  by (induction full) (simp_all add: blocks_append)

lemma length_field_length [simp]: "length (length_field t) = 8"
  by (simp add: length_field_def)

text \<open>Updating in pieces is updating at once.\<close>

lemma sha_update_append: "sha_update b (sha_update a s) = sha_update (a @ b) s"
proof -
  have push: "sha_push (s\<lparr>sha_total := t\<rparr>) x = (sha_push s x)\<lparr>sha_total := t\<rparr>" for s x t
    by (simp add: sha_push_def Let_def)
  have fold: "foldl sha_push (s\<lparr>sha_total := t\<rparr>) d = (foldl sha_push s d)\<lparr>sha_total := t\<rparr>" for s t d
    by (induction d arbitrary: s) (simp_all add: push)
  show ?thesis by (simp add: sha_update_def fold add.assoc)
qed

lemma concat_length_mod: "list_all (\<lambda>b. length b = 64) full \<Longrightarrow> length (concat full) mod 64 = 0"
  by (induction full) auto

lemma sha_finish_absorbed:
  assumes "sha_absorbs m s" "sha_total s = of_nat (length m)"
  shows "sha_finish s = sha1_spec m"
proof -
  obtain full where full: "m = concat full @ sha_buffer s" "list_all (\<lambda>b. length b = 64) full"
    "length (sha_buffer s) < 64" "sha_state s = foldl (\<lambda>s b. process_block b s) (sha_state sha_reset) full"
    using assms(1) by (auto simp: sha_absorbs_def)
  let ?n = "length (sha_buffer s)"
  have bits: "sha_total s * 8 = of_nat (8 * length m)" using assms(2) by (simp add: mult.commute)
  have mod: "length m mod 64 = ?n"
    using full(3) concat_length_mod [OF full(2)] by (simp add: full(1) mod_add_eq [symmetric, of "length (concat full)"])
  show ?thesis
  proof (cases "?n + 1 > 56")
    case True
    have z: "(119 - ?n) mod 64 = (63 - ?n) + 56" using True full(3) by simp
    have "sha_pad m = concat (full @ [sha_buffer s @ [0x80] @ replicate (63 - ?n) 0]) @ replicate 56 0 @ length_field (of_nat (8 * length m))"
      unfolding sha_pad_def mod z by (simp add: full(1) replicate_add)
    then have "blocks (sha_pad m) = full @ [sha_buffer s @ [0x80] @ replicate (63 - ?n) 0, replicate 56 0 @ length_field (of_nat (8 * length m))]"
      using full(2,3)
        blocks_append [of "sha_buffer s @ [0x80] @ replicate (63 - ?n) 0" "replicate 56 0 @ length_field (of_nat (8 * length m))"]
        blocks_append [of "replicate 56 0 @ length_field (of_nat (8 * length m))" "[]"]
      by (simp add: blocks_concat blocks_short)
    with True full(4) bits show ?thesis
      by (simp add: sha1_spec_def sha_finish_def Let_def)
  next
    case False
    have z: "(119 - ?n) mod 64 = 55 - ?n"
    proof -
      have e: "119 - ?n = (55 - ?n) + 64" using False by linarith
      have "55 - ?n < 64" by linarith
      then show ?thesis unfolding e by (simp only: mod_add_self2 mod_less)
    qed
    have "sha_pad m = concat full @ sha_buffer s @ [0x80] @ replicate (55 - ?n) 0 @ length_field (of_nat (8 * length m))"
      unfolding sha_pad_def mod z by (simp add: full(1))
    then have "blocks (sha_pad m) = full @ [sha_buffer s @ [0x80] @ replicate (55 - ?n) 0 @ length_field (of_nat (8 * length m))]"
      using full(2,3) False
        blocks_append [of "sha_buffer s @ [0x80] @ replicate (55 - ?n) 0 @ length_field (of_nat (8 * length m))" "[]"]
      by (simp add: blocks_concat blocks_short)
    with False full(4) bits show ?thesis
      by (simp add: sha1_spec_def sha_finish_def Let_def)
  qed
qed

lemma sha1_eq_spec: "sha1 m = sha1_spec m"
proof -
  have "sha_absorbs [] sha_reset" unfolding sha_absorbs_def by (intro exI [of _ "[]"]) (simp add: sha_reset_def)
  then have "sha_absorbs [] (sha_reset\<lparr>sha_total := t\<rparr>)" for t by (simp add: sha_absorbs_def)
  from sha_fold_absorbs [OF this, of m] show ?thesis
    unfolding sha1_def sha_update_def by (intro sha_finish_absorbed) (simp_all add: sha_reset_def)
qed


subsection \<open>Base64\<close>

definition kBase64Alphabet :: string where
  "kBase64Alphabet = ''ABCDEFGHIJKLMNOPQRSTUVWXYZabcdefghijklmnopqrstuvwxyz0123456789+/''"

definition b64_char :: "32 word \<Rightarrow> nat \<Rightarrow> char" where
  "b64_char triple shift = kBase64Alphabet ! unat (drop_bit shift triple AND 0x3F)"

fun base64_encode :: "byte list \<Rightarrow> string" where
  "base64_encode (a # b # c # r) =
     (let triple = push_bit 16 (ucast a) OR push_bit 8 (ucast b) OR ucast c
      in [b64_char triple 18, b64_char triple 12, b64_char triple 6, b64_char triple 0] @ base64_encode r)"
| "base64_encode [a] =
     (let triple = push_bit 16 (ucast a) in [b64_char triple 18, b64_char triple 12, CHR ''='', CHR ''=''])"
| "base64_encode [a, b] =
     (let triple = push_bit 16 (ucast a) OR push_bit 8 (ucast b)
      in [b64_char triple 18, b64_char triple 12, b64_char triple 6, CHR ''=''])"
| "base64_encode [] = []"

definition base64_value :: "char \<Rightarrow> int" where
  "base64_value c =
     (if code CHR ''A'' \<le> code c \<and> code c \<le> code CHR ''Z'' then int (code c) - int (code CHR ''A'')
      else if code CHR ''a'' \<le> code c \<and> code c \<le> code CHR ''z'' then int (code c) - int (code CHR ''a'') + 26
      else if code CHR ''0'' \<le> code c \<and> code c \<le> code CHR ''9'' then int (code c) - int (code CHR ''0'') + 52
      else if c = CHR ''+'' then 62 else if c = CHR ''/'' then 63 else -1)"

text \<open>One quantum of four characters; \<open>lastq\<close> is \<^verbatim>\<open>i + 4 == input.size()\<close>.\<close>

definition b64_triple :: "int \<Rightarrow> int \<Rightarrow> int \<Rightarrow> int \<Rightarrow> 32 word" where
  "b64_triple v0 v1 v2 v3 =
     push_bit 18 (word_of_int v0) OR push_bit 12 (word_of_int v1) OR push_bit 6 (word_of_int v2) OR word_of_int v3"

definition b64_byte :: "32 word \<Rightarrow> nat \<Rightarrow> byte" where
  "b64_byte triple shift = ucast (drop_bit shift triple AND 0xFF)"

definition decode_quantum :: "bool \<Rightarrow> char \<Rightarrow> char \<Rightarrow> char \<Rightarrow> char \<Rightarrow> byte list option" where
  "decode_quantum lastq c0 c1 c2 c3 =
     (if c0 = CHR ''='' \<or> base64_value c0 < 0 \<or> c1 = CHR ''='' \<or> base64_value c1 < 0 then None
      else if c2 = CHR ''='' then
        (if \<not> lastq \<or> c3 \<noteq> CHR ''='' then None
         else Some [b64_byte (b64_triple (base64_value c0) (base64_value c1) 0 0) 16])
      else if base64_value c2 < 0 then None
      else if c3 = CHR ''='' then
        (if \<not> lastq then None
         else let t = b64_triple (base64_value c0) (base64_value c1) (base64_value c2) 0
              in Some [b64_byte t 16, b64_byte t 8])
      else if base64_value c3 < 0 then None
      else let t = b64_triple (base64_value c0) (base64_value c1) (base64_value c2) (base64_value c3)
           in Some [b64_byte t 16, b64_byte t 8, b64_byte t 0])"

fun decode_quanta :: "string \<Rightarrow> byte list option" where
  "decode_quanta (c0 # c1 # c2 # c3 # r) =
     (case decode_quantum (r = []) c0 c1 c2 c3 of None \<Rightarrow> None
      | Some out \<Rightarrow> map_option (\<lambda>rest. out @ rest) (decode_quanta r))"
| "decode_quanta _ = Some []"

definition base64_decode :: "string \<Rightarrow> byte list option" where
  "base64_decode input = (if length input mod 4 \<noteq> 0 then None else decode_quanta input)"

lemma alphabet_values:
  "k < 64 \<Longrightarrow> base64_value (kBase64Alphabet ! k) = int k \<and> kBase64Alphabet ! k \<noteq> CHR ''=''"
proof -
  have v: "map base64_value kBase64Alphabet = map int [0..<64]" by code_simp
  have l: "length kBase64Alphabet = 64" by code_simp
  have e: "list_all (\<lambda>c. c \<noteq> CHR ''='') kBase64Alphabet" by code_simp
  assume k: "k < 64"
  then have "map base64_value kBase64Alphabet ! k = int k" unfolding v by simp
  with k l e show ?thesis by (simp add: list_all_length)
qed

definition six :: "32 word \<Rightarrow> nat \<Rightarrow> 32 word" where
  "six t shift = drop_bit shift t AND 0x3F"

lemma six_mask: "six t shift = take_bit 6 (drop_bit shift t)"
  by (simp add: six_def take_bit_eq_mask mask_eq_exp_minus_1)

lemma b64_char_value:
  "base64_value (b64_char t shift) = uint (six t shift)" "b64_char t shift \<noteq> CHR ''=''" "\<not> base64_value (b64_char t shift) < 0"
proof -
  have "six t shift < 2 ^ 6" unfolding six_mask using take_bit_nat_less_exp [of 6] by (simp add: word_less_nat_alt unsigned_take_bit_eq)
  then have "unat (six t shift) < 64" by (simp add: word_less_nat_alt)
  from alphabet_values [OF this] show "base64_value (b64_char t shift) = uint (six t shift)" "b64_char t shift \<noteq> CHR ''=''"
    by (simp_all add: b64_char_def six_def)
  then show "\<not> base64_value (b64_char t shift) < 0" by simp
qed

text \<open>Cutting 24 bits into four groups of six and joining them again.\<close>

lemma b64_triple_six:
  assumes "\<And>n. bit t n \<Longrightarrow> n < 24"
  shows "b64_triple (uint (six t 18)) (uint (six t 12)) (uint (six t 6)) (uint (six t 0)) = t"
proof (rule bit_word_eqI)
  fix n assume n: "n < LENGTH(32)"
  consider "n < 6" | "6 \<le> n" "n < 12" | "12 \<le> n" "n < 18" | "18 \<le> n" "n < 24" | "24 \<le> n" by linarith
  then show "bit (b64_triple (uint (six t 18)) (uint (six t 12)) (uint (six t 6)) (uint (six t 0))) n = bit t n"
    using n assms [of n] by cases (auto simp: b64_triple_def six_mask bit_simps not_less)
qed

definition join3 :: "byte \<Rightarrow> byte \<Rightarrow> byte \<Rightarrow> 32 word" where
  "join3 a b c = push_bit 16 (ucast a) OR push_bit 8 (ucast b) OR ucast c"

lemma join3_bytes: "b64_byte (join3 a b c) 16 = a" "b64_byte (join3 a b c) 8 = b" "b64_byte (join3 a b c) 0 = c"
  "\<And>n. bit (join3 a b c) n \<Longrightarrow> n < 24"
proof -
  have m: "(x :: 32 word) AND 0xFF = take_bit 8 x" for x by (simp add: take_bit_eq_mask mask_eq_exp_minus_1)
  have len: "bit (x :: byte) n \<Longrightarrow> n < 8" for x n using bit_imp_le_length by fastforce
  show "b64_byte (join3 a b c) 16 = a"
    unfolding b64_byte_def m by (rule bit_word_eqI) (auto simp: join3_def bit_simps dest: len)
  show "b64_byte (join3 a b c) 8 = b"
    unfolding b64_byte_def m by (rule bit_word_eqI) (auto simp: join3_def bit_simps dest: len)
  show "b64_byte (join3 a b c) 0 = c"
    unfolding b64_byte_def m by (rule bit_word_eqI) (auto simp: join3_def bit_simps dest: len)
  show "n < 24" if "bit (join3 a b c) n" for n
    using that by (auto simp: join3_def bit_simps dest!: len)
qed

lemma join3_six: "six (join3 a b 0) 0 = 0" "six (join3 a 0 0) 6 = 0" "six (join3 a 0 0) 0 = 0"
  by (rule bit_word_eqI; auto simp: six_mask join3_def bit_simps)+

lemma decode_encode: "decode_quanta (base64_encode bs) = Some bs \<and> length (base64_encode bs) mod 4 = 0"
proof (induction bs rule: base64_encode.induct)
  case (1 a b c r)
  let ?t = "join3 a b c"
  have "base64_encode (a # b # c # r) = [b64_char ?t 18, b64_char ?t 12, b64_char ?t 6, b64_char ?t 0] @ base64_encode r"
    by (simp add: join3_def Let_def)
  then show ?case using 1 b64_triple_six [of "join3 a b c", OF join3_bytes(4)]
    by (simp add: decode_quantum_def b64_char_value join3_bytes Let_def del: base64_encode.simps)
next
  case (2 a)
  let ?t = "join3 a 0 0"
  have "base64_encode [a] = [b64_char ?t 18, b64_char ?t 12, CHR ''='', CHR ''='']"
    by (simp add: join3_def Let_def)
  then show ?case using b64_triple_six [of "join3 a 0 0", OF join3_bytes(4)]
    by (simp add: decode_quantum_def b64_char_value join3_bytes join3_six Let_def del: base64_encode.simps)
next
  case (3 a b)
  let ?t = "join3 a b 0"
  have "base64_encode [a, b] = [b64_char ?t 18, b64_char ?t 12, b64_char ?t 6, CHR ''='']"
    by (simp add: join3_def Let_def)
  then show ?case using b64_triple_six [of "join3 a b 0", OF join3_bytes(4)]
    by (simp add: decode_quantum_def b64_char_value join3_bytes join3_six Let_def del: base64_encode.simps)
qed simp

text \<open>
  Decoding inverts encoding for byte strings of every length, whatever the
  padding of the last quantum.
\<close>

theorem base64_roundtrip: "base64_decode (base64_encode bs) = Some bs"
  using decode_encode [of bs] by (simp add: base64_decode_def)

lemma base64_encode_length: "length (base64_encode bs) = 4 * ((length bs + 2) div 3)"
proof (induction bs rule: base64_encode.induct)
  case (1 a b c r)
  have "(5 + length r) div 3 = Suc (Suc (Suc (length r)) div 3)"
  proof -
    have "5 + length r = Suc (Suc (length r)) + 3" by simp
    then show ?thesis by (simp only: div_add_self2 Suc_eq_plus1 numeral_eq_iff zero_neq_numeral not_False_eq_True)
  qed
  then show ?case using 1 by (simp add: Let_def)
qed (simp_all add: Let_def)

end
