(* ===== verification/WS_Handshake.thy ===== *)
theory WS_Handshake
  imports Http_Message Server_Config Base64_Sha1
begin

section \<open>The WebSocket upgrade: \<^verbatim>\<open>websocket_handshake.cpp\<close>\<close>

text \<open>
  \<open>evaluate_upgrade\<close> decides what an HTTP request on a WebSocket path gets: the
  normal pipeline, the 101 response, or a rejection that
  \<open>build_rejection_response\<close> turns into a response.
\<close>

subsection \<open>Header helpers\<close>

function has_token_from :: "string \<Rightarrow> string \<Rightarrow> nat \<Rightarrow> bool" where
  "has_token_from v target start =
     (if start \<le> length v then
        let comma = find_from (\<lambda>c. c = CHR '','') v start;
            part = map to_lower (trim_find is_ows
              (case comma of None \<Rightarrow> drop start v | Some k \<Rightarrow> substr v start (k - start)))
        in if part = target then True
           else case comma of None \<Rightarrow> False | Some k \<Rightarrow> has_token_from v target (k + 1)
      else False)"
  by pat_completeness auto
termination
  by (relation "measure (\<lambda>(v, t, start). Suc (length v) - start)") (auto simp: find_from_def dest!: sym [of "Some _"])

declare has_token_from.simps [simp del]

definition header_has_token :: "string \<Rightarrow> string \<Rightarrow> bool" where
  "header_has_token v token = has_token_from v (map to_lower token) 0"

definition target_path :: "string \<Rightarrow> string" where
  "target_path target =
     (case find_idx (\<lambda>c. c = CHR ''?'' \<or> c = CHR ''#'') target of None \<Rightarrow> target | Some k \<Rightarrow> take k target)"

subsection \<open>The decision\<close>

datatype UpgradeVerdict =
  NotAnUpgrade | Accepted | RejectedBadRequest | ForbiddenOrigin | UnsupportedVersion

record UpgradeResult =
  up_verdict :: UpgradeVerdict
  up_accept :: string
  up_response :: string

definition is_websocket_intent :: "HttpRequest \<Rightarrow> bool" where
  "is_websocket_intent r = header_has_token (headers_get (req_headers r) ''Upgrade'') ''websocket''"

definition kWebSocketGuid :: string where
  "kWebSocketGuid = ''258EAFA5-E914-47DA-95CA-C5AB0DC85B11''"

definition compute_accept :: "string \<Rightarrow> string" where
  "compute_accept client_key =
     (case base64_decode client_key of None \<Rightarrow> []
      | Some decoded \<Rightarrow>
          if length decoded \<noteq> 16 then []
          else base64_encode (sha1 (map of_char (client_key @ kWebSocketGuid))))"

definition build_switching_protocols :: "string \<Rightarrow> string" where
  "build_switching_protocols accept =
     ''HTTP/1.1 101 Switching Protocols'' @ CRLF @ ''Upgrade: websocket'' @ CRLF @
     ''Connection: Upgrade'' @ CRLF @ ''Sec-WebSocket-Accept: '' @ accept @ CRLF @ CRLF"

definition verdict_only :: "UpgradeVerdict \<Rightarrow> UpgradeResult" where
  "verdict_only v = \<lparr>up_verdict = v, up_accept = [], up_response = []\<rparr>"

definition origin_allowed :: "HttpRequest \<Rightarrow> ServerConfig \<Rightarrow> bool" where
  "origin_allowed r c =
     (cfg_ws_origins c = [] \<or>
      (let origin = map to_lower (trim_find is_ows (headers_get (req_headers r) ''Origin''))
       in list_ex (\<lambda>candidate. map to_lower candidate = origin \<and> origin \<noteq> []) (cfg_ws_origins c)))"

definition evaluate_upgrade :: "HttpRequest \<Rightarrow> ServerConfig \<Rightarrow> UpgradeResult" where
  "evaluate_upgrade r c =
     (if \<not> cfg_ws_enabled c then verdict_only NotAnUpgrade
      else if \<not> list_ex (\<lambda>p. p = target_path (req_target r)) (cfg_ws_paths c) then verdict_only NotAnUpgrade
      else if \<not> is_websocket_intent r then verdict_only NotAnUpgrade
      else if req_method r \<noteq> GET \<or> req_version r \<noteq> ''HTTP/1.1'' then verdict_only RejectedBadRequest
      else if \<not> header_has_token (headers_get (req_headers r) ''Connection'') ''upgrade''
      then verdict_only RejectedBadRequest
      else
        let version = trim_find is_ows (headers_get (req_headers r) ''Sec-WebSocket-Version'') in
        if version = [] then verdict_only RejectedBadRequest
        else if version \<noteq> ''13'' then verdict_only UnsupportedVersion
        else
          let key = trim_find is_ows (headers_get (req_headers r) ''Sec-WebSocket-Key'') in
          if key = [] then verdict_only RejectedBadRequest
          else
            let accept = compute_accept key in
            if accept = [] then verdict_only RejectedBadRequest
            else if \<not> origin_allowed r c then verdict_only ForbiddenOrigin
            else \<lparr>up_verdict = Accepted, up_accept = accept,
                  up_response = build_switching_protocols accept\<rparr>)"

definition build_rejection_response :: "UpgradeVerdict \<Rightarrow> HttpResponse" where
  "build_rejection_response verdict =
     (let response =
        (case verdict of
           ForbiddenOrigin \<Rightarrow> response_with_body Forbidden ''Origin not allowed for WebSocket upgrade''
         | UnsupportedVersion \<Rightarrow>
             response_set_header ''Sec-WebSocket-Version'' ''13''
               (response_with_body UpgradeRequired
                  ''Unsupported WebSocket version; this server requires version 13'')
         | _ \<Rightarrow> response_with_body BadRequest ''Bad WebSocket upgrade request'')
      in set_connection_policy Close
           (response_set_header ''Server'' ''Aevrix/1.0.0''
             (response_set_header ''Content-Type'' ''text/plain'' response)))"

subsection \<open>Tokens of a list header\<close>

function comma_parts :: "string \<Rightarrow> string list" where
  "comma_parts s = takeWhile (\<lambda>c. c \<noteq> CHR '','') s #
     (case dropWhile (\<lambda>c. c \<noteq> CHR '','') s of [] \<Rightarrow> [] | _ # r \<Rightarrow> comma_parts r)"
  by pat_completeness auto
termination
proof (relation "measure length")
  fix s :: string and y r assume "dropWhile (\<lambda>c. c \<noteq> CHR '','') s = y # r"
  then show "(r, s) \<in> measure length"
    using length_dropWhile_le [of "\<lambda>c. c \<noteq> CHR '',''" s] by simp
qed simp

declare comma_parts.simps [simp del]

definition token_of :: "string \<Rightarrow> string" where
  "token_of p = map to_lower (trim_by is_ows p)"

lemma has_token_from_iff:
  "start \<le> length v \<Longrightarrow> has_token_from v target start \<longleftrightarrow> target \<in> token_of ` set (comma_parts (drop start v))"
proof (induction v target start rule: has_token_from.induct)
  case (1 v target start)
  let ?t = "drop start v"
  define seg rest where "seg = takeWhile (\<lambda>c. c \<noteq> CHR '','') ?t" and "rest = dropWhile (\<lambda>c. c \<noteq> CHR '','') ?t"
  have t: "?t = seg @ rest" by (simp add: seg_def rest_def)
  have find: "find_from (\<lambda>c. c = CHR '','') v start = (case rest of [] \<Rightarrow> None | _ # _ \<Rightarrow> Some (start + length seg))"
    unfolding find_from_char rest_def seg_def by (rule refl)
  have item: "(case find_from (\<lambda>c. c = CHR '','') v start of None \<Rightarrow> drop start v
      | Some k \<Rightarrow> substr v start (k - start)) = seg"
    by (cases rest) (simp_all add: find substr_def t)
  have step: "has_token_from v target start \<longleftrightarrow> token_of seg = target \<or>
      (rest \<noteq> [] \<and> has_token_from v target (start + length seg + 1))"
    using 1(2) by (subst has_token_from.simps) (simp add: Let_def item trim_find_eq token_of_def,
      cases rest, simp_all add: find)
  have parts: "comma_parts ?t = seg # (case rest of [] \<Rightarrow> [] | _ # r \<Rightarrow> comma_parts r)"
    unfolding comma_parts.simps [of ?t] seg_def rest_def by (rule refl)
  show ?case
  proof (cases rest)
    case Nil
    then show ?thesis unfolding step parts by auto
  next
    case (Cons x r)
    have len: "length v = start + length seg + length rest"
      using 1(2) arg_cong [OF t, of length] by simp
    have dr: "drop (start + length seg + 1) v = r"
    proof -
      have "drop (start + length seg + 1) v = drop (Suc (length seg)) ?t" by (simp add: add.commute)
      then show ?thesis by (simp add: t Cons)
    qed
    have "has_token_from v target (start + length seg + 1) \<longleftrightarrow> target \<in> token_of ` set (comma_parts r)"
      if "token_of seg \<noteq> target"
      unfolding dr [symmetric]
      by (rule 1(1) [OF 1(2) refl refl])
        (use that len Cons in \<open>simp_all add: trim_find_eq token_of_def [symmetric] find substr_def t\<close>)
    then show ?thesis unfolding step parts by (auto simp: Cons)
  qed
qed

lemma header_has_token_iff:
  "header_has_token v token \<longleftrightarrow> list_ex (\<lambda>p. eq_icase (trim_by is_ows p) token) (comma_parts v)"
  using has_token_from_iff [of 0 v "map to_lower token"]
  unfolding header_has_token_def list_ex_iff eq_icase_def token_of_def by (simp add: image_iff) metis

subsection \<open>What an accepted upgrade looks like\<close>

lemma sha1_length: "length (sha1 d) = 20"
proof -
  have "length (concat (map word_bytes (process_block b s))) = 20" for b s
    by (simp add: process_block_def word_bytes_def split: prod.split)
  then show ?thesis by (simp add: sha1_def sha_finish_def Let_def split: prod.split)
qed

lemma base64_encode_sha1_length: "length (base64_encode (sha1 d)) = 28"
  by (simp add: base64_encode_length sha1_length)

lemma base64_encode_sha1_nonempty: "base64_encode (sha1 d) \<noteq> []"
  using base64_encode_sha1_length [of d] by auto

lemma compute_accept_nonempty:
  "compute_accept k \<noteq> [] \<longleftrightarrow> (\<exists>d. base64_decode k = Some d \<and> length d = 16)"
  by (auto simp del: map_append simp: compute_accept_def base64_encode_sha1_nonempty split: option.split)

lemma compute_accept_some:
  "compute_accept k \<noteq> [] \<Longrightarrow> compute_accept k = base64_encode (sha1_spec (map of_char (k @ kWebSocketGuid)))"
  by (auto simp del: map_append simp: compute_accept_def sha1_eq_spec split: option.splits if_splits)

text \<open>The conditions of RFC 6455 section 4.2.1, as one predicate.\<close>

definition valid_client_handshake :: "HttpRequest \<Rightarrow> bool" where
  "valid_client_handshake r \<longleftrightarrow>
     req_method r = GET \<and> req_version r = ''HTTP/1.1'' \<and>
     list_ex (\<lambda>p. eq_icase (trim_by is_ows p) ''websocket'') (comma_parts (headers_get (req_headers r) ''Upgrade'')) \<and>
     list_ex (\<lambda>p. eq_icase (trim_by is_ows p) ''upgrade'') (comma_parts (headers_get (req_headers r) ''Connection'')) \<and>
     trim_by is_ows (headers_get (req_headers r) ''Sec-WebSocket-Version'') = ''13'' \<and>
     (case base64_decode (trim_by is_ows (headers_get (req_headers r) ''Sec-WebSocket-Key'')) of
        None \<Rightarrow> False | Some d \<Rightarrow> length d = 16)"

lemma compute_accept_empty_key: "compute_accept [] = []"
  by (simp add: compute_accept_def base64_decode_def)

lemma evaluate_accepted:
  "up_verdict (evaluate_upgrade r c) = Accepted \<longleftrightarrow>
     cfg_ws_enabled c \<and> target_path (req_target r) \<in> set (cfg_ws_paths c) \<and>
     valid_client_handshake r \<and> origin_allowed r c"
proof -
  let ?key = "trim_by is_ows (headers_get (req_headers r) ''Sec-WebSocket-Key'')"
  have key: "(?key = [] \<or> compute_accept ?key = []) \<longleftrightarrow>
      \<not> (case base64_decode ?key of None \<Rightarrow> False | Some d \<Rightarrow> length d = 16)"
    using compute_accept_nonempty [of ?key] compute_accept_empty_key
    by (cases "?key = []") (auto split: option.splits)
  show ?thesis
    using key
    by (simp add: evaluate_upgrade_def verdict_only_def is_websocket_intent_def valid_client_handshake_def
        header_has_token_iff trim_find_eq Let_def list_ex_iff) auto
qed

lemma evaluate_response:
  "evaluate_upgrade r c =
     (if up_verdict (evaluate_upgrade r c) = Accepted
      then let accept = base64_encode (sha1_spec (map of_char
                 (trim_by is_ows (headers_get (req_headers r) ''Sec-WebSocket-Key'') @ kWebSocketGuid)))
           in \<lparr>up_verdict = Accepted, up_accept = accept, up_response = build_switching_protocols accept\<rparr>
      else verdict_only (up_verdict (evaluate_upgrade r c)))"
  by (simp add: evaluate_upgrade_def verdict_only_def Let_def trim_find_eq compute_accept_some)

text \<open>
  C29: A request is upgraded exactly when the feature is on, its path (query and
  fragment cut) is listed, it is a valid RFC 6455 client handshake (GET over
  HTTP/1.1, the \<open>websocket\<close> and \<open>upgrade\<close> tokens in any case and any position,
  version 13, a key of 16 bytes) and the origin passes the allowlist; the response
  then carries the Base64 of the SHA-1 of key and GUID, and every other verdict
  carries no response at all.
\<close>

theorem upgrade_accepted_iff:
  "evaluate_upgrade r c =
     (if cfg_ws_enabled c \<and> target_path (req_target r) \<in> set (cfg_ws_paths c) \<and>
         valid_client_handshake r \<and> origin_allowed r c
      then let accept = base64_encode (sha1_spec (map of_char
                 (trim_by is_ows (headers_get (req_headers r) ''Sec-WebSocket-Key'') @ kWebSocketGuid)))
           in \<lparr>up_verdict = Accepted, up_accept = accept, up_response = build_switching_protocols accept\<rparr>
      else verdict_only (up_verdict (evaluate_upgrade r c))) \<and>
   (up_verdict (evaluate_upgrade r c) = Accepted \<longleftrightarrow>
      cfg_ws_enabled c \<and> target_path (req_target r) \<in> set (cfg_ws_paths c) \<and>
      valid_client_handshake r \<and> origin_allowed r c)"
  using evaluate_response [of r c] unfolding evaluate_accepted by (rule conjI) (rule refl)

end
