(* ===== verification/Proxy_Target.thy ===== *)
theory Proxy_Target
  imports Prelude "HOL-Library.Word"
begin

section \<open>The upstream address: \<^verbatim>\<open>proxy_target.cpp\<close>\<close>

text \<open>
  \<open>parse_proxy_target\<close> reads the value of \<^verbatim>\<open>proxy_pass\<close>.  The C++
  function returns an optional and writes the reason of a failure to a string;
  here the result is a sum, \<open>Inl\<close> the reason.
\<close>

record ProxyTarget =
  pt_host :: string
  pt_port :: "16 word"

definition authority :: "ProxyTarget \<Rightarrow> string" where
  "authority t = pt_host t @ '':'' @ to_string (unat (pt_port t))"

definition is_valid_host_char :: "char \<Rightarrow> bool" where
  "is_valid_host_char c \<longleftrightarrow>
     \<not> (code c \<le> 0x20 \<or> code c = 0x7F) \<and> c \<notin> set ''/?#@'' \<and> c \<noteq> CHR 0x5C"

definition is_valid_host :: "string \<Rightarrow> bool" where
  "is_valid_host host \<longleftrightarrow> host \<noteq> [] \<and> list_all is_valid_host_char host"

definition quoted :: "string \<Rightarrow> string" where
  "quoted s = CHR 0x27 # s @ [CHR 0x27]"

fun port_value :: "string \<Rightarrow> 32 word \<Rightarrow> 32 word option" where
  "port_value [] v = Some v"
| "port_value (c # s) v =
     (if \<not> is_digit c then None else port_value s (v * 10 + of_nat (digit_value c)))"

definition parse_port :: "string \<Rightarrow> string + 16 word" where
  "parse_port t =
     (if t = [] \<or> length t > 5 then Inl (''invalid port '' @ quoted t @ '' in proxy_pass'')
      else case port_value t 0 of
        None \<Rightarrow> Inl (''invalid port '' @ quoted t @ '' in proxy_pass'')
      | Some v \<Rightarrow>
          if v = 0 \<or> v > 65535 then Inl (''port '' @ quoted t @ '' out of range in proxy_pass'')
          else Inr (ucast v))"

definition split_scheme :: "string \<Rightarrow> string + string" where
  "split_scheme t =
     (case find_sub ''://'' t of
        None \<Rightarrow> Inr t
      | Some k \<Rightarrow>
          let scheme = map to_lower (substr t 0 k) in
          if scheme \<noteq> ''http''
          then Inl (''unsupported proxy_pass scheme '' @ quoted scheme @
                    '' (only http:// upstreams are supported)'')
          else Inr (drop (k + 3) t))"

definition cut_authority :: "string \<Rightarrow> string" where
  "cut_authority t = (case find_idx (\<lambda>c. c \<in> set ''/?#'') t of None \<Rightarrow> t | Some k \<Rightarrow> substr t 0 k)"

definition split_host_port :: "string \<Rightarrow> string + string \<times> string" where
  "split_host_port t =
     (if hd t = CHR ''['' then
        (case find_char (CHR '']'') t of
           None \<Rightarrow> Inl ''unterminated IPv6 literal in proxy_pass''
         | Some k \<Rightarrow>
             let host = substr t 1 (k - 1); remainder = drop (k + 1) t in
             if remainder = [] then Inr (host, [])
             else if hd remainder \<noteq> CHR '':''
             then Inl (''malformed proxy_pass authority '' @ quoted t)
             else Inr (host, tl remainder))
      else
        (case find_char (CHR '':'') t of
           None \<Rightarrow> Inr (t, [])
         | Some first \<Rightarrow>
             if find_last_idx (\<lambda>c. c = CHR '':'') t = Some first
             then Inr (substr t 0 first, drop (first + 1) t)
             else Inl ''IPv6 proxy_pass targets must use the [address]:port form''))"

definition parse_proxy_target :: "string \<Rightarrow> string + ProxyTarget" where
  "parse_proxy_target v =
     (let t = trim_loop is_lws v in
      if t = [] then Inl ''proxy_pass is empty''
      else case split_scheme t of
        Inl e \<Rightarrow> Inl e
      | Inr t \<Rightarrow>
          let t = cut_authority t in
          if t = [] then Inl ''proxy_pass has no host component''
          else case split_host_port t of
            Inl e \<Rightarrow> Inl e
          | Inr (host, port_text) \<Rightarrow>
              if \<not> is_valid_host host then Inl (''invalid host '' @ quoted host @ '' in proxy_pass'')
              else if port_text = [] then Inr \<lparr>pt_host = host, pt_port = 80\<rparr>
              else case parse_port port_text of
                Inl e \<Rightarrow> Inl e
              | Inr p \<Rightarrow> Inr \<lparr>pt_host = host, pt_port = p\<rparr>)"

subsection \<open>Ports\<close>

lemma port_value_digits:
  "port_value s v = (if list_all is_digit s then Some (foldl (\<lambda>v c. v * 10 + of_nat (digit_value c)) v s) else None)"
  by (induction s v rule: port_value.induct) auto

lemma fold_digits: "foldl (\<lambda>v c. v * 10 + of_nat (digit_value c)) 0 s = (of_nat (digits_value s) :: 32 word)"
  by (induction s rule: rev_induct) (simp_all add: digits_value_def)

lemma port_value_eq:
  "port_value s 0 = (if list_all is_digit s then Some (of_nat (digits_value s)) else None)"
  by (simp add: port_value_digits fold_digits)

text \<open>Five digits do not overflow 32 bits, so the range check sees the number that was written.\<close>

lemma parse_port_iff:
  "parse_port s = Inr p \<longleftrightarrow>
     s \<noteq> [] \<and> length s \<le> 5 \<and> list_all is_digit s \<and> 0 < digits_value s \<and> digits_value s \<le> 65535 \<and>
     p = of_nat (digits_value s)"
proof (cases "s \<noteq> [] \<and> length s \<le> 5 \<and> list_all is_digit s")
  case True
  let ?n = "digits_value s"
  have "?n < 10 ^ length s" using digits_value_bound [of s] True by (simp add: list_all_iff)
  also have "(10::nat) ^ length s \<le> 10 ^ 5" using True by (intro power_increasing) simp_all
  finally have n: "?n < 100000" by simp
  then have u: "unat (of_nat ?n :: 32 word) = ?n" by (simp add: unsigned_of_nat take_bit_nat_eq_self)
  have z: "(of_nat ?n :: 32 word) = 0 \<longleftrightarrow> ?n = 0" by (simp only: word_unat_eq_iff u unat_0)
  have g: "(of_nat ?n :: 32 word) > 65535 \<longleftrightarrow> ?n > 65535"
    unfolding word_less_nat_alt u by simp
  have c: "(ucast (of_nat ?n :: 32 word) :: 16 word) = of_nat ?n"
    unfolding word_unat_eq_iff unsigned_ucast_eq u unsigned_of_nat by simp
  show ?thesis using True z g c by (auto simp: parse_port_def port_value_eq)
qed (auto simp: parse_port_def port_value_eq)

lemma parse_port_to_string:
  assumes "p \<noteq> 0"
  shows "parse_port (to_string (unat p)) = Inr p"
proof -
  have lt: "unat p < 65536" using unsigned_less [of p] by simp
  have "length (to_string n) \<le> k" if "n < 10 ^ k" "0 < k" for n k
    using that
  proof (induction n arbitrary: k rule: to_string.induct)
    case (1 n)
    show ?case
    proof (cases "n < 10")
      case False
      with 1(2) have "1 < k" by (cases k; cases "k - 1") auto
      then obtain j where k: "k = Suc j" "0 < j" by (cases k) auto
      with 1(2) have "n div 10 < 10 ^ j" by simp
      from 1(1) [OF False this k(2)] False k show ?thesis by (simp add: to_string.simps [of n])
    qed (use 1(3) in \<open>simp add: to_string.simps [of n]\<close>)
  qed
  from this [of "unat p" 5] lt have "length (to_string (unat p)) \<le> 5" by simp
  moreover have "0 < unat p" using assms by (simp add: unat_gt_0)
  ultimately show ?thesis using lt
    by (simp add: parse_port_iff digits_value_to_string list_all_iff to_string_digits)
qed

subsection \<open>Host and port\<close>

text \<open>The text that names a target: brackets where the host could not be told from the port.\<close>

definition needs_brackets :: "string \<Rightarrow> bool" where
  "needs_brackets host \<longleftrightarrow> CHR '':'' \<in> set host \<or> hd host = CHR ''[''"

definition bracketed :: "string \<Rightarrow> string" where
  "bracketed host = (if needs_brackets host then CHR ''['' # host @ '']'' else host)"

definition render_target :: "ProxyTarget \<Rightarrow> string" where
  "render_target t = ''http://'' @ bracketed (pt_host t) @ '':'' @ to_string (unat (pt_port t))"

definition target_ok :: "ProxyTarget \<Rightarrow> bool" where
  "target_ok t \<longleftrightarrow> is_valid_host (pt_host t) \<and> pt_port t \<noteq> 0 \<and>
     (\<not> needs_brackets (pt_host t) \<or> CHR '']'' \<notin> set (pt_host t))"

lemma find_last_idx_last:
  "P x \<Longrightarrow> \<forall>y \<in> set b. \<not> P y \<Longrightarrow> find_last_idx P (a @ x # b) = Some (length a)"
  using find_idx_first [of "rev b" P x "rev a"] by (simp add: find_last_idx_def)

lemma split_host_port_cases:
  assumes "split_host_port t = Inr (h, ps)" "t \<noteq> []"
  shows "\<not> needs_brackets h \<or> CHR '']'' \<notin> set h"
proof (cases "hd t = CHR ''[''")
  case True
  with assms obtain k where k: "find_char (CHR '']'') t = Some k" "h = substr t 1 (k - 1)"
    by (auto simp: split_host_port_def Let_def split: option.splits if_splits)
  from find_char_SomeD [OF k(1)] have "CHR '']'' \<notin> set (take k t)" by (auto simp: in_set_conv_nth)
  moreover have "set h \<subseteq> set (take k t)"
    unfolding k(2) substr_def by (metis drop_take set_drop_subset)
  ultimately show ?thesis by blast
next
  case False
  show ?thesis
  proof (cases "find_char (CHR '':'') t")
    case None
    with False assms(1) have "h = t" by (simp add: split_host_port_def)
    moreover have "CHR '':'' \<notin> set t" using None by (auto simp: find_char_def find_idx_None_iff)
    ultimately show ?thesis using False by (simp add: needs_brackets_def)
  next
    case (Some k)
    with False assms(1) have h: "h = take k t"
      by (auto simp: split_host_port_def substr_def split: if_splits)
    from find_char_SomeD [OF Some] have "CHR '':'' \<notin> set h" unfolding h by (auto simp: in_set_conv_nth)
    moreover have "h = [] \<or> hd h = hd t" unfolding h by (cases k) (auto simp: assms(2))
    ultimately show ?thesis using False by (auto simp: needs_brackets_def)
  qed
qed

lemma split_host_port_render:
  assumes "h \<noteq> []" "\<not> needs_brackets h \<or> CHR '']'' \<notin> set h" "CHR '':'' \<notin> set ps"
  shows "split_host_port (bracketed h @ CHR '':'' # ps) = Inr (h, ps)"
proof (cases "needs_brackets h")
  case True
  let ?t = "(CHR ''['' # h) @ CHR '']'' # CHR '':'' # ps"
  have "find_char (CHR '']'') ?t = Some (length (CHR ''['' # h))"
    by (rule find_char_first) (use True assms(2) in simp)
  then show ?thesis using True by (simp add: split_host_port_def bracketed_def substr_def)
next
  case False
  then have c: "CHR '':'' \<notin> set h" "hd h \<noteq> CHR ''[''" by (simp_all add: needs_brackets_def)
  have "find_char (CHR '':'') (h @ CHR '':'' # ps) = Some (length h)"
    "find_last_idx (\<lambda>c. c = CHR '':'') (h @ CHR '':'' # ps) = Some (length h)"
    using c(1) assms(3) by (auto intro!: find_char_first find_last_idx_last)
  with c assms(1) False show ?thesis by (simp add: split_host_port_def bracketed_def substr_def)
qed

lemma parse_port_nonzero: "parse_port s = Inr p \<Longrightarrow> p \<noteq> 0"
  by (auto simp: parse_port_iff word_unat_eq_iff unsigned_of_nat take_bit_nat_eq_self)

lemma parse_proxy_target_ok: "parse_proxy_target v = Inr t \<Longrightarrow> target_ok t"
  unfolding parse_proxy_target_def Let_def
  by (auto simp: target_ok_def dest: split_host_port_cases parse_port_nonzero
      split: if_splits sum.splits prod.splits)

lemma digit_valid_host: "is_digit c \<Longrightarrow> is_valid_host_char c"
  by (auto simp: is_valid_host_char_def is_digit_def code_def)

lemma bracket_valid_host:
  "is_valid_host_char (CHR ''['')" "is_valid_host_char (CHR '']'')" "is_valid_host_char (CHR '':'')"
  by (simp_all add: is_valid_host_char_def code_def)

lemma lws_not_host: "is_lws c \<Longrightarrow> \<not> is_valid_host_char c"
  unfolding is_lws_def by (elim disjE) (simp_all add: is_valid_host_char_def code_def)

lemma parse_render:
  assumes "target_ok t"
  shows "parse_proxy_target (render_target t) = Inr t"
proof -
  let ?ps = "to_string (unat (pt_port t))"
  let ?a = "bracketed (pt_host t) @ CHR '':'' # ?ps"
  have h: "is_valid_host (pt_host t)" "pt_port t \<noteq> 0" using assms by (simp_all add: target_ok_def)
  have "list_all is_valid_host_char ?a"
    using h(1) digit_valid_host
    by (auto simp: bracketed_def is_valid_host_def list_all_iff to_string_digits bracket_valid_host)
  then have ac: "c \<in> set ?a \<Longrightarrow> is_valid_host_char c" for c unfolding list_all_iff by blast
  have lws: "is_valid_host_char c \<Longrightarrow> \<not> is_lws c" for c
    using lws_not_host by blast
  have r: "render_target t = ''http://'' @ ?a" by (simp add: render_target_def)
  have "\<not> is_lws c" if "c \<in> set (''http://'' @ ?a)" for c
  proof (cases "c \<in> set ?a")
    case False
    with that have "c \<in> set ''http://''" unfolding set_append by blast
    then show ?thesis by (auto simp: is_lws_def)
  qed (rule lws [OF ac])
  then have trim: "trim_loop is_lws (''http://'' @ ?a) = ''http://'' @ ?a"
    unfolding trim_loop_eq by (intro trim_by_none ballI)
  have scheme: "split_scheme (''http://'' @ ?a) = Inr ?a"
    by (simp add: split_scheme_def substr_def to_lower_def is_upper_def code_def)
  have "\<forall>c \<in> set ?a. c \<notin> set ''/?#''" using ac by (auto simp: is_valid_host_char_def)
  then have "find_idx (\<lambda>c. c \<in> set ''/?#'') ?a = None" unfolding find_idx_None_iff .
  then have cut: "cut_authority ?a = ?a" by (simp add: cut_authority_def)
  have "CHR '':'' \<notin> set ?ps" using to_string_digits by (force simp: is_digit_def code_def)
  then have split: "split_host_port ?a = Inr (pt_host t, ?ps)"
    using assms h(1) by (intro split_host_port_render) (auto simp: target_ok_def is_valid_host_def)
  have ne: "''http://'' @ ?a \<noteq> []" "?a \<noteq> []" "?ps \<noteq> []" by simp_all
  show ?thesis
    unfolding r parse_proxy_target_def Let_def trim scheme sum.case cut split prod.case parse_port_to_string [OF h(2)]
    using ne h(1) by (simp only: if_False not_True_eq_False) simp
qed

subsection \<open>The pool key\<close>

lemma colon_not_in_digits: "CHR '':'' \<notin> set (to_string n)"
  using to_string_digits by (force simp: is_digit_def code_def)

lemma last_colon_split:
  assumes "a @ CHR '':'' # s = b @ CHR '':'' # t" "CHR '':'' \<notin> set s" "CHR '':'' \<notin> set t"
  shows "a = b \<and> s = t"
proof -
  have "find_last_idx (\<lambda>c. c = CHR '':'') (a @ CHR '':'' # s) = Some (length a)"
    "find_last_idx (\<lambda>c. c = CHR '':'') (b @ CHR '':'' # t) = Some (length b)"
    using assms(2,3) by (auto intro!: find_last_idx_last)
  then have "length a = length b" unfolding assms(1) by simp
  with assms(1) show ?thesis by simp
qed

lemma authority_inj:
  assumes "authority t = authority u"
  shows "t = u"
proof -
  from assms have "pt_host t @ CHR '':'' # to_string (unat (pt_port t)) = pt_host u @ CHR '':'' # to_string (unat (pt_port u))"
    by (simp add: authority_def)
  from last_colon_split [OF this colon_not_in_digits colon_not_in_digits]
  have "pt_host t = pt_host u" "pt_port t = pt_port u" by (simp_all add: word_unat_eq_iff)
  then show ?thesis by (cases t, cases u) (simp only: ProxyTarget.simps)
qed

text \<open>
  C30: A \<^verbatim>\<open>proxy_pass\<close> value that is accepted gives a host without white space,
  control characters or delimiters and a port other than 0 that is the number
  written, and the target written out again (brackets where the host has a colon)
  is accepted with the same result; two different targets never share the
  authority under which the pool keeps their connections.
\<close>

theorem proxy_target_normal_form:
  assumes "parse_proxy_target v = Inr t"
  shows "is_valid_host (pt_host t) \<and> pt_port t \<noteq> 0 \<and>
    parse_proxy_target (render_target t) = Inr t \<and> (authority u = authority t \<longleftrightarrow> u = t)"
  using parse_proxy_target_ok [OF assms] parse_render [of t] authority_inj [of u t]
  by (auto simp: target_ok_def)

lemma proxy_target_normal_form_witness:
  "parse_proxy_target '' HTTP://[fe80::1]:9001/base?x '' = Inr \<lparr>pt_host = ''fe80::1'', pt_port = 9001\<rparr> \<and>
   parse_proxy_target (render_target \<lparr>pt_host = ''fe80::1'', pt_port = 9001\<rparr>) = Inr \<lparr>pt_host = ''fe80::1'', pt_port = 9001\<rparr>"
proof -
  have "parse_proxy_target '' HTTP://[fe80::1]:9001/base?x '' = Inr \<lparr>pt_host = ''fe80::1'', pt_port = 9001\<rparr>"
    by code_simp
  from proxy_target_normal_form [OF this] this show ?thesis by blast
qed

end
