(* ===== verification/Proxy_Request.thy ===== *)
theory Proxy_Request
  imports Request_Parser Proxy_Target
begin

section \<open>The request sent upstream: \<^verbatim>\<open>proxy_request_builder.cpp\<close>\<close>

text \<open>
  Which targets are proxied, how the path is rewritten and how a client request is
  rendered for the upstream.  \<open>upstream_request\<close> is what the rendered text is
  meant to say; the request parser of this server reads the text back as exactly that.
\<close>

record ProxyRequestOptions =
  pro_prefix :: string
  pro_strip_prefix :: bool
  pro_forwarded_proto :: string
  pro_client_ip :: string

definition split_target :: "string \<Rightarrow> string \<times> string" where
  "split_target target =
     (case find_char (CHR ''?'') target of
        None \<Rightarrow> (target, [])
      | Some question \<Rightarrow> (substr target 0 question, drop question target))"

definition proxy_target_matches :: "string \<Rightarrow> string \<Rightarrow> bool" where
  "proxy_target_matches client_target prefix =
     (if prefix = [] then False
      else if prefix = ''/'' then client_target \<noteq> [] \<and> hd client_target = CHR ''/''
      else let (path, query) = split_target client_target in
        if \<not> has_prefix prefix path then False
        else if length path = length prefix then True
        else if last prefix = CHR ''/'' then True
        else path ! length prefix = CHR ''/'')"

definition proxy_upstream_path :: "string \<Rightarrow> string \<Rightarrow> bool \<Rightarrow> string" where
  "proxy_upstream_path client_target prefix strip_prefix =
     (let (path, query) = split_target client_target;
          path = (if path = [] then ''/'' else path);
          path = (if strip_prefix \<and> prefix \<noteq> [] \<and> prefix \<noteq> ''/'' \<and> has_prefix prefix path
                  then drop (length prefix) path else path);
          path = (if path = [] \<or> hd path \<noteq> CHR ''/'' then CHR ''/'' # path else path)
      in path @ query)"

definition kHopByHopHeaders :: "string list" where
  "kHopByHopHeaders = [''connection'', ''keep-alive'', ''proxy-authenticate'', ''proxy-authorization'',
     ''te'', ''trailer'', ''transfer-encoding'', ''upgrade'']"

definition is_hop_by_hop_header :: "string \<Rightarrow> bool" where
  "is_hop_by_hop_header normalized_name = list_ex (\<lambda>name. normalized_name = name) kHopByHopHeaders"

definition forwarded_for :: "HttpRequest \<Rightarrow> ProxyRequestOptions \<Rightarrow> string" where
  "forwarded_for r opts =
     (let ff = headers_get (req_headers r) ''X-Forwarded-For'' in
      if pro_client_ip opts \<noteq> []
      then (if ff = [] then pro_client_ip opts else ff @ '', '' @ pro_client_ip opts) else ff)"

definition is_forwarded_header :: "HttpHeader \<Rightarrow> bool" where
  "is_forwarded_header h =
     (if header_norm h = ''host'' \<or> header_norm h = ''content-length'' \<or>
         header_norm h = ''x-forwarded-for'' \<or> header_norm h = ''x-forwarded-proto'' \<or>
         header_norm h = ''x-forwarded-host'' then False
      else if is_hop_by_hop_header (header_norm h) then False
      else header_is_valid h)"

definition header_text :: "string \<Rightarrow> string \<Rightarrow> string" where
  "header_text name value = name @ '': '' @ value @ CRLF"

definition build_upstream_request :: "HttpRequest \<Rightarrow> ProxyTarget \<Rightarrow> ProxyRequestOptions \<Rightarrow> string" where
  "build_upstream_request r t opts =
     (let body = req_body r; ff = forwarded_for r opts; inbound_host = headers_get (req_headers r) ''Host'';
          out = http_method_to_string (req_method r) @ '' '' @
                proxy_upstream_path (req_target r) (pro_prefix opts) (pro_strip_prefix opts) @
                '' HTTP/1.1'' @ CRLF;
          out = out @ header_text ''Host'' (authority t);
          out = (if ff \<noteq> [] then out @ header_text ''X-Forwarded-For'' ff else out);
          out = (if pro_forwarded_proto opts \<noteq> []
                 then out @ header_text ''X-Forwarded-Proto'' (pro_forwarded_proto opts) else out);
          out = (if inbound_host \<noteq> [] then out @ header_text ''X-Forwarded-Host'' inbound_host else out);
          out = foldl (\<lambda>out h. if is_forwarded_header h
                               then out @ header_text (header_name h) (header_value h) else out)
                  out (req_headers r);
          out = (if body \<noteq> [] \<or> headers_has (req_headers r) ''Content-Length''
                 then out @ header_text ''Content-Length'' (to_string (length body)) else out);
          out = out @ ''Connection: keep-alive'' @ CRLF
      in out @ CRLF @ body)"

subsection \<open>Paths\<close>

definition clean_prefix :: "string \<Rightarrow> bool" where
  "clean_prefix p \<longleftrightarrow> p \<noteq> [] \<and> hd p = CHR ''/'' \<and> last p \<noteq> CHR ''/'' \<and> CHR ''?'' \<notin> set p"

lemma split_target_eq:
  "split_target t = (takeWhile (\<lambda>c. c \<noteq> CHR ''?'') t, dropWhile (\<lambda>c. c \<noteq> CHR ''?'') t)"
proof (cases "find_char (CHR ''?'') t")
  case None
  then have "CHR ''?'' \<notin> set t" by (auto simp: find_char_def find_idx_None_iff)
  then have "\<forall>c \<in> set t. c \<noteq> CHR ''?''" by blast
  with None show ?thesis by (simp add: split_target_def takeWhile_eq_all_conv [THEN iffD2] dropWhile_eq_Nil_conv [THEN iffD2])
next
  case (Some k)
  then show ?thesis
    using find_idx_takeWhile [of "\<lambda>d. d = CHR ''?''" t k]
    by (simp add: split_target_def find_char_def substr_def)
qed

lemma split_target_prefix:
  "CHR ''?'' \<notin> set p \<Longrightarrow> split_target (p @ rest) = (p @ fst (split_target rest), snd (split_target rest))"
proof -
  assume "CHR ''?'' \<notin> set p"
  then have "\<forall>c \<in> set p. c \<noteq> CHR ''?''" by blast
  then show ?thesis by (simp add: split_target_eq)
qed

lemma split_target_append: "fst (split_target t) @ snd (split_target t) = t"
  by (simp add: split_target_eq)

lemma split_target_hd:
  "fst (split_target t) = [] \<longleftrightarrow> t = [] \<or> hd t = CHR ''?''"
  unfolding split_target_eq fst_conv by (cases t) simp_all

lemma split_target_hd_eq: "fst (split_target t) \<noteq> [] \<Longrightarrow> hd (fst (split_target t)) = hd t"
  unfolding split_target_eq fst_conv by (cases t) (simp_all split: if_splits)

lemma proxy_path_rewrite_lemma:
  assumes "clean_prefix p"
  shows "proxy_target_matches (p @ rest) p \<longleftrightarrow> rest = [] \<or> hd rest = CHR ''/'' \<or> hd rest = CHR ''?''"
    "proxy_upstream_path (p @ rest) p True =
       (if rest = [] \<or> hd rest \<noteq> CHR ''/'' then CHR ''/'' # rest else rest)"
proof -
  from assms have p: "p \<noteq> []" "p \<noteq> ''/''" "last p \<noteq> CHR ''/''" "CHR ''?'' \<notin> set p"
    by (auto simp: clean_prefix_def)
  let ?a = "fst (split_target rest)"
  have "split_target (p @ rest) = (p @ ?a, snd (split_target rest))" by (rule split_target_prefix [OF p(4)])
  moreover have "?a = [] \<longleftrightarrow> rest = [] \<or> hd rest = CHR ''?''" by (rule split_target_hd)
  moreover have "?a \<noteq> [] \<Longrightarrow> ?a ! 0 = hd rest" using split_target_hd_eq [of rest] by (simp add: hd_conv_nth)
  moreover have "?a @ snd (split_target rest) = rest" by (rule split_target_append)
  moreover have "?a = [] \<Longrightarrow> snd (split_target rest) = rest" using split_target_append [of rest] by simp
  ultimately show "proxy_target_matches (p @ rest) p \<longleftrightarrow> rest = [] \<or> hd rest = CHR ''/'' \<or> hd rest = CHR ''?''"
    "proxy_upstream_path (p @ rest) p True =
       (if rest = [] \<or> hd rest \<noteq> CHR ''/'' then CHR ''/'' # rest else rest)"
    using p by (auto simp: proxy_target_matches_def proxy_upstream_path_def nth_append hd_conv_nth)
qed

lemma proxy_matches_prefix: "clean_prefix p \<Longrightarrow> proxy_target_matches t p \<Longrightarrow> \<exists>rest. t = p @ rest"
  using split_target_append [of t]
  by (auto simp: proxy_target_matches_def clean_prefix_def has_prefix_iff split: if_splits prod.splits)

text \<open>
  With a prefix such as \<^verbatim>\<open>/api\<close> exactly the targets \<^verbatim>\<open>/api\<close>,
  \<^verbatim>\<open>/api/...\<close> and \<^verbatim>\<open>/api?...\<close> are proxied, never \<^verbatim>\<open>/apifoo\<close>;
  the upstream sees what follows the prefix, query included, always starting with
  a slash.
\<close>

theorem proxy_path_rewrite:
  assumes "clean_prefix p"
  shows "(proxy_target_matches t p \<longleftrightarrow>
      (\<exists>rest. t = p @ rest \<and> (rest = [] \<or> hd rest = CHR ''/'' \<or> hd rest = CHR ''?''))) \<and>
    proxy_upstream_path (p @ rest) p True =
      (if rest = [] \<or> hd rest \<noteq> CHR ''/'' then CHR ''/'' # rest else rest)"
  using proxy_path_rewrite_lemma [OF assms] proxy_matches_prefix [OF assms, of t] by blast

lemma proxy_path_rewrite_witness:
  "clean_prefix ''/api'' \<and> proxy_target_matches ''/api/users?id=7'' ''/api'' \<and>
   \<not> proxy_target_matches ''/apifoo'' ''/api'' \<and>
   proxy_upstream_path (''/api'' @ ''?q'') ''/api'' True = ''/?q''"
proof -
  have p: "clean_prefix ''/api''" by code_simp
  from proxy_path_rewrite [OF p, of "''/api/users?id=7''" "''?q''"] p show ?thesis
    by (auto simp: proxy_target_matches_def split_target_eq has_prefix_def)
qed

subsection \<open>What the upstream is told\<close>

definition opt_header :: "string \<Rightarrow> string \<Rightarrow> HttpHeaders" where
  "opt_header n v = (if v \<noteq> [] then [make_header n v] else [])"

definition upstream_length :: "HttpRequest \<Rightarrow> string" where
  "upstream_length r =
     (if req_body r \<noteq> [] \<or> headers_has (req_headers r) ''Content-Length''
      then to_string (length (req_body r)) else [])"

definition upstream_headers :: "HttpRequest \<Rightarrow> ProxyTarget \<Rightarrow> ProxyRequestOptions \<Rightarrow> HttpHeaders" where
  "upstream_headers r t opts =
     make_header ''Host'' (authority t) # opt_header ''X-Forwarded-For'' (forwarded_for r opts) @
     opt_header ''X-Forwarded-Proto'' (pro_forwarded_proto opts) @
     opt_header ''X-Forwarded-Host'' (headers_get (req_headers r) ''Host'') @
     filter is_forwarded_header (req_headers r) @
     opt_header ''Content-Length'' (upstream_length r) @ [make_header ''Connection'' ''keep-alive'']"

definition upstream_request :: "HttpRequest \<Rightarrow> ProxyTarget \<Rightarrow> ProxyRequestOptions \<Rightarrow> HttpRequest" where
  "upstream_request r t opts =
     \<lparr>req_method = req_method r,
      req_target = proxy_upstream_path (req_target r) (pro_prefix opts) (pro_strip_prefix opts),
      req_version = ''HTTP/1.1'', req_headers = upstream_headers r t opts, req_body = req_body r\<rparr>"

text \<open>
  A value that can stand on a header line, a request as the parser delivers it and
  options as the server sets them.
\<close>

definition value_ok :: "string \<Rightarrow> bool" where
  "value_ok v \<longleftrightarrow> trim_whitespace v = v \<and> CR \<notin> set v"

definition client_request_ok :: "HttpRequest \<Rightarrow> bool" where
  "client_request_ok r \<longleftrightarrow>
     req_method r \<noteq> HTTP_UNKNOWN \<and> word_ok (req_target r) \<and> headers_wf (req_headers r) \<and>
     list_all is_valid_name (req_headers r) \<and> request_framed r \<and> length (req_body r) < 2 ^ 64 \<and>
     CR \<notin> set (headers_get (req_headers r) ''Host'') \<and>
     CR \<notin> set (headers_get (req_headers r) ''X-Forwarded-For'')"

definition options_ok :: "ProxyRequestOptions \<Rightarrow> bool" where
  "options_ok opts \<longleftrightarrow> value_ok (pro_forwarded_proto opts) \<and> value_ok (pro_client_ip opts)"

lemma norm_literals:
  "normalize_name ''Host'' = ''host''" "normalize_name ''X-Forwarded-For'' = ''x-forwarded-for''"
  "normalize_name ''X-Forwarded-Proto'' = ''x-forwarded-proto''"
  "normalize_name ''X-Forwarded-Host'' = ''x-forwarded-host''"
  "normalize_name ''Content-Length'' = ''content-length''" "normalize_name ''Connection'' = ''connection''"
  by code_simp+

lemma value_ok_Nil [simp]: "value_ok []"
  by (simp add: value_ok_def)

lemma value_ok_trim: "value_ok v \<Longrightarrow> trim_whitespace v = v"
  by (simp add: value_ok_def)

lemma value_ok_plain:
  assumes "\<And>c. c \<in> set v \<Longrightarrow> \<not> is_lws c"
  shows "value_ok v"
proof -
  have "CR \<notin> set v" using assms [of CR] by (auto simp: is_lws_def)
  moreover have "trim_by is_lws v = v" using assms by (intro trim_by_none) blast
  ultimately show ?thesis by (simp add: value_ok_def trim_whitespace_eq)
qed

lemma value_ok_get:
  assumes "headers_wf hs" "CR \<notin> set (headers_get hs n)"
  shows "value_ok (headers_get hs n)"
proof (cases "header_map hs (normalize_name n)")
  case (Some v)
  then have "(normalize_name n, v) \<in> set (map (\<lambda>h. (header_norm h, header_value h)) hs)"
    unfolding header_map_def by (rule map_of_SomeD)
  then obtain h where "h \<in> set hs" "header_value h = v" by auto
  with assms(1) have "trim_whitespace v = v" by (auto simp: headers_wf_def list_all_iff)
  with Some assms(2) show ?thesis by (simp add: value_ok_def headers_get_map)
qed (simp add: headers_get_map)

lemma value_ok_comma:
  assumes "value_ok a" "value_ok b" "a \<noteq> []" "b \<noteq> []"
  shows "value_ok (a @ '', '' @ b)"
proof -
  have "\<not> is_lws (hd a)" "\<not> is_lws (last b)"
    using assms trim_by_ends [of is_lws a] trim_by_ends [of is_lws b]
    by (simp_all add: value_ok_def trim_whitespace_eq)
  with assms have "trim_by is_lws (a @ '', '' @ b) = a @ '', '' @ b"
    by (intro trim_by_id) simp_all
  with assms show ?thesis by (simp add: value_ok_def trim_whitespace_eq)
qed

lemma authority_ok: "target_ok t \<Longrightarrow> value_ok (authority t)"
proof (unfold authority_def, rule value_ok_plain)
  fix c assume t: "target_ok t" and c: "c \<in> set (pt_host t @ '':'' @ to_string (unat (pt_port t)))"
  consider "c \<in> set (pt_host t)" | "c = CHR '':''" | "c \<in> set (to_string (unat (pt_port t)))" using c by auto
  then have "is_valid_host_char c"
    using t bracket_valid_host to_string_digits digit_valid_host
    by cases (auto simp: target_ok_def is_valid_host_def list_all_iff)
  then show "\<not> is_lws c" using lws_not_host by blast
qed

lemma to_string_value_ok: "value_ok (to_string n)"
  by (rule value_ok_plain) (use to_string_digits digit_valid_host lws_not_host in blast)

lemma upstream_length_ok: "value_ok (upstream_length r)"
  by (simp add: upstream_length_def to_string_value_ok)

lemma forwarded_for_ok:
  assumes "client_request_ok r" "options_ok opts"
  shows "value_ok (forwarded_for r opts)"
  using assms value_ok_get [of "req_headers r" "''X-Forwarded-For''"] value_ok_comma
  unfolding forwarded_for_def client_request_ok_def options_ok_def Let_def by (auto simp del: append_Cons)

lemma wire_headers_append: "wire_headers (a @ b) = wire_headers a @ wire_headers b"
  by (simp add: wire_headers_def)

lemma wire_opt_header:
  "value_ok v \<Longrightarrow> wire_headers (opt_header n v) = (if v \<noteq> [] then header_text n v else [])"
  by (simp add: opt_header_def wire_headers_def build_header_line_def header_text_def value_ok_trim)

lemma wire_one: "value_ok v \<Longrightarrow> wire_headers (make_header n v # hs) = header_text n v @ wire_headers hs"
  by (simp add: wire_headers_def build_header_line_def header_text_def value_ok_trim)

lemma fold_forwarded:
  "foldl (\<lambda>out h. out @ (if is_forwarded_header h then header_text (header_name h) (header_value h) else [])) out hs =
     out @ wire_headers (filter is_forwarded_header hs)"
  by (induction hs arbitrary: out) (simp_all add: wire_headers_def build_header_line_def header_text_def)

lemma append_if: "(if b then out @ x else out) = out @ (if b then x else [])"
  by simp

lemma keep_alive_ok: "value_ok ''keep-alive''"
  by (rule value_ok_plain) (auto simp: is_lws_def)

lemma build_upstream_wire:
  assumes "client_request_ok r" "target_ok t" "options_ok opts"
  shows "build_upstream_request r t opts = wire_request (upstream_request r t opts)"
proof -
  have h: "value_ok (headers_get (req_headers r) ''Host'')"
    using assms(1) by (intro value_ok_get) (simp_all add: client_request_ok_def)
  have p: "value_ok (pro_forwarded_proto opts)" using assms(3) by (simp add: options_ok_def)
  have version: "'' HTTP/1.1'' = '' '' @ ''HTTP/1.1''" by simp
  have keep: "''Connection: keep-alive'' = ''Connection'' @ '': '' @ ''keep-alive''" by simp
  have len: "wire_headers (opt_header ''Content-Length'' (upstream_length r)) =
      (if req_body r \<noteq> [] \<or> headers_has (req_headers r) ''Content-Length''
       then header_text ''Content-Length'' (to_string (length (req_body r))) else [])"
    unfolding wire_opt_header [OF upstream_length_ok] by (simp add: upstream_length_def)
  show ?thesis
    unfolding build_upstream_request_def Let_def fold_forwarded wire_request_def upstream_request_def
      HttpRequest.select_convs upstream_headers_def request_line_def wire_headers_append append_if
      wire_one [OF authority_ok [OF assms(2)]] wire_opt_header [OF forwarded_for_ok [OF assms(1,3)]]
      wire_opt_header [OF h] wire_opt_header [OF p] len wire_one [OF keep_alive_ok] wire_headers_Nil version keep
      header_text_def [of "''Connection''"] append_assoc append_Nil2
    by (rule refl)
qed

subsection \<open>The rendered request is well formed\<close>

lemma forwarded_header_norm:
  assumes "is_forwarded_header h"
  shows "header_norm h \<notin> {''host'', ''content-length'', ''x-forwarded-for'', ''x-forwarded-proto'', ''x-forwarded-host''}"
    "\<not> is_hop_by_hop_header (header_norm h)" "header_is_valid h"
  using assms by (auto simp: is_forwarded_header_def split: if_splits)

lemma connection_is_hop: "is_hop_by_hop_header ''connection''"
  by (simp add: is_hop_by_hop_header_def kHopByHopHeaders_def)

lemma opt_header_norm: "map header_norm (opt_header n v) = (if v \<noteq> [] then [normalize_name n] else [])"
  by (simp add: opt_header_def)

lemma forwarded_not_connection: "is_forwarded_header h \<Longrightarrow> header_norm h \<noteq> ''connection''"
  using forwarded_header_norm(2) [of h] connection_is_hop by auto

definition own_names :: "string list" where
  "own_names = [''host'', ''x-forwarded-for'', ''x-forwarded-proto'', ''x-forwarded-host'', ''content-length'', ''connection'']"

lemma own_distinct: "distinct own_names"
  by code_simp

lemma forwarded_not_own: "is_forwarded_header h \<Longrightarrow> header_norm h \<notin> set own_names"
  using forwarded_header_norm(1) [of h] forwarded_not_connection [of h] by (simp add: own_names_def)

text \<open>The order of the fields, with the six names kept abstract.\<close>

lemma distinct_fields:
  "distinct [a, b, c, d, e, f] \<Longrightarrow> distinct F \<Longrightarrow> (\<And>x. x \<in> set F \<Longrightarrow> x \<notin> set [a, b, c, d, e, f]) \<Longrightarrow>
     distinct (a # (if p then [b] else []) @ (if q then [c] else []) @ (if s then [d] else []) @ F @
               (if u then [e] else []) @ [f])"
  by auto

lemma upstream_headers_wf:
  assumes "headers_wf (req_headers r)"
  shows "headers_wf (upstream_headers r t opts)"
proof -
  let ?f = "filter is_forwarded_header (req_headers r)"
  have norms: "map header_norm (upstream_headers r t opts) =
      ''host'' # (if forwarded_for r opts \<noteq> [] then [''x-forwarded-for''] else []) @
      (if pro_forwarded_proto opts \<noteq> [] then [''x-forwarded-proto''] else []) @
      (if headers_get (req_headers r) ''Host'' \<noteq> [] then [''x-forwarded-host''] else []) @ map header_norm ?f @
      (if upstream_length r \<noteq> [] then [''content-length''] else []) @ [''connection'']"
    unfolding upstream_headers_def list.map map_append opt_header_norm norm_literals make_header_sel by (rule refl)
  have "distinct (map header_norm ?f)"
    using assms by (simp only: headers_wf_def distinct_map_filter)
  then have "distinct (map header_norm (upstream_headers r t opts))"
    unfolding norms by (rule distinct_fields [OF own_distinct [unfolded own_names_def]])
      (use forwarded_not_own [unfolded own_names_def] in auto)
  moreover have "list_all (\<lambda>h. header_norm h = normalize_name (header_name h) \<and>
      trim_whitespace (header_value h) = header_value h) (upstream_headers r t opts)"
    using assms by (auto simp: upstream_headers_def headers_wf_def opt_header_def list_all_iff)
  ultimately show ?thesis by (simp add: headers_wf_def)
qed

lemma list_all_opt_header:
  "(v \<noteq> [] \<Longrightarrow> P (make_header n v)) \<Longrightarrow> list_all P (opt_header n v)"
  by (simp add: opt_header_def)

lemma wire_ok_make: "list_all is_token_char n \<Longrightarrow> n \<noteq> [] \<Longrightarrow> value_ok v \<Longrightarrow> header_wire_ok (make_header n v)"
  by (simp add: header_wire_ok_def is_valid_name_def value_ok_def)

lemma token_literals:
  "list_all is_token_char ''Host''" "list_all is_token_char ''X-Forwarded-For''"
  "list_all is_token_char ''X-Forwarded-Proto''" "list_all is_token_char ''X-Forwarded-Host''"
  "list_all is_token_char ''Content-Length''" "list_all is_token_char ''Connection''"
  by code_simp+

lemma forwarded_wire_ok: "list_all header_wire_ok (filter is_forwarded_header hs)"
  using forwarded_header_norm(3) header_is_valid_no_break(3)
  by (auto simp: list_all_iff header_wire_ok_def header_is_valid_def)

lemma upstream_headers_wire_ok:
  assumes "client_request_ok r" "target_ok t" "options_ok opts"
  shows "list_all header_wire_ok (upstream_headers r t opts)"
proof -
  have h: "value_ok (headers_get (req_headers r) ''Host'')"
    using assms(1) by (intro value_ok_get) (simp_all add: client_request_ok_def)
  have p: "value_ok (pro_forwarded_proto opts)" using assms(3) by (simp add: options_ok_def)
  show ?thesis
    unfolding upstream_headers_def list_all_append list.pred_inject
    by (intro conjI list_all_opt_header wire_ok_make token_literals forwarded_wire_ok h p keep_alive_ok
        authority_ok [OF assms(2)] forwarded_for_ok [OF assms(1,3)] upstream_length_ok) simp_all
qed

lemma map_forwarded:
  assumes "headers_wf hs"
  shows "header_map (filter is_forwarded_header hs) n =
    (case find (\<lambda>h. header_norm h = n) hs of
       Some h \<Rightarrow> if is_forwarded_header h then Some (header_value h) else None | None \<Rightarrow> None)"
  using assms
proof (induction hs)
  case (Cons h hs)
  have "header_map (filter is_forwarded_header hs) n = None" if "header_norm h = n"
    using Cons.prems that by (auto simp: headers_wf_def header_map_None) (metis imageI)
  with Cons show ?case by (auto simp: header_map_Cons headers_wf_def)
qed simp

text \<open>The fields the proxy writes itself are not forwarded, nor those for one hop only.\<close>

lemma map_forwarded_own:
  assumes "n \<in> {''host'', ''x-forwarded-for'', ''x-forwarded-proto'', ''x-forwarded-host'', ''content-length''} \<or>
    is_hop_by_hop_header n"
  shows "header_map (filter is_forwarded_header hs) n = None"
  using assms forwarded_header_norm(1,2) by (auto simp: header_map_None)

lemma map_forwarded_other:
  assumes "headers_wf hs" "\<not> is_hop_by_hop_header n"
    "n \<notin> {''host'', ''x-forwarded-for'', ''x-forwarded-proto'', ''x-forwarded-host'', ''content-length''}"
  shows "header_map (filter is_forwarded_header hs) n =
    (case find (\<lambda>h. header_norm h = n) hs of
       Some h \<Rightarrow> if header_is_valid h then Some (header_value h) else None | None \<Rightarrow> None)"
proof (cases "find (\<lambda>h. header_norm h = n) hs")
  case (Some h)
  then have "header_norm h = n" by (auto simp: find_Some_iff)
  with assms(2,3) have "is_forwarded_header h \<longleftrightarrow> header_is_valid h" by (simp add: is_forwarded_header_def)
  with Some show ?thesis by (simp add: map_forwarded [OF assms(1)])
qed (simp add: map_forwarded [OF assms(1)])

definition nonempty :: "string \<Rightarrow> string option" where
  "nonempty v = (if v \<noteq> [] then Some v else None)"

text \<open>The lookup through the fields in order, with the six names kept abstract.\<close>

definition or_else :: "'a option \<Rightarrow> 'a option \<Rightarrow> 'a option" where
  "or_else a b = (case a of Some v \<Rightarrow> Some v | None \<Rightarrow> b)"

lemma or_else_simps [simp]: "or_else None b = b" "or_else (Some v) b = Some v" "or_else a None = a"
  by (simp_all add: or_else_def split: option.split)

lemma header_map_or_else: "header_map (xs @ ys) n = or_else (header_map xs n) (header_map ys n)"
  by (simp add: or_else_def header_map_append)

lemma map_opt_header:
  "value_ok v \<Longrightarrow> header_map (opt_header m v) n = (if m' = n then nonempty v else None)"
  if "normalize_name m = m'"
  using that by (simp add: opt_header_def header_map_Cons nonempty_def value_ok_trim)

lemma map_one_header:
  "value_ok v \<Longrightarrow> header_map (make_header m v # hs) n = or_else (if m' = n then Some v else None) (header_map hs n)"
  if "normalize_name m = m'"
  using that by (simp add: header_map_Cons value_ok_trim)

lemma chain_cases:
  assumes "distinct [a, b, c, d, e, f]"
    and "n \<in> {a, b, c, d, e, f} \<Longrightarrow> F = None" and "n \<notin> {a, b, c, d, e, f} \<Longrightarrow> F = (if hop then None else G)"
  shows "or_else (if a = n then Some va else None) (or_else (if b = n then vb else None)
      (or_else (if c = n then vc else None) (or_else (if d = n then vd else None)
      (or_else F (or_else (if e = n then ve else None) (or_else (if f = n then Some vf else None) None)))))) =
   (if n = a then Some va else if n = b then vb else if n = c then vc else if n = d then vd
    else if n = e then ve else if n = f then Some vf else if hop then None else G)"
  using assms by auto

lemma upstream_header_map:
  assumes "client_request_ok r" "target_ok t" "options_ok opts"
  shows "header_map (upstream_headers r t opts) n =
    (if n = ''host'' then Some (authority t)
     else if n = ''x-forwarded-for'' then nonempty (forwarded_for r opts)
     else if n = ''x-forwarded-proto'' then nonempty (pro_forwarded_proto opts)
     else if n = ''x-forwarded-host'' then nonempty (headers_get (req_headers r) ''Host'')
     else if n = ''content-length'' then nonempty (upstream_length r)
     else if n = ''connection'' then Some ''keep-alive''
     else if is_hop_by_hop_header n then None
     else case find (\<lambda>h. header_norm h = n) (req_headers r) of
       Some h \<Rightarrow> if header_is_valid h then Some (header_value h) else None | None \<Rightarrow> None)"
proof -
  have wf: "headers_wf (req_headers r)" using assms(1) by (simp add: client_request_ok_def)
  have h: "value_ok (headers_get (req_headers r) ''Host'')"
    using assms(1) by (intro value_ok_get) (simp_all add: client_request_ok_def)
  have p: "value_ok (pro_forwarded_proto opts)" using assms(3) by (simp add: options_ok_def)
  have eq: "header_map (upstream_headers r t opts) n =
    or_else (if ''host'' = n then Some (authority t) else None)
     (or_else (if ''x-forwarded-for'' = n then nonempty (forwarded_for r opts) else None)
     (or_else (if ''x-forwarded-proto'' = n then nonempty (pro_forwarded_proto opts) else None)
     (or_else (if ''x-forwarded-host'' = n then nonempty (headers_get (req_headers r) ''Host'') else None)
     (or_else (header_map (filter is_forwarded_header (req_headers r)) n)
     (or_else (if ''content-length'' = n then nonempty (upstream_length r) else None)
     (or_else (if ''connection'' = n then Some ''keep-alive'' else None) None))))))"
    unfolding upstream_headers_def header_map_or_else header_map_Nil
      map_one_header [OF norm_literals(1) authority_ok [OF assms(2)]]
      map_opt_header [OF norm_literals(2) forwarded_for_ok [OF assms(1,3)]]
      map_opt_header [OF norm_literals(3) p] map_opt_header [OF norm_literals(4) h]
      map_opt_header [OF norm_literals(5) upstream_length_ok] map_one_header [OF norm_literals(6) keep_alive_ok]
    by (rule refl)
  have own: "set own_names = {''host'', ''x-forwarded-for'', ''x-forwarded-proto'', ''x-forwarded-host'', ''content-length'', ''connection''}"
    unfolding own_names_def list.set by (rule refl)
  show ?thesis
    unfolding eq
  proof (rule chain_cases [OF own_distinct [unfolded own_names_def]])
    show "header_map (filter is_forwarded_header (req_headers r)) n = None"
      if "n \<in> {''host'', ''x-forwarded-for'', ''x-forwarded-proto'', ''x-forwarded-host'', ''content-length'', ''connection''}"
      unfolding header_map_None using that [folded own] forwarded_not_own by (simp only: set_filter) blast
    show "header_map (filter is_forwarded_header (req_headers r)) n = (if is_hop_by_hop_header n then None else
        case find (\<lambda>h. header_norm h = n) (req_headers r) of
          Some h \<Rightarrow> if header_is_valid h then Some (header_value h) else None | None \<Rightarrow> None)"
      if "n \<notin> {''host'', ''x-forwarded-for'', ''x-forwarded-proto'', ''x-forwarded-host'', ''content-length'', ''connection''}"
    proof -
      have other: "n \<notin> {''host'', ''x-forwarded-for'', ''x-forwarded-proto'', ''x-forwarded-host'', ''content-length''}"
        using that by (rule contrapos_nn) (elim insertE emptyE; simp only: insert_iff simp_thms)
      show ?thesis
        using map_forwarded_own [of n "req_headers r"] map_forwarded_other [OF wf _ other]
        by (cases "is_hop_by_hop_header n") (simp_all only: if_True if_False simp_thms)
    qed
  qed
qed

lemma upstream_path_word: "word_ok target \<Longrightarrow> word_ok (proxy_upstream_path target p s)"
proof -
  assume w: "word_ok target"
  let ?a = "fst (split_target target)" and ?q = "snd (split_target target)"
  have "list_all (\<lambda>c. \<not> is_space c) (?a @ ?q)" using w by (simp add: split_target_append word_ok_def)
  then have a: "list_all (\<lambda>c. \<not> is_space c) ?a" "list_all (\<lambda>c. \<not> is_space c) ?q" by simp_all
  have d: "list_all (\<lambda>c. \<not> is_space c) (drop n ?a)" for n
    using a(1) by (auto simp: list_all_iff dest: in_set_dropD)
  have slash: "\<not> is_space (CHR ''/'')" by code_simp
  then have d': "list_all (\<lambda>c. \<not> is_space c) (drop n ''/'')" for n by (cases n) simp_all
  show ?thesis
    unfolding word_ok_def proxy_upstream_path_def
    using a d d' slash by (auto simp: Let_def split: prod.splits)
qed

lemma nonempty_length: "nonempty (to_string n) = Some (to_string n)"
  by (simp add: nonempty_def)

lemma upstream_framed:
  assumes "client_request_ok r" "target_ok t" "options_ok opts"
  shows "request_framed (upstream_request r t opts)"
proof -
  let ?r = "upstream_request r t opts"
  have "header_map (upstream_headers r t opts) ''content-length'' = nonempty (upstream_length r)"
    using upstream_header_map [OF assms, of "''content-length''"] by simp
  then have cl: "request_get_header ?r ''Content-Length'' = upstream_length r"
    by (simp add: request_get_header_def headers_get_map upstream_request_def norm_literals nonempty_def
        split: option.split)
  have body: "requires_body ?r \<longleftrightarrow> requires_body r" "req_body ?r = req_body r"
    by (simp_all add: requires_body_def upstream_request_def)
  have len: "length (req_body r) < 2 ^ 64" and fr: "request_framed r"
    using assms(1) by (simp_all add: client_request_ok_def)
  have "\<not> requires_body r \<Longrightarrow> req_body r = []" using fr by (simp add: request_framed_def Let_def)
  then show ?thesis
    unfolding request_framed_def Let_def cl body
    using stoul_to_string [OF len] by (auto simp: upstream_length_def)
qed

lemma upstream_wire_ok:
  assumes "client_request_ok r" "target_ok t" "options_ok opts"
  shows "wire_ok (upstream_request r t opts)"
proof -
  have "word_ok ''HTTP/1.1''" by code_simp
  moreover have "word_ok (req_target (upstream_request r t opts))"
    using assms(1) by (simp add: upstream_request_def upstream_path_word client_request_ok_def)
  moreover have "headers_wf (upstream_headers r t opts)"
    using assms(1) by (intro upstream_headers_wf) (simp add: client_request_ok_def)
  ultimately show ?thesis
    using assms(1) upstream_framed [OF assms] upstream_headers_wire_ok [OF assms]
    by (simp add: wire_ok_def upstream_request_def client_request_ok_def)
qed

text \<open>
  C18: What the upstream reads is what the proxy meant.  For a request as the
  parser delivers it, without a carriage return in Host and X-Forwarded-For, and
  within the limits of the reader, the rendered bytes followed by anything parse as
  exactly one request: the same method and body, the rewritten path, the proxy's own
  fields and the end-to-end fields of the client; what follows stays unread.
\<close>

theorem upstream_request_reparses:
  assumes "client_request_ok r" "target_ok t" "options_ok opts" "within_limits c (upstream_request r t opts)"
  shows "rp_state (rp_feed (build_upstream_request r t opts @ rest) (rp_new c)) = Complete \<and>
    fst (take_request (rp_feed (build_upstream_request r t opts @ rest) (rp_new c))) = upstream_request r t opts \<and>
    rp_buffer (rp_feed (build_upstream_request r t opts @ rest) (rp_new c)) = rest"
proof -
  have "rp_feed (build_upstream_request r t opts @ rest) (rp_new c) =
      rp_loop ((rp_new c)\<lparr>rp_buffer := wire_request (upstream_request r t opts) @ rest\<rparr>)"
    unfolding build_upstream_wire [OF assms(1-3)] by (simp add: rp_feed_def rp_new_def)
  with rp_loop_wire [OF upstream_wire_ok [OF assms(1-3)] assms(4), of rest] show ?thesis
    by (simp add: take_request_def)
qed

definition sample_target :: ProxyTarget where
  "sample_target = \<lparr>pt_host = ''10.0.0.2'', pt_port = 9001\<rparr>"

definition sample_options :: ProxyRequestOptions where
  "sample_options = \<lparr>pro_prefix = ''/api'', pro_strip_prefix = True, pro_forwarded_proto = ''https'',
     pro_client_ip = ''10.1.1.1''\<rparr>"

definition sample_proxied :: HttpRequest where
  "sample_proxied = \<lparr>req_method = POST, req_target = ''/api/items?n=1'', req_version = ''HTTP/1.1'',
     req_headers = [make_header ''Host'' ''example.org'', make_header ''Content-Length'' ''5'',
       make_header ''Upgrade'' ''h2c'', make_header ''Accept'' ''*/*''],
     req_body = ''hello''\<rparr>"

lemma sample_premises:
  "client_request_ok sample_proxied" "target_ok sample_target" "options_ok sample_options"
  "within_limits default_config (upstream_request sample_proxied sample_target sample_options)"
  by code_simp+

lemma upstream_request_reparses_witness:
  "client_request_ok sample_proxied \<and>
   rp_state (rp_feed (build_upstream_request sample_proxied sample_target sample_options) (rp_new default_config)) = Complete"
  using upstream_request_reparses [OF sample_premises, of "[]"] sample_premises(1) by simp



subsection \<open>A bare line feed in Host\<close>

definition lf_request :: "string \<Rightarrow> HttpRequest" where
  "lf_request line = \<lparr>req_method = GET, req_target = ''/api'', req_version = ''HTTP/1.1'',
     req_headers = [make_header ''Host'' (CHR ''a'' # LF # line)], req_body = []\<rparr>"

lemma host_value_trimmed:
  assumes "line \<noteq> []" "\<not> is_lws (last line)"
  shows "trim_whitespace (CHR ''a'' # LF # line) = CHR ''a'' # LF # line"
  unfolding trim_whitespace_eq by (rule trim_by_id) (use assms in \<open>simp add: is_lws_def\<close>)

lemma lf_request_parsed:
  assumes "line \<noteq> []" "\<not> is_lws (last line)" "CR \<notin> set line" "length line + 8 \<le> max_total_header_bytes c"
    "0 < max_header_count c"
  shows "fst (take_request (rp_feed (''GET /api HTTP/1.1'' @ CRLF @ ''Host: a'' @ LF # line @ CRLF @ CRLF) (rp_new c))) =
    lf_request line"
proof -
  have t: "trim_whitespace (CHR ''a'' # LF # line) = CHR ''a'' # LF # line"
    by (rule host_value_trimmed [OF assms(1,2)])
  have "headers_wf (req_headers (lf_request line))"
    unfolding lf_request_def HttpRequest.select_convs headers_wf_def by (simp add: t)
  moreover have "list_all header_wire_ok (req_headers (lf_request line))"
    using assms(3) token_literals(1)
    by (simp add: lf_request_def header_wire_ok_def is_valid_name_def t)
  moreover have "word_ok ''/api''" "word_ok ''HTTP/1.1''" by code_simp+
  ultimately have w: "wire_ok (lf_request line)"
    by (simp add: wire_ok_def lf_request_def request_framed_def requires_body_def)
  have l: "within_limits c (lf_request line)"
    using assms(4,5) by (simp add: within_limits_def lf_request_def build_header_line_def t)
  have "wire_request (lf_request line) @ [] =
      ''GET /api HTTP/1.1'' @ CRLF @ ''Host: a'' @ LF # line @ CRLF @ CRLF"
    by (simp add: wire_request_def lf_request_def request_line_def wire_headers_def build_header_line_def t
        http_method_to_string_def)
  moreover have "rp_feed (wire_request (lf_request line) @ []) (rp_new c) =
      rp_loop ((rp_new c)\<lparr>rp_buffer := wire_request (lf_request line) @ []\<rparr>)"
    by (simp add: rp_feed_def rp_new_def)
  ultimately show ?thesis using rp_loop_wire [OF w l, of "[]"] by (simp add: take_request_def)
qed

lemma split_text: "(b @ e) @ (x @ l # y @ e) @ z = b @ e @ x @ l # y @ e @ z"
  by simp

lemma lf_request_host:
  assumes "line \<noteq> []" "\<not> is_lws (last line)"
  shows "headers_get (req_headers (lf_request line)) ''Host'' = CHR ''a'' # LF # line"
  unfolding lf_request_def HttpRequest.select_convs headers_get_map header_map_Cons make_header_sel
    host_value_trimmed [OF assms] by simp

text \<open>
  The parser keeps a bare line feed inside a field value, and the
  proxy copies Host without the check it makes for other fields: a client that
  sends \<^verbatim>\<open>Host: a<LF>line\<close> makes the proxy emit \<open>line\<close> on a line of its own, which
  an upstream that ends lines at a line feed reads as a field.
\<close>

theorem host_line_feed_is_forwarded:
  assumes "line \<noteq> []" "\<not> is_lws (last line)" "CR \<notin> set line" "length line + 8 \<le> max_total_header_bytes c"
    "0 < max_header_count c"
  shows "\<exists>before after. build_upstream_request
      (fst (take_request (rp_feed (''GET /api HTTP/1.1'' @ CRLF @ ''Host: a'' @ LF # line @ CRLF @ CRLF) (rp_new c))))
      t opts = before @ CRLF @ ''X-Forwarded-Host: a'' @ LF # line @ CRLF @ after"
proof -
  let ?r = "lf_request line" and ?P = "\<lambda>x :: string. \<exists>b. x = b @ CRLF"
  let ?out = "http_method_to_string (req_method ?r) @ '' '' @
      proxy_upstream_path (req_target ?r) (pro_prefix opts) (pro_strip_prefix opts) @ '' HTTP/1.1'' @ CRLF @
      header_text ''Host'' (authority t)"
  let ?xff = "if forwarded_for ?r opts \<noteq> [] then header_text ''X-Forwarded-For'' (forwarded_for ?r opts) else []"
  let ?xfp = "if pro_forwarded_proto opts \<noteq> [] then header_text ''X-Forwarded-Proto'' (pro_forwarded_proto opts) else []"
  let ?host = "CHR ''a'' # LF # line"
  have field: "?P (header_text n v)" for n v by (simp add: header_text_def)
  have left: "?P x \<Longrightarrow> ?P (a @ x)" for a x by (metis append_assoc)
  have right: "?P x \<Longrightarrow> ?P (x @ (if q then header_text n v else []))" for x q n v
    using left [OF field] by (cases q) simp_all
  have "?P ((?out @ ?xff) @ ?xfp)" by (intro right left field)
  then obtain before where b: "(?out @ ?xff) @ ?xfp = before @ CRLF" by blast
  have skip: "\<not> is_forwarded_header (make_header ''Host'' ?host)"
    using forwarded_header_norm(1) [of "make_header ''Host'' ?host"] by (auto simp: norm_literals)
  have "build_upstream_request ?r t opts = ((?out @ ?xff) @ ?xfp) @
      (if ?host \<noteq> [] then header_text ''X-Forwarded-Host'' ?host else []) @ wire_headers (filter is_forwarded_header (req_headers ?r)) @
      (if req_body ?r \<noteq> [] \<or> headers_has (req_headers ?r) ''Content-Length''
       then header_text ''Content-Length'' (to_string (length (req_body ?r))) else []) @
      ''Connection: keep-alive'' @ CRLF @ CRLF @ req_body ?r"
    unfolding build_upstream_request_def Let_def lf_request_host [OF assms(1,2)] append_if fold_forwarded append_assoc
    by (rule refl)
  also have "(if ?host \<noteq> [] then header_text ''X-Forwarded-Host'' ?host else []) =
      ''X-Forwarded-Host: a'' @ LF # line @ CRLF"
    by (simp add: header_text_def)
  finally show ?thesis
    unfolding lf_request_parsed [OF assms] b by (intro exI) (erule trans, rule split_text)
qed

lemma host_line_feed_is_forwarded_witness:
  "\<exists>before after. build_upstream_request
      (fst (take_request (rp_feed (''GET /api HTTP/1.1'' @ CRLF @ ''Host: a'' @ LF # ''X-Role: admin'' @ CRLF @ CRLF)
        (rp_new default_config))))
      sample_target sample_options = before @ CRLF @ ''X-Forwarded-Host: a'' @ LF # ''X-Role: admin'' @ CRLF @ after"
  by (rule host_line_feed_is_forwarded) (simp_all add: is_lws_def default_config_def)

end
