(* ===== verification/Unique_Fd.thy ===== *)
theory Unique_Fd
  imports Prelude
begin

section \<open>Owned descriptors: \<^verbatim>\<open>unique_fd.h\<close>\<close>

text \<open>
  Every \<^verbatim>\<open>UniqueFd\<close> object is a cell of \<open>objs\<close>; \<open>raw\<close> are the open
  descriptors that no object owns (fresh from the kernel, or after \<^verbatim>\<open>release\<close>) and
  \<open>closes\<close> logs the calls of \<^verbatim>\<open>::close\<close>.  \<open>fd_step\<close> is what a client
  may do: the kernel hands out a descriptor that is not open, an object adopts only
  what nobody owns.
\<close>

record Fds =
  objs :: "nat \<Rightarrow> int option"
  raw :: "int set"
  closes :: "int list"
  opened :: "int list"

definition fd_close :: "nat \<Rightarrow> Fds \<Rightarrow> Fds" where
  "fd_close ob s =
     (case objs s ob of
        Some fd \<Rightarrow> if fd \<ge> 0 then s\<lparr>closes := closes s @ [fd], objs := (objs s)(ob \<mapsto> -1)\<rparr> else s
      | None \<Rightarrow> s)"

definition fd_construct :: "nat \<Rightarrow> int \<Rightarrow> Fds \<Rightarrow> Fds" where
  "fd_construct ob fd s = s\<lparr>objs := (objs s)(ob \<mapsto> fd), raw := raw s - {fd}\<rparr>"

definition fd_destroy :: "nat \<Rightarrow> Fds \<Rightarrow> Fds" where
  "fd_destroy ob s = (let s = fd_close ob s in s\<lparr>objs := (objs s)(ob := None)\<rparr>)"

definition fd_get :: "nat \<Rightarrow> Fds \<Rightarrow> int" where
  "fd_get ob s = (case objs s ob of Some fd \<Rightarrow> fd | None \<Rightarrow> -1)"

definition fd_is_valid :: "nat \<Rightarrow> Fds \<Rightarrow> bool" where
  "fd_is_valid ob s \<longleftrightarrow> fd_get ob s \<ge> 0"

definition fd_move_construct :: "nat \<Rightarrow> nat \<Rightarrow> Fds \<Rightarrow> Fds" where
  "fd_move_construct ob other s = s\<lparr>objs := (objs s)(ob \<mapsto> fd_get other s, other \<mapsto> -1)\<rparr>"

definition fd_move_assign :: "nat \<Rightarrow> nat \<Rightarrow> Fds \<Rightarrow> Fds" where
  "fd_move_assign ob other s =
     (if ob \<noteq> other then
        let s = fd_close ob s in s\<lparr>objs := (objs s)(ob \<mapsto> fd_get other s, other \<mapsto> -1)\<rparr>
      else s)"

definition fd_release :: "nat \<Rightarrow> Fds \<Rightarrow> int \<times> Fds" where
  "fd_release ob s =
     (let fd = fd_get ob s in
      (fd, s\<lparr>objs := (objs s)(ob \<mapsto> -1), raw := (if fd \<ge> 0 then insert fd (raw s) else raw s)\<rparr>))"

definition fd_reset :: "nat \<Rightarrow> int \<Rightarrow> Fds \<Rightarrow> Fds" where
  "fd_reset ob fd s =
     (if fd_get ob s \<noteq> fd
      then let s = fd_close ob s in s\<lparr>objs := (objs s)(ob \<mapsto> fd), raw := raw s - {fd}\<rparr>
      else s)"

definition fd_swap :: "nat \<Rightarrow> nat \<Rightarrow> Fds \<Rightarrow> Fds" where
  "fd_swap ob other s = s\<lparr>objs := (objs s)(ob \<mapsto> fd_get other s, other \<mapsto> fd_get ob s)\<rparr>"

definition fds_empty :: Fds where
  "fds_empty = \<lparr>objs = Map.empty, raw = {}, closes = [], opened = []\<rparr>"

subsection \<open>What a client may do\<close>

definition held :: "(nat \<Rightarrow> int option) \<Rightarrow> int \<Rightarrow> bool" where
  "held m fd \<longleftrightarrow> (\<exists>ob. m ob = Some fd)"

definition owned :: "Fds \<Rightarrow> int set" where
  "owned s = {fd. fd \<ge> 0 \<and> held (objs s) fd}"

definition adoptable :: "int \<Rightarrow> Fds \<Rightarrow> bool" where
  "adoptable fd s \<longleftrightarrow> fd < 0 \<or> fd \<in> raw s"

text \<open>The kernel returns a descriptor that is not open; the same number may come again once closed.\<close>

inductive fd_step :: "Fds \<Rightarrow> Fds \<Rightarrow> bool" where
  kernel_open: "fd \<ge> 0 \<Longrightarrow> fd \<notin> owned s \<union> raw s \<Longrightarrow>
     fd_step s (s\<lparr>raw := insert fd (raw s), opened := opened s @ [fd]\<rparr>)"
| construct: "objs s ob = None \<Longrightarrow> adoptable fd s \<Longrightarrow> fd_step s (fd_construct ob fd s)"
| move_construct: "objs s ob = None \<Longrightarrow> objs s other \<noteq> None \<Longrightarrow> fd_step s (fd_move_construct ob other s)"
| move_assign: "objs s ob \<noteq> None \<Longrightarrow> objs s other \<noteq> None \<Longrightarrow> fd_step s (fd_move_assign ob other s)"
| release: "objs s ob \<noteq> None \<Longrightarrow> fd_step s (snd (fd_release ob s))"
| reset: "objs s ob \<noteq> None \<Longrightarrow> adoptable fd s \<or> fd = fd_get ob s \<Longrightarrow> fd_step s (fd_reset ob fd s)"
| swap: "objs s ob \<noteq> None \<Longrightarrow> objs s other \<noteq> None \<Longrightarrow> fd_step s (fd_swap ob other s)"
| destroy: "objs s ob \<noteq> None \<Longrightarrow> fd_step s (fd_destroy ob s)"

inductive fd_reachable :: "Fds \<Rightarrow> bool" where
  start: "fd_reachable fds_empty"
| step: "fd_reachable s \<Longrightarrow> fd_step s t \<Longrightarrow> fd_reachable t"

inductive_cases fd_stepE: "fd_step s t"

subsection \<open>The invariant\<close>

text \<open>
  No descriptor has two owners, none is both owned and raw, and for every number the
  times it was opened are the times it was closed plus one if it is open now.
\<close>

definition fds_ok :: "Fds \<Rightarrow> bool" where
  "fds_ok s \<longleftrightarrow>
     (\<forall>a b fd. objs s a = Some fd \<and> objs s b = Some fd \<and> fd \<ge> 0 \<longrightarrow> a = b) \<and>
     owned s \<inter> raw s = {} \<and> (\<forall>fd \<in> raw s. fd \<ge> 0) \<and>
     (\<forall>fd. count_list (opened s) fd =
        count_list (closes s) fd + (if fd \<in> owned s \<union> raw s then 1 else 0))"

definition vacant :: "nat \<Rightarrow> Fds \<Rightarrow> bool" where
  "vacant ob s \<longleftrightarrow> (case objs s ob of Some fd \<Rightarrow> fd < 0 | None \<Rightarrow> True)"

lemma fds_okD:
  assumes "fds_ok s"
  shows "objs s a = Some fd \<Longrightarrow> objs s b = Some fd \<Longrightarrow> 0 \<le> fd \<Longrightarrow> a = b"
    "objs s a = Some fd \<Longrightarrow> 0 \<le> fd \<Longrightarrow> fd \<notin> raw s" "fd \<in> raw s \<Longrightarrow> 0 \<le> fd"
    "count_list (opened s) fd = count_list (closes s) fd + (if fd \<in> owned s \<union> raw s then 1 else 0)"
  using assms by (auto simp: fds_ok_def owned_def held_def)

lemma owned_objs: "objs s a = Some fd \<Longrightarrow> 0 \<le> fd \<Longrightarrow> fd \<in> owned s"
  by (auto simp: owned_def held_def)

lemma fds_okI:
  assumes "\<And>a b fd. objs s a = Some fd \<Longrightarrow> objs s b = Some fd \<Longrightarrow> 0 \<le> fd \<Longrightarrow> a = b"
    and "owned s \<inter> raw s = {}" "\<And>fd. fd \<in> raw s \<Longrightarrow> 0 \<le> fd"
    and "\<And>fd. count_list (opened s) fd = count_list (closes s) fd + (if fd \<in> owned s \<union> raw s then 1 else 0)"
  shows "fds_ok s"
  using assms unfolding fds_ok_def by blast

text \<open>The five ways the operations change the cells.\<close>

lemma held_adopt:
  assumes "\<And>x. m ob = Some x \<Longrightarrow> x < 0" "0 \<le> y"
  shows "held (m(ob \<mapsto> fd)) y \<longleftrightarrow> y = fd \<or> held m y"
  using assms(2) assms(1) [of y] unfolding held_def by (metis fun_upd_apply linorder_not_less option.inject)

lemma held_vacate:
  assumes "\<And>x. m ob = Some x \<Longrightarrow> x < 0" "\<And>x. v = Some x \<Longrightarrow> x < 0" "0 \<le> y"
  shows "held (m(ob := v)) y \<longleftrightarrow> held m y"
  using assms(3) assms(1,2) [of y] unfolding held_def by (metis fun_upd_apply linorder_not_less)

lemma held_invalidate:
  assumes "m ob = Some fd" "\<And>b. m b = Some fd \<Longrightarrow> b = ob" "0 \<le> y"
  shows "held (m(ob \<mapsto> -1)) y \<longleftrightarrow> y \<noteq> fd \<and> held m y"
proof -
  have "y \<noteq> -1" using assms(3) by simp
  then show ?thesis using assms(1,2) unfolding held_def by (metis fun_upd_apply option.inject)
qed

lemma close_ok:
  assumes "fds_ok s"
  shows "fds_ok (fd_close ob s) \<and> vacant ob (fd_close ob s)"
proof (cases "\<exists>fd. objs s ob = Some fd \<and> 0 \<le> fd")
  case True
  then obtain fd where fd: "objs s ob = Some fd" "0 \<le> fd" by blast
  let ?t = "fd_close ob s"
  have t: "?t = s\<lparr>closes := closes s @ [fd], objs := (objs s)(ob \<mapsto> -1)\<rparr>"
    using fd by (simp add: fd_close_def)
  have own: "owned ?t = owned s - {fd}"
  proof -
    have "held ((objs s)(ob \<mapsto> -1)) y \<longleftrightarrow> y \<noteq> fd \<and> held (objs s) y" if "0 \<le> y" for y
      using fd(1) fds_okD(1) [OF assms _ fd] that by (intro held_invalidate [where m = "objs s"])
    then show ?thesis unfolding t owned_def by simp blast
  qed
  have raw: "fd \<notin> raw s" "fd \<in> owned s" using fd fds_okD(2) [OF assms] by (auto simp: owned_objs)
  have "fds_ok ?t"
  proof (rule fds_okI)
    show "owned ?t \<inter> raw ?t = {}" using assms own by (auto simp: t fds_ok_def)
    show "count_list (opened ?t) x = count_list (closes ?t) x + (if x \<in> owned ?t \<union> raw ?t then 1 else 0)" for x
      using fds_okD(4) [OF assms, of x] raw unfolding own by (auto simp: t)
  qed (use fds_okD(1,3) [OF assms] in \<open>auto simp: t split: if_splits\<close>)
  then show ?thesis by (simp add: vacant_def t)
next
  case False
  then show ?thesis using assms
    by (auto simp: fd_close_def vacant_def split: option.split)
qed

lemma adopt_ok:
  assumes "fds_ok s" "vacant ob s" "adoptable fd s"
  shows "fds_ok (s\<lparr>objs := (objs s)(ob \<mapsto> fd), raw := raw s - {fd}\<rparr>)"
proof -
  let ?t = "s\<lparr>objs := (objs s)(ob \<mapsto> fd), raw := raw s - {fd}\<rparr>"
  have vac: "objs s ob = Some x \<Longrightarrow> x < 0" for x using assms(2) by (simp add: vacant_def)
  have own: "owned ?t = (if 0 \<le> fd then insert fd (owned s) else owned s)"
    using held_adopt [of "objs s" ob, OF vac] by (auto simp: owned_def)
  have free: "0 \<le> fd \<Longrightarrow> fd \<in> raw s" using assms(3) by (auto simp: adoptable_def)
  show ?thesis
  proof (rule fds_okI)
    show "a = b" if "objs ?t a = Some x" "objs ?t b = Some x" "0 \<le> x" for a b x
      using that fds_okD(1,2) [OF assms(1)] free by (auto split: if_splits)
    show "owned ?t \<inter> raw ?t = {}" using assms(1) unfolding own by (auto simp: fds_ok_def)
    show "count_list (opened ?t) x = count_list (closes ?t) x + (if x \<in> owned ?t \<union> raw ?t then 1 else 0)" for x
      using fds_okD(4) [OF assms(1), of x] fds_okD(3) [OF assms(1), of x] free unfolding own by auto
  qed (use fds_okD(3) [OF assms(1)] in auto)
qed

lemma same_owned_ok:
  assumes "fds_ok s" "owned (s\<lparr>objs := m\<rparr>) = owned s"
    and "\<And>a b fd. m a = Some fd \<Longrightarrow> m b = Some fd \<Longrightarrow> 0 \<le> fd \<Longrightarrow> a = b"
  shows "fds_ok (s\<lparr>objs := m\<rparr>)"
  using assms unfolding fds_ok_def by (auto simp: assms(2))

lemma vacate_ok:
  assumes "fds_ok s" "vacant ob s" "\<And>x. v = Some x \<Longrightarrow> x < 0"
  shows "fds_ok (s\<lparr>objs := (objs s)(ob := v)\<rparr>)"
proof (rule same_owned_ok [OF assms(1)])
  have vac: "objs s ob = Some x \<Longrightarrow> x < 0" for x using assms(2) by (simp add: vacant_def)
  show "owned (s\<lparr>objs := (objs s)(ob := v)\<rparr>) = owned s"
    using held_vacate [of "objs s" ob v, OF vac assms(3)] by (auto simp: owned_def)
  show "a = b" if "((objs s)(ob := v)) a = Some x" "((objs s)(ob := v)) b = Some x" "0 \<le> x" for a b x
    using that fds_okD(1) [OF assms(1), of a x b] assms(3) [of x] by (auto split: if_splits)
qed

lemma permute_ok:
  assumes "fds_ok s" "\<And>x. f (f x) = x"
  shows "fds_ok (s\<lparr>objs := \<lambda>x. objs s (f x)\<rparr>)"
proof (rule same_owned_ok [OF assms(1)])
  have "(\<exists>a. objs s (f a) = Some y) \<longleftrightarrow> (\<exists>a. objs s a = Some y)" for y using assms(2) by metis
  then show "owned (s\<lparr>objs := \<lambda>x. objs s (f x)\<rparr>) = owned s" by (simp add: owned_def held_def)
  show "a = b" if "objs s (f a) = Some x" "objs s (f b) = Some x" "0 \<le> x" for a b x
    using fds_okD(1) [OF assms(1) that] assms(2) by metis
qed

definition flip :: "nat \<Rightarrow> nat \<Rightarrow> nat \<Rightarrow> nat" where
  "flip a b x = (if x = a then b else if x = b then a else x)"

lemma flip_flip: "flip a b (flip a b x) = x"
  by (simp add: flip_def)

lemma swap_ok:
  assumes "fds_ok s" "objs s ob = Some u" "objs s other = Some v"
  shows "fds_ok (fd_swap ob other s)"
proof -
  have "(objs s)(ob \<mapsto> fd_get other s, other \<mapsto> fd_get ob s) = (\<lambda>x. objs s (flip ob other x))"
    using assms(2,3) by (intro ext) (auto simp: flip_def fd_get_def)
  then show ?thesis unfolding fd_swap_def using permute_ok [of s "flip ob other", OF assms(1) flip_flip] by simp
qed

lemma move_ok:
  assumes "fds_ok s" "vacant ob s" "ob \<noteq> other" "objs s other = Some v"
  shows "fds_ok (s\<lparr>objs := (objs s)(ob \<mapsto> fd_get other s, other \<mapsto> -1)\<rparr>)"
proof -
  let ?m = "\<lambda>x. objs s (flip ob other x)"
  have ok: "fds_ok (s\<lparr>objs := ?m\<rparr>)" by (rule permute_ok [OF assms(1) flip_flip])
  have "vacant other (s\<lparr>objs := ?m\<rparr>)" using assms(2,3) by (simp add: vacant_def flip_def)
  from vacate_ok [OF ok this, of "Some (-1)"] have "fds_ok (s\<lparr>objs := ?m(other \<mapsto> -1)\<rparr>)" by simp
  moreover have "?m(other \<mapsto> -1) = (objs s)(ob \<mapsto> fd_get other s, other \<mapsto> -1)"
    using assms(3,4) by (intro ext) (simp add: flip_def fd_get_def)
  ultimately show ?thesis by simp
qed

lemma drop_cell_ok: "fds_ok s \<Longrightarrow> vacant ob s \<Longrightarrow> fds_ok (s\<lparr>objs := (objs s)(ob := None)\<rparr>)"
  by (rule vacate_ok) simp_all

lemma release_ok:
  assumes "fds_ok s" "objs s ob = Some v"
  shows "fds_ok (snd (fd_release ob s))"
proof -
  let ?t = "snd (fd_release ob s)"
  have t: "?t = s\<lparr>objs := (objs s)(ob \<mapsto> -1), raw := (if v \<ge> 0 then insert v (raw s) else raw s)\<rparr>"
    using assms(2) by (simp add: fd_release_def fd_get_def)
  have own: "owned ?t = owned s - {v}"
  proof (cases "0 \<le> v")
    case True
    have "held ((objs s)(ob \<mapsto> -1)) y \<longleftrightarrow> y \<noteq> v \<and> held (objs s) y" if "0 \<le> y" for y
      using assms(2) fds_okD(1) [OF assms(1) _ assms(2) True] that by (intro held_invalidate [where m = "objs s"])
    then show ?thesis unfolding t owned_def by simp blast
  next
    case False
    then have "held ((objs s)(ob \<mapsto> -1)) y \<longleftrightarrow> held (objs s) y" if "0 \<le> y" for y
      using assms(2) that by (intro held_vacate) auto
    with False show ?thesis unfolding t owned_def by simp blast
  qed
  have mine: "0 \<le> v \<Longrightarrow> v \<in> owned s" using assms(2) by (simp add: owned_objs)
  have pos: "x \<in> owned s \<Longrightarrow> 0 \<le> x" for x by (simp add: owned_def)
  show ?thesis
  proof (rule fds_okI)
    show "owned ?t \<inter> raw ?t = {}" using assms(1) unfolding own by (auto simp: t fds_ok_def)
    show "count_list (opened ?t) x = count_list (closes ?t) x + (if x \<in> owned ?t \<union> raw ?t then 1 else 0)" for x
      using fds_okD(4) [OF assms(1), of x] mine pos unfolding own by (auto simp: t)
  qed (use fds_okD(1,3) [OF assms(1)] in \<open>auto simp: t split: if_splits\<close>)
qed

lemma adoptable_close: "adoptable fd (fd_close ob s) = adoptable fd s" "raw (fd_close ob s) = raw s"
  by (auto simp: fd_close_def adoptable_def split: option.split)

lemma close_objs: "ob \<noteq> other \<Longrightarrow> objs (fd_close ob s) other = objs s other"
  by (simp add: fd_close_def split: option.split)

lemma fd_step_ok: "fd_step s t \<Longrightarrow> fds_ok s \<Longrightarrow> fds_ok t"
proof (induction rule: fd_step.induct)
  case (kernel_open fd s)
  have "owned (s\<lparr>raw := insert fd (raw s), opened := opened s @ [fd]\<rparr>) = owned s" by (simp add: owned_def)
  with kernel_open show ?case by (auto simp: fds_ok_def)
next
  case (construct s ob fd)
  then show ?case unfolding fd_construct_def by (intro adopt_ok) (auto simp: vacant_def)
next
  case (move_construct s ob other)
  then obtain v where "objs s other = Some v" by blast
  with move_construct show ?case unfolding fd_move_construct_def by (intro move_ok) (auto simp: vacant_def)
next
  case (move_assign s ob other)
  have "fd_get other (fd_close ob s) = fd_get other s" if "ob \<noteq> other"
    using that by (simp add: fd_get_def close_objs)
  with move_assign close_ok [of s ob] move_ok [of "fd_close ob s" ob other] show ?case
    by (auto simp: fd_move_assign_def Let_def close_objs)
next
  case (release s ob)
  then show ?case by (auto intro: release_ok)
next
  case (reset s ob fd)
  then show ?case
    using close_ok [of s ob] adopt_ok [of "fd_close ob s" ob fd] 
    by (auto simp: fd_reset_def Let_def adoptable_close)
next
  case (swap s ob other)
  then show ?case by (auto intro: swap_ok)
next
  case (destroy s ob)
  then show ?case using close_ok [of s ob] drop_cell_ok [of "fd_close ob s" ob]
    by (simp add: fd_destroy_def Let_def)
qed

lemma fds_reachable_ok: "fd_reachable s \<Longrightarrow> fds_ok s"
proof (induction rule: fd_reachable.induct)
  case start
  show ?case by (simp add: fds_ok_def fds_empty_def owned_def held_def)
qed (rule fd_step_ok)

text \<open>
  Whatever a client does with the objects (construct, move, assign, swap,
  release, reset, destroy), no descriptor ever has two owners, and every time
  the kernel returned a number it was closed once or is still held: nothing is
  closed twice and nothing leaks while an object owns it.
\<close>

theorem close_exactly_once:
  assumes "fd_reachable s"
  shows "count_list (closes s) fd \<le> count_list (opened s) fd \<and>
    count_list (opened s) fd \<le> count_list (closes s) fd + 1 \<and>
    (count_list (opened s) fd = count_list (closes s) fd + 1 \<longleftrightarrow> fd \<in> owned s \<union> raw s) \<and>
    (objs s a = Some fd \<and> objs s b = Some fd \<and> 0 \<le> fd \<longrightarrow> a = b)"
  using fds_okD(1,4) [OF fds_reachable_ok [OF assms]] by (auto split: if_splits)

lemma close_exactly_once_witness:
  "let s = fd_destroy 0 (fd_construct 0 7 (fds_empty\<lparr>raw := {7}, opened := [7]\<rparr>))
   in fd_reachable s \<and> closes s = [7] \<and> count_list (opened s) 7 = count_list (closes s) 7"
proof -
  let ?a = "fds_empty\<lparr>raw := {7}, opened := [7]\<rparr>"
  have "fd_step fds_empty (fds_empty\<lparr>raw := insert 7 (raw fds_empty), opened := opened fds_empty @ [7]\<rparr>)"
    by (rule fd_step.kernel_open) (simp_all add: owned_def held_def fds_empty_def)
  then have "fd_reachable ?a" using fd_reachable.step [OF fd_reachable.start] by (simp add: fds_empty_def)
  then have "fd_reachable (fd_construct 0 7 ?a)"
    by (rule fd_reachable.step) (rule fd_step.construct, simp_all add: fds_empty_def adoptable_def)
  then have r: "fd_reachable (fd_destroy 0 (fd_construct 0 7 ?a))"
    by (rule fd_reachable.step) (rule fd_step.destroy, simp add: fd_construct_def)
  have "closes (fd_destroy 0 (fd_construct 0 7 ?a)) = [7]"
    "opened (fd_destroy 0 (fd_construct 0 7 ?a)) = [7]"
    by (simp_all add: fd_destroy_def fd_construct_def fd_close_def Let_def fds_empty_def)
  with close_exactly_once [OF r, of 7] r show ?thesis by (simp add: Let_def)
qed

end
