(* ===== verification/Connection.thy ===== *)
theory Connection
  imports Request_Parser Server_Config Byte_Queue WS_Connection
begin

section \<open>One client connection: \<^verbatim>\<open>connection.h\<close>, \<^verbatim>\<open>connection.cpp\<close>\<close>

text \<open>
  The state the event loop keeps per socket.  The answers of \<^verbatim>\<open>recv\<close>,
  \<^verbatim>\<open>send\<close> and of the TLS layer are arguments; the clock is an argument in
  milliseconds, and \<open>None\<close> is the deadline \<^verbatim>\<open>time_point::max()\<close>.  Timeouts
  are assumed to fit the nanosecond clock (below \<open>2 ^ 43\<close> milliseconds), where
  \<^verbatim>\<open>now + milliseconds\<close> does not overflow.  Log output is left out.
\<close>

datatype ConnectionState = CsNew | CsTlsHandshake | CsReading | CsWriting | CsWaiting | CsClosing | CsClosed
datatype ReadState = RdIdle | RdHeaders | RdBody | RdComplete | RdError
datatype WriteState = WrIdle | WrHeaders | WrBody | WrComplete | WrError
datatype TimeoutState = ToNone | ToHeader | ToBody | ToWrite | ToKeepAlive
datatype IoResult = IoSuccess | IoInProgress | IoError | IoClosed

record Connection =
  cn_state :: ConnectionState
  cn_read :: ReadState
  cn_write :: WriteState
  cn_timeout :: TimeoutState
  cn_fd :: int
  cn_id :: "64 word"
  cn_request_id :: "64 word"
  cn_input :: string
  cn_output :: string
  cn_offset :: nat
  cn_parser :: RequestParser
  cn_response :: HttpResponse
  cn_keep_alive :: bool
  cn_created :: millis
  cn_activity :: millis
  cn_deadline :: "millis option"
  cn_worker :: bool
  cn_websocket :: "Session option"
  cn_tls :: bool

definition connection_new :: "int \<Rightarrow> 64 word \<Rightarrow> millis \<Rightarrow> Connection" where
  "connection_new fd ident now =
     \<lparr>cn_state = CsNew, cn_read = RdIdle, cn_write = WrIdle, cn_timeout = ToNone, cn_fd = fd, cn_id = ident,
      cn_request_id = 0, cn_input = [], cn_output = [], cn_offset = 0,
      cn_parser = rp_new default_config, cn_response = response_new OK, cn_keep_alive = False,
      cn_created = now, cn_activity = now, cn_deadline = None, cn_worker = False, cn_websocket = None,
      cn_tls = False\<rparr>"

definition closed_by_destructor :: "Connection \<Rightarrow> int list" where
  "closed_by_destructor c = (if cn_fd c \<noteq> -1 then [cn_fd c] else [])"

subsection \<open>Buffers\<close>

definition feed_parser :: "Connection \<Rightarrow> bool \<times> Connection" where
  "feed_parser c =
     (if cn_input c = [] then (True, c)
      else let c = c\<lparr>cn_parser := rp_feed (cn_input c) (cn_parser c), cn_input := []\<rparr>
           in (rp_state (cn_parser c) \<noteq> Error, c))"

definition reset_parser :: "Connection \<Rightarrow> Connection" where
  "reset_parser c = c\<lparr>cn_parser := rp_new default_config\<rparr>"

definition append_input_buffer :: "string \<Rightarrow> Connection \<Rightarrow> Connection" where
  "append_input_buffer d c = c\<lparr>cn_input := cn_input c @ d\<rparr>"

definition conn_has_pending_output :: "Connection \<Rightarrow> bool" where
  "conn_has_pending_output c \<longleftrightarrow> cn_output c \<noteq> []"

definition is_output_complete :: "Connection \<Rightarrow> bool" where
  "is_output_complete c \<longleftrightarrow> cn_output c = [] \<and> cn_offset c = 0"

definition set_output_buffer :: "string \<Rightarrow> Connection \<Rightarrow> Connection" where
  "set_output_buffer d c = c\<lparr>cn_output := d, cn_offset := 0\<rparr>"

definition append_output_buffer :: "string \<Rightarrow> Connection \<Rightarrow> Connection" where
  "append_output_buffer d c = c\<lparr>cn_output := cn_output c @ d\<rparr>"

definition clear_output_buffer :: "Connection \<Rightarrow> Connection" where
  "clear_output_buffer c = c\<lparr>cn_output := [], cn_offset := 0\<rparr>"

definition update_activity :: "millis \<Rightarrow> Connection \<Rightarrow> Connection" where
  "update_activity now c = c\<lparr>cn_activity := now\<rparr>"

subsection \<open>Keep-alive\<close>

definition evaluate_keep_alive :: "HttpRequest \<Rightarrow> Connection \<Rightarrow> Connection" where
  "evaluate_keep_alive r c =
     (let connection_header = headers_get (req_headers r) ''Connection'' in
      if req_version r = ''HTTP/1.1'' then
        (if connection_header \<noteq> [] then
           (if map to_lower connection_header = ''close'' then c\<lparr>cn_keep_alive := False\<rparr>
            else c\<lparr>cn_keep_alive := True\<rparr>)
         else c\<lparr>cn_keep_alive := True\<rparr>)
      else
        (if connection_header \<noteq> [] then
           (if map to_lower connection_header = ''keep-alive'' then c\<lparr>cn_keep_alive := True\<rparr>
            else c\<lparr>cn_keep_alive := False\<rparr>)
         else c\<lparr>cn_keep_alive := False\<rparr>))"

subsection \<open>Nonblocking input and output\<close>

text \<open>What \<^verbatim>\<open>recv\<close> and the TLS read return; an empty \<open>Received\<close> is the end of the stream.\<close>

datatype RecvOutcome = Received string | RecvWouldBlock | RecvInterrupted | RecvFailed
datatype TlsReadOutcome = TlsReadClosed | TlsReadWant | TlsRead string
datatype SendOutcome = Sent nat | SendWouldBlock | SendInterrupted | SendFailed
datatype TlsWriteOutcome = TlsWriteClosed | TlsWriteWant | TlsWritten nat

definition read_nonblocking :: "RecvOutcome \<Rightarrow> millis \<Rightarrow> Connection \<Rightarrow> IoResult \<times> Connection" where
  "read_nonblocking outcome now c =
     (case outcome of
        RecvWouldBlock \<Rightarrow> (IoInProgress, c)
      | RecvInterrupted \<Rightarrow> (IoInProgress, c)
      | RecvFailed \<Rightarrow> (IoError, c)
      | Received d \<Rightarrow>
          if d = [] then (IoClosed, c)
          else (IoSuccess, update_activity now (c\<lparr>cn_input := cn_input c @ d\<rparr>)))"

definition read_tls :: "TlsReadOutcome \<Rightarrow> Connection \<Rightarrow> IoResult \<times> Connection" where
  "read_tls outcome c =
     (case outcome of
        TlsReadClosed \<Rightarrow> (IoClosed, c)
      | TlsReadWant \<Rightarrow> (IoInProgress, c)
      | TlsRead d \<Rightarrow>
          if d \<noteq> [] then (IoSuccess, c\<lparr>cn_input := cn_input c @ d\<rparr>) else (IoInProgress, c))"

definition advance_write :: "nat \<Rightarrow> Connection \<Rightarrow> Connection" where
  "advance_write n c =
     (let c = c\<lparr>cn_offset := cn_offset c + n\<rparr>
      in if cn_offset c \<ge> length (cn_output c) then c\<lparr>cn_output := [], cn_offset := 0\<rparr> else c)"

definition write_nonblocking :: "SendOutcome \<Rightarrow> millis \<Rightarrow> Connection \<Rightarrow> IoResult \<times> Connection" where
  "write_nonblocking outcome now c =
     (if cn_output c = [] then (IoSuccess, c)
      else if length (cn_output c) - cn_offset c = 0
      then (IoSuccess, c\<lparr>cn_output := [], cn_offset := 0\<rparr>)
      else case outcome of
        SendWouldBlock \<Rightarrow> (IoInProgress, c)
      | SendInterrupted \<Rightarrow> (IoInProgress, c)
      | SendFailed \<Rightarrow> (IoError, c)
      | Sent n \<Rightarrow> (IoSuccess, update_activity now (advance_write n c)))"

definition write_tls :: "TlsWriteOutcome \<Rightarrow> millis \<Rightarrow> Connection \<Rightarrow> IoResult \<times> Connection" where
  "write_tls outcome now c =
     (if cn_output c = [] then (IoSuccess, c)
      else if length (cn_output c) - cn_offset c = 0
      then (IoSuccess, c\<lparr>cn_output := [], cn_offset := 0\<rparr>)
      else case outcome of
        TlsWriteClosed \<Rightarrow> (IoError, c)
      | TlsWriteWant \<Rightarrow> (IoInProgress, c)
      | TlsWritten n \<Rightarrow>
          if n > 0 then (IoSuccess, update_activity now (advance_write n c)) else (IoInProgress, c))"

subsection \<open>Timeouts\<close>

definition elapsed_exceeds :: "millis \<Rightarrow> 64 word \<Rightarrow> Connection \<Rightarrow> bool" where
  "elapsed_exceeds now limit c \<longleftrightarrow> int now - int (cn_activity c) > sint limit"

definition has_header_timeout :: "millis \<Rightarrow> ServerConfig \<Rightarrow> Connection \<Rightarrow> bool" where
  "has_header_timeout now cfg c =
     (if cn_read c \<noteq> RdHeaders then False else elapsed_exceeds now (cfg_header_timeout_ms cfg) c)"

definition has_body_timeout :: "millis \<Rightarrow> ServerConfig \<Rightarrow> Connection \<Rightarrow> bool" where
  "has_body_timeout now cfg c =
     (if cn_read c \<noteq> RdBody then False else elapsed_exceeds now (cfg_body_timeout_ms cfg) c)"

definition has_keep_alive_timeout :: "millis \<Rightarrow> ServerConfig \<Rightarrow> Connection \<Rightarrow> bool" where
  "has_keep_alive_timeout now cfg c =
     (if cn_state c \<noteq> CsWaiting then False else elapsed_exceeds now (cfg_keep_alive_timeout_ms cfg) c)"

definition has_write_timeout :: "millis \<Rightarrow> ServerConfig \<Rightarrow> Connection \<Rightarrow> bool" where
  "has_write_timeout now cfg c =
     (if cn_write c \<noteq> WrBody \<and> cn_write c \<noteq> WrHeaders then False
      else elapsed_exceeds now (cfg_write_timeout_ms cfg) c)"

text \<open>Which budget applies, \<open>None\<close> when none does.\<close>

definition deadline_budget :: "ServerConfig \<Rightarrow> Connection \<Rightarrow> 64 word option" where
  "deadline_budget cfg c =
     (if cn_state c = CsTlsHandshake then Some (cfg_header_timeout_ms cfg)
      else case cn_websocket c of
        Some w \<Rightarrow>
          Some (if cn_write c = WrBody \<or> cn_write c = WrHeaders then cfg_write_timeout_ms cfg
                else if ws_state w = Closing then cfg_ws_close_timeout_ms cfg
                else cfg_keep_alive_timeout_ms cfg)
      | None \<Rightarrow>
          if cn_read c = RdHeaders then Some (cfg_header_timeout_ms cfg)
          else if cn_read c = RdBody then Some (cfg_body_timeout_ms cfg)
          else if cn_write c = WrBody \<or> cn_write c = WrHeaders then Some (cfg_write_timeout_ms cfg)
          else if cn_state c = CsWaiting then Some (cfg_keep_alive_timeout_ms cfg)
          else None)"

definition set_deadline :: "ServerConfig \<Rightarrow> millis \<Rightarrow> Connection \<Rightarrow> Connection" where
  "set_deadline cfg now c =
     (if cn_worker c then c\<lparr>cn_deadline := None\<rparr>
      else c\<lparr>cn_deadline := map_option (\<lambda>timeout_ms. now + unat timeout_ms) (deadline_budget cfg c)\<rparr>)"

definition has_deadline_exceeded :: "millis \<Rightarrow> Connection \<Rightarrow> bool" where
  "has_deadline_exceeded now c =
     (if cn_worker c then False
      else case cn_deadline c of None \<Rightarrow> False | Some d \<Rightarrow> now \<ge> d)"

definition should_close :: "Connection \<Rightarrow> bool" where
  "should_close c \<longleftrightarrow>
     cn_state c = CsClosing \<or> cn_state c = CsClosed \<or> cn_timeout c \<noteq> ToNone \<or> \<not> cn_keep_alive c"

definition conn_is_valid :: "Connection \<Rightarrow> bool" where
  "conn_is_valid c \<longleftrightarrow> cn_fd c \<ge> 0 \<and> cn_state c \<noteq> CsClosed"

definition can_read :: "Connection \<Rightarrow> bool" where
  "can_read c \<longleftrightarrow> cn_state c = CsReading \<or> cn_state c = CsWaiting"

definition can_write :: "Connection \<Rightarrow> bool" where
  "can_write c \<longleftrightarrow> cn_state c = CsWriting \<or> cn_state c = CsWaiting"

definition begin_websocket :: "64 word \<Rightarrow> millis \<Rightarrow> Connection \<Rightarrow> Connection" where
  "begin_websocket max_message now c = c\<lparr>cn_websocket := Some (ws_new max_message now)\<rparr>"

subsection \<open>The output is a byte queue\<close>

definition pending_output :: "Connection \<Rightarrow> string" where
  "pending_output c = drop (cn_offset c) (cn_output c)"

definition output_ok :: "Connection \<Rightarrow> bool" where
  "output_ok c \<longleftrightarrow> cn_offset c \<le> length (cn_output c) \<and> (cn_output c = [] \<longrightarrow> cn_offset c = 0)"

lemma pending_length: "length (pending_output c) = length (cn_output c) - cn_offset c"
  by (simp add: pending_output_def)

lemma advance_write_ok:
  assumes "output_ok c" "n \<le> length (pending_output c)"
  shows "output_ok (advance_write n c)" "pending_output (advance_write n c) = drop n (pending_output c)"
  using assms by (auto simp: advance_write_def output_ok_def pending_output_def Let_def add.commute)

interpretation out: byte_queue pending_output append_output_buffer advance_write clear_output_buffer output_ok
proof
  fix q :: Connection and n s assume q: "output_ok q"
  show "pending_output (append_output_buffer s q) = pending_output q @ s" "output_ok (append_output_buffer s q)"
    using q by (auto simp: append_output_buffer_def pending_output_def output_ok_def)
  show "pending_output (advance_write n q) = drop n (pending_output q)" "output_ok (advance_write n q)"
    if "n \<le> length (pending_output q)"
    using advance_write_ok [OF q that] by simp_all
qed (simp_all add: clear_output_buffer_def pending_output_def output_ok_def)

lemmas output_defs = pending_output_def output_ok_def append_output_buffer_def set_output_buffer_def clear_output_buffer_def

text \<open>What a call of \<open>write_nonblocking\<close> puts on the wire.\<close>

definition sent_bytes :: "SendOutcome \<Rightarrow> Connection \<Rightarrow> string" where
  "sent_bytes outcome c = (case outcome of Sent n \<Rightarrow> take n (pending_output c) | _ \<Rightarrow> [])"

definition send_fits :: "SendOutcome \<Rightarrow> Connection \<Rightarrow> bool" where
  "send_fits outcome c = (case outcome of Sent n \<Rightarrow> n \<le> length (pending_output c) | _ \<Rightarrow> True)"

lemma write_nonblocking_pending:
  assumes "output_ok c" "send_fits outcome c"
  shows "output_ok (snd (write_nonblocking outcome now c))"
    "sent_bytes outcome c @ pending_output (snd (write_nonblocking outcome now c)) = pending_output c"
proof -
  have empty: "pending_output c = []" if "cn_output c = [] \<or> length (cn_output c) - cn_offset c = 0"
    using that by (auto simp: pending_output_def)
  have upd: "pending_output (update_activity now d) = pending_output d" "output_ok (update_activity now d) = output_ok d" for d
    by (simp_all add: update_activity_def pending_output_def output_ok_def)
  show "output_ok (snd (write_nonblocking outcome now c))"
    using assms advance_write_ok(1) [OF assms(1)]
    by (auto simp: write_nonblocking_def upd send_fits_def split: SendOutcome.splits) (simp_all add: output_ok_def)
  show "sent_bytes outcome c @ pending_output (snd (write_nonblocking outcome now c)) = pending_output c"
    using assms advance_write_ok(2) [OF assms(1)] empty
    by (auto simp: write_nonblocking_def upd send_fits_def sent_bytes_def split: SendOutcome.splits)
      (auto simp: pending_output_def)
qed

fun write_run :: "(SendOutcome \<times> millis) list \<Rightarrow> Connection \<Rightarrow> string \<times> Connection" where
  "write_run [] c = ([], c)"
| "write_run ((outcome, now) # rest) c =
     (let (wire, d) = write_run rest (snd (write_nonblocking outcome now c)) in (sent_bytes outcome c @ wire, d))"

text \<open>The kernel never takes more than it is offered, and takes at least one byte when it takes any.\<close>

fun run_fits :: "(SendOutcome \<times> millis) list \<Rightarrow> Connection \<Rightarrow> bool" where
  "run_fits [] c = True"
| "run_fits ((outcome, now) # rest) c \<longleftrightarrow>
     send_fits outcome c \<and> (pending_output c \<noteq> [] \<longrightarrow> outcome \<noteq> Sent 0) \<and>
     run_fits rest (snd (write_nonblocking outcome now c))"

definition is_sent :: "SendOutcome \<times> millis \<Rightarrow> bool" where
  "is_sent x = (case fst x of Sent _ \<Rightarrow> True | _ \<Rightarrow> False)"

lemma write_run_conserves:
  "output_ok c \<Longrightarrow> run_fits rs c \<Longrightarrow>
     output_ok (snd (write_run rs c)) \<and> fst (write_run rs c) @ pending_output (snd (write_run rs c)) = pending_output c"
proof (induction rs c rule: write_run.induct)
  case (2 outcome now rest c)
  from 2(3) have f: "send_fits outcome c" "run_fits rest (snd (write_nonblocking outcome now c))" by simp_all
  from 2(1) [OF write_nonblocking_pending(1) [OF 2(2) f(1)] f(2)] write_nonblocking_pending(2) [OF 2(2) f(1), of now]
  show ?case by (auto simp: Let_def split_beta)
qed simp

lemma write_run_progress:
  "output_ok c \<Longrightarrow> run_fits rs c \<Longrightarrow> length (pending_output c) \<le> length (filter is_sent rs) \<Longrightarrow>
     pending_output (snd (write_run rs c)) = []"
proof (induction rs c rule: write_run.induct)
  case (2 outcome now rest c)
  let ?d = "snd (write_nonblocking outcome now c)"
  from 2(3) have f: "send_fits outcome c" "pending_output c \<noteq> [] \<longrightarrow> outcome \<noteq> Sent 0" "run_fits rest ?d" by simp_all
  note w = write_nonblocking_pending [OF 2(2) f(1), of now]
  have "length (pending_output ?d) \<le> length (filter is_sent rest)"
  proof (cases "pending_output c = []")
    case True
    with w(2) show ?thesis by simp
  next
    case False
    show ?thesis
    proof (cases "is_sent (outcome, now)")
      case True
      then obtain n where n: "outcome = Sent n" by (auto simp: is_sent_def split: SendOutcome.splits)
      with f False have "0 < n" "n \<le> length (pending_output c)" by (auto simp: send_fits_def)
      with arg_cong [OF w(2), of length] 2(4) n True show ?thesis
        by (simp add: sent_bytes_def)
    next
      case False
      with arg_cong [OF w(2), of length] 2(4) show ?thesis by (simp add: sent_bytes_def)
    qed
  qed
  from 2(1) [OF w(1) f(3) this] show ?case by (simp add: Let_def split_beta)
qed simp

subsection \<open>Properties\<close>

text \<open>
  C19: Every byte of a response reaches the wire once, in order.  However the socket
  splits the writes, what was sent followed by what is pending is the response;
  and once the socket has accepted data as many times as there were bytes pending,
  with any number of would-block answers and interruptions between, everything was sent and
  the buffer is empty.
\<close>

theorem output_delivered:
  assumes "run_fits rs (append_output_buffer d c)" "is_output_complete c"
  shows "(let (wire, e) = write_run rs (append_output_buffer d c) in
    wire @ pending_output e = d \<and>
    (length d \<le> length (filter is_sent rs) \<longrightarrow> wire = d \<and> pending_output e = []))"
proof -
  let ?c = "append_output_buffer d c"
  have ok: "output_ok ?c" "pending_output ?c = d"
    using assms(2) by (auto simp: is_output_complete_def output_defs)
  from write_run_conserves [OF ok(1) assms(1)] write_run_progress [OF ok(1) assms(1)] ok(2)
  show ?thesis by (auto simp: Let_def split: prod.split)
qed

lemma output_delivered_witness:
  "let c = connection_new 7 1 0; rs = [(Sent 2, 5), (SendWouldBlock, 6), (Sent 1, 7), (SendInterrupted, 8), (Sent 2, 9)]
   in run_fits rs (append_output_buffer ''hello'' c) \<and>
      (let (wire, e) = write_run rs (append_output_buffer ''hello'' c) in wire @ pending_output e = ''hello'')"
proof -
  let ?c = "connection_new 7 1 0"
  let ?rs = "[(Sent 2, 5), (SendWouldBlock, 6), (Sent 1, 7), (SendInterrupted, 8), (Sent 2, 9)]"
  have f: "run_fits ?rs (append_output_buffer ''hello'' ?c)"
    by (simp add: send_fits_def write_nonblocking_def advance_write_def update_activity_def output_defs connection_new_def Let_def)
  have "is_output_complete ?c" by (simp add: is_output_complete_def connection_new_def)
  from output_delivered [OF f this] f show ?thesis unfolding Let_def by (auto split: prod.splits)
qed

text \<open>
  A connection persists exactly when HTTP/1.1 does not say \<^verbatim>\<open>Connection: close\<close>
  or another version says \<^verbatim>\<open>Connection: keep-alive\<close>, in any case; the whole field is
  compared, so \<^verbatim>\<open>close, TE\<close> keeps the connection open.
\<close>

theorem keep_alive_decision:
  "cn_keep_alive (evaluate_keep_alive r c) =
     (if req_version r = ''HTTP/1.1''
      then \<not> eq_icase (headers_get (req_headers r) ''Connection'') ''close''
      else eq_icase (headers_get (req_headers r) ''Connection'') ''keep-alive'')"
  by (auto simp: evaluate_keep_alive_def eq_icase_def Let_def to_lower_def is_upper_def code_def)

text \<open>Deadlines.\<close>

lemma set_deadline_exceeded:
  "has_deadline_exceeded t (set_deadline cfg now c) \<longleftrightarrow>
     \<not> cn_worker c \<and> (\<exists>b. deadline_budget cfg c = Some b \<and> now + unat b \<le> t)"
  by (auto simp: has_deadline_exceeded_def set_deadline_def split: option.split)

end
