(* ===== verification/Connection_Manager.thy ===== *)
theory Connection_Manager
  imports Connection "HOL-Library.AList"
begin

section \<open>All client connections: \<^verbatim>\<open>connection_manager.cpp\<close>\<close>

text \<open>
  The table from descriptors to connections (an association list with distinct keys;
  its order stands for the unspecified order of the hash map).  What the live
  configuration store holds at the time of a call is the argument \<open>live\<close>, \<open>None\<close>
  when the manager was built without a store.  The mutex makes each operation one step.
  Erasing an entry closes its descriptor, provided the table held the last reference.
\<close>

record ConnectionManager =
  cm_conns :: "(int \<times> Connection) list"
  cm_config :: ServerConfig
  cm_next_id :: "64 word"
  cm_total :: "64 word"

definition manager_new :: "ServerConfig \<Rightarrow> ConnectionManager" where
  "manager_new cfg = \<lparr>cm_conns = [], cm_config = cfg, cm_next_id = 1, cm_total = 0\<rparr>"

definition config_view :: "ServerConfig option \<Rightarrow> ConnectionManager \<Rightarrow> ServerConfig" where
  "config_view live m = (case live of Some cfg \<Rightarrow> cfg | None \<Rightarrow> cm_config m)"

subsection \<open>Registration and lookup\<close>

definition at_capacity :: "ServerConfig option \<Rightarrow> ConnectionManager \<Rightarrow> bool" where
  "at_capacity live m \<longleftrightarrow> length (cm_conns m) \<ge> unat (cfg_max_connections (config_view live m))"

definition generate_connection_id :: "ConnectionManager \<Rightarrow> 64 word \<times> ConnectionManager" where
  "generate_connection_id m = (cm_next_id m, m\<lparr>cm_next_id := cm_next_id m + 1\<rparr>)"

definition get_connection :: "int \<Rightarrow> ConnectionManager \<Rightarrow> Connection option" where
  "get_connection fd m = map_of (cm_conns m) fd"

definition has_connection :: "int \<Rightarrow> ConnectionManager \<Rightarrow> bool" where
  "has_connection fd m \<longleftrightarrow> map_of (cm_conns m) fd \<noteq> None"

definition get_connection_by_id :: "64 word \<Rightarrow> ConnectionManager \<Rightarrow> Connection option" where
  "get_connection_by_id ident m = map_option snd (find (\<lambda>(fd, c). cn_id c = ident) (cm_conns m))"

definition register_connection ::
  "ServerConfig option \<Rightarrow> int \<Rightarrow> millis \<Rightarrow> ConnectionManager \<Rightarrow> Connection option \<times> ConnectionManager" where
  "register_connection live fd now m =
     (if at_capacity live m then (None, m)
      else if has_connection fd m then (None, m)
      else let (ident, m) = generate_connection_id m; conn = connection_new fd ident now
           in (Some conn, m\<lparr>cm_conns := cm_conns m @ [(fd, conn)], cm_total := cm_total m + 1\<rparr>))"

definition erase_connection :: "int \<Rightarrow> ConnectionManager \<Rightarrow> int list \<times> ConnectionManager" where
  "erase_connection fd m =
     (case map_of (cm_conns m) fd of
        None \<Rightarrow> ([], m)
      | Some c \<Rightarrow> (closed_by_destructor c, m\<lparr>cm_conns := AList.delete fd (cm_conns m)\<rparr>))"

definition remove_connection :: "int \<Rightarrow> ConnectionManager \<Rightarrow> bool \<times> int list \<times> ConnectionManager" where
  "remove_connection fd m = (if \<not> has_connection fd m then (False, [], m) else (True, erase_connection fd m))"

definition timeout_connection :: "int \<Rightarrow> ConnectionManager \<Rightarrow> bool \<times> int list \<times> ConnectionManager" where
  "timeout_connection fd m = (if \<not> has_connection fd m then (False, [], m) else (True, erase_connection fd m))"

definition remove_all :: "ConnectionManager \<Rightarrow> nat \<times> int list \<times> ConnectionManager" where
  "remove_all m =
     (length (cm_conns m), concat (map (closed_by_destructor \<circ> snd) (cm_conns m)), m\<lparr>cm_conns := []\<rparr>)"

text \<open>What the event loop does to a connection through its pointer.\<close>

definition update_connection :: "int \<Rightarrow> (Connection \<Rightarrow> Connection) \<Rightarrow> ConnectionManager \<Rightarrow> ConnectionManager" where
  "update_connection fd f m = m\<lparr>cm_conns := map (\<lambda>(k, c). (k, if k = fd then f c else c)) (cm_conns m)\<rparr>"

subsection \<open>Timeouts\<close>

fun sweep_erase :: "int list \<Rightarrow> nat \<times> int list \<times> ConnectionManager \<Rightarrow> nat \<times> int list \<times> ConnectionManager" where
  "sweep_erase [] acc = acc"
| "sweep_erase (fd # fds) (removed, closed, m) =
     (if has_connection fd m
      then (let (cl, m) = erase_connection fd m in sweep_erase fds (removed + 1, closed @ cl, m))
      else sweep_erase fds (removed, closed, m))"

definition is_timed_out :: "millis \<Rightarrow> Connection \<Rightarrow> bool" where
  "is_timed_out now c \<longleftrightarrow> has_deadline_exceeded now c"

definition sweep_timeouts :: "millis \<Rightarrow> ConnectionManager \<Rightarrow> nat \<times> int list \<times> ConnectionManager" where
  "sweep_timeouts now m =
     (let timed_out_fds = map fst (filter (\<lambda>(fd, c). is_timed_out now c) (cm_conns m))
      in sweep_erase timed_out_fds (0, [], m))"

definition get_timeout_reason :: "millis \<Rightarrow> ConnectionManager \<Rightarrow> Connection \<Rightarrow> string" where
  "get_timeout_reason now m c =
     (if cn_state c = CsTlsHandshake then ''TLS handshake timeout''
      else if has_header_timeout now (cm_config m) c then ''header timeout''
      else if has_body_timeout now (cm_config m) c then ''body timeout''
      else if has_write_timeout now (cm_config m) c then ''write timeout''
      else if has_keep_alive_timeout now (cm_config m) c then ''keep-alive timeout''
      else case cn_websocket c of
        Some w \<Rightarrow> if ws_state w = Closing then ''WebSocket close handshake timeout''
                  else ''WebSocket idle timeout''
      | None \<Rightarrow> ''unknown'')"

subsection \<open>WebSocket maintenance\<close>

definition text_of :: "byte list \<Rightarrow> string" where
  "text_of bs = map (\<lambda>b. char_of (unat b)) bs"

definition ping_connection :: "nat \<Rightarrow> millis \<Rightarrow> ServerConfig \<Rightarrow> Connection \<Rightarrow> bool \<times> Connection" where
  "ping_connection interval now cfg c =
     (case cn_websocket c of
        None \<Rightarrow> (False, c)
      | Some w \<Rightarrow>
          let (due, w) = maybe_queue_ping interval now w; c = c\<lparr>cn_websocket := Some w\<rparr> in
          if due then
            let (bytes, w) = take_output w;
                c = append_output_buffer (text_of bytes) (c\<lparr>cn_websocket := Some w\<rparr>)
            in (True, set_deadline cfg now (c\<lparr>cn_write := WrBody\<rparr>))
          else (False, c))"

definition maintain_websockets :: "nat \<Rightarrow> millis \<Rightarrow> ConnectionManager \<Rightarrow> int list \<times> ConnectionManager" where
  "maintain_websockets interval now m =
     (let pinged = map (\<lambda>(fd, c). (fd, ping_connection interval now (cm_config m) c)) (cm_conns m)
      in (map fst (filter (\<lambda>(fd, due, c). due) pinged),
          m\<lparr>cm_conns := map (\<lambda>(fd, due, c). (fd, c)) pinged\<rparr>))"

text \<open>
  The best-effort flush.  The list holds what \<^verbatim>\<open>send\<close> answers, call by call; after
  its end the socket would block.
\<close>

fun flush_loop :: "(SendOutcome \<times> millis) list \<Rightarrow> Connection \<Rightarrow> Connection" where
  "flush_loop [] c = c"
| "flush_loop ((outcome, now) # rest) c =
     (if conn_has_pending_output c then
        (let (result, c) = write_nonblocking outcome now c
         in if result \<noteq> IoSuccess then c else flush_loop rest c)
      else c)"

definition shutdown_connection :: "16 word \<Rightarrow> (SendOutcome \<times> millis) list \<Rightarrow> Connection \<Rightarrow> bool \<times> Connection" where
  "shutdown_connection cc sends c =
     (case cn_websocket c of
        None \<Rightarrow> (False, c)
      | Some w \<Rightarrow>
          let (bytes, w) = take_output (initiate_close cc w)
          in (True, flush_loop sends (append_output_buffer (text_of bytes) (c\<lparr>cn_websocket := Some w\<rparr>))))"

definition initiate_websocket_shutdown ::
  "16 word \<Rightarrow> (int \<Rightarrow> (SendOutcome \<times> millis) list) \<Rightarrow> ConnectionManager \<Rightarrow> nat \<times> ConnectionManager" where
  "initiate_websocket_shutdown cc sends m =
     (let visited = map (\<lambda>(fd, c). (fd, shutdown_connection cc (sends fd) c)) (cm_conns m)
      in (length (filter (\<lambda>(fd, notified, c). notified) visited),
          m\<lparr>cm_conns := map (\<lambda>(fd, notified, c). (fd, c)) visited\<rparr>))"

subsection \<open>The invariant\<close>

text \<open>
  Every entry is filed under its own descriptor, no two entries share a descriptor or
  an identifier, and identifiers are positive and below the next one to be given.
\<close>

definition manager_ok :: "ConnectionManager \<Rightarrow> bool" where
  "manager_ok m \<longleftrightarrow>
     distinct (map fst (cm_conns m)) \<and> list_all (\<lambda>(fd, c). cn_fd c = fd) (cm_conns m) \<and>
     distinct (map (cn_id \<circ> snd) (cm_conns m)) \<and>
     list_all (\<lambda>(fd, c). 0 < unat (cn_id c) \<and> unat (cn_id c) < unat (cm_next_id m)) (cm_conns m) \<and>
     unat (cm_next_id m) = unat (cm_total m) + 1"

lemma ids_eq: "map (cn_id \<circ> snd) (map (\<lambda>(fd, c). (fd, f fd c)) xs) = map (cn_id \<circ> snd) xs"
  if "\<And>fd c. (fd, c) \<in> set xs \<Longrightarrow> cn_id (f fd c) = cn_id c"
  using that by (auto simp: comp_def)

text \<open>Operations that keep the descriptor and the identifier keep the invariant.\<close>

definition same_ids :: "Connection \<Rightarrow> Connection \<Rightarrow> bool" where
  "same_ids c d \<longleftrightarrow> cn_fd c = cn_fd d \<and> cn_id c = cn_id d"

lemma manager_ok_map:
  assumes "manager_ok m" "\<And>fd c. same_ids (f fd c) c"
  shows "manager_ok (m\<lparr>cm_conns := map (\<lambda>(fd, c). (fd, f fd c)) (cm_conns m)\<rparr>)"
  using assms by (auto simp: manager_ok_def same_ids_def comp_def case_prod_unfold list_all_iff)

lemma manager_ok_sub:
  assumes "manager_ok m" "cm_conns n = filter P (cm_conns m)" "cm_next_id n = cm_next_id m" "cm_total n = cm_total m"
  shows "manager_ok n"
  using assms by (auto simp: manager_ok_def distinct_map_filter list_all_iff)

lemma erase_conns:
  "cm_conns (snd (erase_connection fd m)) = filter (\<lambda>(k, c). k \<noteq> fd) (cm_conns m)"
  "cm_next_id (snd (erase_connection fd m)) = cm_next_id m" "cm_total (snd (erase_connection fd m)) = cm_total m"
proof -
  have "filter (\<lambda>(k, c). k \<noteq> fd) xs = xs" if "map_of xs fd = None" for xs :: "(int \<times> Connection) list"
    using that by (induction xs) (auto split: if_splits)
  then show "cm_conns (snd (erase_connection fd m)) = filter (\<lambda>(k, c). k \<noteq> fd) (cm_conns m)"
    by (auto simp: erase_connection_def AList.delete_eq case_prod_unfold eq_commute split: option.split)
qed (simp_all add: erase_connection_def split: option.split)

lemma erase_ok: "manager_ok m \<Longrightarrow> manager_ok (snd (erase_connection fd m))"
  by (rule manager_ok_sub [OF _ erase_conns])

lemma register_ok:
  assumes "manager_ok m" "unat (cm_total m) + 2 < 2 ^ 64"
  shows "manager_ok (snd (register_connection live fd now m))"
proof -
  have n: "unat (cm_next_id m) = unat (cm_total m) + 1" using assms(1) by (simp add: manager_ok_def)
  have "unat (cm_total m + 1) = unat (cm_total m) + 1" "unat (cm_next_id m + 1) = unat (cm_next_id m) + 1"
    using assms(2) n by (simp_all add: unat_word_ariths)
  with assms(1) n show ?thesis
    by (auto simp: register_connection_def generate_connection_id_def manager_ok_def has_connection_def
        map_of_eq_None_iff connection_new_def list_all_iff Let_def)
qed

lemma same_ids_refl [simp]: "same_ids c c"
  by (simp add: same_ids_def)

lemma same_ids_write: "same_ids (snd (write_nonblocking outcome now c)) c"
  by (simp add: same_ids_def write_nonblocking_def advance_write_def update_activity_def Let_def split: SendOutcome.split)

lemma same_ids_trans: "same_ids a b \<Longrightarrow> same_ids b c \<Longrightarrow> same_ids a c"
  by (simp add: same_ids_def)

lemma same_ids_flush: "same_ids (flush_loop rs c) c"
proof (induction rs c rule: flush_loop.induct)
  case (2 outcome now rest c)
  obtain result d where d: "write_nonblocking outcome now c = (result, d)" by fastforce
  have w: "same_ids d c" using same_ids_write [of outcome now c] d by simp
  show ?case
  proof (cases "conn_has_pending_output c \<and> result = IoSuccess")
    case True
    with 2(1) [OF _ d [symmetric]] have "same_ids (flush_loop rest d) d" by simp
    with w True d show ?thesis by (simp add: same_ids_trans)
  next
    case False
    with w d show ?thesis by auto
  qed
qed simp

lemma same_ids_shutdown: "same_ids (snd (shutdown_connection cc sends c)) c"
proof (cases "cn_websocket c")
  case (Some w)
  have "same_ids (append_output_buffer t (c\<lparr>cn_websocket := Some v\<rparr>)) c" for t v
    by (simp add: same_ids_def append_output_buffer_def)
  with Some show ?thesis using same_ids_flush same_ids_trans
    by (simp add: shutdown_connection_def Let_def split: prod.split) blast
qed (simp add: shutdown_connection_def)

lemma same_ids_deadline: "same_ids (set_deadline cfg now c) d = same_ids c d"
  by (simp add: same_ids_def set_deadline_def)

lemma same_ids_updates [simp]:
  "same_ids (append_output_buffer t c) d = same_ids c d" "same_ids (c\<lparr>cn_write := ws\<rparr>) d = same_ids c d"
  "same_ids (c\<lparr>cn_websocket := v\<rparr>) d = same_ids c d"
  by (simp_all add: same_ids_def append_output_buffer_def)

lemma same_ids_ping: "same_ids (snd (ping_connection interval now cfg c)) c"
proof (cases "cn_websocket c")
  case (Some w)
  obtain due v where "maybe_queue_ping interval now w = (due, v)" by fastforce
  with Some show ?thesis by (simp add: ping_connection_def Let_def same_ids_deadline split: prod.split)
qed (simp add: ping_connection_def)

lemma maintain_ok: "manager_ok m \<Longrightarrow> manager_ok (snd (maintain_websockets interval now m))"
  using manager_ok_map [of m "\<lambda>fd c. snd (ping_connection interval now (cm_config m) c)", OF _ same_ids_ping]
  by (simp add: maintain_websockets_def Let_def case_prod_unfold comp_def)

lemma shutdown_ok: "manager_ok m \<Longrightarrow> manager_ok (snd (initiate_websocket_shutdown cc sends m))"
  using manager_ok_map [of m "\<lambda>fd c. snd (shutdown_connection cc (sends fd) c)", OF _ same_ids_shutdown]
  by (simp add: initiate_websocket_shutdown_def Let_def case_prod_unfold comp_def)

subsection \<open>The sweep\<close>

lemma sweep_erase_eq:
  "distinct fds \<Longrightarrow> manager_ok m \<Longrightarrow> set fds \<subseteq> fst ` set (cm_conns m) \<Longrightarrow>
   sweep_erase fds (removed, closed, m) =
     (removed + length fds,
      closed @ concat (map (\<lambda>fd. closed_by_destructor (the (get_connection fd m))) fds),
      m\<lparr>cm_conns := filter (\<lambda>(k, c). k \<notin> set fds) (cm_conns m)\<rparr>)"
proof (induction fds arbitrary: removed closed m)
  case Nil
  have "filter (\<lambda>(k, c). True) (cm_conns m) = cm_conns m" by (rule filter_True) auto
  then show ?case by simp
next
  case (Cons fd fds)
  obtain c where c: "map_of (cm_conns m) fd = Some c"
    using Cons.prems(3) by (metis list.set_intros(1) map_of_eq_None_iff not_None_eq subsetD)
  let ?n = "snd (erase_connection fd m)"
  have e: "erase_connection fd m = (closed_by_destructor c, ?n)" "has_connection fd m"
    using c by (simp_all add: erase_connection_def has_connection_def)
  have n: "?n = m\<lparr>cm_conns := filter (\<lambda>(k, c). k \<noteq> fd) (cm_conns m)\<rparr>"
    using c by (simp add: erase_connection_def AList.delete_eq case_prod_unfold eq_commute [of fd])
  have sub: "set fds \<subseteq> fst ` set (cm_conns ?n)" using Cons.prems(1,3) by (force simp: n)
  have get: "get_connection k ?n = get_connection k m" if "k \<in> set fds" for k
  proof -
    have "map_of (filter (\<lambda>(k, c). k \<noteq> fd) xs) k = map_of xs k" for xs :: "(int \<times> Connection) list"
      using that Cons.prems(1) by (induction xs) auto
    then show ?thesis by (simp add: get_connection_def n)
  qed
  have f: "filter (\<lambda>(k, c). k \<notin> set fds) (filter (\<lambda>(k, c). k \<noteq> fd) xs) = filter (\<lambda>(k, c). k \<notin> set (fd # fds)) xs"
    for xs :: "(int \<times> Connection) list" by (simp, rule filter_cong) auto
  have "sweep_erase (fd # fds) (removed, closed, m) =
      sweep_erase fds (removed + 1, closed @ closed_by_destructor c, ?n)"
    unfolding sweep_erase.simps using e(2) by (subst e(1)) simp
  also have "\<dots> = (removed + 1 + length fds,
      (closed @ closed_by_destructor c) @ concat (map (\<lambda>fd. closed_by_destructor (the (get_connection fd ?n))) fds),
      ?n\<lparr>cm_conns := filter (\<lambda>(k, c). k \<notin> set fds) (cm_conns ?n)\<rparr>)"
    using Cons.prems erase_ok [OF Cons.prems(2), of fd] sub by (intro Cons.IH) simp_all
  also have "map (\<lambda>fd. closed_by_destructor (the (get_connection fd ?n))) fds =
      map (\<lambda>fd. closed_by_destructor (the (get_connection fd m))) fds"
    using get by simp
  finally show ?case using c f by (simp add: n get_connection_def)
qed

lemma sweep_timeouts_eq:
  assumes "manager_ok m"
  shows "sweep_timeouts now m =
    (length (filter (\<lambda>(fd, c). is_timed_out now c) (cm_conns m)),
     concat (map (closed_by_destructor \<circ> snd) (filter (\<lambda>(fd, c). is_timed_out now c) (cm_conns m))),
     m\<lparr>cm_conns := filter (\<lambda>(fd, c). \<not> is_timed_out now c) (cm_conns m)\<rparr>)"
proof -
  let ?gone = "filter (\<lambda>(fd, c). is_timed_out now c) (cm_conns m)"
  have d: "distinct (map fst (cm_conns m))" using assms by (simp add: manager_ok_def)
  then have 1: "distinct (map fst ?gone)" by (rule distinct_map_filter)
  have the: "get_connection fd m = Some c" if "(fd, c) \<in> set (cm_conns m)" for fd c
    using d that by (simp add: get_connection_def)
  have "(k \<in> set (map fst ?gone)) = is_timed_out now c" if "(k, c) \<in> set (cm_conns m)" for k c
    using the [OF that] the by (auto simp: image_iff intro: that)
  then have "filter (\<lambda>(k, c). k \<notin> set (map fst ?gone)) (cm_conns m) = filter (\<lambda>(fd, c). \<not> is_timed_out now c) (cm_conns m)"
    by (intro filter_cong) auto
  moreover have "map (\<lambda>fd. closed_by_destructor (the (get_connection fd m))) (map fst ?gone) = map (closed_by_destructor \<circ> snd) ?gone"
    using the by auto
  moreover have sub: "set (map fst ?gone) \<subseteq> fst ` set (cm_conns m)" by auto
  ultimately show ?thesis
    using sweep_erase_eq [OF 1 assms, of 0 "[]"] sub by (simp add: sweep_timeouts_def Let_def del: set_map map_map)
qed

subsection \<open>Every history of the manager\<close>

text \<open>
  The calls the event loop makes, in any order, and what it does to a connection it
  looked up.  Identifiers are 64-bit; the rule for \<open>register_connection\<close> stops one
  short of wrapping.
\<close>

inductive manager_reach :: "ServerConfig \<Rightarrow> ConnectionManager \<Rightarrow> bool" for cfg where
  start: "manager_reach cfg (manager_new cfg)"
| register: "manager_reach cfg m \<Longrightarrow> unat (cm_total m) + 2 < 2 ^ 64 \<Longrightarrow>
     manager_reach cfg (snd (register_connection live fd now m))"
| remove: "manager_reach cfg m \<Longrightarrow> manager_reach cfg (snd (snd (remove_connection fd m)))"
| timeout: "manager_reach cfg m \<Longrightarrow> manager_reach cfg (snd (snd (timeout_connection fd m)))"
| clear: "manager_reach cfg m \<Longrightarrow> manager_reach cfg (snd (snd (remove_all m)))"
| sweep: "manager_reach cfg m \<Longrightarrow> manager_reach cfg (snd (snd (sweep_timeouts now m)))"
| update: "manager_reach cfg m \<Longrightarrow> (\<And>c. same_ids (f c) c) \<Longrightarrow> manager_reach cfg (update_connection fd f m)"
| maintain: "manager_reach cfg m \<Longrightarrow> manager_reach cfg (snd (maintain_websockets interval now m))"
| shutdown: "manager_reach cfg m \<Longrightarrow> manager_reach cfg (snd (initiate_websocket_shutdown cc sends m))"

lemma update_ok:
  assumes "manager_ok m" "\<And>c. same_ids (f c) c"
  shows "manager_ok (update_connection fd f m)"
  using manager_ok_map [of m "\<lambda>k c. if k = fd then f c else c"] assms by (simp add: update_connection_def)

lemma manager_reach_ok: "manager_reach cfg m \<Longrightarrow> manager_ok m \<and> cm_config m = cfg"
proof (induction rule: manager_reach.induct)
  case start
  show ?case by (simp add: manager_ok_def manager_new_def)
next
  case (register m live fd now)
  then show ?case
    using register_ok [of m live fd now] by (simp add: register_connection_def generate_connection_id_def Let_def)
next
  case (remove m fd)
  then show ?case using erase_ok [of m fd] by (simp add: remove_connection_def erase_connection_def split: option.split)
next
  case (timeout m fd)
  then show ?case using erase_ok [of m fd] by (simp add: timeout_connection_def erase_connection_def split: option.split)
next
  case (clear m)
  then show ?case by (simp add: remove_all_def manager_ok_def)
next
  case (sweep m now)
  then show ?case using manager_ok_sub [of m _ "\<lambda>(fd, c). \<not> is_timed_out now c"] by (simp add: sweep_timeouts_eq)
next
  case (update m f fd)
  then show ?case using update_ok [of m f fd] by (simp add: update_connection_def)
next
  case (maintain m interval now)
  then show ?case using maintain_ok [of m interval now] by (simp add: maintain_websockets_def Let_def)
next
  case (shutdown m cc sends)
  then show ?case using shutdown_ok [of m cc sends] by (simp add: initiate_websocket_shutdown_def Let_def)
qed

lemma same_id_same_fd:
  assumes "manager_ok m" "get_connection a m = Some c" "get_connection b m = Some d" "cn_id c = cn_id d"
  shows "a = b"
proof -
  have "(a, c) \<in> set (cm_conns m)" "(b, d) \<in> set (cm_conns m)"
    using assms(2,3) by (auto simp: get_connection_def dest: map_of_SomeD)
  moreover have "inj_on (cn_id \<circ> snd) (set (cm_conns m))" using assms(1) by (simp add: manager_ok_def distinct_map)
  ultimately have "(a, c) = (b, d)" using assms(4) by (intro inj_onD [of "cn_id \<circ> snd"]) simp_all
  then show ?thesis by simp
qed

lemma found_by_id:
  assumes "manager_ok m" "get_connection fd m = Some c"
  shows "get_connection_by_id (cn_id c) m = Some c"
proof -
  have "find (\<lambda>(fd, x). cn_id x = cn_id c) xs = Some (fd, c)"
    if "(fd, c) \<in> set xs" "distinct (map (cn_id \<circ> snd) xs)" for xs
    using that by (induction xs) (auto simp: image_iff)
  then show ?thesis
    using assms by (auto simp: get_connection_by_id_def get_connection_def manager_ok_def dest!: map_of_SomeD)
qed

text \<open>
  Whatever the event loop does, a connection is found only under its own
  descriptor, two connections never share an identifier, an identifier finds the
  connection that has it, a new connection is registered only below
  the configured maximum, and every identifier is one of those given so far.
\<close>

theorem manager_invariant:
  assumes "manager_reach cfg m" "get_connection fd m = Some c"
  shows "cn_fd c = fd \<and> get_connection_by_id (cn_id c) m = Some c \<and>
    (get_connection other m = Some d \<and> cn_id d = cn_id c \<longrightarrow> other = fd) \<and>
    1 \<le> unat (cn_id c) \<and> unat (cn_id c) \<le> unat (cm_total m) \<and>
    (fst (register_connection live new now m) \<noteq> None \<longrightarrow>
       length (cm_conns m) < unat (cfg_max_connections (config_view live m)))"
proof -
  have ok: "manager_ok m" using manager_reach_ok [OF assms(1)] by simp
  have in': "(fd, c) \<in> set (cm_conns m)" using assms(2) by (auto simp: get_connection_def dest: map_of_SomeD)
  then have f: "cn_fd c = fd" "0 < unat (cn_id c)" "unat (cn_id c) < unat (cm_next_id m)" "unat (cm_next_id m) = unat (cm_total m) + 1"
    using ok by (auto simp: manager_ok_def list_all_iff)
  note g = found_by_id [OF ok assms(2)]
  show ?thesis
    using f g same_id_same_fd [OF ok _ assms(2)]
    by (auto simp: register_connection_def at_capacity_def not_le split: if_splits)
qed

lemma manager_invariant_witness:
  "let m = snd (register_connection None 7 0 (manager_new config_default)) in
   manager_reach config_default m \<and> get_connection 7 m = Some (connection_new 7 1 0) \<and>
   get_connection_by_id 1 m = Some (connection_new 7 1 0)"
proof -
  let ?m = "snd (register_connection None 7 0 (manager_new config_default))"
  have "unat (cm_total (manager_new config_default)) + 2 < 2 ^ 64" by (simp add: manager_new_def)
  from manager_reach.register [OF manager_reach.start this] have r: "manager_reach config_default ?m" .
  have "cfg_max_connections config_default = 1000" by code_simp
  then have g: "get_connection 7 ?m = Some (connection_new 7 1 0)"
    by (simp add: register_connection_def generate_connection_id_def get_connection_def manager_new_def
        at_capacity_def config_view_def has_connection_def Let_def)
  have "cn_id (connection_new 7 1 0) = 1" by (simp add: connection_new_def)
  with manager_invariant [OF r g, of 0 "connection_new 0 0 0" None 0 0] r g show ?thesis unfolding Let_def by simp
qed

text \<open>
  C33: A stuck connection is closed.  When a deadline was set for a connection and
  nothing changes it, every sweep from then plus the budget of its state on removes it and
  closes its descriptor, unless a worker is busy with it; a sweep
  before that keeps it.
\<close>

theorem expired_connection_is_closed:
  assumes "manager_reach cfg m" "get_connection fd m = Some (set_deadline used now c)" "fd \<noteq> -1"
  shows "(case deadline_budget used c of
      Some b \<Rightarrow>
        if \<not> cn_worker c \<and> now + unat b \<le> t
        then \<not> has_connection fd (snd (snd (sweep_timeouts t m))) \<and> fd \<in> set (fst (snd (sweep_timeouts t m)))
        else get_connection fd (snd (snd (sweep_timeouts t m))) = Some (set_deadline used now c)
    | None \<Rightarrow> get_connection fd (snd (snd (sweep_timeouts t m))) = Some (set_deadline used now c))"
proof -
  let ?c = "set_deadline used now c"
  have ok: "manager_ok m" using manager_reach_ok [OF assms(1)] by simp
  then have d: "distinct (map fst (cm_conns m))" by (simp add: manager_ok_def)
  have i: "(fd, ?c) \<in> set (cm_conns m)" using assms(2) by (auto simp: get_connection_def dest: map_of_SomeD)
  have "cn_fd ?c = fd" using ok i by (auto simp: manager_ok_def list_all_iff)
  then have closes: "closed_by_destructor ?c = [fd]" using assms(3) by (simp add: closed_by_destructor_def)
  have only: "(fd, x) \<in> set (cm_conns m) \<Longrightarrow> x = ?c" for x
    using d assms(2) by (metis get_connection_def map_of_is_SomeI option.inject)
  let ?live = "filter (\<lambda>(k, x). \<not> is_timed_out t x) (cm_conns m)"
    and ?dead = "filter (\<lambda>(k, x). is_timed_out t x) (cm_conns m)"
  have sweep: "has_connection fd (snd (snd (sweep_timeouts t m))) \<longleftrightarrow> map_of ?live fd \<noteq> None"
    "get_connection fd (snd (snd (sweep_timeouts t m))) = map_of ?live fd"
    "fst (snd (sweep_timeouts t m)) = concat (map (closed_by_destructor \<circ> snd) ?dead)"
    unfolding sweep_timeouts_eq [OF ok] by (simp_all add: has_connection_def get_connection_def)
  have expired: "is_timed_out t ?c \<longleftrightarrow> \<not> cn_worker c \<and> (\<exists>b. deadline_budget used c = Some b \<and> now + unat b \<le> t)"
    by (simp add: is_timed_out_def set_deadline_exceeded)
  show ?thesis
  proof (cases "is_timed_out t ?c")
    case True
    have "map_of ?live fd = None" using only True by (auto simp: map_of_eq_None_iff)
    moreover have "fd \<in> set (concat (map (closed_by_destructor \<circ> snd) ?dead))"
      using i True closes by simp (metis list.set_intros(1))
    moreover obtain b where "\<not> cn_worker c" "deadline_budget used c = Some b" "now + unat b \<le> t"
      using True expired by blast
    ultimately show ?thesis unfolding sweep by simp
  next
    case False
    have "(fd, ?c) \<in> set ?live" using i False by simp
    then have "map_of ?live fd = Some ?c" using distinct_map_filter [OF d] by (intro map_of_is_SomeI)
    moreover have "\<not> (\<not> cn_worker c \<and> now + unat b \<le> t)" if "deadline_budget used c = Some b" for b
      using False expired that by blast
    ultimately show ?thesis unfolding sweep by (cases "deadline_budget used c") (simp_all only: option.case if_False)
  qed
qed

lemma expired_connection_is_closed_witness:
  "let m = update_connection 7 (\<lambda>c. set_deadline config_default 10 (c\<lparr>cn_read := RdHeaders\<rparr>))
             (snd (register_connection None 7 0 (manager_new config_default))) in
   manager_reach config_default m \<and> \<not> has_connection 7 (snd (snd (sweep_timeouts 20000 m)))"
proof -
  let ?n = "snd (register_connection None 7 0 (manager_new config_default))"
  let ?c = "(connection_new 7 1 0)\<lparr>cn_read := RdHeaders\<rparr>"
  let ?f = "\<lambda>c. set_deadline config_default 10 (c\<lparr>cn_read := RdHeaders\<rparr>)"
  have n: "unat (cm_total (manager_new config_default)) + 2 < 2 ^ 64" by (simp add: manager_new_def)
  have "same_ids (?f c) c" for c by (simp add: same_ids_deadline) (simp add: same_ids_def)
  from manager_reach.update [OF manager_reach.register [OF manager_reach.start n] this]
  have r: "manager_reach config_default (update_connection 7 ?f ?n)" .
  have "cfg_max_connections config_default = 1000" by code_simp
  then have g: "get_connection 7 (update_connection 7 ?f ?n) = Some (set_deadline config_default 10 ?c)"
    by (simp add: register_connection_def generate_connection_id_def get_connection_def manager_new_def
        at_capacity_def config_view_def has_connection_def Let_def update_connection_def)
  have "cfg_header_timeout_ms config_default = 10000" by code_simp
  then have "deadline_budget config_default ?c = Some 10000" "\<not> cn_worker ?c"
    by (simp_all add: deadline_budget_def connection_new_def)
  with expired_connection_is_closed [OF r g, of 20000] r show ?thesis unfolding Let_def by simp
qed

end
