(* ===== verification/Upstream_Pool.thy ===== *)
theory Upstream_Pool
  imports Proxy_Target "HOL-Library.AList" "HOL-Library.Multiset"
begin

section \<open>Idle upstream connections: \<^verbatim>\<open>upstream_pool.cpp\<close>\<close>

text \<open>
  \<open>up_idle\<close> is the hash map from authorities to buckets (an association list with
  distinct keys; its order stands for the unspecified order of the map).  Time is in
  nanoseconds of the steady clock.  What \<^verbatim>\<open>socket\<close> and \<^verbatim>\<open>connect\<close> answer is the
  argument \<open>SocketOutcome\<close>; the descriptors that an operation closes are part of its
  result.
\<close>

record IdleConnection =
  ic_fd :: int
  ic_since :: int

record UpstreamPool =
  up_idle :: "(string \<times> IdleConnection list) list"
  up_max_idle :: nat
  up_timeout_ms :: "64 word"

definition pool_new :: UpstreamPool where
  "pool_new = \<lparr>up_idle = [], up_max_idle = 4, up_timeout_ms = 60000\<rparr>"

datatype SocketOutcome =
  SocketFailed string
| ConnectFailed int string
| Connecting int

record AcquireResult =
  aq_ok :: bool
  aq_reused :: bool
  aq_fd :: int
  aq_error :: string

definition acquire_failed :: "string \<Rightarrow> AcquireResult" where
  "acquire_failed e = \<lparr>aq_ok = False, aq_reused = False, aq_fd = -1, aq_error = e\<rparr>"

definition pool_create :: "SocketOutcome \<Rightarrow> AcquireResult \<times> int list" where
  "pool_create sock =
     (case sock of
        SocketFailed e \<Rightarrow> (acquire_failed (''socket() failed: '' @ e), [])
      | ConnectFailed fd e \<Rightarrow> (acquire_failed (''connect() failed: '' @ e), [fd])
      | Connecting fd \<Rightarrow> (\<lparr>aq_ok = True, aq_reused = False, aq_fd = fd, aq_error = []\<rparr>, []))"

definition pool_acquire :: "ProxyTarget \<Rightarrow> SocketOutcome \<Rightarrow> UpstreamPool \<Rightarrow> AcquireResult \<times> int list \<times> UpstreamPool" where
  "pool_acquire t sock p =
     (let key = authority t;
          fresh = (case pool_create sock of (r, closed) \<Rightarrow> (r, closed, p))
      in case map_of (up_idle p) key of
           None \<Rightarrow> fresh
         | Some bucket \<Rightarrow>
             if bucket = [] then fresh
             else let connection = last bucket; rest = butlast bucket;
                      idle = (if rest = [] then AList.delete key (up_idle p)
                              else AList.update key rest (up_idle p))
                  in (\<lparr>aq_ok = True, aq_reused = True, aq_fd = ic_fd connection, aq_error = []\<rparr>, [],
                      p\<lparr>up_idle := idle\<rparr>))"

definition pool_release :: "ProxyTarget \<Rightarrow> int \<Rightarrow> int \<Rightarrow> UpstreamPool \<Rightarrow> int list \<times> UpstreamPool" where
  "pool_release t fd now p =
     (if fd < 0 then ([], p)
      else if up_max_idle p = 0 then ([fd], p)
      else let key = authority t; connection = \<lparr>ic_fd = fd, ic_since = now\<rparr> in
        case map_of (up_idle p) key of
          Some bucket \<Rightarrow>
            if length bucket \<ge> up_max_idle p then ([fd], p)
            else ([], p\<lparr>up_idle := AList.update key (bucket @ [connection]) (up_idle p)\<rparr>)
        | None \<Rightarrow> ([], p\<lparr>up_idle := up_idle p @ [(key, [connection])]\<rparr>))"

definition idle_expired :: "int \<Rightarrow> UpstreamPool \<Rightarrow> IdleConnection \<Rightarrow> bool" where
  "idle_expired now p c \<longleftrightarrow> (now - ic_since c) div 1000000 \<ge> sint (up_timeout_ms p)"

definition pool_sweep_idle :: "int \<Rightarrow> UpstreamPool \<Rightarrow> int list \<times> UpstreamPool" where
  "pool_sweep_idle now p =
     (let gone = concat (map (filter (idle_expired now p) \<circ> snd) (up_idle p));
          kept = map (\<lambda>(key, bucket). (key, filter (\<lambda>c. \<not> idle_expired now p c) bucket)) (up_idle p)
      in (map ic_fd gone, p\<lparr>up_idle := filter (\<lambda>(key, bucket). bucket \<noteq> []) kept\<rparr>))"

definition pool_all :: "UpstreamPool \<Rightarrow> IdleConnection list" where
  "pool_all p = concat (map snd (up_idle p))"

definition pool_close_all :: "UpstreamPool \<Rightarrow> int list \<times> UpstreamPool" where
  "pool_close_all p = (map ic_fd (pool_all p), p\<lparr>up_idle := []\<rparr>)"

definition idle_count :: "UpstreamPool \<Rightarrow> nat" where
  "idle_count p = sum_list (map (length \<circ> snd) (up_idle p))"

subsection \<open>The bucket of a target\<close>

text \<open>The abstract view: every target has a stack, empty when the map has no entry.\<close>

definition bucket_of :: "UpstreamPool \<Rightarrow> ProxyTarget \<Rightarrow> IdleConnection list" where
  "bucket_of p t = (case map_of (up_idle p) (authority t) of Some b \<Rightarrow> b | None \<Rightarrow> [])"

definition pool_ok :: "UpstreamPool \<Rightarrow> bool" where
  "pool_ok p \<longleftrightarrow> distinct (map fst (up_idle p)) \<and> list_all (\<lambda>(key, b). b \<noteq> []) (up_idle p)"

lemma authority_eq: "authority t = authority u \<longleftrightarrow> t = u"
  using authority_inj by auto

lemma bucket_update:
  "bucket_of (p\<lparr>up_idle := AList.update (authority t) b (up_idle p)\<rparr>) u = (if u = t then b else bucket_of p u)"
  by (simp add: bucket_of_def update_conv' authority_eq)

lemma bucket_delete:
  "bucket_of (p\<lparr>up_idle := AList.delete (authority t) (up_idle p)\<rparr>) u = (if u = t then [] else bucket_of p u)"
  by (simp add: bucket_of_def delete_conv' authority_eq)

lemma bucket_acquire:
  "pool_acquire t sock p =
     (if bucket_of p t = [] then (case pool_create sock of (r, closed) \<Rightarrow> (r, closed, p))
      else (\<lparr>aq_ok = True, aq_reused = True, aq_fd = ic_fd (last (bucket_of p t)), aq_error = []\<rparr>, [],
            snd (snd (pool_acquire t sock p))))"
  by (simp add: pool_acquire_def bucket_of_def Let_def split: option.split)

lemma bucket_after_acquire:
  "bucket_of (snd (snd (pool_acquire t sock p))) u =
     (if u = t then butlast (bucket_of p t) else bucket_of p u)"
proof (cases "map_of (up_idle p) (authority t)")
  case (Some b)
  then have b: "bucket_of p t = b" by (simp add: bucket_of_def)
  show ?thesis
    using Some b by (auto simp: pool_acquire_def Let_def bucket_update bucket_delete split: prod.split)
qed (auto simp: pool_acquire_def bucket_of_def Let_def split: prod.split)

lemma bucket_after_release:
  assumes "0 \<le> fd"
  shows "pool_release t fd now p =
    (if length (bucket_of p t) < up_max_idle p
     then ([], snd (pool_release t fd now p)) else ([fd], p))"
    "length (bucket_of p t) < up_max_idle p \<Longrightarrow>
      bucket_of (snd (pool_release t fd now p)) u =
        (if u = t then bucket_of p t @ [\<lparr>ic_fd = fd, ic_since = now\<rparr>] else bucket_of p u)"
  using assms
  by (auto simp: pool_release_def bucket_of_def Let_def update_conv' authority_eq map_add_def split: option.split)

lemma map_of_kept:
  "distinct (map fst xs) \<Longrightarrow>
   map_of (filter (\<lambda>(k, b). b \<noteq> []) (map (\<lambda>(k, b). (k, f b)) xs)) k =
     (case map_of xs k of Some b \<Rightarrow> if f b = [] then None else Some (f b) | None \<Rightarrow> None)"
proof (induction xs)
  case (Cons x xs)
  obtain a b where x: "x = (a, b)" by (cases x)
  have "map_of (filter (\<lambda>(k, b). b \<noteq> []) (map (\<lambda>(k, b). (k, f b)) xs)) a = None"
    using Cons.prems x by (auto simp: map_of_eq_None_iff image_iff)
  with Cons x show ?case by auto
qed simp

lemma bucket_sweep:
  "pool_ok p \<Longrightarrow> bucket_of (snd (pool_sweep_idle now p)) u = filter (\<lambda>c. \<not> idle_expired now p c) (bucket_of p u)"
  by (simp add: pool_sweep_idle_def bucket_of_def pool_ok_def map_of_kept Let_def split: option.split)

lemma bucket_close_all: "bucket_of (snd (pool_close_all p)) u = []"
  by (simp add: pool_close_all_def bucket_of_def)

subsection \<open>The map stays well formed\<close>

lemma list_all_update:
  "list_all (\<lambda>(k, b). P b) xs \<Longrightarrow> P b \<Longrightarrow> list_all (\<lambda>(k, b). P b) (AList.update k b xs)"
  by (induction xs) auto

lemma list_all_delete: "list_all P xs \<Longrightarrow> list_all P (AList.delete k xs)"
  by (auto simp: list_all_iff AList.delete_eq)

lemma pool_ok_acquire: "pool_ok p \<Longrightarrow> pool_ok (snd (snd (pool_acquire t sock p)))"
  by (auto simp: pool_ok_def pool_acquire_def Let_def distinct_update distinct_delete list_all_update list_all_delete
      split: option.split prod.split)

lemma pool_ok_release: "pool_ok p \<Longrightarrow> pool_ok (snd (pool_release t fd now p))"
  by (auto simp: pool_ok_def pool_release_def Let_def distinct_update list_all_update map_of_eq_None_iff
      split: option.split)

lemma pool_ok_sweep: "pool_ok p \<Longrightarrow> pool_ok (snd (pool_sweep_idle now p))"
  by (auto simp: pool_ok_def pool_sweep_idle_def Let_def list_all_iff comp_def case_prod_unfold
      intro!: distinct_map_filter)

lemma pool_ok_close_all: "pool_ok (snd (pool_close_all p))"
  by (simp add: pool_ok_def pool_close_all_def)

lemma pool_ok_new: "pool_ok pool_new"
  by (simp add: pool_ok_def pool_new_def)

subsection \<open>The interface: stacks by key\<close>

text \<open>
  What a client of the pool relies on: each key has its own stack, an operation on one
  key never shows under another, and nothing appears that was not pushed.
\<close>

datatype ('k, 'c, 'e) StoreOp = Pop 'k | Push 'k 'c | Prune 'e

locale keyed_stacks =
  fixes stack :: "'p \<Rightarrow> 'k \<Rightarrow> 'c list"
    and pop :: "'k \<Rightarrow> 'p \<Rightarrow> 'p" and push :: "'k \<Rightarrow> 'c \<Rightarrow> 'p \<Rightarrow> 'p" and prune :: "'e \<Rightarrow> 'p \<Rightarrow> 'p"
    and ok :: "'p \<Rightarrow> bool"
  assumes ok_pop: "ok p \<Longrightarrow> ok (pop k p)" and ok_push: "ok p \<Longrightarrow> ok (push k c p)"
    and ok_prune: "ok p \<Longrightarrow> ok (prune e p)"
    and stack_pop: "ok p \<Longrightarrow> stack (pop k p) j = (if j = k then butlast (stack p k) else stack p j)"
    and stack_push: "ok p \<Longrightarrow> stack (push k c p) j = stack p j \<or> j = k \<and> stack (push k c p) j = stack p k @ [c]"
    and stack_prune: "ok p \<Longrightarrow> set (stack (prune e p) j) \<subseteq> set (stack p j)"
begin

definition exec :: "'p \<Rightarrow> ('k, 'c, 'e) StoreOp \<Rightarrow> 'p" where
  "exec p oper = (case oper of Pop k \<Rightarrow> pop k p | Push k c \<Rightarrow> push k c p | Prune e \<Rightarrow> prune e p)"

lemma exec_ok: "ok p \<Longrightarrow> ok (exec p oper)"
  by (simp add: exec_def ok_pop ok_push ok_prune split: StoreOp.split)

lemma run_ok: "ok p \<Longrightarrow> ok (foldl exec p ops)"
  by (induction ops arbitrary: p) (simp_all add: exec_ok)

lemma exec_origin:
  assumes "ok p" "c \<in> set (stack (exec p oper) k)"
  shows "c \<in> set (stack p k) \<or> oper = Push k c"
proof (cases oper)
  case (Push j d)
  with assms stack_push [OF assms(1), of j d k] show ?thesis by (auto simp: exec_def)
next
  case (Prune e)
  with assms stack_prune [OF assms(1), of e k] show ?thesis by (auto simp: exec_def)
qed (use assms in \<open>auto simp: exec_def stack_pop dest: in_set_butlastD split: if_splits\<close>)

lemma run_origin:
  assumes "ok p" "c \<in> set (stack (foldl exec p ops) k)"
  shows "c \<in> set (stack p k) \<or> Push k c \<in> set ops"
  using assms
proof (induction ops rule: rev_induct)
  case (snoc x ops)
  from exec_origin [OF run_ok [OF snoc.prems(1)], of c ops x k] snoc.prems(2)
  have "c \<in> set (stack (foldl exec p ops) k) \<or> x = Push k c" by simp
  with snoc.IH snoc.prems(1) show ?case by auto
qed simp

end

definition pool_pop :: "ProxyTarget \<Rightarrow> UpstreamPool \<Rightarrow> UpstreamPool" where
  "pool_pop t p = snd (snd (pool_acquire t (SocketFailed []) p))"

definition pool_push :: "ProxyTarget \<Rightarrow> IdleConnection \<Rightarrow> UpstreamPool \<Rightarrow> UpstreamPool" where
  "pool_push t c p = snd (pool_release t (ic_fd c) (ic_since c) p)"

datatype PoolEvent = Sweep int | CloseAll | SetLimits nat "64 word"

definition pool_set_limits :: "nat \<Rightarrow> 64 word \<Rightarrow> UpstreamPool \<Rightarrow> UpstreamPool" where
  "pool_set_limits m timeout p = p\<lparr>up_max_idle := m, up_timeout_ms := timeout\<rparr>"

definition pool_event :: "PoolEvent \<Rightarrow> UpstreamPool \<Rightarrow> UpstreamPool" where
  "pool_event e p =
     (case e of Sweep now \<Rightarrow> snd (pool_sweep_idle now p) | CloseAll \<Rightarrow> snd (pool_close_all p)
      | SetLimits m timeout \<Rightarrow> pool_set_limits m timeout p)"

lemma bucket_event:
  "pool_ok p \<Longrightarrow> pool_ok (pool_event e p) \<and> set (bucket_of (pool_event e p) j) \<subseteq> set (bucket_of p j)"
  by (cases e) (simp_all add: pool_event_def pool_ok_sweep pool_ok_close_all bucket_sweep bucket_close_all,
      simp add: pool_set_limits_def pool_ok_def bucket_of_def)

interpretation pool: keyed_stacks bucket_of pool_pop pool_push pool_event pool_ok
proof
  fix p :: UpstreamPool and k j c e assume p: "pool_ok p"
  show "pool_ok (pool_pop k p)" "pool_ok (pool_push k c p)" "pool_ok (pool_event e p)"
    using p bucket_event [OF p] by (simp_all add: pool_pop_def pool_push_def pool_ok_acquire pool_ok_release)
  show "bucket_of (pool_pop k p) j = (if j = k then butlast (bucket_of p k) else bucket_of p j)"
    by (simp add: pool_pop_def bucket_after_acquire)
  show "bucket_of (pool_push k c p) j = bucket_of p j \<or>
      j = k \<and> bucket_of (pool_push k c p) j = bucket_of p k @ [c]"
  proof (cases "0 \<le> ic_fd c \<and> length (bucket_of p k) < up_max_idle p")
    case True
    then show ?thesis using bucket_after_release(2) [of "ic_fd c" p k "ic_since c" j] by (simp add: pool_push_def)
  next
    case False
    then have "pool_push k c p = p"
      using bucket_after_release(1) [of "ic_fd c" k "ic_since c" p]
      by (cases "0 \<le> ic_fd c") (simp_all add: pool_push_def, simp add: pool_release_def)
    then show ?thesis by simp
  qed
  show "set (bucket_of (pool_event e p) j) \<subseteq> set (bucket_of p j)" using bucket_event [OF p] by blast
qed

type_synonym PoolOp = "(ProxyTarget, IdleConnection, PoolEvent) StoreOp"

definition pool_run :: "PoolOp list \<Rightarrow> UpstreamPool" where
  "pool_run ops = foldl (\<lambda>p oper. case oper of Pop t \<Rightarrow> pool_pop t p | Push t c \<Rightarrow> pool_push t c p
                                      | Prune e \<Rightarrow> pool_event e p) pool_new ops"

lemma pool_run_exec: "pool_run ops = foldl pool.exec pool_new ops"
  unfolding pool_run_def by (rule arg_cong [where f = "\<lambda>f. foldl f pool_new ops"]) (intro ext, simp add: pool.exec_def)

subsection \<open>Properties\<close>

text \<open>
  A connection is only ever reused for the upstream it was opened for.
  After any history of acquire, release, sweep, reconfiguration and close, a
  descriptor that \<^verbatim>\<open>acquire\<close> hands out as reused was given back by an earlier
  \<^verbatim>\<open>release\<close> for exactly that target.
\<close>

theorem reuse_same_target:
  assumes "aq_reused (fst (pool_acquire t sock (pool_run ops)))"
  shows "\<exists>since. Push t \<lparr>ic_fd = aq_fd (fst (pool_acquire t sock (pool_run ops))), ic_since = since\<rparr> \<in> set ops"
proof -
  let ?b = "bucket_of (pool_run ops) t"
  have "\<not> aq_reused (fst (pool_create sock))"
    by (simp add: pool_create_def acquire_failed_def split: SocketOutcome.split)
  with assms have ne: "?b \<noteq> []"
    by (subst (asm) bucket_acquire) (auto split: if_splits prod.splits)
  have b: "aq_fd (fst (pool_acquire t sock (pool_run ops))) = ic_fd (last ?b)"
    by (subst bucket_acquire) (simp add: ne)
  have "bucket_of pool_new t = []" by (simp add: bucket_of_def pool_new_def)
  with ne pool.run_origin [OF pool_ok_new, of "last ?b" ops t] have "Push t (last ?b) \<in> set ops"
    by (simp add: pool_run_exec)
  then show ?thesis unfolding b by (intro exI [of _ "ic_since (last ?b)"]) (cases "last ?b", simp)
qed

definition target_a :: ProxyTarget where
  "target_a = \<lparr>pt_host = ''10.0.0.2'', pt_port = 9001\<rparr>"

lemma reuse_same_target_witness:
  "let ops = [Push target_a \<lparr>ic_fd = 9, ic_since = 0\<rparr>] in
   aq_fd (fst (pool_acquire target_a (Connecting 12) (pool_run ops))) = 9 \<and>
   (\<exists>since. Push target_a \<lparr>ic_fd = 9, ic_since = since\<rparr> \<in> set ops)"
proof -
  let ?ops = "[Push target_a \<lparr>ic_fd = 9, ic_since = 0\<rparr>] :: PoolOp list"
  have r: "aq_reused (fst (pool_acquire target_a (Connecting 12) (pool_run ?ops)))"
    "aq_fd (fst (pool_acquire target_a (Connecting 12) (pool_run ?ops))) = 9"
    by (simp_all add: pool_run_def pool_push_def pool_release_def pool_acquire_def pool_new_def)
  from reuse_same_target [OF r(1)] r(2) show ?thesis unfolding Let_def by simp
qed

text \<open>
  C32: The pool implements one stack per upstream.  Acquire pops the newest idle
  connection of its target and opens a new one only when there is none; release pushes
  below the limit and closes the descriptor otherwise; the sweep removes exactly what
  has been idle for the timeout; no operation touches another target's stack.
\<close>

theorem pool_refines_stacks:
  assumes "pool_ok p"
  shows "bucket_of (snd (snd (pool_acquire t sock p))) = (bucket_of p)(t := butlast (bucket_of p t)) \<and>
    (let (r, closed, _) = pool_acquire t sock p in
       (r, closed) = (if bucket_of p t = [] then pool_create sock
                      else (\<lparr>aq_ok = True, aq_reused = True, aq_fd = ic_fd (last (bucket_of p t)), aq_error = []\<rparr>, []))) \<and>
    (if 0 \<le> fd \<and> length (bucket_of p t) < up_max_idle p
     then fst (pool_release t fd now p) = [] \<and>
          bucket_of (snd (pool_release t fd now p)) =
            (bucket_of p)(t := bucket_of p t @ [\<lparr>ic_fd = fd, ic_since = now\<rparr>])
     else pool_release t fd now p = (if 0 \<le> fd then [fd] else [], p)) \<and>
    bucket_of (snd (pool_sweep_idle now p)) = filter (\<lambda>c. \<not> idle_expired now p c) \<circ> bucket_of p \<and>
    pool_ok (snd (snd (pool_acquire t sock p))) \<and> pool_ok (snd (pool_release t fd now p)) \<and>
    pool_ok (snd (pool_sweep_idle now p))"
proof (intro conjI)
  show "bucket_of (snd (snd (pool_acquire t sock p))) = (bucket_of p)(t := butlast (bucket_of p t))"
    by (intro ext) (simp add: bucket_after_acquire)
  show "let (r, closed, _) = pool_acquire t sock p in
       (r, closed) = (if bucket_of p t = [] then pool_create sock
                      else (\<lparr>aq_ok = True, aq_reused = True, aq_fd = ic_fd (last (bucket_of p t)), aq_error = []\<rparr>, []))"
    by (subst bucket_acquire) (simp split: prod.split)
  show "if 0 \<le> fd \<and> length (bucket_of p t) < up_max_idle p
     then fst (pool_release t fd now p) = [] \<and>
          bucket_of (snd (pool_release t fd now p)) =
            (bucket_of p)(t := bucket_of p t @ [\<lparr>ic_fd = fd, ic_since = now\<rparr>])
     else pool_release t fd now p = (if 0 \<le> fd then [fd] else [], p)"
  proof (cases "0 \<le> fd")
    case True
    then show ?thesis
      using bucket_after_release(1) [OF True, of t now p] bucket_after_release(2) [OF True, of p t now]
      by (auto intro!: ext) (metis fst_conv)
  qed (simp add: pool_release_def)
  show "bucket_of (snd (pool_sweep_idle now p)) = filter (\<lambda>c. \<not> idle_expired now p c) \<circ> bucket_of p"
    using bucket_sweep [OF assms] by (intro ext) simp
qed (simp_all add: assms pool_ok_acquire pool_ok_release pool_ok_sweep)

lemma pool_refines_stacks_witness:
  "pool_ok pool_new \<and>
   bucket_of (snd (pool_release target_a 9 5 pool_new)) = (\<lambda>_. [])(target_a := [\<lparr>ic_fd = 9, ic_since = 5\<rparr>])"
proof -
  have "bucket_of pool_new = (\<lambda>_. [])" by (intro ext) (simp add: bucket_of_def pool_new_def)
  moreover have "up_max_idle pool_new = 4" by (simp add: pool_new_def)
  ultimately show ?thesis
    using pool_refines_stacks [OF pool_ok_new, of target_a "SocketFailed []" 9 5] pool_ok_new by auto
qed

end
