(* ===== verification/Proxy_Handler.thy ===== *)
theory Proxy_Handler
  imports Upstream_Pool Proxy_Request Response_Parser Server_Config
begin

section \<open>The reverse proxy: \<^verbatim>\<open>proxy_handler.cpp\<close>\<close>

text \<open>
  The handler keeps one \<open>PendingRequest\<close> per upstream descriptor and an
  \<^const>\<open>UpstreamPool.up_idle\<close> pool.  What the kernel and the event loop answer is the record
  \<open>Answers\<close>: the clock, the live configuration (\<open>None\<close> without a store), the client
  address that \<^verbatim>\<open>getpeername\<close> yields, the outcome of \<^verbatim>\<open>socket\<close> and \<^verbatim>\<open>connect\<close>, whether
  the event loop accepts a registration, \<^verbatim>\<open>SO_ERROR\<close>, and what successive calls of
  \<^verbatim>\<open>send\<close> and \<^verbatim>\<open>recv\<close> return; a call past the end of such a list would block.
  Effects are logs in the state, oldest first: completion callbacks \<open>ph_done\<close>, closed
  descriptors \<open>ph_closed\<close> and the event-loop registrations \<open>ph_watch\<close>.
\<close>

datatype ProxyOutcomeStatus =
  Success | BadGateway | GatewayTimeout | UpstreamTooLarge | NotConfigured | Unavailable

record ProxyOutcome =
  po_status :: ProxyOutcomeStatus
  po_upstream_status :: nat
  po_headers :: HttpHeaders
  po_body :: string
  po_error :: string
  po_head :: bool

definition outcome_new :: ProxyOutcome where
  "outcome_new = \<lparr>po_status = BadGateway, po_upstream_status = 0, po_headers = [], po_body = [],
     po_error = [], po_head = False\<rparr>"

definition outcome_error :: "ProxyOutcomeStatus \<Rightarrow> string \<Rightarrow> ProxyOutcome" where
  "outcome_error s e = outcome_new\<lparr>po_status := s, po_error := e\<rparr>"

definition outcome_from_parser :: "RespParser \<Rightarrow> ProxyOutcome" where
  "outcome_from_parser p = outcome_new\<lparr>po_status := Success, po_upstream_status := pr_status p,
     po_headers := pr_headers p, po_body := pr_body p\<rparr>"

datatype Phase = PhConnecting | PhWriting | PhReading

record PendingRequest =
  pq_client :: "64 word"
  pq_client_fd :: int
  pq_connection :: int
  pq_upstream_fd :: int
  pq_phase :: Phase
  pq_target :: ProxyTarget
  pq_parser :: RespParser
  pq_bytes :: string
  pq_written :: nat
  pq_deadline :: "millis option"
  pq_head :: bool
  pq_generation :: "64 word"

datatype Epoll = EPOLLIN | EPOLLOUT | EPOLLRDHUP
datatype EventType = Readable | Writable | EvError | Hangup

record ProxyHandler =
  ph_config :: ServerConfig
  ph_pool :: UpstreamPool
  ph_pending :: "(int \<times> PendingRequest) list"
  ph_target :: ProxyTarget
  ph_configured :: bool
  ph_error :: string
  ph_completed :: "64 word"
  ph_failed :: "64 word"
  ph_created :: "64 word"
  ph_reused :: "64 word"
  ph_next_generation :: "64 word"
  ph_watch :: "(int \<times> Epoll list) list"
  ph_done :: "(64 word \<times> ProxyOutcome) list"
  ph_closed :: "int list"

datatype SocketError = SockOptFailed string | SockError string | SockConnected
datatype UpstreamSend = UpSent nat | UpSendAgain | UpSendIntr | UpSendError string
datatype UpstreamRecv = UpRecv string | UpRecvAgain | UpRecvIntr | UpRecvError string

record Answers =
  an_now :: millis
  an_store :: "ServerConfig option"
  an_peer :: string
  an_socket :: SocketOutcome
  an_add_ok :: bool
  an_modify_ok :: bool
  an_so_error :: SocketError
  an_sends :: "UpstreamSend list"
  an_recvs :: "UpstreamRecv list"

subsection \<open>Construction and limits\<close>

text \<open>
  \<open>resolve\<close> is \<^verbatim>\<open>getaddrinfo\<close>: \<open>None\<close> when it finds an address, else the error text.
\<close>

definition handler_new :: "(ProxyTarget \<Rightarrow> string option) \<Rightarrow> ServerConfig \<Rightarrow> ProxyHandler" where
  "handler_new resolve cfg =
     (let h = \<lparr>ph_config = cfg,
               ph_pool = pool_set_limits (unat (cfg_proxy_max_idle cfg)) (cfg_proxy_idle_timeout_ms cfg) pool_new,
               ph_pending = [], ph_target = \<lparr>pt_host = [], pt_port = 0\<rparr>, ph_configured = False, ph_error = [],
               ph_completed = 0, ph_failed = 0, ph_created = 0, ph_reused = 0, ph_next_generation = 1,
               ph_watch = [], ph_done = [], ph_closed = []\<rparr>
      in if \<not> cfg_proxy_enabled cfg then h\<lparr>ph_error := ''proxy is disabled''\<rparr>
         else case parse_proxy_target (cfg_proxy_pass cfg) of
           Inl e \<Rightarrow> h\<lparr>ph_error := e\<rparr>
         | Inr t \<Rightarrow>
             (case resolve t of
                Some e \<Rightarrow> h\<lparr>ph_target := t, ph_error := e\<rparr>
              | None \<Rightarrow> h\<lparr>ph_target := t, ph_configured := True\<rparr>))"

definition ph_cfg :: "Answers \<Rightarrow> ProxyHandler \<Rightarrow> ServerConfig" where
  "ph_cfg an h = (case an_store an of Some c \<Rightarrow> c | None \<Rightarrow> ph_config h)"

definition refresh_runtime_limits :: "Answers \<Rightarrow> ProxyHandler \<Rightarrow> ProxyHandler" where
  "refresh_runtime_limits an h =
     (if an_store an = None then h
      else let current = ph_cfg an h
           in h\<lparr>ph_pool := pool_set_limits (unat (cfg_proxy_max_idle current))
                  (cfg_proxy_idle_timeout_ms current) (ph_pool h)\<rparr>)"

definition handles :: "HttpRequest \<Rightarrow> ProxyHandler \<Rightarrow> bool" where
  "handles request h =
     (if \<not> cfg_proxy_enabled (ph_config h) then False
      else proxy_target_matches (req_target request) (cfg_proxy_prefix (ph_config h)))"

definition deadline_after :: "millis \<Rightarrow> 64 word \<Rightarrow> millis option" where
  "deadline_after now timeout_ms = (if timeout_ms = 0 then None else Some (now + unat timeout_ms))"

definition close_owned :: "int \<Rightarrow> int list" where
  "close_owned fd = (if fd \<ge> 0 then [fd] else [])"

definition steady_ns :: "millis \<Rightarrow> int" where
  "steady_ns now = int now * 1000000"

subsection \<open>Completion\<close>

definition finish_entry :: "int \<Rightarrow> 64 word \<Rightarrow> ProxyOutcome \<Rightarrow> ProxyHandler \<Rightarrow> ProxyHandler" where
  "finish_entry fd client outcome h =
     h\<lparr>ph_watch := AList.delete fd (ph_watch h), ph_pending := AList.delete fd (ph_pending h),
       ph_done := ph_done h @ [(client, outcome)]\<rparr>"

definition ph_complete :: "millis \<Rightarrow> int \<Rightarrow> ProxyOutcome \<Rightarrow> ProxyHandler \<Rightarrow> ProxyHandler" where
  "ph_complete now fd outcome h =
     (case map_of (ph_pending h) fd of
        None \<Rightarrow> h
      | Some q \<Rightarrow>
          (let reusable = (po_status outcome = Success \<and> upstream_keep_alive (pq_parser q));
               (closed, pool) =
                 (if reusable then pool_release (pq_target q) (pq_connection q) (steady_ns now) (ph_pool h)
                  else (close_owned (pq_connection q), ph_pool h));
               h = finish_entry fd (pq_client q) (outcome\<lparr>po_head := pq_head q\<rparr>) h
           in h\<lparr>ph_pool := pool, ph_closed := ph_closed h @ closed, ph_completed := ph_completed h + 1\<rparr>))"

definition ph_fail :: "int \<Rightarrow> ProxyOutcomeStatus \<Rightarrow> string \<Rightarrow> ProxyHandler \<Rightarrow> ProxyHandler" where
  "ph_fail fd status message h =
     (case map_of (ph_pending h) fd of
        None \<Rightarrow> h
      | Some q \<Rightarrow>
          (let h = finish_entry fd (pq_client q) ((outcome_error status message)\<lparr>po_head := pq_head q\<rparr>) h
           in h\<lparr>ph_closed := ph_closed h @ close_owned (pq_connection q), ph_failed := ph_failed h + 1\<rparr>))"

definition update_pending :: "int \<Rightarrow> PendingRequest \<Rightarrow> ProxyHandler \<Rightarrow> ProxyHandler" where
  "update_pending fd q h = h\<lparr>ph_pending := AList.update fd q (ph_pending h)\<rparr>"

subsection \<open>Starting a request\<close>

definition refuse :: "64 word \<Rightarrow> ProxyOutcomeStatus \<Rightarrow> string \<Rightarrow> ProxyHandler \<Rightarrow> ProxyHandler" where
  "refuse client status message h =
     h\<lparr>ph_failed := ph_failed h + 1, ph_done := ph_done h @ [(client, outcome_error status message)]\<rparr>"

definition request_options :: "Answers \<Rightarrow> ProxyHandler \<Rightarrow> ProxyRequestOptions" where
  "request_options an h =
     \<lparr>pro_prefix = cfg_proxy_prefix (ph_config h), pro_strip_prefix = cfg_proxy_strip_prefix (ph_config h),
      pro_forwarded_proto = (if cfg_tls_enabled (ph_config h) then ''https'' else ''http''),
      pro_client_ip = an_peer an\<rparr>"

definition pending_new ::
  "Answers \<Rightarrow> 64 word \<Rightarrow> int \<Rightarrow> HttpRequest \<Rightarrow> bool \<Rightarrow> int \<Rightarrow> ProxyHandler \<Rightarrow> PendingRequest" where
  "pending_new an client client_fd request reused fd h =
     (let budget = ph_cfg an h;
          was_head = (req_method request = HEAD);
          parser_config = default_resp_config\<lparr>max_response_body := unat (cfg_proxy_max_response budget),
                            request_was_head := was_head\<rparr>
      in \<lparr>pq_client = client, pq_client_fd = client_fd, pq_connection = fd, pq_upstream_fd = fd,
          pq_phase = (if reused then PhWriting else PhConnecting), pq_target = ph_target h,
          pq_parser = pr_reset parser_config (pr_new default_resp_config),
          pq_bytes = build_upstream_request request (ph_target h) (request_options an h),
          pq_written = 0,
          pq_deadline = deadline_after (an_now an)
            (if reused then cfg_proxy_read_timeout_ms budget else cfg_proxy_connect_timeout_ms budget),
          pq_head = was_head, pq_generation = ph_next_generation h\<rparr>)"

definition start_interest :: "Phase \<Rightarrow> Epoll list" where
  "start_interest ph = (if ph = PhWriting then [EPOLLOUT, EPOLLIN, EPOLLRDHUP] else [EPOLLOUT, EPOLLRDHUP])"

definition emplace_pending :: "int \<Rightarrow> PendingRequest \<Rightarrow> ProxyHandler \<Rightarrow> ProxyHandler" where
  "emplace_pending fd q h =
     (case map_of (ph_pending h) fd of
        None \<Rightarrow> h\<lparr>ph_pending := ph_pending h @ [(fd, q)]\<rparr>
      | Some _ \<Rightarrow> h\<lparr>ph_closed := ph_closed h @ close_owned (pq_connection q)\<rparr>)"

definition start_acquired ::
  "Answers \<Rightarrow> 64 word \<Rightarrow> int \<Rightarrow> HttpRequest \<Rightarrow> bool \<Rightarrow> int \<Rightarrow> ProxyHandler \<Rightarrow> ProxyHandler" where
  "start_acquired an client client_fd request reused fd h =
     (let h = (if reused then h\<lparr>ph_reused := ph_reused h + 1\<rparr> else h\<lparr>ph_created := ph_created h + 1\<rparr>);
          q = pending_new an client client_fd request reused fd h;
          h = h\<lparr>ph_next_generation := ph_next_generation h + 1\<rparr>
      in if \<not> an_add_ok an
         then (let h = refuse client Unavailable ''failed to register upstream descriptor with the event loop'' h
               in h\<lparr>ph_closed := ph_closed h @ close_owned fd\<rparr>)
         else emplace_pending fd q (h\<lparr>ph_watch := AList.update fd (start_interest (pq_phase q)) (ph_watch h)\<rparr>))"

definition ph_start :: "Answers \<Rightarrow> 64 word \<Rightarrow> int \<Rightarrow> HttpRequest \<Rightarrow> ProxyHandler \<Rightarrow> ProxyHandler" where
  "ph_start an client client_fd request h =
     (if \<not> ph_configured h then refuse client NotConfigured (ph_error h) h
      else let (acquired, closed, pool) = pool_acquire (ph_target h) (an_socket an) (ph_pool h);
               h = h\<lparr>ph_pool := pool, ph_closed := ph_closed h @ closed\<rparr>
           in if \<not> aq_ok acquired then refuse client BadGateway (aq_error acquired) h
              else start_acquired an client client_fd request (aq_reused acquired) (aq_fd acquired) h)"

subsection \<open>Writing the request\<close>

definition finish_connect :: "Answers \<Rightarrow> int \<Rightarrow> PendingRequest \<Rightarrow> ProxyHandler \<Rightarrow> ProxyHandler" where
  "finish_connect an fd q h =
     (case an_so_error an of
        SockOptFailed e \<Rightarrow> ph_fail fd BadGateway (''getsockopt(SO_ERROR) failed: '' @ e) h
      | SockError e \<Rightarrow> ph_fail fd BadGateway (''upstream connect failed: '' @ e) h
      | SockConnected \<Rightarrow>
          update_pending fd (q\<lparr>pq_phase := PhWriting,
            pq_deadline := deadline_after (an_now an) (cfg_proxy_read_timeout_ms (ph_cfg an h))\<rparr>) h)"

datatype FlushEnd = Flushed | FlushBlocked nat | FlushFailed string

fun send_loop :: "UpstreamSend list \<Rightarrow> nat \<Rightarrow> nat \<Rightarrow> FlushEnd" where
  "send_loop [] len written = (if written < len then FlushBlocked written else Flushed)"
| "send_loop (a # as) len written =
     (if written < len then
        case a of
          UpSent n \<Rightarrow> if n > 0 then send_loop as len (written + n) else FlushBlocked written
        | UpSendAgain \<Rightarrow> FlushBlocked written
        | UpSendIntr \<Rightarrow> send_loop as len written
        | UpSendError e \<Rightarrow> FlushFailed e
      else Flushed)"

definition flush_request :: "Answers \<Rightarrow> int \<Rightarrow> PendingRequest \<Rightarrow> ProxyHandler \<Rightarrow> ProxyHandler" where
  "flush_request an fd q h =
     (case send_loop (an_sends an) (length (pq_bytes q)) (pq_written q) of
        FlushBlocked n \<Rightarrow> update_pending fd (q\<lparr>pq_written := n\<rparr>) h
      | FlushFailed e \<Rightarrow> ph_fail fd BadGateway (''upstream write failed: '' @ e) h
      | Flushed \<Rightarrow>
          (let h = update_pending fd (q\<lparr>pq_written := length (pq_bytes q), pq_bytes := [], pq_phase := PhReading,
                     pq_deadline := deadline_after (an_now an) (cfg_proxy_read_timeout_ms (ph_cfg an h))\<rparr>) h
           in if an_modify_ok an then h\<lparr>ph_watch := AList.update fd [EPOLLIN, EPOLLRDHUP] (ph_watch h)\<rparr>
              else ph_fail fd BadGateway ''failed to change upstream event interest'' h))"

definition on_writable :: "Answers \<Rightarrow> int \<Rightarrow> PendingRequest \<Rightarrow> ProxyHandler \<Rightarrow> ProxyHandler" where
  "on_writable an fd q h =
     (let h = (if pq_phase q = PhConnecting then finish_connect an fd q h else h)
      in case map_of (ph_pending h) fd of
           None \<Rightarrow> h
         | Some q \<Rightarrow> if pq_phase q = PhWriting then flush_request an fd q h else h)"

subsection \<open>Reading the response\<close>

definition kReadChunkSize :: nat where
  "kReadChunkSize = 16384"

datatype ReadEnd = ReadMore | ReadDone | ReadFailed string

definition read_eof :: "RespParser \<Rightarrow> ReadEnd \<times> RespParser" where
  "read_eof p =
     (let (ok, p) = finish_on_eof p
      in (if ok then ReadDone else ReadFailed (''truncated upstream response: '' @ pr_error p), p))"

fun read_loop :: "UpstreamRecv list \<Rightarrow> RespParser \<Rightarrow> ReadEnd \<times> RespParser" where
  "read_loop [] p = (ReadMore, p)"
| "read_loop (a # as) p =
     (case a of
        UpRecv data \<Rightarrow>
          if data = [] then read_eof p
          else let (ok, p) = pr_feed data p
               in if \<not> ok then (ReadFailed (''invalid upstream response: '' @ pr_error p), p)
                  else if pr_state p = Complete then (ReadDone, p)
                  else if length data < kReadChunkSize then (ReadMore, p)
                  else read_loop as p
      | UpRecvAgain \<Rightarrow> (ReadMore, p)
      | UpRecvIntr \<Rightarrow> read_loop as p
      | UpRecvError e \<Rightarrow> (ReadFailed (''upstream read failed: '' @ e), p))"

definition finish_read :: "millis \<Rightarrow> int \<Rightarrow> PendingRequest \<Rightarrow> ReadEnd \<times> RespParser \<Rightarrow> ProxyHandler \<Rightarrow> ProxyHandler" where
  "finish_read now fd q r h =
     (case r of (e, p) \<Rightarrow>
        let h = update_pending fd (q\<lparr>pq_parser := p\<rparr>) h
        in case e of
             ReadMore \<Rightarrow> h
           | ReadDone \<Rightarrow> ph_complete now fd (outcome_from_parser p) h
           | ReadFailed m \<Rightarrow> ph_fail fd BadGateway m h)"

definition read_available :: "Answers \<Rightarrow> int \<Rightarrow> PendingRequest \<Rightarrow> ProxyHandler \<Rightarrow> ProxyHandler" where
  "read_available an fd q h = finish_read (an_now an) fd q (read_loop (an_recvs an) (pq_parser q)) h"

definition on_readable :: "Answers \<Rightarrow> int \<Rightarrow> PendingRequest \<Rightarrow> ProxyHandler \<Rightarrow> ProxyHandler" where
  "on_readable an fd q h = (if pq_phase q \<noteq> PhReading then h else read_available an fd q h)"

definition on_hangup :: "Answers \<Rightarrow> int \<Rightarrow> PendingRequest \<Rightarrow> ProxyHandler \<Rightarrow> ProxyHandler" where
  "on_hangup an fd q h =
     (let h = read_available an fd q h
      in case map_of (ph_pending h) fd of
           None \<Rightarrow> h
         | Some q \<Rightarrow> finish_read (an_now an) fd q (read_eof (pq_parser q)) h)"

definition on_upstream_event :: "Answers \<Rightarrow> int \<Rightarrow> 64 word \<Rightarrow> EventType \<Rightarrow> ProxyHandler \<Rightarrow> ProxyHandler" where
  "on_upstream_event an fd generation event h =
     (case map_of (ph_pending h) fd of
        None \<Rightarrow> h
      | Some q \<Rightarrow>
          if pq_generation q \<noteq> generation then h
          else case event of
                 Writable \<Rightarrow> on_writable an fd q h
               | Readable \<Rightarrow> on_readable an fd q h
               | Hangup \<Rightarrow> on_hangup an fd q h
               | EvError \<Rightarrow> ph_fail fd BadGateway ''upstream socket error'' h)"

subsection \<open>Maintenance\<close>

definition past_deadline :: "millis \<Rightarrow> PendingRequest \<Rightarrow> bool" where
  "past_deadline now q = (case pq_deadline q of None \<Rightarrow> False | Some d \<Rightarrow> now \<ge> d)"

definition expire_pending :: "int \<Rightarrow> ProxyHandler \<Rightarrow> ProxyHandler" where
  "expire_pending fd h =
     (case map_of (ph_pending h) fd of
        None \<Rightarrow> h
      | Some q \<Rightarrow> ph_fail fd GatewayTimeout
          (if pq_phase q = PhConnecting then ''upstream connect timeout'' else ''upstream response timeout'') h)"

definition pool_effect :: "int list \<times> UpstreamPool \<Rightarrow> ProxyHandler \<Rightarrow> ProxyHandler" where
  "pool_effect r h = h\<lparr>ph_pool := snd r, ph_closed := ph_closed h @ fst r\<rparr>"

definition ph_sweep :: "millis \<Rightarrow> ProxyHandler \<Rightarrow> ProxyHandler" where
  "ph_sweep now h =
     (let expired = map fst (filter (\<lambda>(fd, q). past_deadline now q) (ph_pending h));
          h = foldl (\<lambda>h fd. expire_pending fd h) h expired
      in pool_effect (pool_sweep_idle (steady_ns now) (ph_pool h)) h)"

definition ph_shutdown :: "ProxyHandler \<Rightarrow> ProxyHandler" where
  "ph_shutdown h =
     (let h = h\<lparr>ph_watch := foldl (\<lambda>w fd. AList.delete fd w) (ph_watch h) (map fst (ph_pending h)),
                ph_closed := ph_closed h @ concat (map (close_owned \<circ> pq_connection \<circ> snd) (ph_pending h)),
                ph_pending := []\<rparr>
      in pool_effect (pool_close_all (ph_pool h)) h)"

subsection \<open>What the handler owns and owes\<close>

text \<open>
  \<open>ph_held\<close> are the descriptors the handler has to close some day, \<open>ph_owed\<close> the
  clients that wait for their callback.
\<close>

definition pool_fds :: "UpstreamPool \<Rightarrow> int list" where
  "pool_fds p = map ic_fd (pool_all p)"

definition pending_fds :: "ProxyHandler \<Rightarrow> int list" where
  "pending_fds h = map (pq_connection \<circ> snd) (ph_pending h)"

definition ph_held :: "ProxyHandler \<Rightarrow> int list" where
  "ph_held h = pending_fds h @ pool_fds (ph_pool h)"

definition ph_owed :: "ProxyHandler \<Rightarrow> 64 word list" where
  "ph_owed h = map (pq_client \<circ> snd) (ph_pending h)"

definition entry_ok :: "int \<times> PendingRequest \<Rightarrow> bool" where
  "entry_ok e \<longleftrightarrow> pq_connection (snd e) = fst e \<and> pq_upstream_fd (snd e) = fst e"

definition ph_ok :: "ProxyHandler \<Rightarrow> bool" where
  "ph_ok h \<longleftrightarrow> list_all entry_ok (ph_pending h) \<and> pool_ok (ph_pool h) \<and>
     distinct (ph_held h) \<and> list_all (\<lambda>fd. 0 \<le> fd) (ph_held h) \<and>
     ph_completed h + ph_failed h = of_nat (length (ph_done h))"

definition fd_ledger :: "ProxyHandler \<Rightarrow> int multiset" where
  "fd_ledger h = mset (ph_closed h) + mset (ph_held h)"

definition client_ledger :: "ProxyHandler \<Rightarrow> 64 word multiset" where
  "client_ledger h = mset (map fst (ph_done h)) + mset (ph_owed h)"

text \<open>A step that opens no descriptor and takes no request keeps both ledgers.\<close>

definition settles :: "ProxyHandler \<Rightarrow> ProxyHandler \<Rightarrow> bool" where
  "settles h h' \<longleftrightarrow> ph_ok h' \<and> fd_ledger h' = fd_ledger h \<and> client_ledger h' = client_ledger h"

lemma settles_refl: "ph_ok h \<Longrightarrow> settles h h"
  by (simp add: settles_def)

lemma settles_trans: "settles h h' \<Longrightarrow> settles h' h'' \<Longrightarrow> settles h h''"
  by (simp add: settles_def)

lemma settles_ok: "settles h h' \<Longrightarrow> ph_ok h'"
  by (simp add: settles_def)

subsection \<open>Descriptors of the pool\<close>

lemma mset_update_bucket:
  "distinct (map fst xs) \<Longrightarrow> map_of xs k = Some b \<Longrightarrow>
   mset (concat (map snd (AList.update k b' xs))) + mset b = mset (concat (map snd xs)) + mset b'"
proof (induction xs)
  case (Cons x xs)
  then show ?case by (cases x) (auto simp: ac_simps split: if_splits)
qed simp

lemma mset_delete_bucket:
  "distinct (map fst xs) \<Longrightarrow> map_of xs k = Some b \<Longrightarrow>
   mset (concat (map snd (AList.delete k xs))) + mset b = mset (concat (map snd xs))"
proof (induction xs)
  case (Cons x xs)
  then show ?case
    by (cases x) (auto simp: ac_simps delete_idem split: if_splits)
qed simp

lemma pool_release_fds:
  assumes "pool_ok p" "0 \<le> fd"
  shows "mset (fst (pool_release t fd now p)) + mset (pool_fds (snd (pool_release t fd now p))) =
    mset (pool_fds p) + {#fd#}"
proof (cases "map_of (up_idle p) (authority t)")
  case None
  with assms(2) show ?thesis by (simp add: pool_release_def pool_fds_def pool_all_def Let_def)
next
  case (Some b)
  let ?b = "b @ [\<lparr>ic_fd = fd, ic_since = now\<rparr>]"
  have "mset (concat (map snd (AList.update (authority t) ?b (up_idle p)))) + mset b =
      mset (concat (map snd (up_idle p))) + mset ?b"
    using mset_update_bucket [OF _ Some] assms(1) by (simp add: pool_ok_def)
  then have "image_mset ic_fd (mset (concat (map snd (AList.update (authority t) ?b (up_idle p)))) + mset b) =
      image_mset ic_fd (mset (concat (map snd (up_idle p))) + mset ?b)" by (rule arg_cong)
  with Some assms(2) show ?thesis by (simp add: pool_release_def pool_fds_def pool_all_def Let_def)
qed

lemma pool_sweep_fds:
  "mset (fst (pool_sweep_idle now p)) + mset (pool_fds (snd (pool_sweep_idle now p))) = mset (pool_fds p)"
proof -
  have part: "mset (filter P b) + mset (filter (\<lambda>c. \<not> P c) b) = mset b" for P :: "IdleConnection \<Rightarrow> bool" and b
    by (induction b) auto
  have "mset (concat (map (filter P \<circ> snd) xs)) +
      mset (concat (map snd (filter (\<lambda>(k, b). b \<noteq> []) (map (\<lambda>(k, b). (k, filter (\<lambda>c. \<not> P c) b)) xs)))) =
      mset (concat (map snd xs))" for P :: "IdleConnection \<Rightarrow> bool" and xs :: "(string \<times> IdleConnection list) list"
  proof (induction xs)
    case (Cons x xs)
    with part [of P "snd x"] show ?case
      by (cases x, cases "filter (\<lambda>c. \<not> P c) (snd x) = []") (simp_all del: mset_filter add: ac_simps)
  qed simp
  then show ?thesis
    unfolding pool_sweep_idle_def pool_fds_def pool_all_def Let_def
    by (simp flip: image_mset_union)
qed

lemma pool_close_all_fds: "fst (pool_close_all p) = pool_fds p" "pool_fds (snd (pool_close_all p)) = []"
  by (simp_all add: pool_close_all_def pool_fds_def pool_all_def)

text \<open>Which descriptors \<^verbatim>\<open>socket\<close> created for an acquire.\<close>

definition socket_fds :: "SocketOutcome \<Rightarrow> int list" where
  "socket_fds sock = (case sock of SocketFailed _ \<Rightarrow> [] | ConnectFailed fd _ \<Rightarrow> [fd] | Connecting fd \<Rightarrow> [fd])"

definition acquire_opens :: "ProxyTarget \<Rightarrow> SocketOutcome \<Rightarrow> UpstreamPool \<Rightarrow> int list" where
  "acquire_opens t sock p = (if bucket_of p t = [] then socket_fds sock else [])"

lemma pool_acquire_fds:
  assumes "pool_ok p" "pool_acquire t sock p = (r, closed, p')"
  shows "mset closed + mset (pool_fds p') + (if aq_ok r then {#aq_fd r#} else {#}) =
    mset (pool_fds p) + mset (acquire_opens t sock p)"
proof (cases "bucket_of p t = []")
  case True
  with assms(2) have "(r, closed) = pool_create sock" "p' = p"
    by (subst (asm) bucket_acquire, simp split: prod.splits)+
  with True show ?thesis
    by (cases sock) (simp_all add: pool_create_def acquire_opens_def socket_fds_def acquire_failed_def)
next
  case False
  then obtain b where b: "map_of (up_idle p) (authority t) = Some b" "b \<noteq> []"
    by (auto simp: bucket_of_def split: option.splits)
  let ?idle = "if butlast b = [] then AList.delete (authority t) (up_idle p)
               else AList.update (authority t) (butlast b) (up_idle p)"
  have r: "r = \<lparr>aq_ok = True, aq_reused = True, aq_fd = ic_fd (last b), aq_error = []\<rparr>" "closed = []"
    "p' = p\<lparr>up_idle := ?idle\<rparr>"
    using assms(2) b by (auto simp: pool_acquire_def Let_def)
  have d: "distinct (map fst (up_idle p))" using assms(1) by (simp add: pool_ok_def)
  have s: "mset b = mset (butlast b) + {#last b#}"
    by (subst append_butlast_last_id [OF b(2), symmetric], subst mset_append) simp
  have "mset (concat (map snd ?idle)) + {#last b#} = mset (concat (map snd (up_idle p)))"
    using mset_update_bucket [OF d b(1), of "butlast b"] mset_delete_bucket [OF d b(1)] s by auto
  then have "image_mset ic_fd (mset (concat (map snd ?idle)) + {#last b#}) =
      image_mset ic_fd (mset (concat (map snd (up_idle p))))" by (rule arg_cong)
  with False r show ?thesis by (simp add: acquire_opens_def pool_fds_def pool_all_def)
qed

subsection \<open>Every primitive settles\<close>

lemma map_of_split_entry:
  "distinct (map fst xs) \<Longrightarrow> map_of xs k = Some v \<Longrightarrow> mset xs = mset (AList.delete k xs) + {#(k, v)#}"
  by (induction xs) (auto split: if_splits)

lemma entry_facts:
  assumes "ph_ok h" "map_of (ph_pending h) fd = Some q"
  shows "pq_connection q = fd" "pq_upstream_fd q = fd" "0 \<le> fd"
proof -
  from assms have e: "entry_ok (fd, q)" by (auto simp: ph_ok_def list_all_iff dest: map_of_SomeD)
  then show "pq_connection q = fd" "pq_upstream_fd q = fd" by (simp_all add: entry_ok_def)
  have "pq_connection q \<in> set (ph_held h)"
    using map_of_SomeD [OF assms(2)] by (force simp: ph_held_def pending_fds_def)
  with assms(1) e show "0 \<le> fd" by (auto simp: ph_ok_def list_all_iff entry_ok_def)
qed

lemma pending_keys: "ph_ok h \<Longrightarrow> map fst (ph_pending h) = pending_fds h"
  by (auto simp: ph_ok_def pending_fds_def list_all_iff entry_ok_def)

lemma pending_distinct: "ph_ok h \<Longrightarrow> distinct (map fst (ph_pending h))"
  by (simp add: pending_keys) (simp add: ph_ok_def ph_held_def)

text \<open>Well-formedness depends on the held descriptors as a multiset only.\<close>

lemma ph_ok_base:
  assumes "list_all entry_ok (ph_pending h')" "pool_ok (ph_pool h')" "distinct base" "list_all (\<lambda>fd. 0 \<le> fd) base"
    "mset (ph_held h') \<subseteq># mset base"
    "ph_completed h' + ph_failed h' = of_nat (length (ph_done h'))"
  shows "ph_ok h'"
proof -
  from assms(5) obtain M where "mset base = mset (ph_held h') + M" by (auto simp: mset_subset_eq_exists_conv)
  moreover obtain ys where "mset ys = M" using ex_mset by blast
  ultimately have "mset base = mset (ph_held h' @ ys)" by simp
  with assms(3) have "distinct (ph_held h')" by (metis distinct_append mset_eq_imp_distinct_iff)
  moreover have "set (ph_held h') \<subseteq> set base" using set_mset_mono [OF assms(5)] by simp
  ultimately show ?thesis using assms by (auto simp: ph_ok_def list_all_iff)
qed

lemma ph_okI:
  assumes "list_all entry_ok (ph_pending h')" "pool_ok (ph_pool h')" "ph_ok h"
    "mset (ph_held h') \<subseteq># mset (ph_held h)"
    "ph_completed h' + ph_failed h' = of_nat (length (ph_done h'))"
  shows "ph_ok h'"
  using ph_ok_base [OF assms(1,2) _ _ assms(4,5)] assms(3) by (simp add: ph_ok_def)

lemma list_all_delete_entry: "list_all P xs \<Longrightarrow> list_all P (AList.delete k xs)"
  by (auto simp: list_all_iff AList.delete_eq)

lemma settles_fail: 
  assumes "ph_ok h" shows "settles h (ph_fail fd s m h)"
proof (cases "map_of (ph_pending h) fd")
  case (Some q)
  note e = entry_facts [OF assms Some]
  note d = map_of_split_entry [OF pending_distinct [OF assms] Some]
  let ?h = "ph_fail fd s m h"
  have f: "ph_pending ?h = AList.delete fd (ph_pending h)" "ph_pool ?h = ph_pool h"
    "ph_closed ?h = ph_closed h @ [fd]" "ph_completed ?h = ph_completed h" "ph_failed ?h = ph_failed h + 1"
    "map fst (ph_done ?h) = map fst (ph_done h) @ [pq_client q]"
    using Some e by (simp_all add: ph_fail_def finish_entry_def close_owned_def Let_def)
  have held: "mset (ph_held h) = mset (ph_held ?h) + {#fd#}"
    using d e(1) by (simp add: ph_held_def pending_fds_def f)
  have owed: "mset (ph_owed h) = mset (ph_owed ?h) + {#pq_client q#}"
    using d by (simp add: ph_owed_def f)
  have len: "length (ph_done ?h) = Suc (length (ph_done h))" by (metis f(6) length_append_singleton length_map)
  have "ph_ok ?h"
    by (rule ph_okI [of ?h h])
      (use assms held in \<open>auto simp: f len ph_ok_def list_all_delete_entry ac_simps\<close>)
  with held owed show ?thesis by (simp add: settles_def fd_ledger_def client_ledger_def f)
qed (use assms in \<open>simp add: ph_fail_def settles_refl\<close>)

lemma settles_complete:
  assumes "ph_ok h" shows "settles h (ph_complete now fd out h)"
proof (cases "map_of (ph_pending h) fd")
  case (Some q)
  note e = entry_facts [OF assms Some]
  note d = map_of_split_entry [OF pending_distinct [OF assms] Some]
  have po: "pool_ok (ph_pool h)" using assms by (simp add: ph_ok_def)
  let ?h = "ph_complete now fd out h"
  obtain closed pool where r:
    "(if po_status out = Success \<and> upstream_keep_alive (pq_parser q)
      then pool_release (pq_target q) (pq_connection q) (steady_ns now) (ph_pool h)
      else (close_owned (pq_connection q), ph_pool h)) = (closed, pool)" by fastforce
  have p: "pool_ok pool" "mset closed + mset (pool_fds pool) = mset (pool_fds (ph_pool h)) + {#fd#}"
    using r e pool_release_fds [OF po e(3), of "pq_target q" "steady_ns now"] pool_ok_release [OF po] po
    by (auto simp: close_owned_def split: if_splits) (metis snd_conv)
  have f: "ph_pending ?h = AList.delete fd (ph_pending h)" "ph_pool ?h = pool"
    "ph_closed ?h = ph_closed h @ closed" "ph_completed ?h = ph_completed h + 1" "ph_failed ?h = ph_failed h"
    "map fst (ph_done ?h) = map fst (ph_done h) @ [pq_client q]"
    using Some r by (simp_all add: ph_complete_def finish_entry_def Let_def)
  have held: "mset (ph_held h) = mset (ph_held ?h) + mset closed"
    using d e(1) p(2) by (simp add: ph_held_def pending_fds_def f ac_simps)
  have owed: "mset (ph_owed h) = mset (ph_owed ?h) + {#pq_client q#}"
    using d by (simp add: ph_owed_def f)
  have len: "length (ph_done ?h) = Suc (length (ph_done h))" by (metis f(6) length_append_singleton length_map)
  have "ph_ok ?h"
    by (rule ph_okI [of ?h h])
      (use assms held p in \<open>auto simp: f len ph_ok_def list_all_delete_entry ac_simps\<close>)
  with held owed show ?thesis by (simp add: settles_def fd_ledger_def client_ledger_def f)
qed (use assms in \<open>simp add: ph_complete_def settles_refl\<close>)

lemma map_update_same:
  "distinct (map fst xs) \<Longrightarrow> map_of xs k = Some v \<Longrightarrow> f v' = f v \<Longrightarrow>
   map (f \<circ> snd) (AList.update k v' xs) = map (f \<circ> snd) xs"
  by (induction xs) (auto split: if_splits)

lemma settles_update:
  assumes "ph_ok h" "map_of (ph_pending h) fd = Some q"
    "pq_connection q' = pq_connection q" "pq_upstream_fd q' = pq_upstream_fd q" "pq_client q' = pq_client q"
  shows "settles h (update_pending fd q' h)"
proof -
  note e = entry_facts [OF assms(1,2)]
  let ?h = "update_pending fd q' h"
  have held: "ph_held ?h = ph_held h" and owed: "ph_owed ?h = ph_owed h"
    using map_update_same [OF pending_distinct [OF assms(1)] assms(2)] assms(3,5)
    by (simp_all add: ph_held_def ph_owed_def pending_fds_def update_pending_def)
  have "set (AList.update fd q' xs) \<subseteq> insert (fd, q') (set xs)" for xs
    by (induction xs) auto
  from this [of "ph_pending h"] have "list_all entry_ok (ph_pending ?h)"
    using assms(1) assms(3,4) e
    by (auto simp: ph_ok_def list_all_iff update_pending_def entry_ok_def dest!: subsetD)
  then have "ph_ok ?h"
    by (rule ph_okI) (use assms(1) held in \<open>auto simp: ph_ok_def update_pending_def\<close>)
  with held owed show ?thesis by (simp add: settles_def fd_ledger_def client_ledger_def update_pending_def)
qed

lemma settles_watch: "settles h g \<Longrightarrow> settles h (g\<lparr>ph_watch := w\<rparr>)"
  by (simp add: settles_def ph_ok_def fd_ledger_def client_ledger_def ph_held_def ph_owed_def pending_fds_def)

lemma settles_then:
  assumes "settles h g"
  shows "settles h (ph_fail fd s m g)" "settles h (ph_complete now fd out g)"
  using settles_trans [OF assms settles_fail] settles_trans [OF assms settles_complete] settles_ok [OF assms]
  by simp_all

lemma settles_finish_connect:
  assumes "ph_ok h" "map_of (ph_pending h) fd = Some q" shows "settles h (finish_connect an fd q h)"
  by (simp add: finish_connect_def settles_fail settles_update assms split: SocketError.split)

lemma settles_flush:
  assumes "ph_ok h" "map_of (ph_pending h) fd = Some q" shows "settles h (flush_request an fd q h)"
proof -
  have "settles h (update_pending fd (q\<lparr>pq_written := n, pq_bytes := [], pq_phase := ph, pq_deadline := d\<rparr>) h)"
    for n ph d by (rule settles_update [OF assms]) simp_all
  then show ?thesis
    unfolding flush_request_def Let_def
    by (auto split: FlushEnd.split intro: settles_fail settles_update settles_watch settles_then assms)
qed

lemma settles_on_writable:
  assumes "ph_ok h" "map_of (ph_pending h) fd = Some q" shows "settles h (on_writable an fd q h)"
proof -
  obtain g where g: "g = (if pq_phase q = PhConnecting then finish_connect an fd q h else h)" by simp
  then have h: "settles h g" by (simp add: settles_finish_connect settles_refl assms)
  show ?thesis
    unfolding on_writable_def Let_def g [symmetric]
    by (auto split: option.split intro: h settles_trans [OF h] settles_flush [OF settles_ok [OF h]])
qed

lemma settles_finish_read:
  assumes "ph_ok h" "map_of (ph_pending h) fd = Some q" shows "settles h (finish_read now fd q r h)"
proof -
  have u: "settles h (update_pending fd (q\<lparr>pq_parser := p\<rparr>) h)" for p
    by (rule settles_update [OF assms]) simp_all
  show ?thesis
    unfolding finish_read_def Let_def
    by (auto split: ReadEnd.split prod.split
        intro: u settles_then [OF u])
qed

lemma settles_event: "ph_ok h \<Longrightarrow> settles h (on_upstream_event an fd gen ev h)"
  unfolding on_upstream_event_def
proof (auto split: option.split EventType.split intro: settles_refl settles_fail settles_on_writable)
  fix q assume a: "ph_ok h" "map_of (ph_pending h) fd = Some q"
  then show "settles h (on_readable an fd q h)"
    by (simp add: on_readable_def read_available_def settles_refl settles_finish_read)
  have r: "settles h (read_available an fd q h)" using a by (simp add: read_available_def settles_finish_read)
  then show "settles h (on_hangup an fd q h)"
    unfolding on_hangup_def Let_def
    by (auto split: option.split intro: settles_trans [OF r] settles_finish_read [OF settles_ok [OF r]])
qed

lemma settles_pool_effect:
  assumes "ph_ok h" "pool_ok (snd r)" "mset (fst r) + mset (pool_fds (snd r)) = mset (pool_fds (ph_pool h))"
  shows "settles h (pool_effect r h)"
proof -
  let ?h = "pool_effect r h"
  have f: "ph_pending ?h = ph_pending h" "ph_pool ?h = snd r" "ph_closed ?h = ph_closed h @ fst r"
    "ph_done ?h = ph_done h" "ph_completed ?h = ph_completed h" "ph_failed ?h = ph_failed h"
    by (simp_all add: pool_effect_def)
  have held: "mset (ph_held h) = mset (ph_held ?h) + mset (fst r)"
    using assms(3) by (simp add: ph_held_def pending_fds_def f ac_simps flip: assms(3))
  have "ph_ok ?h"
    by (rule ph_okI [of ?h h]) (use assms held in \<open>auto simp: f ph_ok_def\<close>)
  with held show ?thesis by (simp add: settles_def fd_ledger_def client_ledger_def ph_owed_def f)
qed

lemma settles_expire: "ph_ok h \<Longrightarrow> settles h (expire_pending fd h)"
  by (simp add: expire_pending_def settles_refl settles_fail split: option.split)

lemma settles_expire_all: "ph_ok h \<Longrightarrow> settles h (foldl (\<lambda>h fd. expire_pending fd h) h fds)"
  by (induction fds rule: rev_induct) (auto intro: settles_refl settles_trans settles_expire settles_ok)

lemma settles_sweep: "ph_ok h \<Longrightarrow> settles h (ph_sweep now h)"
proof -
  assume h: "ph_ok h"
  let ?g = "foldl (\<lambda>h fd. expire_pending fd h) h (map fst (filter (\<lambda>(fd, q). past_deadline now q) (ph_pending h)))"
  have g: "settles h ?g" by (rule settles_expire_all [OF h])
  then have "pool_ok (ph_pool ?g)" by (simp add: settles_def ph_ok_def)
  then have "settles ?g (pool_effect (pool_sweep_idle (steady_ns now) (ph_pool ?g)) ?g)"
    by (intro settles_pool_effect settles_ok [OF g] pool_ok_sweep pool_sweep_fds)
  with g show ?thesis unfolding ph_sweep_def Let_def by (rule settles_trans)
qed

lemma settles_refresh: "ph_ok h \<Longrightarrow> settles h (refresh_runtime_limits an h)"
  by (simp add: refresh_runtime_limits_def settles_def ph_ok_def fd_ledger_def client_ledger_def ph_held_def
      ph_owed_def pending_fds_def pool_set_limits_def pool_ok_def pool_fds_def pool_all_def Let_def)


subsection \<open>Histories\<close>

datatype ProxyOp =
  PStart Answers "64 word" int HttpRequest
| PEvent Answers int "64 word" EventType
| PSweep millis
| PRefresh Answers

definition ph_exec :: "ProxyOp \<Rightarrow> ProxyHandler \<Rightarrow> ProxyHandler" where
  "ph_exec oper h =
     (case oper of
        PStart an client client_fd request \<Rightarrow> ph_start an client client_fd request h
      | PEvent an fd generation event \<Rightarrow> on_upstream_event an fd generation event h
      | PSweep now \<Rightarrow> ph_sweep now h
      | PRefresh an \<Rightarrow> refresh_runtime_limits an h)"

definition op_clients :: "ProxyOp \<Rightarrow> 64 word list" where
  "op_clients oper = (case oper of PStart an client client_fd request \<Rightarrow> [client] | _ \<Rightarrow> [])"

text \<open>The descriptors that \<^verbatim>\<open>socket\<close> creates in a step, and over a history.\<close>

definition op_opens :: "ProxyOp \<Rightarrow> ProxyHandler \<Rightarrow> int list" where
  "op_opens oper h =
     (case oper of
        PStart an client client_fd request \<Rightarrow>
          if ph_configured h then acquire_opens (ph_target h) (an_socket an) (ph_pool h) else []
      | _ \<Rightarrow> [])"

fun ph_run :: "ProxyOp list \<Rightarrow> ProxyHandler \<Rightarrow> ProxyHandler" where
  "ph_run [] h = h"
| "ph_run (oper # ops) h = ph_run ops (ph_exec oper h)"

fun run_opens :: "ProxyOp list \<Rightarrow> ProxyHandler \<Rightarrow> int list" where
  "run_opens [] h = []"
| "run_opens (oper # ops) h = op_opens oper h @ run_opens ops (ph_exec oper h)"

text \<open>The kernel never hands out a descriptor that is still open.\<close>

definition fresh_fds :: "int list \<Rightarrow> ProxyHandler \<Rightarrow> bool" where
  "fresh_fds fds h \<longleftrightarrow> list_all (\<lambda>fd. 0 \<le> fd \<and> fd \<notin> set (ph_held h)) fds"

fun kernel_run :: "ProxyOp list \<Rightarrow> ProxyHandler \<Rightarrow> bool" where
  "kernel_run [] h = True"
| "kernel_run (oper # ops) h = (fresh_fds (op_opens oper h) h \<and> kernel_run ops (ph_exec oper h))"

definition advances :: "int list \<Rightarrow> 64 word list \<Rightarrow> ProxyHandler \<Rightarrow> ProxyHandler \<Rightarrow> bool" where
  "advances opened clients h h' \<longleftrightarrow> ph_ok h' \<and> fd_ledger h' = fd_ledger h + mset opened \<and>
     client_ledger h' = client_ledger h + mset clients"

lemma settles_advances: "settles h h' \<Longrightarrow> advances [] [] h h'"
  by (simp add: settles_def advances_def)

lemma opens_distinct: "distinct (acquire_opens t sock p)"
  by (simp add: acquire_opens_def socket_fds_def split: SocketOutcome.split)

lemma refuse_advances:
  assumes "ph_ok h" "pool_ok pool" "distinct (ph_held h @ opens)" "list_all (\<lambda>fd. 0 \<le> fd) (ph_held h @ opens)"
    "mset closed + mset (pool_fds pool) = mset (pool_fds (ph_pool h)) + mset opens"
    and g: "ph_pending g = ph_pending h" "ph_pool g = pool" "ph_closed g = ph_closed h @ closed"
      "ph_completed g = ph_completed h" "ph_failed g = ph_failed h + 1" "ph_done g = ph_done h @ [(client, out)]"
  shows "advances opens [client] h g"
proof -
  have held: "mset (ph_held h) + mset opens = mset (ph_held g) + mset closed"
    using assms(5) by (simp add: ph_held_def pending_fds_def g ac_simps)
  then have "mset (ph_held g) \<subseteq># mset (ph_held h @ opens)" by (simp add: mset_subset_eq_exists_conv)
  from ph_ok_base [OF _ _ assms(3,4) this] have "ph_ok g"
    using assms(1,2) by (simp add: g ph_ok_def ac_simps)
  with held show ?thesis by (simp add: advances_def fd_ledger_def client_ledger_def ph_owed_def g ac_simps)
qed

lemma accept_advances:
  assumes "ph_ok h" "pool_ok pool" "distinct (ph_held h @ opens)" "list_all (\<lambda>fd. 0 \<le> fd) (ph_held h @ opens)"
    "mset closed + mset (pool_fds pool) + {#fd#} = mset (pool_fds (ph_pool h)) + mset opens"
    and q: "pq_connection q = fd" "pq_upstream_fd q = fd" "pq_client q = client"
    and g: "ph_pending g = ph_pending h @ [(fd, q)]" "ph_pool g = pool" "ph_closed g = ph_closed h @ closed"
      "ph_completed g = ph_completed h" "ph_failed g = ph_failed h" "ph_done g = ph_done h"
  shows "advances opens [client] h g"
proof -
  have held: "mset (ph_held h) + mset opens = mset (ph_held g) + mset closed"
    using assms(5) q by (simp add: ph_held_def pending_fds_def g ac_simps)
  then have "mset (ph_held g) \<subseteq># mset (ph_held h @ opens)" by (simp add: mset_subset_eq_exists_conv)
  from ph_ok_base [OF _ _ assms(3,4) this] have "ph_ok g"
    using assms(1,2) q by (simp add: g ph_ok_def entry_ok_def)
  with held q show ?thesis by (simp add: advances_def fd_ledger_def client_ledger_def ph_owed_def g ac_simps)
qed

lemma start_advances:
  assumes h: "ph_ok h" and fresh: "fresh_fds (op_opens (PStart an client cfd request) h) h"
  shows "advances (op_opens (PStart an client cfd request) h) [client] h (ph_start an client cfd request h)"
proof (cases "ph_configured h")
  case False
  show ?thesis
    by (rule refuse_advances [OF h, of "ph_pool h" _ "[]" _ _ "outcome_error NotConfigured (ph_error h)"])
      (use h False in \<open>simp_all add: ph_ok_def op_opens_def ph_start_def refuse_def\<close>)
next
  case True
  let ?opens = "acquire_opens (ph_target h) (an_socket an) (ph_pool h)"
  obtain r closed pool where a: "pool_acquire (ph_target h) (an_socket an) (ph_pool h) = (r, closed, pool)"
    by (cases "pool_acquire (ph_target h) (an_socket an) (ph_pool h)")
  have po: "pool_ok (ph_pool h)" using h by (simp add: ph_ok_def)
  have pool: "pool_ok pool" using pool_ok_acquire [OF po, of "ph_target h" "an_socket an"] a by simp
  note eq = pool_acquire_fds [OF po a]
  have opens: "op_opens (PStart an client cfd request) h = ?opens" using True by (simp add: op_opens_def)
  have d: "distinct (ph_held h @ ?opens)" "list_all (\<lambda>fd. 0 \<le> fd) (ph_held h @ ?opens)"
    using h fresh opens opens_distinct by (auto simp: ph_ok_def fresh_fds_def list_all_iff)
  show ?thesis
  proof (cases "aq_ok r")
    case False
    show ?thesis unfolding opens
      by (rule refuse_advances [OF h pool d, of closed _ _ "outcome_error BadGateway (aq_error r)"])
        (use eq True False a in \<open>simp_all add: ph_start_def refuse_def\<close>)
  next
    case ok: True
    define fd where "fd = aq_fd r"
    have eq': "mset closed + mset (pool_fds pool) + {#fd#} = mset (pool_fds (ph_pool h)) + mset ?opens"
      using eq ok by (simp add: fd_def)
    then have "fd \<in># mset (pool_fds (ph_pool h)) + mset ?opens" by (metis multi_member_last union_iff)
    then have fd: "0 \<le> fd" "fd \<notin> set (pending_fds h)"
      using d by (auto simp: ph_held_def list_all_iff)
    then have none: "map_of (ph_pending h) fd = None"
      using pending_keys [OF h] by (simp add: map_of_eq_None_iff flip: set_map)
    have s: "ph_start an client cfd request h = start_acquired an client cfd request (aq_reused r) fd
        (h\<lparr>ph_pool := pool, ph_closed := ph_closed h @ closed\<rparr>)"
      using True ok a by (simp add: ph_start_def fd_def)
    show ?thesis
    proof (cases "an_add_ok an")
      case True
      obtain q where q: "q = pending_new an client cfd request (aq_reused r) fd
          (if aq_reused r then h\<lparr>ph_pool := pool, ph_closed := ph_closed h @ closed, ph_reused := ph_reused h + 1\<rparr>
           else h\<lparr>ph_pool := pool, ph_closed := ph_closed h @ closed, ph_created := ph_created h + 1\<rparr>)" by simp
      show ?thesis unfolding opens
        by (rule accept_advances [OF h pool d eq', of q])
          (use True none in \<open>simp_all add: q pending_new_def s start_acquired_def emplace_pending_def Let_def\<close>)
    next
      case False
      show ?thesis unfolding opens
        by (rule refuse_advances [OF h pool d, of "closed @ [fd]" _ _ "outcome_error Unavailable
             ''failed to register upstream descriptor with the event loop''"])
          (use False eq' fd in \<open>simp_all add: s start_acquired_def refuse_def close_owned_def Let_def\<close>)
    qed
  qed
qed

lemma exec_advances:
  assumes "ph_ok h" "fresh_fds (op_opens oper h) h"
  shows "advances (op_opens oper h) (op_clients oper) h (ph_exec oper h)"
proof (cases oper)
  case (PStart an client cfd request)
  then show ?thesis using start_advances assms by (simp add: ph_exec_def op_clients_def)
qed (use assms in \<open>simp_all add: ph_exec_def op_clients_def op_opens_def settles_advances settles_event
      settles_sweep settles_refresh\<close>)

lemma run_advances:
  "ph_ok h \<Longrightarrow> kernel_run ops h \<Longrightarrow> advances (run_opens ops h) (concat (map op_clients ops)) h (ph_run ops h)"
proof (induction ops arbitrary: h)
  case (Cons oper ops)
  then have e: "advances (op_opens oper h) (op_clients oper) h (ph_exec oper h)" by (simp add: exec_advances)
  with Cons have "advances (run_opens ops (ph_exec oper h)) (concat (map op_clients ops)) (ph_exec oper h)
      (ph_run ops (ph_exec oper h))" by (simp add: advances_def)
  with e show ?case by (simp add: advances_def ac_simps)
qed (simp add: advances_def)

lemma handler_new_ok: "ph_ok (handler_new resolve cfg)"
  by (auto simp: handler_new_def ph_ok_def ph_held_def pending_fds_def pool_fds_def pool_all_def pool_new_def
      pool_set_limits_def pool_ok_def Let_def split: sum.split option.split)

lemma handler_new_ledgers:
  "fd_ledger (handler_new resolve cfg) = {#}" "client_ledger (handler_new resolve cfg) = {#}"
  by (auto simp: handler_new_def fd_ledger_def client_ledger_def ph_held_def ph_owed_def pending_fds_def pool_fds_def
      pool_all_def pool_new_def pool_set_limits_def Let_def split: sum.split option.split)

subsection \<open>Timeouts\<close>

definition timeout_report :: "PendingRequest \<Rightarrow> 64 word \<times> ProxyOutcome" where
  "timeout_report q =
     (pq_client q, (outcome_error GatewayTimeout
        (if pq_phase q = PhConnecting then ''upstream connect timeout'' else ''upstream response timeout''))
        \<lparr>po_head := pq_head q\<rparr>)"

lemma expire_found:
  assumes "map_of (ph_pending h) fd = Some q"
  shows "ph_pending (expire_pending fd h) = AList.delete fd (ph_pending h) \<and>
    ph_done (expire_pending fd h) = ph_done h @ [timeout_report q]"
  using assms by (simp add: expire_pending_def ph_fail_def finish_entry_def timeout_report_def Let_def)

lemma expire_all:
  "distinct fds \<Longrightarrow> set fds \<subseteq> fst ` set (ph_pending h) \<Longrightarrow>
   ph_pending (foldl (\<lambda>h fd. expire_pending fd h) h fds) = filter (\<lambda>e. fst e \<notin> set fds) (ph_pending h) \<and>
   ph_done (foldl (\<lambda>h fd. expire_pending fd h) h fds) =
     ph_done h @ map (\<lambda>fd. timeout_report (the (map_of (ph_pending h) fd))) fds"
proof (induction fds arbitrary: h)
  case (Cons fd fds)
  then obtain q where q: "map_of (ph_pending h) fd = Some q"
    by (metis list.set_intros(1) map_of_eq_None_iff not_None_eq subsetD)
  note e = expire_found [OF q]
  have "set fds \<subseteq> fst ` set (ph_pending (expire_pending fd h))"
    using Cons.prems e by (fastforce simp: AList.delete_eq)
  moreover have "map_of (AList.delete fd (ph_pending h)) x = map_of (ph_pending h) x" if "x \<in> set fds" for x
    using that Cons.prems(1) by (auto simp: delete_conv')
  ultimately show ?case
    using Cons.IH [of "expire_pending fd h"] Cons.prems e
    by (auto simp: q AList.delete_eq [of fd] case_prod_unfold intro!: filter_cong)
qed simp

lemma filter_keys_of_filter:
  "distinct (map fst xs) \<Longrightarrow> filter (\<lambda>e. fst e \<notin> fst ` set (filter P xs)) xs = filter (\<lambda>e. \<not> P e) xs"
  by (rule filter_cong) (auto dest: eq_key_imp_eq_value simp: image_iff) 

lemma sweep_pending:
  assumes "ph_ok h"
  shows "ph_pending (ph_sweep now h) = filter (\<lambda>(fd, q). \<not> past_deadline now q) (ph_pending h) \<and>
    ph_done (ph_sweep now h) =
      ph_done h @ map (timeout_report \<circ> snd) (filter (\<lambda>(fd, q). past_deadline now q) (ph_pending h))"
proof -
  note d = pending_distinct [OF assms]
  let ?P = "\<lambda>(fd :: int, q). past_deadline now q"
  let ?fds = "map fst (filter ?P (ph_pending h))"
  have "distinct ?fds" "set ?fds \<subseteq> fst ` set (ph_pending h)" using d by (auto simp: distinct_map_filter)
  note e = expire_all [OF this]
  have "timeout_report (the (map_of (ph_pending h) (fst e))) = timeout_report (snd e)"
    if "e \<in> set (ph_pending h)" for e using map_of_is_SomeI [OF d, of "fst e" "snd e"] that by simp
  then have r: "map (\<lambda>fd. timeout_report (the (map_of (ph_pending h) fd))) ?fds =
      map (timeout_report \<circ> snd) (filter ?P (ph_pending h))" by (auto simp: comp_def)
  show ?thesis
    unfolding ph_sweep_def Let_def pool_effect_def
    using e filter_keys_of_filter [OF d, of ?P] by (simp only: r) (simp add: case_prod_unfold)
qed

subsection \<open>Shutdown\<close>

lemma shutdown_closes:
  assumes "ph_ok h"
  shows "mset (ph_closed (ph_shutdown h)) = fd_ledger h" "ph_held (ph_shutdown h) = []"
    "ph_done (ph_shutdown h) = ph_done h"
proof -
  have "concat (map (close_owned \<circ> pq_connection \<circ> snd) xs) = map (pq_connection \<circ> snd) xs"
    if "list_all (\<lambda>fd. 0 \<le> fd) (map (pq_connection \<circ> snd) xs)" for xs :: "(int \<times> PendingRequest) list"
    using that by (induction xs) (auto simp: close_owned_def)
  with assms show "mset (ph_closed (ph_shutdown h)) = fd_ledger h" "ph_held (ph_shutdown h) = []"
    "ph_done (ph_shutdown h) = ph_done h"
    by (simp_all add: ph_ok_def ph_shutdown_def pool_effect_def Let_def fd_ledger_def ph_held_def pending_fds_def
        pool_close_all_fds)
qed

subsection \<open>Properties\<close>

definition proxy_sample_config :: ServerConfig where
  "proxy_sample_config = config_default\<lparr>cfg_proxy_enabled := True, cfg_proxy_pass := ''http://10.0.0.2:9001''\<rparr>"

definition sample_answers :: "millis \<Rightarrow> Answers" where
  "sample_answers now = \<lparr>an_now = now, an_store = None, an_peer = ''192.0.2.7'', an_socket = Connecting 9,
     an_add_ok = True, an_modify_ok = True, an_so_error = SockConnected, an_sends = [UpSent 4096],
     an_recvs = [UpRecv (''HTTP/1.1 204 No Content'' @ CRLF @ CRLF)]\<rparr>"

definition sample_history :: "ProxyOp list" where
  "sample_history =
     [PStart (sample_answers 10) 7 4 new_request, PEvent (sample_answers 20) 9 1 Writable,
      PEvent (sample_answers 30) 9 1 Readable, PStart (sample_answers 40) 8 5 new_request, PSweep 40000]"

lemma sample_history_run:
  "kernel_run sample_history (handler_new (\<lambda>_. None) proxy_sample_config)"
  by code_simp



text \<open>
  C34: No upstream descriptor leaks or is closed twice.  At every moment the descriptors
  ever created are those closed and those held by a pending request or the pool, the
  latter all distinct; after a shutdown every one has been closed.
\<close>

theorem proxy_descriptors_conserved:
  assumes "kernel_run ops (handler_new resolve cfg)"
  shows "let h = ph_run ops (handler_new resolve cfg); opened = run_opens ops (handler_new resolve cfg) in
    mset (ph_closed h) + mset (ph_held h) = mset opened \<and> distinct (ph_held h) \<and>
    mset (ph_closed (ph_shutdown h)) = mset opened \<and> ph_held (ph_shutdown h) = []"
  using run_advances [OF handler_new_ok assms]
  by (simp add: advances_def handler_new_ledgers Let_def shutdown_closes)
    (simp add: ph_ok_def fd_ledger_def)

lemma proxy_descriptors_conserved_witness:
  "let h = ph_run sample_history (handler_new (\<lambda>_. None) proxy_sample_config) in
   mset (ph_closed h) + mset (ph_held h) = {#9#} \<and> mset (ph_closed (ph_shutdown h)) = {#9#}"
proof -
  have "run_opens sample_history (handler_new (\<lambda>_. None) proxy_sample_config) = [9]" by code_simp
  then show ?thesis using proxy_descriptors_conserved [OF sample_history_run] by (simp add: Let_def)
qed

text \<open>
  C35: The sweep enforces the upstream deadlines.  Exactly the requests whose deadline
  has passed are removed, each answered by one gateway timeout that names the phase it
  was stuck in; all others stay untouched and in order.
\<close>

theorem proxy_deadlines_enforced:
  assumes "ph_ok h"
  shows "ph_pending (ph_sweep now h) = filter (\<lambda>(fd, q). \<not> past_deadline now q) (ph_pending h) \<and>
    ph_done (ph_sweep now h) =
      ph_done h @ map (timeout_report \<circ> snd) (filter (\<lambda>(fd, q). past_deadline now q) (ph_pending h)) \<and>
    ph_ok (ph_sweep now h)"
  using sweep_pending [OF assms] settles_ok [OF settles_sweep [OF assms]] by simp

lemma proxy_deadlines_enforced_witness:
  "let h = ph_start (sample_answers 10) 7 4 new_request (handler_new (\<lambda>_. None) proxy_sample_config) in
   map fst (ph_pending h) = [9] \<and> ph_ok h \<and> ph_pending (ph_sweep 5010 h) = []"
proof -
  let ?h = "ph_start (sample_answers 10) 7 4 new_request (handler_new (\<lambda>_. None) proxy_sample_config)"
  have h: "map fst (ph_pending ?h) = [9]" "list_all (past_deadline 5010 \<circ> snd) (ph_pending ?h)" by code_simp+
  have "fresh_fds (op_opens (PStart (sample_answers 10) 7 4 new_request) (handler_new (\<lambda>_. None) proxy_sample_config))
      (handler_new (\<lambda>_. None) proxy_sample_config)" by code_simp
  then have ok: "ph_ok ?h" using start_advances [OF handler_new_ok] by (simp add: advances_def)
  have "ph_pending (ph_sweep 5010 ?h) = []"
    using proxy_deadlines_enforced [OF ok, of 5010] h(2) by (simp add: list_all_iff case_prod_unfold filter_empty_conv)
  with h ok show ?thesis by (simp add: Let_def)
qed

end
