(* ===== verification/Proxy_Exchange.thy ===== *)
theory Proxy_Exchange
  imports Proxy_Handler Response_Roundtrip
begin

section \<open>One exchange, from the request to the answer\<close>

text \<open>
  This theory follows one exchange through \<open>Proxy_Handler\<close>: connection, request, response
  and callback, with everything else in flight left alone.
\<close>

text \<open>A state that differs from \<open>h\<close> by one more pending request, \<open>q\<close> on \<open>fd\<close>.\<close>

definition in_flight :: "int \<Rightarrow> PendingRequest \<Rightarrow> ProxyHandler \<Rightarrow> ProxyHandler \<Rightarrow> bool" where
  "in_flight fd q h g \<longleftrightarrow> fd \<notin> fst ` set (ph_pending h) \<and> ph_pending g = ph_pending h @ [(fd, q)] \<and>
     ph_done g = ph_done h \<and> ph_config g = ph_config h"

lemma map_of_snoc: "fd \<notin> fst ` set xs \<Longrightarrow> map_of (xs @ [(fd, q)]) fd = Some q"
  by (induction xs) auto

lemma update_snoc: "fd \<notin> fst ` set xs \<Longrightarrow> AList.update fd q' (xs @ [(fd, q)]) = xs @ [(fd, q')]"
  by (induction xs) auto

lemma delete_snoc: "fd \<notin> fst ` set xs \<Longrightarrow> AList.delete fd (xs @ [(fd, q)]) = xs"
  by (induction xs) auto

lemma in_flight_found: "in_flight fd q h g \<Longrightarrow> map_of (ph_pending g) fd = Some q"
  by (simp add: in_flight_def map_of_snoc del: map_of_append)

lemma in_flight_update: "in_flight fd q h g \<Longrightarrow> in_flight fd q' h (update_pending fd q' g)"
  by (simp add: in_flight_def update_pending_def update_snoc)

lemma in_flight_watch: "in_flight fd q h g \<Longrightarrow> in_flight fd q h (g\<lparr>ph_watch := w\<rparr>)"
  by (simp add: in_flight_def)

lemma start_in_flight:
  assumes "ph_ok h" "ph_configured h" "bucket_of (ph_pool h) (ph_target h) = []" "an_socket a = Connecting fd"
    "fd \<notin> set (ph_held h)" "an_add_ok a"
  shows "\<exists>q. q = pending_new a client cfd request False fd h \<and> in_flight fd q h (ph_start a client cfd request h)"
proof -
  have acq: "pool_acquire (ph_target h) (Connecting fd) (ph_pool h) =
      (\<lparr>aq_ok = True, aq_reused = False, aq_fd = fd, aq_error = []\<rparr>, [], ph_pool h)"
    by (subst bucket_acquire) (simp add: assms(3) pool_create_def)
  have fd: "fd \<notin> fst ` set (ph_pending h)"
    using pending_keys [OF assms(1)] assms(5) by (auto simp: ph_held_def simp flip: set_map)
  then have none: "map_of (ph_pending h) fd = None" by (simp add: map_of_eq_None_iff)
  let ?h = "h\<lparr>ph_closed := ph_closed h @ [], ph_created := ph_created h + 1\<rparr>"
  have "pending_new a client cfd request False fd (h\<lparr>ph_pool := ph_pool h, ph_closed := ph_closed h @ [], ph_created := ph_created h + 1\<rparr>) =
      pending_new a client cfd request False fd h"
    by (simp add: pending_new_def ph_cfg_def request_options_def Let_def split: option.split)
  with acq assms fd none show ?thesis
    by (simp add: ph_start_def start_acquired_def emplace_pending_def in_flight_def Let_def)
qed

lemma send_loop_all: "0 \<notin> set ns \<Longrightarrow> len \<le> w + sum_list ns \<Longrightarrow> send_loop (map UpSent ns) len w = Flushed"
  by (induction ns arbitrary: w) auto

definition handed_over :: "Answers \<Rightarrow> PendingRequest \<Rightarrow> ProxyHandler \<Rightarrow> PendingRequest" where
  "handed_over a q h = q\<lparr>pq_written := length (pq_bytes q), pq_bytes := [], pq_phase := PhReading,
     pq_deadline := deadline_after (an_now a) (cfg_proxy_read_timeout_ms (ph_cfg a h))\<rparr>"

lemma update_cfg [simp]: "ph_cfg a (update_pending fd q g) = ph_cfg a g"
  by (simp add: ph_cfg_def update_pending_def split: option.split)

lemma write_in_flight:
  assumes g: "in_flight fd q h g" and q: "pq_phase q = PhConnecting" "pq_written q = 0" "pq_generation q = gen"
    and a: "an_so_error a = SockConnected" "an_sends a = map UpSent ns" "0 \<notin> set ns"
      "length (pq_bytes q) \<le> sum_list ns" "an_modify_ok a"
  shows "in_flight fd (handed_over a q h) h (on_upstream_event a fd gen Writable g)"
proof -
  let ?q = "q\<lparr>pq_phase := PhWriting, pq_deadline := deadline_after (an_now a) (cfg_proxy_read_timeout_ms (ph_cfg a g))\<rparr>"
  let ?g = "update_pending fd ?q g"
  have c: "ph_cfg a g = ph_cfg a h" using g by (simp add: ph_cfg_def in_flight_def split: option.split)
  have g1: "in_flight fd ?q h ?g" by (rule in_flight_update [OF g])
  have "flush_request a fd ?q ?g = (update_pending fd (handed_over a q h) ?g)
      \<lparr>ph_watch := AList.update fd [EPOLLIN, EPOLLRDHUP] (ph_watch ?g)\<rparr>"
    using a q send_loop_all [of ns "length (pq_bytes q)" 0] c
    by (simp add: flush_request_def handed_over_def Let_def) (simp add: update_pending_def)
  moreover have "on_upstream_event a fd gen Writable g = flush_request a fd ?q ?g"
    using in_flight_found [OF g] in_flight_found [OF g1] q a
    by (simp add: on_upstream_event_def on_writable_def finish_connect_def Let_def)
  ultimately show ?thesis using in_flight_watch [OF in_flight_update [OF g1]] by simp
qed

lemma read_in_flight:
  assumes g: "in_flight fd q h g" and q: "pq_phase q = PhReading" "pq_generation q = gen"
    and a: "an_recvs a = [UpRecv data]" "data \<noteq> []"
    and p: "pr_feed data (pq_parser q) = (True, p)" "pr_state p = Complete"
  shows "ph_done (on_upstream_event a fd gen Readable g) =
      ph_done h @ [(pq_client q, (outcome_from_parser p)\<lparr>po_head := pq_head q\<rparr>)] \<and>
    ph_pending (on_upstream_event a fd gen Readable g) = ph_pending h"
proof -
  let ?q = "q\<lparr>pq_parser := p\<rparr>" and ?g = "update_pending fd (q\<lparr>pq_parser := p\<rparr>) g"
  have g1: "in_flight fd ?q h ?g" by (rule in_flight_update [OF g])
  have "on_upstream_event a fd gen Readable g = ph_complete (an_now a) fd (outcome_from_parser p) ?g"
    using in_flight_found [OF g] q a p
    by (simp add: on_upstream_event_def on_readable_def read_available_def finish_read_def Let_def)
  moreover have "ph_done (ph_complete (an_now a) fd (outcome_from_parser p) ?g) =
        ph_done h @ [(pq_client q, (outcome_from_parser p)\<lparr>po_head := pq_head q\<rparr>)] \<and>
      ph_pending (ph_complete (an_now a) fd (outcome_from_parser p) ?g) = ph_pending h"
    using in_flight_found [OF g1] g1
    by (auto simp: ph_complete_def finish_entry_def in_flight_def delete_snoc Let_def split: prod.split)
  ultimately show ?thesis by simp
qed

definition exchange_config :: "Answers \<Rightarrow> HttpRequest \<Rightarrow> ProxyHandler \<Rightarrow> RespConfig" where
  "exchange_config a request h =
     default_resp_config\<lparr>max_response_body := unat (cfg_proxy_max_response (ph_cfg a h)),
       request_was_head := (req_method request = HEAD)\<rparr>"

lemma pr_reset_new [simp]: "pr_reset c (pr_new d) = pr_new c"
  by (simp add: pr_reset_def pr_new_def)

lemma fed_response:
  assumes "head_accepted c n reason hs" "filter is_cl hs = [f]" "header_value f = to_string (length body)"
    "\<not> list_ex is_te hs" "\<not> request_was_head c" "n \<noteq> 204" "n \<noteq> 304"
  shows "\<exists>p. pr_feed (wire_head n reason hs @ body) (pr_new c) = (True, p) \<and>
    pr_output p = (State.Complete, n, hs, body)"
proof -
  have ne: "wire_head n reason hs @ body \<noteq> []" by (simp add: wire_head_def)
  have "f \<in> set (filter is_cl hs)" using assms(2) by simp
  then have "f \<in> set hs" "is_cl f" by simp_all
  with assms have len: "length body \<le> max_response_body c"
    by (auto simp: head_accepted_def list_all_iff digits_value_to_string)
  then have fits: "length (wire_head n reason hs @ body) \<le> max_header_bytes c + max_response_body c"
    using assms(1) by (simp add: head_accepted_def)
  let ?p = "snd (pr_feed (wire_head n reason hs @ body) (pr_new c))"
  have out: "pr_output ?p = (State.Complete, n, hs, body)"
    using length_body_read [OF assms, of "[]"] pr_feed_new [OF ne fits] by simp
  then have "pr_state ?p \<noteq> Error" by (simp add: pr_output_def)
  with ne fits have "fst (pr_feed (wire_head n reason hs @ body) (pr_new c))"
    by (auto simp: pr_feed_def Let_def split: if_splits)
  with out show ?thesis by (metis prod.collapse)
qed


end
