(* ===== verification/Static_Files.thy ===== *)
theory Static_Files
  imports Prelude "HOL-Library.Sublist"
begin

section \<open>Static files: \<^verbatim>\<open>static_file_server.cpp\<close>, \<^verbatim>\<open>filesystem_worker.cpp\<close>\<close>

text \<open>
  A \<^verbatim>\<open>std::filesystem::path\<close> is modelled by its element list, the sequence its
  iterator yields after the root: a trailing separator is a last empty element.  All
  paths the server resolves are absolute.  The file system is the record \<open>FileSystem\<close>:
  what \<^verbatim>\<open>weakly_canonical\<close> (which follows symbolic links), \<^verbatim>\<open>status\<close> and reading a
  file answer during one request; \<^const>\<open>Inl\<close> is the text of the exception they throw.
\<close>

type_synonym FsPath = "string list"

datatype FileKind = NotFound | Directory | Regular | OtherKind

record FileSystem =
  fs_canonical :: "FsPath \<Rightarrow> string + FsPath"
  fs_status :: "FsPath \<Rightarrow> string + FileKind"
  fs_read :: "FsPath \<Rightarrow> string"
  fs_cwd :: FsPath

subsection \<open>Paths\<close>

fun split_slash :: "string \<Rightarrow> string list" where
  "split_slash [] = [[]]"
| "split_slash (c # s) =
     (if c = CHR ''/'' then [] # split_slash s
      else case split_slash s of p # ps \<Rightarrow> (c # p) # ps | [] \<Rightarrow> [[c]])"

definition path_absolute :: "string \<Rightarrow> bool" where
  "path_absolute s \<longleftrightarrow> s \<noteq> [] \<and> hd s = CHR ''/''"

definition path_elements :: "string \<Rightarrow> FsPath" where
  "path_elements s =
     (let parts = split_slash s; names = filter (\<lambda>p. p \<noteq> []) parts
      in if names \<noteq> [] \<and> last parts = [] then names @ [[]] else names)"

definition drop_slash :: "FsPath \<Rightarrow> FsPath" where
  "drop_slash p = (if p \<noteq> [] \<and> last p = [] then butlast p else p)"

text \<open>\<open>path_append root s\<close> is \<^verbatim>\<open>root / s\<close>: an absolute \<open>s\<close> replaces the root.\<close>

definition path_append :: "FsPath \<Rightarrow> string \<Rightarrow> FsPath" where
  "path_append root s =
     (if path_absolute s then path_elements s
      else if s = [] \<and> root \<noteq> [] then drop_slash root @ [[]]
      else drop_slash root @ path_elements s)"

fun normal_elements :: "FsPath \<Rightarrow> FsPath \<Rightarrow> FsPath" where
  "normal_elements st [] = rev st"
| "normal_elements st (x # xs) =
     (if x = [] \<or> x = ''.'' then normal_elements st xs
      else if x = ''..'' then normal_elements (tl st) xs
      else normal_elements (x # st) xs)"

definition lexically_normal :: "FsPath \<Rightarrow> FsPath" where
  "lexically_normal p =
     (let q = normal_elements [] p
      in if q \<noteq> [] \<and> last p \<in> {[], ''.'', ''..''} then q @ [[]] else q)"

fun drop_common :: "FsPath \<Rightarrow> FsPath \<Rightarrow> FsPath \<times> FsPath" where
  "drop_common (a # as) (b # bs) = (if a = b then drop_common as bs else (a # as, b # bs))"
| "drop_common as bs = (as, bs)"

definition up_levels :: "FsPath \<Rightarrow> int" where
  "up_levels bs = sum_list (map (\<lambda>b. if b = ''..'' then - 1 else if b = [] \<or> b = ''.'' then 0 else 1) bs)"

text \<open>\<^verbatim>\<open>lexically_relative\<close>; the empty list is the empty path.\<close>

definition lexically_relative :: "FsPath \<Rightarrow> FsPath \<Rightarrow> FsPath" where
  "lexically_relative p base =
     (let (a, b) = drop_common p base; n = up_levels b
      in if a = [] \<and> b = [] then [''.'']
         else if n = 0 \<and> (a = [] \<or> hd a = []) then [''.'']
         else if n \<ge> 0 then replicate (nat n) ''..'' @ a
         else [])"

definition fs_relative :: "FileSystem \<Rightarrow> FsPath \<Rightarrow> FsPath \<Rightarrow> string + FsPath" where
  "fs_relative fs p base =
     (case fs_canonical fs p of
        Inl e \<Rightarrow> Inl e
      | Inr cp \<Rightarrow>
          (case fs_canonical fs base of
             Inl e \<Rightarrow> Inl e
           | Inr cb \<Rightarrow> Inr (lexically_relative cp cb)))"

fun path_string :: "FsPath \<Rightarrow> string" where
  "path_string [] = []"
| "path_string [p] = p"
| "path_string (p # ps) = p @ ''/'' @ path_string ps"

subsection \<open>Decoding and resolving the request target\<close>

definition hex_value :: "char \<Rightarrow> nat option" where
  "hex_value c =
     (if is_digit c then Some (digit_value c)
      else if 97 \<le> code c \<and> code c \<le> 102 then Some (code c - 87)
      else if 65 \<le> code c \<and> code c \<le> 70 then Some (code c - 55)
      else None)"

definition is_hex :: "char \<Rightarrow> bool" where
  "is_hex c \<longleftrightarrow> hex_value c \<noteq> None"

definition skip_0x :: "string \<Rightarrow> string" where
  "skip_0x s =
     (case s of
        z # x # d # r \<Rightarrow> if z = CHR ''0'' \<and> (x = CHR ''x'' \<or> x = CHR ''X'') \<and> is_hex d then d # r else s
      | _ \<Rightarrow> s)"

text \<open>
  \<^verbatim>\<open>std::stoi(s, nullptr, 16)\<close> on a text too short to overflow: leading white space,
  a sign and a \<^verbatim>\<open>0x\<close> prefix are accepted, what follows the digits is ignored.
\<close>

definition stoi_hex :: "string \<Rightarrow> int option" where
  "stoi_hex s =
     (let (neg, r) = read_sign (dropWhile is_space s); ds = takeWhile is_hex (skip_0x r);
          n = foldl (\<lambda>n c. 16 * n + int (the (hex_value c))) 0 ds
      in if ds = [] then None else Some (if neg then - n else n))"

definition char_of_int :: "int \<Rightarrow> char" where
  "char_of_int n = char_of (nat (n mod 256))"

fun decode_loop :: "string \<Rightarrow> string" where
  "decode_loop [] = []"
| "decode_loop (c # s) =
     (if c = CHR ''%'' then
        (case s of
           x # y # r \<Rightarrow>
             (case stoi_hex [x, y] of
                Some n \<Rightarrow> char_of_int n # decode_loop r
              | None \<Rightarrow> c # decode_loop s)
         | _ \<Rightarrow> c # decode_loop s)
      else if c = CHR ''+'' then CHR '' '' # decode_loop s
      else c # decode_loop s)"

definition url_decode :: "string \<Rightarrow> string" where
  "url_decode encoded =
     (let result = decode_loop encoded in if CHR ''%'' \<in> set result then [] else result)"

definition slashes :: "string \<Rightarrow> string" where
  "slashes s = map (\<lambda>c. if c = CHR 0x5C then CHR ''/'' else c) s"

definition requested_name :: "string \<Rightarrow> string" where
  "requested_name decoded =
     (let name = (if decoded \<noteq> [] \<and> hd decoded = CHR ''/'' then tl decoded else decoded)
      in if name = [] then ''index.html'' else name)"

text \<open>\<open>None\<close> is the thrown \<^verbatim>\<open>runtime_error\<close>.\<close>

definition normalize_path :: "FileSystem \<Rightarrow> FsPath \<Rightarrow> string \<Rightarrow> string option" where
  "normalize_path fs root path =
     (let decoded = url_decode path
      in if decoded = [] then None
         else case fs_relative fs (path_append root (requested_name decoded)) root of
                Inl e \<Rightarrow> None
              | Inr rel \<Rightarrow> Some (slashes (path_string rel)))"

definition resolve_path :: "FsPath \<Rightarrow> string \<Rightarrow> FsPath" where
  "resolve_path root target = lexically_normal (path_append root target)"

definition validate_path :: "FileSystem \<Rightarrow> FsPath \<Rightarrow> FsPath \<Rightarrow> bool" where
  "validate_path fs root resolved =
     (case fs_canonical fs resolved of
        Inl e \<Rightarrow> False
      | Inr abs_resolved \<Rightarrow>
          (case fs_canonical fs root of
             Inl e \<Rightarrow> False
           | Inr abs_root \<Rightarrow>
               (case fs_relative fs abs_resolved abs_root of
                  Inl e \<Rightarrow> False
                | Inr rel \<Rightarrow>
                    if rel \<noteq> [] \<and> hd rel = ''..'' then False
                    else list_all (\<lambda>p. p \<noteq> ''..'') rel)))"

definition is_path_safe :: "FileSystem \<Rightarrow> FsPath \<Rightarrow> string \<Rightarrow> bool" where
  "is_path_safe fs root target =
     (case normalize_path fs root target of
        None \<Rightarrow> False
      | Some normalized \<Rightarrow> validate_path fs root (resolve_path root normalized))"

subsection \<open>MIME types\<close>

definition mime_types :: "(string \<times> string) list" where
  "mime_types =
     [(''.html'', ''text/html''), (''.htm'', ''text/html''), (''.css'', ''text/css''),
      (''.js'', ''application/javascript''), (''.json'', ''application/json''), (''.xml'', ''application/xml''),
      (''.jpg'', ''image/jpeg''), (''.jpeg'', ''image/jpeg''), (''.png'', ''image/png''), (''.gif'', ''image/gif''),
      (''.svg'', ''image/svg+xml''), (''.ico'', ''image/x-icon''), (''.webp'', ''image/webp''),
      (''.woff'', ''font/woff''), (''.woff2'', ''font/woff2''), (''.ttf'', ''font/ttf''), (''.otf'', ''font/otf''),
      (''.eot'', ''application/vnd.ms-fontobject''),
      (''.txt'', ''text/plain''), (''.md'', ''text/markdown''), (''.csv'', ''text/csv''),
      (''.pdf'', ''application/pdf''), (''.zip'', ''application/zip''), (''.tar'', ''application/x-tar''),
      (''.gz'', ''application/gzip''),
      (''.mp3'', ''audio/mpeg''), (''.wav'', ''audio/wav''), (''.ogg'', ''audio/ogg''),
      (''.mp4'', ''video/mp4''), (''.webm'', ''video/webm''), (''.avi'', ''video/x-msvideo''),
      ([], ''application/octet-stream'')]"

definition file_extension :: "string \<Rightarrow> string" where
  "file_extension name =
     (if name = ''.'' \<or> name = ''..'' then []
      else case find_last_idx (\<lambda>c. c = CHR ''.'') name of
             None \<Rightarrow> []
           | Some i \<Rightarrow> if i = 0 then [] else drop i name)"

definition detect_mime_type :: "FsPath \<Rightarrow> string" where
  "detect_mime_type p =
     (let extension = map to_lower (file_extension (if p = [] then [] else last p))
      in case map_of mime_types extension of
           Some mime \<Rightarrow> mime
         | None \<Rightarrow> ''application/octet-stream'')"

subsection \<open>Serving\<close>

record Served =
  sv_content :: string
  sv_mime :: string
  sv_status :: nat

definition served_error :: "nat \<Rightarrow> Served" where
  "served_error n = \<lparr>sv_content = [], sv_mime = ''text/plain'', sv_status = n\<rparr>"

definition serve_resolved :: "FileSystem \<Rightarrow> FsPath \<Rightarrow> FsPath \<Rightarrow> string + Served" where
  "serve_resolved fs root p =
     (if \<not> validate_path fs root p then Inr (served_error 403)
      else case fs_status fs p of
             Inl e \<Rightarrow> Inl e
           | Inr NotFound \<Rightarrow> Inr (served_error 404)
           | Inr Directory \<Rightarrow> Inr (served_error 403)
           | Inr OtherKind \<Rightarrow> Inr (served_error 403)
           | Inr Regular \<Rightarrow>
               (let content = fs_read fs p
                in if content = [] then Inr (served_error 500)
                   else Inr \<lparr>sv_content = content, sv_mime = detect_mime_type p, sv_status = 200\<rparr>))"

definition serve_file :: "FileSystem \<Rightarrow> FsPath \<Rightarrow> string \<Rightarrow> string + Served" where
  "serve_file fs root target =
     (case normalize_path fs root target of
        None \<Rightarrow> Inr (served_error 400)
      | Some normalized \<Rightarrow> serve_resolved fs root (resolve_path root normalized))"

subsection \<open>The worker task\<close>

record WorkerTask =
  wt_connection_id :: "64 word"
  wt_target :: string
  wt_document_root :: string
  wt_is_head :: bool

record WorkerResult =
  wr_connection_id :: "64 word"
  wr_content :: string
  wr_mime :: string
  wr_status :: nat
  wr_error :: string
  wr_success :: bool

definition result_ok :: "64 word \<Rightarrow> string \<Rightarrow> string \<Rightarrow> nat \<Rightarrow> WorkerResult" where
  "result_ok cid content mime status =
     \<lparr>wr_connection_id = cid, wr_content = content, wr_mime = mime, wr_status = status, wr_error = [], wr_success = True\<rparr>"

definition result_error :: "64 word \<Rightarrow> nat \<Rightarrow> string \<Rightarrow> WorkerResult" where
  "result_error cid status e =
     \<lparr>wr_connection_id = cid, wr_content = [], wr_mime = [], wr_status = status, wr_error = e, wr_success = False\<rparr>"

text \<open>
  The constructor of the file server: the document root made absolute, or the text of
  its exception.  \<^verbatim>\<open>absolute\<close> of the empty path fails and leaves it empty.
\<close>

definition open_root :: "FileSystem \<Rightarrow> string \<Rightarrow> string + FsPath" where
  "open_root fs document_root =
     (if document_root = [] then Inl (''Document root does not exist: '' @ document_root)
      else let p = path_append (fs_cwd fs) document_root in
        case fs_status fs p of
          Inl e \<Rightarrow> Inl e
        | Inr NotFound \<Rightarrow> Inl (''Document root does not exist: '' @ document_root)
        | Inr Directory \<Rightarrow> Inr p
        | Inr _ \<Rightarrow> Inl (''Document root is not a directory: '' @ document_root))"

definition execute_filesystem_task :: "FileSystem \<Rightarrow> WorkerTask \<Rightarrow> WorkerResult" where
  "execute_filesystem_task fs task =
     (let cid = wt_connection_id task;
          outcome = (case open_root fs (wt_document_root task) of Inl e \<Rightarrow> Inl e | Inr r \<Rightarrow> serve_file fs r (wt_target task))
      in case outcome of
           Inl e \<Rightarrow> result_error cid 500 (''Internal server error: '' @ e)
         | Inr s \<Rightarrow>
             if sv_status s = 200
             then result_ok cid (if wt_is_head task then [] else sv_content s) (sv_mime s) 200
             else result_error cid (sv_status s)
               (if sv_status s = 404 then ''File not found''
                else if sv_status s = 403 then ''Forbidden'' else ''Internal server error''))"

lemma task_result_id: "wr_connection_id (execute_filesystem_task fs t) = wt_connection_id t"
  by (auto simp: execute_filesystem_task_def result_ok_def result_error_def Let_def split: sum.splits)

subsection \<open>Containment\<close>

text \<open>
  What is documented of \<^verbatim>\<open>weakly_canonical\<close>: its result has no dot or dot-dot
  element and is its own canonical form.
\<close>

definition canonical_laws :: "FileSystem \<Rightarrow> bool" where
  "canonical_laws fs \<longleftrightarrow>
     (\<forall>p q. fs_canonical fs p = Inr q \<longrightarrow> fs_canonical fs q = Inr q \<and> ''.'' \<notin> set q \<and> ''..'' \<notin> set q)"

text \<open>\<open>p\<close> is \<open>root\<close> itself or lies below it; trailing separators do not count.\<close>

definition inside :: "FsPath \<Rightarrow> FsPath \<Rightarrow> bool" where
  "inside root p \<longleftrightarrow> prefix (filter (\<lambda>x. x \<noteq> []) root) (filter (\<lambda>x. x \<noteq> []) p)"

lemma drop_common_split: "drop_common p b = (a, c) \<Longrightarrow> \<exists>s. p = s @ a \<and> b = s @ c"
proof (induction p b rule: drop_common.induct)
  case (1 a as b bs)
  then show ?case by (auto split: if_splits)
qed auto

lemma up_levels_zero: "''..'' \<notin> set bs \<Longrightarrow> ''.'' \<notin> set bs \<Longrightarrow> up_levels bs = int (length (filter (\<lambda>x. x \<noteq> []) bs))"
  by (induction bs) (auto simp: up_levels_def)

lemma relative_inside:
  assumes "''..'' \<notin> set r" "''.'' \<notin> set r" "list_all (\<lambda>p. p \<noteq> ''..'') (lexically_relative c r)"
  shows "inside r c"
proof -
  obtain a b where d: "drop_common c r = (a, b)" by fastforce
  from drop_common_split [OF d] obtain s where s: "c = s @ a" "r = s @ b" by blast
  have n: "up_levels b = int (length (filter (\<lambda>x. x \<noteq> []) b))"
    using assms(1,2) s by (intro up_levels_zero) auto
  have "filter (\<lambda>x. x \<noteq> []) b = []"
  proof (rule ccontr)
    assume b: "filter (\<lambda>x. x \<noteq> []) b \<noteq> []"
    then have "0 < up_levels b" using n by simp
    then have "lexically_relative c r = replicate (nat (up_levels b)) ''..'' @ a" "nat (up_levels b) \<noteq> 0"
      using b by (auto simp: lexically_relative_def d Let_def)
    with assms(3) show False by (simp add: list_all_iff)
  qed
  with s show ?thesis by (simp add: inside_def)
qed

lemma validate_inside:
  assumes "canonical_laws fs" "validate_path fs root p"
  shows "\<exists>c r. fs_canonical fs p = Inr c \<and> fs_canonical fs root = Inr r \<and> inside r c"
proof -
  from assms(2) obtain c r where c: "fs_canonical fs p = Inr c" and r: "fs_canonical fs root = Inr r"
    by (auto simp: validate_path_def split: sum.splits)
  with assms(1) have "fs_canonical fs c = Inr c" "fs_canonical fs r = Inr r" "''..'' \<notin> set r" "''.'' \<notin> set r"
    unfolding canonical_laws_def by blast+
  with assms(2) c r relative_inside [of r c] show ?thesis
    by (auto simp: validate_path_def fs_relative_def split: if_splits)
qed

subsection \<open>Clean paths\<close>

definition clean_element :: "string \<Rightarrow> bool" where
  "clean_element p \<longleftrightarrow> p \<noteq> [] \<and> p \<noteq> ''.'' \<and> p \<noteq> ''..'' \<and>
     list_all (\<lambda>c. c \<noteq> CHR ''/'' \<and> c \<noteq> CHR 0x5C \<and> c \<noteq> CHR ''%'' \<and> c \<noteq> CHR ''+'') p"

lemma decode_clean: "list_all (\<lambda>c. c \<noteq> CHR ''%'' \<and> c \<noteq> CHR ''+'') s \<Longrightarrow> decode_loop s = s"
  by (induction s rule: decode_loop.induct) auto

lemma path_string_set: "set (path_string ps) \<subseteq> insert (CHR ''/'') (\<Union>p \<in> set ps. set p)"
  by (induction ps rule: path_string.induct) auto

lemma path_string_chars:
  assumes "list_all clean_element ps"
  shows "list_all (\<lambda>c. c \<noteq> CHR 0x5C \<and> c \<noteq> CHR ''%'' \<and> c \<noteq> CHR ''+'') (path_string ps)"
  unfolding list_all_iff
proof
  fix c assume "c \<in> set (path_string ps)"
  then consider "c = CHR ''/''" | p where "p \<in> set ps" "c \<in> set p" using path_string_set by blast
  then show "c \<noteq> CHR 0x5C \<and> c \<noteq> CHR ''%'' \<and> c \<noteq> CHR ''+''"
  proof cases
    case 2
    with assms show ?thesis unfolding list_all_iff clean_element_def by blast
  qed simp
qed

lemma split_slash_name: "CHR ''/'' \<notin> set p \<Longrightarrow> split_slash p = [p]"
  by (induction p) auto

lemma split_slash_cons: "CHR ''/'' \<notin> set p \<Longrightarrow> split_slash (p @ CHR ''/'' # s) = p # split_slash s"
  by (induction p) auto

lemma split_path_string:
  "ps \<noteq> [] \<Longrightarrow> list_all clean_element ps \<Longrightarrow> split_slash (path_string ps) = ps"
proof (induction ps rule: path_string.induct)
  case (2 p)
  then show ?case by (intro trans [OF arg_cong [OF path_string.simps(2)] split_slash_name])
      (auto simp: clean_element_def list_all_iff)
next
  case (3 p q ps)
  have "CHR ''/'' \<notin> set p" using 3 by (auto simp: clean_element_def list_all_iff)
  from split_slash_cons [OF this, of "path_string (q # ps)"] 3 show ?case by simp
qed simp

lemma path_elements_clean:
  assumes "ps \<noteq> []" "list_all clean_element ps"
  shows "path_elements (path_string ps) = ps"
proof -
  have "filter (\<lambda>p. p \<noteq> []) ps = ps" using assms(2) by (auto simp: filter_id_conv clean_element_def list_all_iff)
  moreover have "last ps \<noteq> []" using assms by (metis clean_element_def last_in_set list_all_iff)
  ultimately show ?thesis using split_path_string [OF assms] by (simp add: path_elements_def)
qed

lemma path_string_hd:
  assumes "ps \<noteq> []" "list_all clean_element ps"
  shows "path_string ps \<noteq> []" "hd (path_string ps) \<noteq> CHR ''/''"
proof -
  obtain p qs where ps: "ps = p # qs" using assms(1) by (cases ps) auto
  obtain c r where p: "p = c # r" "c \<noteq> CHR ''/''" using assms(2) ps by (cases p) (auto simp: clean_element_def)
  show "path_string ps \<noteq> []" "hd (path_string ps) \<noteq> CHR ''/''" using ps p by (cases qs; simp)+
qed

text \<open>A root such as \<^verbatim>\<open>./public\<close> made absolute keeps its dot elements.\<close>

definition dotted :: "FsPath \<Rightarrow> bool" where
  "dotted p \<longleftrightarrow> list_all (\<lambda>e. clean_element e \<or> e = ''.'') p"

definition undot :: "FsPath \<Rightarrow> FsPath" where
  "undot p = filter (\<lambda>e. e \<noteq> ''.'') p"

lemma normal_elements_dotted: "dotted p \<Longrightarrow> normal_elements st p = rev st @ undot p"
  by (induction p arbitrary: st) (auto simp: clean_element_def dotted_def undot_def)

lemma undot_clean: "list_all clean_element p \<Longrightarrow> dotted p \<and> undot p = p"
  by (induction p) (auto simp: clean_element_def dotted_def undot_def)

lemma lexically_normal_clean:
  assumes "dotted root" "list_all clean_element ps" "ps \<noteq> []"
  shows "lexically_normal (root @ ps) = undot root @ ps"
proof -
  have "last ps \<notin> {[], ''.'', ''..''}"
    using assms(2,3) by (metis clean_element_def last_in_set list_all_iff insertE singletonD)
  moreover have "dotted (root @ ps)" "undot (root @ ps) = undot root @ ps"
    using assms(1) undot_clean [OF assms(2)] by (auto simp: dotted_def undot_def)
  ultimately show ?thesis
    using assms(3) by (auto simp: lexically_normal_def normal_elements_dotted Let_def)
qed

lemma drop_common_prefix: "drop_common (s @ a) s = (a, [])"
  by (induction s) auto

lemma relative_clean: "ps \<noteq> [] \<Longrightarrow> list_all clean_element ps \<Longrightarrow> lexically_relative (root @ ps) root = ps"
  by (cases ps) (auto simp: lexically_relative_def drop_common_prefix up_levels_def clean_element_def)

lemma drop_slash_dotted: "dotted p \<Longrightarrow> drop_slash p = p"
  by (cases p rule: rev_cases) (auto simp: drop_slash_def dotted_def clean_element_def)

lemma slashes_clean: "list_all (\<lambda>c. c \<noteq> CHR 0x5C) s \<Longrightarrow> slashes s = s"
  by (induction s) (auto simp: slashes_def)

definition is_plain_file :: "FileSystem \<Rightarrow> FsPath \<Rightarrow> bool" where
  "is_plain_file fs p \<longleftrightarrow> fs_canonical fs p = Inr p \<and> fs_status fs p = Inr Regular"

lemma resolve_clean:
  assumes "ps \<noteq> []" "list_all clean_element ps" "dotted root"
    "fs_canonical fs root = Inr (undot root)" "fs_canonical fs (root @ ps) = Inr (undot root @ ps)"
    "fs_canonical fs (undot root) = Inr (undot root)" "fs_canonical fs (undot root @ ps) = Inr (undot root @ ps)"
  shows "normalize_path fs root (''/'' @ path_string ps) = Some (path_string ps)"
    "resolve_path root (path_string ps) = undot root @ ps" "validate_path fs root (undot root @ ps)"
proof -
  note s = path_string_hd [OF assms(1,2)]
  have chars: "list_all (\<lambda>c. c \<noteq> CHR ''%'' \<and> c \<noteq> CHR ''+'') (''/'' @ path_string ps)"
    "list_all (\<lambda>c. c \<noteq> CHR 0x5C) (path_string ps)"
    using path_string_chars [OF assms(2)] by (auto simp: list_all_iff)
  have "CHR ''%'' \<notin> set (''/'' @ path_string ps)" using chars(1) by (auto simp: list_all_iff)
  then have dec: "url_decode (''/'' @ path_string ps) = ''/'' @ path_string ps"
    unfolding url_decode_def decode_clean [OF chars(1)] by (simp only: Let_def if_False)
  have app: "path_append root (path_string ps) = root @ ps"
    using s by (simp add: path_append_def path_absolute_def path_elements_clean assms(1,2) drop_slash_dotted [OF assms(3)])
  have rel: "fs_relative fs (root @ ps) root = Inr ps" "fs_relative fs (undot root @ ps) (undot root) = Inr ps"
    by (simp_all add: fs_relative_def assms(4-7) relative_clean [OF assms(1,2)])
  show "normalize_path fs root (''/'' @ path_string ps) = Some (path_string ps)"
    unfolding normalize_path_def dec using s by (simp add: requested_name_def app rel slashes_clean chars(2))
  show "resolve_path root (path_string ps) = undot root @ ps"
    unfolding resolve_path_def app by (rule lexically_normal_clean [OF assms(3,2,1)])
  have "hd ps \<noteq> ''..''" "list_all (\<lambda>p. p \<noteq> ''..'') ps"
    using assms(1,2) by (cases ps; auto simp: clean_element_def list_all_iff)+
  then show "validate_path fs root (undot root @ ps)"
    using rel assms(4,7) by (simp add: validate_path_def)
qed

subsection \<open>Properties\<close>

lemma served_resolved:
  assumes "serve_resolved fs root p = Inr s" "sv_status s = 200"
  shows "validate_path fs root p \<and> fs_status fs p = Inr Regular \<and> sv_content s = fs_read fs p"
  using assms
  by (auto simp: serve_resolved_def served_error_def Let_def split: if_splits sum.splits FileKind.splits)

definition sample_root :: FsPath where
  "sample_root = [''srv'', ''www'']"

text \<open>A document root with one page and a link \<^verbatim>\<open>out\<close> that leaves it.\<close>

definition sample_fs :: FileSystem where
  "sample_fs =
     \<lparr>fs_canonical = (\<lambda>p. Inr (if normal_elements [] p = sample_root @ [''out''] then [''etc'', ''passwd'']
                              else normal_elements [] p)),
      fs_status = (\<lambda>p. Inr (if p = sample_root @ [''a.HTML''] \<or> p = [''etc'', ''passwd''] \<or>
                               p = sample_root @ [''out''] then Regular
                            else if p = sample_root \<or> p = [''srv'', ''.'', ''www''] then Directory else NotFound)),
      fs_read = (\<lambda>p. if p = sample_root @ [''a.HTML''] then ''<p>'' else ''root:x:0''),
      fs_cwd = [''srv'']\<rparr>"

lemma normal_no_dots: "x \<in> set (normal_elements st p) \<Longrightarrow> x \<in> set st \<or> x \<noteq> ''.'' \<and> x \<noteq> ''..'' \<and> x \<noteq> []"
proof (induction st p rule: normal_elements.induct)
  case (2 st y xs)
  have "x \<in> set (tl st) \<Longrightarrow> x \<in> set st" by (cases st) auto
  with 2 show ?case by (auto split: if_splits)
qed simp

lemma normal_idem:
  "(\<forall>x \<in> set p. x \<noteq> ''.'' \<and> x \<noteq> ''..'' \<and> x \<noteq> []) \<Longrightarrow> normal_elements st p = rev st @ p"
  by (induction p arbitrary: st) auto

lemma sample_fs_laws: "canonical_laws sample_fs"
  unfolding canonical_laws_def
proof (intro allI impI)
  fix p q assume "fs_canonical sample_fs p = Inr q"
  then consider "q = [''etc'', ''passwd'']" | "q = normal_elements [] p" "q \<noteq> sample_root @ [''out'']"
    by (auto simp: sample_fs_def split: if_splits)
  then show "fs_canonical sample_fs q = Inr q \<and> ''.'' \<notin> set q \<and> ''..'' \<notin> set q"
  proof cases
    case 2
    then have d: "\<forall>x \<in> set q. x \<noteq> ''.'' \<and> x \<noteq> ''..'' \<and> x \<noteq> []" using normal_no_dots [of _ "[]" p] by auto
    then have "normal_elements [] q = q" by (simp add: normal_idem)
    with 2 d show ?thesis by (auto simp: sample_fs_def)
  qed (simp add: sample_fs_def sample_root_def)
qed



text \<open>
  C36: Every file with an ordinary name is served.  For a path of clean elements
  (no percent, plus, backslash or separator inside, no dot or dot-dot element) that is
  a regular file below the root, itself free of links but possibly written with dots
  as in \<^verbatim>\<open>./public\<close>, the worker answers 200 with the whole
  content (none for HEAD) and the type of its extension; an empty file is the
  exception and comes out as 500.
\<close>

theorem plain_file_is_served:
  assumes "ps \<noteq> []" "list_all clean_element ps" "open_root fs document_root = Inr root" "dotted root"
    "fs_canonical fs root = Inr (undot root)" "fs_canonical fs (root @ ps) = Inr (undot root @ ps)"
    "fs_canonical fs (undot root) = Inr (undot root)" "is_plain_file fs (undot root @ ps)"
  shows "execute_filesystem_task fs \<lparr>wt_connection_id = cid, wt_target = ''/'' @ path_string ps,
      wt_document_root = document_root, wt_is_head = head\<rparr> =
    (if fs_read fs (undot root @ ps) = [] then result_error cid 500 ''Internal server error''
     else result_ok cid (if head then [] else fs_read fs (undot root @ ps)) (detect_mime_type ps) 200)"
proof -
  have c: "fs_canonical fs (undot root @ ps) = Inr (undot root @ ps)" "fs_status fs (undot root @ ps) = Inr Regular"
    using assms(8) by (simp_all add: is_plain_file_def)
  note r = resolve_clean [OF assms(1,2,4-7) c(1)]
  have m: "detect_mime_type (undot root @ ps) = detect_mime_type ps"
    using assms(1) by (simp add: detect_mime_type_def)
  have "serve_file fs root (''/'' @ path_string ps) =
      (if fs_read fs (undot root @ ps) = [] then Inr (served_error 500)
       else Inr \<lparr>sv_content = fs_read fs (undot root @ ps), sv_mime = detect_mime_type ps, sv_status = 200\<rparr>)"
    unfolding serve_file_def r(1) using r(2,3) c(2) by (simp add: serve_resolved_def m)
  then show ?thesis unfolding execute_filesystem_task_def by (simp add: served_error_def assms(3))
qed

lemma plain_file_is_served_witness:
  "execute_filesystem_task sample_fs
     \<lparr>wt_connection_id = 5, wt_target = ''/a.HTML'', wt_document_root = ''./www'', wt_is_head = False\<rparr> =
   result_ok 5 ''<p>'' ''text/html'' 200"
proof -
  let ?root = "[''srv'', ''.'', ''www'']"
  have "open_root sample_fs ''./www'' = Inr ?root" "list_all clean_element [''a.HTML'']" "dotted ?root"
    "fs_canonical sample_fs ?root = Inr (undot ?root)" "fs_canonical sample_fs (?root @ [''a.HTML'']) = Inr (undot ?root @ [''a.HTML''])"
    "fs_canonical sample_fs (undot ?root) = Inr (undot ?root)" "is_plain_file sample_fs (undot ?root @ [''a.HTML''])"
    "fs_read sample_fs (undot ?root @ [''a.HTML'']) = ''<p>''" "detect_mime_type [''a.HTML''] = ''text/html''"
    by code_simp+
  then show ?thesis using plain_file_is_served [of "[''a.HTML'']" sample_fs "''./www''" ?root 5 False] by simp
qed

text \<open>
  The escape decoder relies on \<^verbatim>\<open>stoi\<close>, which accepts a sign, a blank and a
  hexadecimal prefix: these are not escapes, yet they decode.
\<close>

lemma lenient_escapes:
  "url_decode ''%+9'' = [CHR 0x09]" "url_decode ''%-1'' = [CHR 0xFF]" "url_decode ''% 9'' = [CHR 0x09]"
  "url_decode ''%0x41'' = CHR 0x00 # ''41''" "url_decode ''%4g'' = [CHR 0x04]"
  by code_simp+

end
