(* ===== verification/Responses.thy ===== *)
theory Responses
  imports Request_Parser Proxy_Handler Static_Files Response_Roundtrip
begin

section \<open>What the server answers: response builders of \<^verbatim>\<open>main.cpp\<close>, \<^verbatim>\<open>router.cpp\<close>\<close>

text \<open>
  The router maps a method and an exact target to a handler; handlers run on the
  event-loop thread and may change the server's state, so a handler takes and returns a
  state \<open>'s\<close>.  The other builders turn a worker result or a proxy outcome into the
  response that is serialized for the client.
\<close>

subsection \<open>The router\<close>

type_synonym 's RouteHandler = "HttpRequest \<Rightarrow> 's \<Rightarrow> HttpResponse \<times> 's"
type_synonym 's Router = "(string \<times> 's RouteHandler) list"

definition make_route_key :: "string \<Rightarrow> string \<Rightarrow> string" where
  "make_route_key m path = map to_upper m @ '':'' @ path"

definition add_route :: "string \<Rightarrow> string \<Rightarrow> 's RouteHandler \<Rightarrow> 's Router \<Rightarrow> 's Router" where
  "add_route m path handler routes = AList.update (make_route_key m path) handler routes"

definition has_route :: "string \<Rightarrow> string \<Rightarrow> 's Router \<Rightarrow> bool" where
  "has_route m path routes = (map_of routes (make_route_key m path) \<noteq> None)"

definition text_response :: "StatusCode \<Rightarrow> string \<Rightarrow> HttpResponse" where
  "text_response s b =
     response_set_header ''Server'' ''Aevrix/1.0.0''
       (response_set_header ''Content-Type'' ''text/plain'' (response_with_body s b))"

definition route :: "HttpRequest \<Rightarrow> 's Router \<Rightarrow> 's \<Rightarrow> HttpResponse \<times> 's" where
  "route request routes s =
     (case map_of routes (make_route_key (http_method_to_string (req_method request)) (req_target request)) of
        Some handler \<Rightarrow> handler request s
      | None \<Rightarrow> (set_connection_policy Close (text_response StatusCode.NotFound ''Not Found''), s))"

subsection \<open>Keep-alive\<close>

definition wants_keep_alive :: "HttpRequest \<Rightarrow> bool" where
  "wants_keep_alive request =
     (let connection_header = headers_get (req_headers request) ''Connection'' in
      if req_version request = ''HTTP/1.1'' then
        (if connection_header \<noteq> [] then
           (if map to_lower connection_header = ''close'' then False else True)
         else True)
      else
        (if connection_header \<noteq> [] then
           (if map to_lower connection_header = ''keep-alive'' then True else False)
         else False))"

definition policy_of :: "bool \<Rightarrow> ConnectionPolicy" where
  "policy_of keep_alive = (if keep_alive then KeepAlive else Close)"

subsection \<open>Static files on the blocking path\<close>

definition file_response :: "bool \<Rightarrow> bool \<Rightarrow> Served \<Rightarrow> HttpResponse" where
  "file_response is_get keep_alive s =
     (if sv_status s = 200 then
        (if is_get then
           set_connection_policy (policy_of keep_alive)
             (response_set_header ''Server'' ''Aevrix/1.0.0''
               (response_set_header ''Content-Type'' (sv_mime s) (response_with_body OK (sv_content s))))
         else
           set_connection_policy (policy_of keep_alive)
             (response_set_header ''Server'' ''Aevrix/1.0.0''
               (response_set_header ''Content-Length'' (to_string (length (sv_content s)))
                 (response_set_header ''Content-Type'' (sv_mime s) (response_new OK)))))
      else if sv_status s = 404 then set_connection_policy Close (text_response StatusCode.NotFound ''Not Found'')
      else if sv_status s = 403 then set_connection_policy Close (text_response Forbidden ''Forbidden'')
      else set_connection_policy Close (text_response InternalServerError ''Internal Server Error''))"

definition method_not_allowed :: "HttpMethod \<Rightarrow> HttpResponse" where
  "method_not_allowed m =
     set_connection_policy Close
       (response_set_header ''Allow'' ''GET, HEAD''
         (text_response MethodNotAllowed (''Method not allowed: '' @ http_method_to_string m)))"

text \<open>\<open>routed\<close> is the router's answer, \<open>None\<close> when a handler throws.\<close>

definition build_response :: "HttpResponse option \<Rightarrow> (string \<Rightarrow> Served) \<Rightarrow> HttpRequest \<Rightarrow> HttpResponse" where
  "build_response routed file_server request =
     (case routed of
        Some response \<Rightarrow> response
      | None \<Rightarrow>
          (let keep_alive = wants_keep_alive request
           in if req_method request = GET \<or> req_method request = HEAD
              then file_response (req_method request = GET) keep_alive (file_server (req_target request))
              else method_not_allowed (req_method request)))"

definition generate_response :: "HttpResponse option \<Rightarrow> HttpResponse" where
  "generate_response routed =
     (case routed of
        Some response \<Rightarrow> response
      | None \<Rightarrow> set_connection_policy Close (text_response InternalServerError ''Internal Server Error''))"

subsection \<open>Worker results\<close>

definition worker_response :: "bool \<Rightarrow> WorkerResult \<Rightarrow> HttpResponse" where
  "worker_response keep_alive result =
     (if wr_status result = 200 then
        set_connection_policy (policy_of keep_alive)
          (response_set_header ''Server'' ''Aevrix/1.0.0''
            (response_set_header ''Content-Type'' (wr_mime result) (response_with_body OK (wr_content result))))
      else
        set_connection_policy Close (text_response (status_of_int (wr_status result)) (wr_error result)))"

definition overloaded_response :: HttpResponse where
  "overloaded_response =
     set_connection_policy Close (text_response ServiceUnavailable ''Service Unavailable: Worker pool overloaded'')"

subsection \<open>Proxy outcomes\<close>

definition relayed :: "HttpHeader \<Rightarrow> bool" where
  "relayed h \<longleftrightarrow> \<not> (is_hop_by_hop_header (header_norm h) \<or> header_norm h = ''content-length'')"

definition relay_headers :: "HttpHeaders \<Rightarrow> HttpResponse \<Rightarrow> HttpResponse" where
  "relay_headers hs r =
     foldl (\<lambda>r h. if relayed h then response_set_header (header_name h) (header_value h) r else r) r hs"

definition relay_head_length :: "HttpHeaders \<Rightarrow> HttpResponse \<Rightarrow> HttpResponse" where
  "relay_head_length hs r =
     (let r = r\<lparr>resp_head_only := True\<rparr>; upstream_length = headers_get hs ''Content-Length''
      in if upstream_length \<noteq> [] then response_set_header ''Content-Length'' upstream_length r
         else response_remove_header ''Content-Length'' r)"

definition proxy_failure :: "ProxyOutcome \<Rightarrow> StatusCode \<times> string" where
  "proxy_failure outcome =
     (case po_status outcome of
        GatewayTimeout \<Rightarrow>
          (StatusCode.GatewayTimeout, ''Gateway Timeout: the upstream server did not respond in time'')
      | Unavailable \<Rightarrow> (ServiceUnavailable, ''Service Unavailable: no upstream capacity available'')
      | UpstreamTooLarge \<Rightarrow>
          (StatusCode.BadGateway, ''Bad Gateway: the upstream response exceeded the configured limit'')
      | NotConfigured \<Rightarrow>
          (StatusCode.BadGateway, ''Bad Gateway: the reverse proxy is not configured correctly'')
      | _ \<Rightarrow>
          (StatusCode.BadGateway,
           if po_error outcome \<noteq> [] then ''Bad Gateway: '' @ po_error outcome
           else ''Bad Gateway: the upstream server could not be reached''))"

definition build_proxy_response :: "ProxyOutcome \<Rightarrow> bool \<Rightarrow> HttpResponse" where
  "build_proxy_response outcome client_keep_alive =
     (if po_status outcome = Success then
        (let result = response_with_body (status_of_int (po_upstream_status outcome mod 65536)) (po_body outcome);
             result = relay_headers (po_headers outcome) result;
             result = (if po_head outcome then relay_head_length (po_headers outcome) result else result)
         in set_connection_policy (policy_of client_keep_alive)
              (response_set_header ''Via'' ''1.1 aevrix''
                (response_set_header ''Server'' ''Aevrix/1.0.0'' result)))
      else
        (let (status, message) = proxy_failure outcome;
             r = response_set_header ''Via'' ''1.1 aevrix'' (text_response status (message @ [LF]));
             r = (if po_head outcome then r\<lparr>resp_head_only := True\<rparr> else r)
         in set_connection_policy Close r))"

subsection \<open>Header fields of the built responses\<close>

abbreviation resp_map :: "HttpResponse \<Rightarrow> string \<Rightarrow> string option" where
  "resp_map r \<equiv> header_map (resp_headers r)"

lemma resp_map_set: "resp_map (response_set_header n v r) = (resp_map r)(normalize_name n \<mapsto> trim_whitespace v)"
  by (simp add: response_set_header_def header_map_set)

lemma resp_set_sel [simp]:
  "resp_body (response_set_header n v r) = resp_body r" "resp_head_only (response_set_header n v r) = resp_head_only r"
  "resp_status (response_set_header n v r) = resp_status r" "resp_version (response_set_header n v r) = resp_version r"
  by (simp_all add: response_set_header_def)

lemma resp_policy_sel [simp]:
  "resp_body (set_connection_policy p r) = resp_body r" "resp_head_only (set_connection_policy p r) = resp_head_only r"
  "resp_status (set_connection_policy p r) = resp_status r"
  by (simp_all add: set_connection_policy_def)

lemma resp_with_body_sel [simp]:
  "resp_body (response_with_body s b) = b" "resp_head_only (response_with_body s b) = False"
  "resp_status (response_with_body s b) = s"
  by (simp_all add: response_with_body_def response_set_body_def update_content_length_def response_new_def
      response_has_body_def response_remove_header_def)

lemma relayed_norm: "header_norm g = header_norm h \<Longrightarrow> relayed g = relayed h"
  by (simp add: relayed_def)

lemma filter_map_relayed:
  "header_map (filter relayed hs) n =
     (if is_hop_by_hop_header n \<or> n = ''content-length'' then None else header_map hs n)"
  by (induction hs) (auto simp: header_map_Cons relayed_def simp del: header_map_def)

lemma relay_map:
  "headers_wf hs \<Longrightarrow> resp_map (relay_headers hs r) n =
     (case header_map (filter relayed hs) n of Some v \<Rightarrow> Some v | None \<Rightarrow> resp_map r n)"
proof (induction hs arbitrary: r)
  case (Cons h hs)
  let ?r = "if relayed h then response_set_header (header_name h) (header_value h) r else r"
  have wf: "headers_wf hs" and h: "header_norm h = normalize_name (header_name h)"
    "trim_whitespace (header_value h) = header_value h" "\<forall>g \<in> set hs. header_norm g \<noteq> header_norm h"
    using Cons.prems by (auto simp: headers_wf_def image_iff)
  have none: "header_map (filter relayed hs) (header_norm h) = None"
    using h(3) by (simp add: header_map_None)
  have "resp_map (relay_headers (h # hs) r) n = resp_map (relay_headers hs ?r) n"
    by (simp add: relay_headers_def)
  also have "\<dots> = (case header_map (filter relayed hs) n of Some v \<Rightarrow> Some v | None \<Rightarrow> resp_map ?r n)"
    by (rule Cons.IH [OF wf])
  finally show ?case using none h(1,2) by (auto simp: resp_map_set header_map_Cons split: option.split)
qed (simp add: relay_headers_def)

lemma relay_sel [simp]:
  "resp_body (relay_headers hs r) = resp_body r" "resp_head_only (relay_headers hs r) = resp_head_only r"
  "resp_status (relay_headers hs r) = resp_status r"
  by (induction hs arbitrary: r) (auto simp: relay_headers_def)

lemma trim_digits: "trim_whitespace (to_string n) = to_string n"
proof -
  have "\<forall>c \<in> set (to_string n). \<not> is_lws c" using to_string_digits by auto
  then show ?thesis unfolding trim_whitespace_eq by (rule trim_by_none)
qed

lemma with_body_map:
  "resp_map (response_with_body s b) = (if b = [] then Map.empty else [''content-length'' \<mapsto> to_string (length b)])"
proof -
  have "normalize_name ''Content-Length'' = ''content-length''" by code_simp
  then show ?thesis
    by (auto simp: response_with_body_def response_set_body_def update_content_length_def response_new_def
        response_has_body_def response_remove_header_def resp_map_set trim_digits headers_remove_def
        find_by_normalized_name_def)
qed

subsection \<open>Well-formed responses\<close>

definition resp_ok :: "HttpResponse \<Rightarrow> bool" where
  "resp_ok r \<longleftrightarrow> list_all header_is_valid (resp_headers r) \<and> headers_wf (resp_headers r)"

lemma resp_ok_set: "resp_ok r \<Longrightarrow> header_is_valid (make_header n v) \<Longrightarrow> resp_ok (response_set_header n v r)"
  by (simp add: resp_ok_def response_set_header_def headers_set_valid headers_wf_set)

lemma resp_ok_remove: "resp_ok r \<Longrightarrow> resp_ok (response_remove_header n r)"
  by (simp add: resp_ok_def response_remove_header_def headers_remove_valid headers_wf_remove)

lemma resp_ok_upd [simp]:
  "resp_ok (r\<lparr>resp_head_only := b\<rparr>) = resp_ok r" "resp_ok (r\<lparr>resp_policy := p\<rparr>) = resp_ok r"
  by (simp_all add: resp_ok_def)

lemma digit_value_char: "is_digit c \<Longrightarrow> is_valid_value_char c"
  by (auto simp: is_valid_value_char_def signed_code_def is_digit_def)

lemma valid_length: "header_is_valid (make_header ''Content-Length'' (to_string n))"
proof -
  have "is_valid_name (make_header ''Content-Length'' (to_string n))" by (simp add: is_valid_name_def) code_simp
  moreover have "is_valid_value (make_header ''Content-Length'' (to_string n))"
    using to_string_digits digit_value_char by (auto simp: is_valid_value_def trim_digits list_all_iff)
  ultimately show ?thesis by (simp add: header_is_valid_def)
qed

lemma resp_ok_with_body: "resp_ok (response_with_body s b)"
proof -
  have n: "resp_ok ((response_new s)\<lparr>resp_body := b\<rparr>)" by (simp add: resp_ok_def response_new_def)
  show ?thesis
    unfolding response_with_body_def response_set_body_def update_content_length_def
    using resp_ok_set [OF n valid_length] resp_ok_remove [OF n] by simp
qed

lemma valid_fixed:
  "header_is_valid (make_header ''Server'' ''Aevrix/1.0.0'')" "header_is_valid (make_header ''Via'' ''1.1 aevrix'')"
  "header_is_valid (make_header ''Content-Type'' ''text/plain'')" "header_is_valid (make_header ''Connection'' ''keep-alive'')"
  "header_is_valid (make_header ''Connection'' ''close'')" "header_is_valid (make_header ''Allow'' ''GET, HEAD'')"
  by code_simp+

lemma resp_ok_policy: "resp_ok r \<Longrightarrow> resp_ok (set_connection_policy p r)"
  unfolding set_connection_policy_def
  by (rule resp_ok_set) (simp_all add: resp_ok_upd valid_fixed)

lemma resp_ok_text: "resp_ok (text_response s b)"
  unfolding text_response_def by (intro resp_ok_set resp_ok_with_body valid_fixed)

lemma resp_ok_relay:
  "list_all header_is_valid hs \<Longrightarrow> headers_wf hs \<Longrightarrow> resp_ok r \<Longrightarrow> resp_ok (relay_headers hs r)"
proof (induction hs arbitrary: r)
  case (Cons h hs)
  have "make_header (header_name h) (header_value h) = h" and wf: "headers_wf hs"
    using Cons.prems(2) by (auto simp: headers_wf_def make_header_def)
  with Cons.prems have "resp_ok (if relayed h then response_set_header (header_name h) (header_value h) r else r)"
    by (auto intro: resp_ok_set)
  from Cons.IH [OF _ wf this] Cons.prems(1) show ?case by (simp add: relay_headers_def)
qed (simp add: relay_headers_def)

lemma fixed_names:
  "normalize_name ''Server'' = ''server''" "normalize_name ''Via'' = ''via''" "normalize_name ''Connection'' = ''connection''"
  "normalize_name ''Content-Type'' = ''content-type''" "normalize_name ''Content-Length'' = ''content-length''"
  "trim_whitespace ''Aevrix/1.0.0'' = ''Aevrix/1.0.0''" "trim_whitespace ''1.1 aevrix'' = ''1.1 aevrix''"
  "trim_whitespace ''text/plain'' = ''text/plain''" "trim_whitespace ''keep-alive'' = ''keep-alive''"
  "trim_whitespace ''close'' = ''close''"
  by code_simp+

text \<open>The serializer emits a response of valid fields whose length field, if any, is true.\<close>

definition length_true :: "HttpResponse \<Rightarrow> bool" where
  "length_true r \<longleftrightarrow> (case resp_map r ''content-length'' of None \<Rightarrow> True
     | Some v \<Rightarrow> v = [] \<or> (case stoul v of None \<Rightarrow> False | Some n \<Rightarrow> n = length (resp_body r) \<or> resp_head_only r))"

lemma serialize_ok: "resp_ok r \<Longrightarrow> length_true r \<Longrightarrow> serialize r \<noteq> []"
  by (auto simp: serialize_def response_is_valid_def resp_ok_def length_true_def headers_get_map fixed_names Let_def
      build_status_line_def split: option.splits)

lemma resp_map_policy:
  "resp_map (set_connection_policy p r) = (resp_map r)(''connection'' \<mapsto> (if p = KeepAlive then ''keep-alive'' else ''close''))"
  by (simp add: set_connection_policy_def resp_map_set fixed_names)

subsection \<open>The relayed response\<close>

definition relay_field :: "ProxyOutcome \<Rightarrow> bool \<Rightarrow> string \<Rightarrow> string option" where
  "relay_field outcome keep_alive n =
     (if n = ''connection'' then Some (if keep_alive then ''keep-alive'' else ''close'')
      else if n = ''via'' then Some ''1.1 aevrix''
      else if n = ''server'' then Some ''Aevrix/1.0.0''
      else if n = ''content-length'' then
        (if po_head outcome then
           (case header_map (po_headers outcome) n of Some v \<Rightarrow> if v = [] then None else Some v | None \<Rightarrow> None)
         else if po_body outcome = [] then None else Some (to_string (length (po_body outcome))))
      else if is_hop_by_hop_header n then None
      else header_map (po_headers outcome) n)"

lemma relayed_map:
  assumes "headers_wf hs"
  shows "resp_map (relay_headers hs (response_with_body s b)) n =
    (if n = ''content-length'' then (if b = [] then None else Some (to_string (length b)))
     else if is_hop_by_hop_header n then None else header_map hs n)"
proof -
  have "\<not> is_hop_by_hop_header ''content-length''" by code_simp
  with relay_map [OF assms, of "response_with_body s b" n] show ?thesis
    by (auto simp: filter_map_relayed with_body_map split: option.splits)
qed

lemma wf_value_trim:
  assumes "headers_wf hs" "header_map hs n = Some v" shows "trim_whitespace v = v"
proof -
  obtain h where "h \<in> set hs" "header_value h = v"
    using assms(2) by (auto simp: header_map_def dest!: map_of_SomeD)
  with assms(1) show ?thesis by (auto simp: headers_wf_def list_all_iff)
qed

lemma head_length_map:
  assumes "headers_wf hs" "resp_ok r"
  shows "resp_map (relay_head_length hs r) n =
    (if n = ''content-length''
     then (case header_map hs n of Some v \<Rightarrow> if v = [] then None else Some v | None \<Rightarrow> None)
     else resp_map r n)"
proof -
  have wf: "headers_wf (resp_headers r)" using assms(2) by (simp add: resp_ok_def)
  show ?thesis
    using header_map_remove [OF wf, of "''Content-Length''"] wf_value_trim [OF assms(1), of "''content-length''"]
    by (auto simp: relay_head_length_def resp_map_set headers_get_map fixed_names response_remove_header_def Let_def
        split: option.splits)
qed

lemma relay_head_sel [simp]:
  "resp_body (relay_head_length hs r) = resp_body r" "resp_head_only (relay_head_length hs r)"
  by (auto simp: relay_head_length_def response_remove_header_def Let_def)

lemma relay_head_ok:
  assumes "headers_wf hs" "list_all header_is_valid hs" "resp_ok r"
  shows "resp_ok (relay_head_length hs r)"
proof -
  have "header_is_valid (make_header ''Content-Length'' (headers_get hs ''Content-Length''))"
    if "headers_get hs ''Content-Length'' \<noteq> []"
  proof -
    from that obtain v where v: "header_map hs ''content-length'' = Some v" "headers_get hs ''Content-Length'' = v"
      by (auto simp: headers_get_map fixed_names split: option.splits)
    then obtain h where "h \<in> set hs" "header_value h = v" by (auto simp: header_map_def dest!: map_of_SomeD)
    with assms(2) have "is_valid_value (make_header ''Content-Length'' v)"
      using wf_value_trim [OF assms(1) v(1)] by (auto simp: list_all_iff header_is_valid_def is_valid_value_def)
    moreover have "is_valid_name (make_header ''Content-Length'' v)" by (simp add: is_valid_name_def) code_simp
    ultimately show ?thesis by (simp add: header_is_valid_def v(2))
  qed
  with assms(3) show ?thesis
    by (auto simp: relay_head_length_def Let_def intro: resp_ok_set resp_ok_remove)
qed

text \<open>What a completed upstream exchange can hold: the parser's invariant on its header fields.\<close>

definition outcome_ok :: "ProxyOutcome \<Rightarrow> bool" where
  "outcome_ok outcome \<longleftrightarrow> headers_wf (po_headers outcome) \<and> list_all header_is_valid (po_headers outcome) \<and>
     length (po_body outcome) < 2 ^ 64 \<and> length (po_error outcome) < 2 ^ 63 \<and>
     (po_head outcome \<longrightarrow> (\<forall>v. header_map (po_headers outcome) ''content-length'' = Some v \<longrightarrow> v = [] \<or> stoul v \<noteq> None))"

lemma success_response:
  assumes "po_status outcome = Success" "outcome_ok outcome"
  shows "resp_ok (build_proxy_response outcome ka)"
    "resp_map (build_proxy_response outcome ka) = relay_field outcome ka"
    "resp_body (build_proxy_response outcome ka) = po_body outcome"
    "resp_head_only (build_proxy_response outcome ka) = po_head outcome"
proof -
  let ?hs = "po_headers outcome" and ?s = "status_of_int (po_upstream_status outcome mod 65536)"
  let ?r = "relay_headers ?hs (response_with_body ?s (po_body outcome))"
  let ?q = "if po_head outcome then relay_head_length ?hs ?r else ?r"
  have hs: "headers_wf ?hs" "list_all header_is_valid ?hs" using assms(2) by (simp_all add: outcome_ok_def)
  have r: "resp_ok ?r" by (rule resp_ok_relay [OF hs(2,1) resp_ok_with_body])
  then have q: "resp_ok ?q" by (simp add: relay_head_ok [OF hs])
  have b: "build_proxy_response outcome ka = set_connection_policy (policy_of ka)
      (response_set_header ''Via'' ''1.1 aevrix'' (response_set_header ''Server'' ''Aevrix/1.0.0'' ?q))"
    using assms(1) by (simp add: build_proxy_response_def Let_def)
  show "resp_ok (build_proxy_response outcome ka)"
    unfolding b by (intro resp_ok_policy resp_ok_set q valid_fixed)
  show "resp_map (build_proxy_response outcome ka) = relay_field outcome ka"
    unfolding b
    by (rule ext) (simp add: resp_map_policy resp_map_set fixed_names relay_field_def policy_of_def
        head_length_map [OF hs(1) r] relayed_map [OF hs(1)])
  show "resp_body (build_proxy_response outcome ka) = po_body outcome"
    "resp_head_only (build_proxy_response outcome ka) = po_head outcome"
    unfolding b by auto
qed

lemma relay_length_true:
  assumes "outcome_ok outcome" "resp_map r = relay_field outcome ka" "resp_body r = po_body outcome"
    "resp_head_only r = po_head outcome"
  shows "length_true r"
  using assms stoul_to_string [of "length (po_body outcome)"]
  by (auto simp: length_true_def relay_field_def outcome_ok_def split: option.splits)

lemma failure_response:
  assumes "po_status outcome \<noteq> Success" "length (po_error outcome) < 2 ^ 63"
  shows "resp_ok (build_proxy_response outcome ka)" "length_true (build_proxy_response outcome ka)"
    "resp_policy (build_proxy_response outcome ka) = Close"
    "resp_map (build_proxy_response outcome ka) ''connection'' = Some ''close''"
    "resp_status (build_proxy_response outcome ka) = fst (proxy_failure outcome)"
proof -
  obtain st m where f: "proxy_failure outcome = (st, m)" by (cases "proxy_failure outcome")
  let ?t = "response_set_header ''Via'' ''1.1 aevrix'' (text_response st (m @ [LF]))"
  let ?r = "if po_head outcome then ?t\<lparr>resp_head_only := True\<rparr> else ?t"
  have b: "build_proxy_response outcome ka = set_connection_policy Close ?r"
    using assms(1) by (simp add: build_proxy_response_def f Let_def)
  have t: "resp_ok ?t" by (intro resp_ok_set resp_ok_text valid_fixed)
  then have r: "resp_ok ?r" by simp
  show "resp_ok (build_proxy_response outcome ka)" unfolding b by (rule resp_ok_policy [OF r])
  have "length m \<le> 100 + length (po_error outcome)"
    using f assms(1) by (auto simp: proxy_failure_def split: ProxyOutcomeStatus.splits if_splits)
  then have m: "length (m @ [LF]) < 2 ^ 64" using assms(2) by simp
  have body: "resp_body ?r = m @ [LF]" by (simp add: text_response_def)
  have map: "resp_map ?r ''content-length'' = Some (to_string (length (m @ [LF])))"
    by (simp add: text_response_def resp_map_set with_body_map fixed_names)
  show "length_true (build_proxy_response outcome ka)"
    unfolding b length_true_def resp_map_policy using map stoul_to_string [OF m] body by simp
  show "resp_policy (build_proxy_response outcome ka) = Close"
    unfolding b by (simp add: set_connection_policy_def response_set_header_def)
  show "resp_map (build_proxy_response outcome ka) ''connection'' = Some ''close''"
    unfolding b resp_map_policy by simp
  show "resp_status (build_proxy_response outcome ka) = fst (proxy_failure outcome)"
    unfolding b f by (simp add: text_response_def)
qed

lemma parsed_outcome_ok:
  assumes "resp_reachable c p" "length (pr_body p) < 2 ^ 64" "\<not> request_was_head c"
  shows "outcome_ok ((outcome_from_parser p)\<lparr>po_head := False\<rparr>)"
  using resp_reachable_ok [OF assms(1)] assms(2)
  by (simp add: outcome_ok_def outcome_from_parser_def outcome_new_def pr_ok_def pr_common_def)

subsection \<open>Properties\<close>


definition sample_outcome :: ProxyOutcome where
  "sample_outcome = outcome_new\<lparr>po_status := Success, po_upstream_status := 404,
     po_headers := [make_header ''X-Trace'' ''7'', make_header ''Keep-Alive'' ''timeout=5'', make_header ''Server'' ''up''],
     po_body := ''no''\<rparr>"


text \<open>
  An upstream answer with an empty body loses its \<^verbatim>\<open>Content-Length: 0\<close>: the client gets a
  persistent connection and no framing, so it waits for the end of the connection.
\<close>

lemma empty_answer_has_no_length:
  assumes "po_status outcome = Success" "outcome_ok outcome" "po_body outcome = []" "\<not> po_head outcome"
  shows "resp_map (build_proxy_response outcome True) ''content-length'' = None"
    "resp_map (build_proxy_response outcome True) ''connection'' = Some ''keep-alive''"
  using assms(3,4) by (simp_all add: success_response(2) [OF assms(1,2)] relay_field_def)

text \<open>A repeated upstream field such as \<^verbatim>\<open>Set-Cookie\<close> keeps its last value only.\<close>

lemma repeated_field_is_lost:
  "map header_value (pr_headers (snd (pr_feed
     (''HTTP/1.1 200 OK'' @ CRLF @ ''Set-Cookie: a=1'' @ CRLF @ ''Set-Cookie: b=2'' @ CRLF @ CRLF)
     (pr_new default_resp_config)))) = [''b=2'']"
  by code_simp

end
