(* ===== verification/Admin.thy ===== *)
theory Admin
  imports Responses Config_Store
begin

unbundle bit_operations_syntax

section \<open>The administration routes and the command line: \<^verbatim>\<open>main.cpp\<close>\<close>

text \<open>
  The handlers run on the event-loop thread and change the configuration store, the
  proxy's pool limits and the log level; these three are the state \<open>AdminState\<close>.  What
  lies outside (the build's TLS support, which files can be read and what they
  contain) is the record \<open>Files\<close>.
\<close>

subsection \<open>Command line\<close>

datatype Arguments = ArgsOk string string | ArgsRejected

fun parse_arguments_loop :: "string list \<Rightarrow> string \<Rightarrow> string \<Rightarrow> Arguments" where
  "parse_arguments_loop [] config_file document_root = ArgsOk config_file document_root"
| "parse_arguments_loop (arg # args) config_file document_root =
     (if arg = ''--config'' \<or> arg = ''-c'' then
        (case args of v # args \<Rightarrow> parse_arguments_loop args v document_root | [] \<Rightarrow> ArgsRejected)
      else if arg = ''--root'' \<or> arg = ''-r'' then
        (case args of v # args \<Rightarrow> parse_arguments_loop args config_file v | [] \<Rightarrow> ArgsRejected)
      else ArgsRejected)"

definition parse_arguments :: "string list \<Rightarrow> Arguments" where
  "parse_arguments args = parse_arguments_loop args [] ''./public''"

text \<open>The document root of the command line overrides the file, unless it is the default.\<close>

definition override_root :: "string \<Rightarrow> ServerConfig \<Rightarrow> ServerConfig" where
  "override_root document_root c =
     (if document_root \<noteq> [] \<and> document_root \<noteq> ''./public'' then c\<lparr>cfg_document_root := document_root\<rparr> else c)"

subsection \<open>The request of a reload\<close>

fun join_keys :: "string list \<Rightarrow> string" where
  "join_keys [] = []"
| "join_keys [k] = k"
| "join_keys (k # l # ks) = k @ '','' @ join_keys (l # ks)"

fun percent_decode :: "string \<Rightarrow> string" where
  "percent_decode (c # hi # lo # s) =
     (if c = CHR ''%'' then
        (case (hex_value hi, hex_value lo) of
           (Some h, Some l) \<Rightarrow> char_of (16 * h + l) # percent_decode s
         | _ \<Rightarrow> c # percent_decode (hi # lo # s))
      else c # percent_decode (hi # lo # s))"
| "percent_decode s = s"

function path_parameter :: "string \<Rightarrow> string option" where
  "path_parameter query =
     (let pair = takeWhile (\<lambda>c. c \<noteq> CHR ''&'') query;
          rest = dropWhile (\<lambda>c. c \<noteq> CHR ''&'') query;
          next = (case rest of [] \<Rightarrow> None | _ # q \<Rightarrow> path_parameter q)
      in case find_char (CHR ''='') pair of
           None \<Rightarrow> next
         | Some eq \<Rightarrow> if take eq pair = ''path'' then Some (percent_decode (drop (eq + 1) pair)) else next)"
  by pat_completeness auto
termination
  by (relation "measure length") (auto, metis Suc_le_eq length_Cons length_dropWhile_le)

definition body_path :: "string \<Rightarrow> string" where
  "body_path body =
     (let trimmed = trim_by is_lws body
      in if has_prefix ''path='' trimmed then drop 5 trimmed else trimmed)"

definition requested_config_path :: "HttpRequest \<Rightarrow> string" where
  "requested_config_path request =
     (case find_char (CHR ''?'') (req_target request) of
        None \<Rightarrow> body_path (req_body request)
      | Some q \<Rightarrow>
          (case path_parameter (drop (q + 1) (req_target request)) of
             Some path \<Rightarrow> path
           | None \<Rightarrow> body_path (req_body request)))"

definition presented_token :: "HttpRequest \<Rightarrow> string" where
  "presented_token request =
     (let auth = request_get_header request ''Authorization'' in
      if has_prefix ''Bearer '' auth then drop 7 auth
      else let token = request_get_header request ''X-Aevrix-Token''
           in if token = [] then auth else token)"

definition compare_bytes :: "string \<Rightarrow> string \<Rightarrow> 8 word" where
  "compare_bytes presented expected =
     foldl (\<lambda>d (p, e). d OR (word_of_nat (code p) XOR word_of_nat (code e))) 0 (zip presented expected)"

definition admin_token_ok :: "HttpRequest \<Rightarrow> ServerConfig \<Rightarrow> bool" where
  "admin_token_ok request c =
     (let expected = cfg_admin_token c; presented = presented_token request in
      if expected = [] then True
      else if length presented \<noteq> length expected then False
      else compare_bytes presented expected = 0)"

definition reload_directory :: "string \<Rightarrow> string option" where
  "reload_directory source =
     (if source = [] \<or> hd source \<noteq> CHR ''/'' then None
      else case find_last_idx (\<lambda>c. c = CHR ''/'') source of
             None \<Rightarrow> None
           | Some slash \<Rightarrow> Some (take (slash + 1) source))"

definition reload_path_allowed :: "string \<Rightarrow> string \<Rightarrow> bool" where
  "reload_path_allowed candidate source =
     (if candidate = [] then True
      else if hd candidate \<noteq> CHR ''/'' \<or> find_sub ''..'' candidate \<noteq> None then False
      else case reload_directory source of
             None \<Rightarrow> False
           | Some directory \<Rightarrow> has_prefix directory candidate \<and> length candidate > length directory)"

subsection \<open>Reloading\<close>

record Files =
  fl_tls :: bool
  fl_readable :: "string \<Rightarrow> bool"
  fl_read :: "string \<Rightarrow> string option"

record AdminState =
  ad_store :: ConfigStore
  ad_proxy :: ProxyHandler
  ad_log_level :: LogLevel

definition perform_reload :: "Files \<Rightarrow> Answers \<Rightarrow> string \<Rightarrow> AdminState \<Rightarrow> ConfigReloadOutcome \<times> AdminState" where
  "perform_reload fl an path s =
     (let (outcome, store) = try_reload (fl_tls fl) (fl_readable fl) (fl_read fl) path (ad_store s);
          s = s\<lparr>ad_store := store\<rparr>
      in case out_snapshot outcome of
           None \<Rightarrow> (outcome, s)
         | Some c \<Rightarrow>
             if \<not> out_success outcome then (outcome, s)
             else (outcome,
               s\<lparr>ad_log_level := snd (set_level_from_string (cfg_log_level c) (ad_log_level s)),
                 ad_proxy := refresh_runtime_limits (an\<lparr>an_store := Some (st_active store)\<rparr>) (ad_proxy s)\<rparr>))"

subsection \<open>Routes\<close>

definition plain :: "StatusCode \<Rightarrow> string \<Rightarrow> HttpResponse" where
  "plain status b = response_set_header ''Content-Type'' ''text/plain'' (response_with_body status b)"

definition unauthorized :: HttpResponse where
  "unauthorized =
     response_set_header ''WWW-Authenticate'' (''Bearer realm='' @ [DQUOTE] @ ''aevrix-admin'' @ [DQUOTE])
       (plain Unauthorized (''Unauthorized'' @ [LF]))"

definition signed_keep_alive :: "HttpResponse \<Rightarrow> HttpResponse" where
  "signed_keep_alive r = set_connection_policy KeepAlive (response_set_header ''Server'' ''Aevrix/1.0.0'' r)"

definition fixed_page :: "string \<Rightarrow> 's RouteHandler" where
  "fixed_page b request s = (signed_keep_alive (plain OK b), s)"

definition setting_line :: "string \<Rightarrow> string \<Rightarrow> string" where
  "setting_line key value = key @ ''='' @ value @ [LF]"

definition admin_config :: "Files \<Rightarrow> AdminState RouteHandler" where
  "admin_config fl request s =
     (let store = ad_store s; live = st_active store in
      (signed_keep_alive
         (if \<not> cfg_admin_enabled live then plain StatusCode.NotFound (''Not Found'' @ [LF])
          else if \<not> admin_token_ok request live then unauthorized
          else response_set_header ''X-Aevrix-Config-Generation'' (to_string (st_generation store))
            (plain OK
              (setting_line ''generation'' (to_string (st_generation store)) @
               setting_line ''config_path'' (st_source_path store) @
               setting_line ''reload_successes'' (to_string (st_success_count store)) @
               setting_line ''reload_failures'' (to_string (st_failure_count store)) @
               (if st_last_error store \<noteq> [] then setting_line ''last_error'' (st_last_error store) else []) @
               summary (fl_tls fl) live))), s))"

definition reload_report :: "ConfigReloadOutcome \<Rightarrow> ConfigStore \<Rightarrow> HttpResponse" where
  "reload_report outcome store =
     response_set_header ''X-Aevrix-Config-Generation'' (to_string (out_generation outcome))
       (plain (if out_success outcome then OK else BadRequest)
         ((if out_success outcome then ''reload: applied'' else ''reload: rejected'') @ [LF] @
          setting_line ''generation'' (to_string (out_generation outcome)) @
          (if out_success outcome
           then setting_line ''config_path'' (st_source_path store) @
                setting_line ''changed'' (join_keys (out_changes outcome)) @
                setting_line ''applied_now'' (join_keys (out_applied_hot outcome)) @
                setting_line ''restart_required'' (join_keys (out_restart_required outcome))
           else setting_line ''error'' (out_message outcome))))"

definition bad_path_message :: string where
  "bad_path_message =
     ''error=config path must be an absolute file inside the configured configuration directory'' @ [LF]"

text \<open>On Linux \<^verbatim>\<open>perform_reload\<close> is always defined when a request arrives.\<close>

definition admin_reload :: "Files \<Rightarrow> Answers \<Rightarrow> AdminState RouteHandler" where
  "admin_reload fl an request s =
     (let live = st_active (ad_store s) in
      if \<not> cfg_admin_enabled live then (signed_keep_alive (plain StatusCode.NotFound (''Not Found'' @ [LF])), s)
      else if \<not> admin_token_ok request live then (signed_keep_alive unauthorized, s)
      else let override_path = requested_config_path request in
        if \<not> reload_path_allowed override_path (st_source_path (ad_store s))
        then (signed_keep_alive (plain BadRequest bad_path_message), s)
        else let (outcome, s) = perform_reload fl an override_path s
             in (signed_keep_alive (reload_report outcome (ad_store s)), s))"

definition server_routes :: "Files \<Rightarrow> Answers \<Rightarrow> AdminState Router" where
  "server_routes fl an =
     add_route ''POST'' ''/admin/reload-config'' (admin_reload fl an)
       (add_route ''GET'' ''/admin/config'' (admin_config fl)
         (add_route ''GET'' ''/metrics'' (fixed_page (''Metrics endpoint - not yet implemented'' @ [LF]))
           (add_route ''GET'' ''/health'' (fixed_page (''OK'' @ [LF]))
             (add_route ''GET'' ''/'' (fixed_page (''Aevrix HTTP Server v1.0.0'' @ [LF])) []))))"

subsection \<open>The token comparison\<close>

lemma compare_acc:
  "foldl (\<lambda>d (p, e). d OR (word_of_nat (code p) XOR word_of_nat (code e))) (d :: 8 word) ps = 0 \<longleftrightarrow>
   d = 0 \<and> list_all (\<lambda>(p, e). p = e) ps"
proof (induction ps arbitrary: d)
  case (Cons x ps)
  obtain p e where x: "x = (p, e)" by (cases x)
  have "(word_of_nat (code p) :: 8 word) = word_of_nat (code e) \<longleftrightarrow> p = e"
    using code_lt_256 [of p] code_lt_256 [of e]
    by (auto simp: word_unat_eq_iff unsigned_of_nat take_bit_nat_eq_self code_eq_iff)
  then have "(word_of_nat (code p) XOR word_of_nat (code e) :: 8 word) = 0 \<longleftrightarrow> p = e"
    by (metis xor_self_eq bit.xor_left_self xor.right_neutral)
  moreover have "a OR b = 0 \<longleftrightarrow> a = 0 \<and> b = 0" for a b :: "8 word" by (rule or_eq_0_iff)
  ultimately show ?case using Cons.IH by (auto simp: x)
qed simp

lemma zip_equal: "length p = length e \<Longrightarrow> list_all (\<lambda>(p, e). p = e) (zip p e) \<longleftrightarrow> p = e"
  by (induction p e rule: list_induct2) auto

lemma token_ok_iff:
  "admin_token_ok request c \<longleftrightarrow> cfg_admin_token c = [] \<or> presented_token request = cfg_admin_token c"
  using compare_acc [of 0 "zip (presented_token request) (cfg_admin_token c)"]
  by (auto simp: admin_token_ok_def compare_bytes_def Let_def zip_equal)

subsection \<open>What a reload may read\<close>

text \<open>The files a remote reload can name, besides the configured one.\<close>

definition in_config_directory :: "string \<Rightarrow> string \<Rightarrow> bool" where
  "in_config_directory source path \<longleftrightarrow>
     (\<exists>directory name. reload_directory source = Some directory \<and> path = directory @ name \<and> name \<noteq> [] \<and>
        find_sub ''..'' path = None)"

lemma reload_path_allowed_iff:
  "reload_path_allowed path source \<Longrightarrow> path = [] \<or> in_config_directory source path"
  by (force simp: reload_path_allowed_def in_config_directory_def has_prefix_iff split: if_splits option.splits)

lemma try_reload_reads:
  assumes "\<And>path'. path' = (if path = [] then st_source_path st else path) \<Longrightarrow> f path' = g path'"
  shows "try_reload tls readable f path st = try_reload tls readable g path st"
  using assms by (simp add: try_reload_def Let_def)

lemma signed_sel [simp]: "resp_status (signed_keep_alive r) = resp_status r" "resp_body (signed_keep_alive r) = resp_body r"
  by (simp_all add: signed_keep_alive_def)

lemma plain_sel [simp]: "resp_status (plain st b) = st" "resp_status unauthorized = Unauthorized"
  by (simp_all add: plain_def unauthorized_def)

lemma perform_reload_reads:
  assumes "\<And>path'. path' = (if path = [] then st_source_path (ad_store s) else path) \<Longrightarrow> f path' = fl_read fl path'"
  shows "perform_reload (fl\<lparr>fl_read := f\<rparr>) an path s = perform_reload fl an path s"
  using try_reload_reads [of path "ad_store s" f "fl_read fl"] assms by (simp add: perform_reload_def)

lemma admin_reload_reads:
  assumes "\<And>path. path = st_source_path (ad_store s) \<or> in_config_directory (st_source_path (ad_store s)) path \<Longrightarrow>
    f path = fl_read fl path"
  shows "admin_reload (fl\<lparr>fl_read := f\<rparr>) an request s = admin_reload fl an request s"
proof (cases "reload_path_allowed (requested_config_path request) (st_source_path (ad_store s))")
  case True
  have "perform_reload (fl\<lparr>fl_read := f\<rparr>) an (requested_config_path request) s =
      perform_reload fl an (requested_config_path request) s"
    by (rule perform_reload_reads) (use reload_path_allowed_iff [OF True] assms in \<open>auto split: if_splits\<close>)
  then show ?thesis unfolding admin_reload_def Let_def by simp
qed (simp add: admin_reload_def Let_def)

subsection \<open>Properties\<close>


definition sample_admin :: AdminState where
  "sample_admin = \<lparr>ad_store = store_new (config_default\<lparr>cfg_admin_enabled := True, cfg_admin_token := ''s3cret''\<rparr>) ''/etc/aevrix/main.conf'',
     ad_proxy = handler_new (\<lambda>_. None) config_default, ad_log_level = INFO\<rparr>"

definition sample_files :: Files where
  "sample_files = \<lparr>fl_tls = True, fl_readable = (\<lambda>_. True),
     fl_read = (\<lambda>p. if p = ''/etc/aevrix/next.conf'' then Some (''workers=8'' @ [LF]) else None)\<rparr>"

definition reload_request :: "string \<Rightarrow> string \<Rightarrow> HttpRequest" where
  "reload_request token b = new_request\<lparr>req_method := POST, req_target := ''/admin/reload-config'',
     req_headers := [make_header ''Authorization'' (''Bearer '' @ token)], req_body := b\<rparr>"


text \<open>
  The router compares the whole target, so a request with a query string reaches no
  route: the \<^verbatim>\<open>?path=\<close> override of the reload route cannot be used.
\<close>

lemma route_keys:
  "map fst (server_routes fl an) =
     [''GET:/'', ''GET:/health'', ''GET:/metrics'', ''GET:/admin/config'', ''POST:/admin/reload-config'']"
proof -
  have k: "make_route_key ''GET'' ''/'' = ''GET:/''" "make_route_key ''GET'' ''/health'' = ''GET:/health''"
    "make_route_key ''GET'' ''/metrics'' = ''GET:/metrics''"
    "make_route_key ''GET'' ''/admin/config'' = ''GET:/admin/config''"
    "make_route_key ''POST'' ''/admin/reload-config'' = ''POST:/admin/reload-config''" by code_simp+
  show ?thesis unfolding server_routes_def add_route_def k by simp
qed

lemma query_reaches_no_route:
  assumes "CHR ''?'' \<in> set target"
  shows "\<not> has_route m target (server_routes fl an)"
proof -
  have "CHR ''?'' \<in> set (make_route_key m target)" using assms by (simp add: make_route_key_def)
  moreover have "list_all (\<lambda>k. CHR ''?'' \<notin> set k) (map fst (server_routes fl an))" unfolding route_keys by simp
  ultimately have "make_route_key m target \<notin> set (map fst (server_routes fl an))" unfolding list_all_iff by blast
  then show ?thesis by (simp add: has_route_def map_of_eq_None_iff)
qed

end
