(* ===== verification/Server.thy ===== *)
theory Server
  imports Admin Connection_Manager WS_Handshake
begin

section \<open>The event handlers of the server: \<^verbatim>\<open>main.cpp\<close>\<close>

text \<open>
  The whole server on Linux: what one event on a client socket, on the listener, on the
  completion descriptor or a maintenance pass does to the connections, the proxy, the
  configuration and the worker queue.  \<open>srv_tasks\<close> are the jobs the worker pool has
  accepted, \<open>srv_results\<close> the completion queue, \<open>srv_watch\<close> the event-loop
  registrations and \<open>srv_closed\<close> the client descriptors closed so far.  The answers of
  the system are the record \<open>World\<close>; the proxy's calls take \<^typ>\<open>Answers\<close>.
\<close>

datatype Handshake = HsComplete | HsFailed | HsWants "Epoll list"

record World =
  wd_files :: Files
  wd_answers :: Answers
  wd_recv :: RecvOutcome
  wd_tls_read :: TlsReadOutcome
  wd_send :: SendOutcome
  wd_tls_write :: TlsWriteOutcome
  wd_handshake :: Handshake
  wd_pool_open :: bool

record Server =
  srv_admin :: AdminState
  srv_manager :: ConnectionManager
  srv_tasks :: "WorkerTask list"
  srv_results :: "WorkerResult list"
  srv_watch :: "(int \<times> Epoll list) list"
  srv_closed :: "int list"
  srv_count :: nat

abbreviation wd_now :: "World \<Rightarrow> millis" where
  "wd_now w \<equiv> an_now (wd_answers w)"

definition live_config :: "Server \<Rightarrow> ServerConfig" where
  "live_config s = st_active (ad_store (srv_admin s))"

definition live_world :: "Server \<Rightarrow> World \<Rightarrow> Answers" where
  "live_world s w = (wd_answers w)\<lparr>an_store := Some (live_config s)\<rparr>"

definition modify_fd :: "int \<Rightarrow> Epoll list \<Rightarrow> Server \<Rightarrow> Server" where
  "modify_fd fd events s =
     (if map_of (srv_watch s) fd = None then s else s\<lparr>srv_watch := AList.update fd events (srv_watch s)\<rparr>)"

definition remove_fd :: "int \<Rightarrow> Server \<Rightarrow> Server" where
  "remove_fd fd s = s\<lparr>srv_watch := AList.delete fd (srv_watch s)\<rparr>"

definition put_connection :: "Connection \<Rightarrow> Server \<Rightarrow> Server" where
  "put_connection c s = s\<lparr>srv_manager := update_connection (cn_fd c) (\<lambda>_. c) (srv_manager s)\<rparr>"

definition drop_connection :: "int \<Rightarrow> Server \<Rightarrow> Server" where
  "drop_connection fd s =
     (let (_, closed, m) = remove_connection fd (srv_manager s)
      in s\<lparr>srv_manager := m, srv_closed := srv_closed s @ closed\<rparr>)"

definition close_client :: "int \<Rightarrow> Server \<Rightarrow> Server" where
  "close_client fd s = drop_connection fd (remove_fd fd s)"

definition interest_rw :: "Epoll list" where
  "interest_rw = [EPOLLIN, EPOLLOUT]"

subsection \<open>Writing\<close>

definition conn_write :: "World \<Rightarrow> Connection \<Rightarrow> IoResult \<times> Connection" where
  "conn_write w c =
     (if cn_tls c then write_tls (wd_tls_write w) (wd_now w) c else write_nonblocking (wd_send w) (wd_now w) c)"

definition flush_websocket :: "World \<Rightarrow> ServerConfig \<Rightarrow> Session \<Rightarrow> Connection \<Rightarrow> bool \<times> Epoll list option \<times> Connection" where
  "flush_websocket w cfg ws c =
     (if has_pending_output ws then
        (let (bytes, ws) = take_output ws;
             c = append_output_buffer (text_of bytes) (c\<lparr>cn_websocket := Some ws\<rparr>);
             c = c\<lparr>cn_write := WrBody\<rparr>
         in (True, Some interest_rw, set_deadline cfg (wd_now w) c))
      else
        (let c = set_deadline cfg (wd_now w) (c\<lparr>cn_write := WrComplete\<rparr>)
         in if ready_to_close ws then (False, None, c) else (True, Some [EPOLLIN], c)))"

definition handle_write_event :: "World \<Rightarrow> ServerConfig \<Rightarrow> Connection \<Rightarrow> bool \<times> Epoll list option \<times> Connection" where
  "handle_write_event w cfg c =
     (let (result, c) = conn_write w (set_deadline cfg (wd_now w) c) in
      if result = IoInProgress then (True, None, c)
      else if result = IoError then (False, None, c)
      else if is_output_complete c then
        (case cn_websocket c of
           Some ws \<Rightarrow> flush_websocket w cfg ws c
         | None \<Rightarrow>
             if cn_keep_alive c then (True, Some [EPOLLIN], reset_parser (clear_output_buffer c))
             else (False, None, c))
      else (True, None, c))"

subsection \<open>Proxy completion\<close>

definition prepare_output :: "string \<Rightarrow> ServerConfig \<Rightarrow> millis \<Rightarrow> Connection \<Rightarrow> Connection" where
  "prepare_output bytes cfg now c =
     set_deadline cfg now ((set_output_buffer bytes c)\<lparr>cn_state := CsWriting, cn_write := WrBody\<rparr>)"

definition on_proxy_complete :: "World \<Rightarrow> 64 word \<times> ProxyOutcome \<Rightarrow> Server \<Rightarrow> Server" where
  "on_proxy_complete w finished s =
     (case get_connection_by_id (fst finished) (srv_manager s) of
        None \<Rightarrow> s
      | Some c \<Rightarrow>
          (let c = set_deadline (live_config s) (wd_now w) (c\<lparr>cn_worker := False\<rparr>);
               serialized = serialize (build_proxy_response (snd finished) (cn_keep_alive c))
           in if serialized = [] then close_client (cn_fd c) (put_connection c s)
              else modify_fd (cn_fd c) interest_rw (put_connection (set_output_buffer serialized c) s)))"

text \<open>
  A call into the proxy handler, followed by the callbacks it made.  A callback only
  touches the client connection, so running them after the call is the same as running
  them inside it.
\<close>

definition proxy_call :: "World \<Rightarrow> (ProxyHandler \<Rightarrow> ProxyHandler) \<Rightarrow> Server \<Rightarrow> Server" where
  "proxy_call w f s =
     (let h = ad_proxy (srv_admin s); h' = f h;
          reports = drop (length (ph_done h)) (ph_done h')
      in foldl (\<lambda>s d. on_proxy_complete w d s) (s\<lparr>srv_admin := (srv_admin s)\<lparr>ad_proxy := h'\<rparr>\<rparr>) reports)"

subsection \<open>Reading\<close>

definition conn_read :: "World \<Rightarrow> Connection \<Rightarrow> IoResult \<times> Connection" where
  "conn_read w c =
     (if cn_tls c then read_tls (wd_tls_read w) c else read_nonblocking (wd_recv w) (wd_now w) c)"

definition feed_websocket :: "World \<Rightarrow> ServerConfig \<Rightarrow> Session \<Rightarrow> Connection \<Rightarrow> Epoll list option \<times> Connection" where
  "feed_websocket w cfg ws c =
     (let ws = ws_feed (bytes_of (cn_input c)) ws;
          c = update_activity (wd_now w) (c\<lparr>cn_input := [], cn_websocket := Some ws\<rparr>)
      in if has_pending_output ws then
           (let (bytes, ws) = take_output ws;
                c = append_output_buffer (text_of bytes) (c\<lparr>cn_websocket := Some ws\<rparr>)
            in (Some interest_rw, set_deadline cfg (wd_now w) (c\<lparr>cn_write := WrBody\<rparr>)))
         else (None, set_deadline cfg (wd_now w) c))"

definition reply :: "World \<Rightarrow> ServerConfig \<Rightarrow> string \<Rightarrow> Connection \<Rightarrow> Server \<Rightarrow> bool \<times> Server" where
  "reply w cfg bytes c s = (True, modify_fd (cn_fd c) interest_rw (put_connection (prepare_output bytes cfg (wd_now w) c) s))"

definition submit_task :: "World \<Rightarrow> ServerConfig \<Rightarrow> HttpRequest \<Rightarrow> Connection \<Rightarrow> Server \<Rightarrow> bool \<times> Server" where
  "submit_task w cfg request c s =
     (let c = c\<lparr>cn_worker := True\<rparr>;
          task = \<lparr>wt_connection_id = cn_id c, wt_target = req_target request,
                  wt_document_root = cfg_document_root cfg, wt_is_head = (req_method request = HEAD)\<rparr>
      in if wd_pool_open w
         then (True, put_connection c (s\<lparr>srv_tasks := srv_tasks s @ [task]\<rparr>))
         else (False, modify_fd (cn_fd c) interest_rw
                 (put_connection (set_output_buffer (serialize overloaded_response) c) s)))"

definition dispatch_upgrade :: "World \<Rightarrow> ServerConfig \<Rightarrow> HttpRequest \<Rightarrow> Connection \<Rightarrow> Server \<Rightarrow> (bool \<times> Server) option" where
  "dispatch_upgrade w cfg request c s =
     (if \<not> cfg_ws_enabled cfg then None
      else let upgrade = evaluate_upgrade request cfg in
        if up_verdict upgrade = Accepted
        then Some (reply w cfg (up_response upgrade)
               ((begin_websocket (ucast (cfg_ws_max_message cfg)) (wd_now w) c)\<lparr>cn_keep_alive := False\<rparr>) s)
        else if up_verdict upgrade \<noteq> NotAnUpgrade
        then Some (reply w cfg (serialize (build_rejection_response (up_verdict upgrade)))
               (c\<lparr>cn_keep_alive := False\<rparr>) s)
        else None)"

text \<open>What happens to a complete request: router, upgrade, proxy, static file.\<close>

definition dispatch_request :: "World \<Rightarrow> ServerConfig \<Rightarrow> HttpRequest \<Rightarrow> Connection \<Rightarrow> Server \<Rightarrow> bool \<times> Server" where
  "dispatch_request w cfg request c s =
     (let c = (evaluate_keep_alive request c)\<lparr>cn_request_id := cn_request_id c + 1\<rparr>;
          routes = server_routes (wd_files w) (wd_answers w) in
      if has_route (http_method_to_string (req_method request)) (req_target request) routes then
        (let (routed, admin) = route request routes (srv_admin s);
             serialized = serialize routed; s = s\<lparr>srv_admin := admin\<rparr>
         in if serialized = [] then (False, put_connection c s) else reply w cfg serialized c s)
      else case dispatch_upgrade w cfg request c s of
             Some r \<Rightarrow> r
           | None \<Rightarrow>
               if handles request (ad_proxy (srv_admin s)) then
                 (True, proxy_call w (ph_start (live_world s w) (cn_id c) (cn_fd c) request)
                    (put_connection (c\<lparr>cn_worker := True\<rparr>) s))
               else submit_task w cfg request c s)"

definition handle_read_event :: "World \<Rightarrow> ServerConfig \<Rightarrow> Connection \<Rightarrow> Server \<Rightarrow> bool \<times> Server" where
  "handle_read_event w cfg c s =
     (let (result, c) = conn_read w (set_deadline cfg (wd_now w) c) in
      if result = IoInProgress then (True, put_connection c s)
      else if result = IoClosed then (False, put_connection c s)
      else if result = IoError then (False, put_connection c s)
      else case cn_websocket c of
        Some ws \<Rightarrow>
          (let (events, c) = feed_websocket w cfg ws c; s = put_connection c s
           in (True, case events of None \<Rightarrow> s | Some e \<Rightarrow> modify_fd (cn_fd c) e s))
      | None \<Rightarrow>
          (let (ok, c) = feed_parser c in
           if \<not> ok then (False, put_connection c s)
           else if rp_state (cn_parser c) = Request_Parser.Error then (False, put_connection c s)
           else if rp_state (cn_parser c) = Request_Parser.Complete
           then dispatch_request w cfg (rp_request (cn_parser c)) c s
           else (True, put_connection c s)))"

subsection \<open>Events\<close>

definition finish_write :: "int \<Rightarrow> bool \<times> Epoll list option \<times> Connection \<Rightarrow> Server \<Rightarrow> bool \<times> Server" where
  "finish_write fd r s =
     (case r of (keep, events, c) \<Rightarrow>
        let s = put_connection c s in
        (keep, case events of None \<Rightarrow> s | Some e \<Rightarrow> modify_fd fd e s))"

definition keep_or_close :: "int \<Rightarrow> bool \<times> Server \<Rightarrow> Server" where
  "keep_or_close fd r = (if fst r then snd r else close_client fd (snd r))"

definition handshake_event :: "World \<Rightarrow> int \<Rightarrow> Connection \<Rightarrow> Server \<Rightarrow> Connection option \<times> Server" where
  "handshake_event w fd c s =
     (case wd_handshake w of
        HsComplete \<Rightarrow>
          (let c = c\<lparr>cn_state := CsReading, cn_read := RdHeaders\<rparr>
           in (Some c, modify_fd fd [EPOLLIN] (put_connection c s)))
      | HsFailed \<Rightarrow> (None, close_client fd s)
      | HsWants events \<Rightarrow> (None, modify_fd fd events s))"

definition client_event :: "World \<Rightarrow> int \<Rightarrow> EventType \<Rightarrow> Server \<Rightarrow> Server" where
  "client_event w fd event s =
     (case get_connection fd (srv_manager s) of
        None \<Rightarrow> remove_fd fd s
      | Some c \<Rightarrow>
          (let cfg = live_config s;
               (current, s) =
                 (if cn_tls c \<and> cn_state c = CsTlsHandshake \<and> (event = Readable \<or> event = Writable)
                  then handshake_event w fd c s else (Some c, s))
           in case current of
                None \<Rightarrow> s
              | Some c \<Rightarrow>
                  (case event of
                     Readable \<Rightarrow> keep_or_close fd (handle_read_event w cfg c s)
                   | Writable \<Rightarrow> keep_or_close fd (finish_write fd (handle_write_event w cfg c) s)
                   | _ \<Rightarrow> close_client fd s)))"

definition add_watch :: "int \<Rightarrow> Epoll list \<Rightarrow> Server \<Rightarrow> Server" where
  "add_watch fd events s = s\<lparr>srv_watch := AList.update fd events (srv_watch s)\<rparr>"

text \<open>\<open>tls_ok\<close> is \<open>None\<close> on the plain listener and says whether TLS could be set up on the other.\<close>

definition accept_event :: "World \<Rightarrow> bool option \<Rightarrow> int option \<Rightarrow> Server \<Rightarrow> Server" where
  "accept_event w tls_ok accepted s =
     (case accepted of
        None \<Rightarrow> s
      | Some fd \<Rightarrow>
          (let (conn, m) = register_connection (Some (live_config s)) fd (wd_now w) (srv_manager s);
               s = s\<lparr>srv_manager := m\<rparr>
           in case conn of
                None \<Rightarrow> s
              | Some c \<Rightarrow>
                  if tls_ok = Some False then close_client fd s
                  else
                    (let c = (if tls_ok = None then c\<lparr>cn_state := CsReading, cn_read := RdHeaders\<rparr>
                              else c\<lparr>cn_tls := True, cn_state := CsTlsHandshake\<rparr>)
                     in (add_watch fd [EPOLLIN] (put_connection (set_deadline (live_config s) (wd_now w) c) s))
                        \<lparr>srv_count := srv_count s + 1\<rparr>)))"

definition apply_result :: "World \<Rightarrow> WorkerResult \<Rightarrow> Server \<Rightarrow> Server" where
  "apply_result w result s =
     (case get_connection_by_id (wr_connection_id result) (srv_manager s) of
        None \<Rightarrow> s
      | Some c \<Rightarrow>
          (let c = set_deadline (live_config s) (wd_now w) (c\<lparr>cn_worker := False\<rparr>);
               bytes = serialize (worker_response (cn_keep_alive c) result)
           in modify_fd (cn_fd c) interest_rw (put_connection (set_output_buffer bytes c) s)))"

definition completion_event :: "World \<Rightarrow> Server \<Rightarrow> Server" where
  "completion_event w s =
     foldl (\<lambda>s r. apply_result w r s) (s\<lparr>srv_results := []\<rparr>) (srv_results s)"

definition upstream_event :: "World \<Rightarrow> int \<Rightarrow> 64 word \<Rightarrow> EventType \<Rightarrow> Server \<Rightarrow> Server" where
  "upstream_event w fd generation event s =
     proxy_call w (on_upstream_event (live_world s w) fd generation event) s"

definition reload_event :: "World \<Rightarrow> bool \<Rightarrow> Server \<Rightarrow> Server" where
  "reload_event w requested s =
     (if requested then s\<lparr>srv_admin := snd (perform_reload (wd_files w) (wd_answers w) [] (srv_admin s))\<rparr> else s)"

definition ping_event :: "World \<Rightarrow> Server \<Rightarrow> Server" where
  "ping_event w s =
     (let interval = unat (cfg_ws_ping_interval_ms (live_config s)) in
      if interval > 0 then
        (let (fds, m) = maintain_websockets interval (wd_now w) (srv_manager s)
         in foldl (\<lambda>s fd. modify_fd fd interest_rw s) (s\<lparr>srv_manager := m\<rparr>) fds)
      else s)"

text \<open>One pass of the main loop after the events of a batch.\<close>

definition maintenance :: "World \<Rightarrow> bool \<Rightarrow> Server \<Rightarrow> Server" where
  "maintenance w reload_requested s =
     (let (_, closed, m) = sweep_timeouts (wd_now w) (srv_manager s);
          s = s\<lparr>srv_manager := m, srv_closed := srv_closed s @ closed\<rparr>;
          s = proxy_call w (ph_sweep (wd_now w)) s
      in ping_event w (reload_event w reload_requested s))"

definition shutdown_server :: "(int \<Rightarrow> (SendOutcome \<times> millis) list) \<Rightarrow> Server \<Rightarrow> Server" where
  "shutdown_server sends s =
     (let (_, m) = initiate_websocket_shutdown 1001 sends (srv_manager s); admin = srv_admin s
      in s\<lparr>srv_manager := m, srv_admin := admin\<lparr>ad_proxy := ph_shutdown (ad_proxy admin)\<rparr>\<rparr>)"

subsection \<open>The event loop\<close>

text \<open>
  \<open>EventLoop::run\<close>, the epoll branch.  Every registered descriptor has a callback, here
  the \<open>Source\<close> that says which one; a callback is looked up once per ready descriptor and
  then called for every condition reported, even when an earlier call removed the
  descriptor.  The answers of the system are given per call.
\<close>

datatype Condition = CondIn | CondOut | CondErr | CondHup | CondRdHup

definition event_types :: "Condition list \<Rightarrow> EventType list" where
  "event_types revents =
     (if CondIn \<in> set revents then [Readable] else []) @ (if CondOut \<in> set revents then [Writable] else []) @
     (if CondErr \<in> set revents then [EvError] else []) @ (if CondHup \<in> set revents then [Hangup] else []) @
     (if CondRdHup \<in> set revents then [Hangup] else [])"

datatype Source = SrcListener "bool option" "int option" | SrcCompletion | SrcReload bool | SrcUpstream "64 word" | SrcClient

definition callback :: "World \<Rightarrow> Source \<Rightarrow> int \<Rightarrow> EventType \<Rightarrow> Server \<Rightarrow> Server" where
  "callback w src fd event s =
     (case src of
        SrcListener tls_ok accepted \<Rightarrow> if event = Readable then accept_event w tls_ok accepted s else s
      | SrcCompletion \<Rightarrow> if event = Readable then completion_event w s else s
      | SrcReload requested \<Rightarrow> if event = Readable then reload_event w requested s else s
      | SrcUpstream generation \<Rightarrow> upstream_event w fd generation event s
      | SrcClient \<Rightarrow> client_event w fd event s)"

definition has_callback :: "Source \<Rightarrow> int \<Rightarrow> Server \<Rightarrow> bool" where
  "has_callback src fd s \<longleftrightarrow> (src = SrcClient \<longrightarrow> map_of (srv_watch s) fd \<noteq> None)"

record Ready =
  rd_source :: Source
  rd_fd :: int
  rd_conditions :: "Condition list"
  rd_worlds :: "World list"

definition dispatch_entry :: "Ready \<Rightarrow> Server \<Rightarrow> Server" where
  "dispatch_entry e s =
     (if \<not> has_callback (rd_source e) (rd_fd e) s then s
      else foldl (\<lambda>s (event, w). callback w (rd_source e) (rd_fd e) event s) s
             (zip (event_types (rd_conditions e)) (rd_worlds e)))"

definition run_batch :: "Ready list \<Rightarrow> Server \<Rightarrow> Server" where
  "run_batch entries s = foldl (\<lambda>s e. dispatch_entry e s) s entries"

subsection \<open>Workers\<close>

text \<open>
  A worker finishes a job and queues its result.  With several workers any job taken from
  the queue may be the next to finish, hence the position \<open>i\<close>.
\<close>

definition worker_step :: "(WorkerTask \<Rightarrow> WorkerResult) \<Rightarrow> nat \<Rightarrow> Server \<Rightarrow> Server" where
  "worker_step run i s =
     (if i < length (srv_tasks s) then
        s\<lparr>srv_tasks := take i (srv_tasks s) @ drop (i + 1) (srv_tasks s),
          srv_results := srv_results s @ [run (srv_tasks s ! i)]\<rparr>
      else s)"

end
