(* ===== verification/Server_Account.thy ===== *)
theory Server_Account imports Server
begin

section \<open>Every descriptor the server accepts is accounted for\<close>

text \<open>
  Each handler of \<open>Server\<close> keeps the table consistent and the descriptors conserved
  (\<open>keeps\<close>); \<open>server_step\<close> is one event of the main loop, and the property is about
  every run from a fresh server.
\<close>

subsection \<open>Handlers keep the identity of a connection\<close>

lemma ids_simps [simp]:
  "same_ids (set_deadline cfg now c) d = same_ids c d" "same_ids (set_output_buffer t c) d = same_ids c d"
  "same_ids (clear_output_buffer c) d = same_ids c d" "same_ids (reset_parser c) d = same_ids c d"
  "same_ids (update_activity now c) d = same_ids c d" "same_ids (begin_websocket m now c) d = same_ids c d"
  "same_ids (evaluate_keep_alive r c) d = same_ids c d" "same_ids (advance_write n c) d = same_ids c d"
  "same_ids (c\<lparr>cn_state := st\<rparr>) d = same_ids c d" "same_ids (c\<lparr>cn_read := rs\<rparr>) d = same_ids c d"
  "same_ids (c\<lparr>cn_worker := b\<rparr>) d = same_ids c d" "same_ids (c\<lparr>cn_keep_alive := b\<rparr>) d = same_ids c d"
  "same_ids (c\<lparr>cn_tls := b\<rparr>) d = same_ids c d" "same_ids (c\<lparr>cn_input := t\<rparr>) d = same_ids c d"
  "same_ids (c\<lparr>cn_request_id := i\<rparr>) d = same_ids c d" "same_ids (c\<lparr>cn_parser := p\<rparr>) d = same_ids c d"
  "same_ids (c\<lparr>cn_output := t\<rparr>) d = same_ids c d" "same_ids (c\<lparr>cn_offset := n\<rparr>) d = same_ids c d"
  by (auto simp: same_ids_def set_deadline_def set_output_buffer_def clear_output_buffer_def reset_parser_def
      update_activity_def begin_websocket_def evaluate_keep_alive_def advance_write_def Let_def)

lemma ids_prepare [simp]: "same_ids (prepare_output t cfg now c) d = same_ids c d"
  by (simp add: prepare_output_def)

lemma ids_write: "conn_write w c = (r, d) \<Longrightarrow> same_ids d c"
  by (auto simp: conn_write_def write_tls_def write_nonblocking_def
      split: if_splits SendOutcome.splits TlsWriteOutcome.splits)

lemma ids_read: "conn_read w c = (r, d) \<Longrightarrow> same_ids d c"
  by (auto simp: conn_read_def read_tls_def read_nonblocking_def
      split: if_splits RecvOutcome.splits TlsReadOutcome.splits)

lemma ids_feed: "feed_parser c = (ok, d) \<Longrightarrow> same_ids d c"
  by (auto simp: feed_parser_def Let_def split: if_splits)

lemma ids_feed_ws: "feed_websocket w cfg ws c = (e, d) \<Longrightarrow> same_ids d c"
  by (auto simp: feed_websocket_def take_output_def Let_def split: if_splits)

lemma ids_flush_ws: "flush_websocket w cfg ws c = (k, e, d) \<Longrightarrow> same_ids d c"
  by (auto simp: flush_websocket_def take_output_def Let_def split: if_splits)

lemma ids_write_event: "handle_write_event w cfg c = (k, e, d) \<Longrightarrow> same_ids d c"
proof -
  assume h: "handle_write_event w cfg c = (k, e, d)"
  obtain r c1 where c1: "conn_write w (set_deadline cfg (wd_now w) c) = (r, c1)" by fastforce
  have 1: "same_ids c1 c" using ids_write [OF c1] by (simp add: same_ids_def set_deadline_def split: if_splits)
  from h c1 have "same_ids d c1"
    by (auto simp: handle_write_event_def split: if_splits option.splits dest: ids_flush_ws)
  with 1 show ?thesis by (rule same_ids_trans [rotated])
qed

subsection \<open>Descriptors\<close>

definition srv_fds :: "Server \<Rightarrow> int list" where
  "srv_fds s = map fst (cm_conns (srv_manager s))"

definition srv_ok :: "Server \<Rightarrow> bool" where
  "srv_ok s \<longleftrightarrow> manager_ok (srv_manager s) \<and> list_all (\<lambda>fd. 0 \<le> fd) (srv_fds s)"

definition fd_account :: "Server \<Rightarrow> int multiset" where
  "fd_account s = mset (srv_closed s) + mset (srv_fds s)"

definition keeps :: "Server \<Rightarrow> Server \<Rightarrow> bool" where
  "keeps s s' \<longleftrightarrow> srv_ok s' \<and> fd_account s' = fd_account s"

lemma keeps_refl: "srv_ok s \<Longrightarrow> keeps s s" by (simp add: keeps_def)
lemma keeps_trans: "keeps s t \<Longrightarrow> keeps t u \<Longrightarrow> keeps s u" by (simp add: keeps_def)
lemma keeps_ok: "keeps s t \<Longrightarrow> srv_ok t" by (simp add: keeps_def)

text \<open>Changes outside the connection table and the log of closed descriptors.\<close>

lemma keeps_same:
  "keeps s t \<Longrightarrow> srv_manager u = srv_manager t \<Longrightarrow> srv_closed u = srv_closed t \<Longrightarrow> keeps s u"
  by (simp add: keeps_def srv_ok_def fd_account_def srv_fds_def)

lemma keeps_modify: "keeps s t \<Longrightarrow> keeps s (modify_fd fd e t)"
  by (erule keeps_same) (simp_all add: modify_fd_def)

lemma keeps_remove: "keeps s t \<Longrightarrow> keeps s (remove_fd fd t)"
  by (erule keeps_same) (simp_all add: remove_fd_def)

definition has_ids :: "Connection \<Rightarrow> Server \<Rightarrow> bool" where
  "has_ids c s \<longleftrightarrow> (\<exists>d. get_connection (cn_fd c) (srv_manager s) = Some d \<and> same_ids c d)"

lemma has_ids_same: "has_ids c s \<Longrightarrow> same_ids d c \<Longrightarrow> has_ids d s"
  by (auto simp: has_ids_def same_ids_def)

lemma put_fds: "srv_fds (put_connection c s) = srv_fds s"
  by (auto simp: srv_fds_def put_connection_def update_connection_def)

lemma manager_ok_conns:
  assumes "manager_ok m" "map fst ys = map fst (cm_conns m)" "map (cn_id \<circ> snd) ys = map (cn_id \<circ> snd) (cm_conns m)"
    "list_all (\<lambda>(k, e). cn_fd e = k) ys"
    "list_all (\<lambda>(k, e). 0 < unat (cn_id e) \<and> unat (cn_id e) < unat (cm_next_id m)) ys"
  shows "manager_ok (m\<lparr>cm_conns := ys\<rparr>)"
  using assms by (simp add: manager_ok_def)

lemma keeps_put:
  assumes "keeps s t" "has_ids c t"
  shows "keeps s (put_connection c t)"
proof -
  have m: "manager_ok (srv_manager t)" using assms(1) by (simp add: keeps_def srv_ok_def)
  obtain d where d: "map_of (cm_conns (srv_manager t)) (cn_fd c) = Some d" "same_ids c d"
    using assms(2) by (auto simp: has_ids_def get_connection_def)
  have uniq: "\<forall>e. (cn_fd c, e) \<in> set (cm_conns (srv_manager t)) \<longrightarrow> e = d"
    using d(1) m by (metis manager_ok_def map_of_is_SomeI option.inject)
  let ?xs = "cm_conns (srv_manager t)" and ?ys = "map (\<lambda>(k, e). (k, if k = cn_fd c then c else e)) (cm_conns (srv_manager t))"
  have ids: "map (cn_id \<circ> snd) ?ys = map (cn_id \<circ> snd) ?xs" and keys: "map fst ?ys = map fst ?xs"
    using uniq d(2) by (auto simp: same_ids_def)
  have el: "\<exists>e0. (k, e0) \<in> set ?xs \<and> same_ids e e0" if "(k, e) \<in> set ?ys" for k e
    using that uniq d by (auto split: if_splits)
  have ys: "list_all (\<lambda>(k, e). Q k (cn_fd e) (cn_id e)) ?ys" if q: "list_all (\<lambda>(k, e). Q k (cn_fd e) (cn_id e)) ?xs" for Q
    unfolding list_all_iff
  proof (intro ballI, clarify)
    fix k e assume "(k, e) \<in> set ?ys"
    from el [OF this] obtain e0 where "(k, e0) \<in> set ?xs" "same_ids e e0" by blast
    with q show "Q k (cn_fd e) (cn_id e)" by (fastforce simp: list_all_iff same_ids_def)
  qed
  have m': "list_all (\<lambda>(k, e). cn_fd e = k) ?xs"
    "list_all (\<lambda>(k, e). 0 < unat (cn_id e) \<and> unat (cn_id e) < unat (cm_next_id (srv_manager t))) ?xs"
    using m unfolding manager_ok_def by blast+
  have "manager_ok ((srv_manager t)\<lparr>cm_conns := ?ys\<rparr>)"
    by (rule manager_ok_conns [OF m keys ids ys [of "\<lambda>k f i. f = k", OF m'(1)]
          ys [of "\<lambda>k f i. 0 < unat i \<and> unat i < unat (cm_next_id (srv_manager t))", OF m'(2)]])
  then have "manager_ok (srv_manager (put_connection c t))"
    by (simp add: put_connection_def update_connection_def)
  with assms(1) show ?thesis
    by (simp add: keeps_def srv_ok_def put_fds fd_account_def) (simp add: put_connection_def)
qed

lemma keeps_drop:
  assumes "keeps s t" shows "keeps s (drop_connection fd t)"
proof (cases "map_of (cm_conns (srv_manager t)) fd")
  case None
  then show ?thesis
    using keeps_same [OF assms, of "drop_connection fd t"]
    by (simp add: drop_connection_def remove_connection_def has_connection_def)
next
  case (Some c)
  have ok: "manager_ok (srv_manager t)" "list_all (\<lambda>fd. 0 \<le> fd) (srv_fds t)"
    using assms by (simp_all add: keeps_def srv_ok_def)
  then have c: "cn_fd c = fd" "0 \<le> fd"
    using map_of_SomeD [OF Some] by (auto simp: manager_ok_def srv_fds_def list_all_iff)
  let ?m = "snd (erase_connection fd (srv_manager t))"
  have e: "fst (erase_connection fd (srv_manager t)) = [fd]"
    using Some c by (simp add: erase_connection_def closed_by_destructor_def)
  then have d: "drop_connection fd t = t\<lparr>srv_manager := ?m, srv_closed := srv_closed t @ [fd]\<rparr>"
    using Some by (simp add: drop_connection_def remove_connection_def has_connection_def case_prod_beta)
  have del: "cm_conns ?m = AList.delete fd (cm_conns (srv_manager t))"
    using Some by (simp add: erase_connection_def)
  have "mset (cm_conns (srv_manager t)) = mset (cm_conns ?m) + {#(fd, c)#}"
    unfolding del by (rule map_of_split_entry [OF _ Some]) (use ok(1) in \<open>simp add: manager_ok_def\<close>)
  then have "mset (srv_fds t) = mset (map fst (cm_conns ?m)) + {#fd#}"
    unfolding srv_fds_def by simp
  moreover have "list_all (\<lambda>fd. 0 \<le> fd) (map fst (cm_conns ?m))"
    using ok(2) by (auto simp: erase_conns srv_fds_def list_all_iff)
  ultimately show ?thesis
    using assms erase_ok [OF ok(1), of fd] unfolding d
    by (simp add: keeps_def srv_ok_def fd_account_def) (simp add: srv_fds_def)
qed

lemma keeps_close: "keeps s t \<Longrightarrow> keeps s (close_client fd t)"
  unfolding close_client_def by (intro keeps_drop keeps_remove)


text \<open>Looking a connection up and storing a change of it.\<close>

lemma has_ids_get: "get_connection fd (srv_manager s) = Some c \<Longrightarrow> srv_ok s \<Longrightarrow> has_ids c s"
  by (auto simp: has_ids_def get_connection_def srv_ok_def manager_ok_def list_all_iff dest: map_of_SomeD)

lemma has_ids_by_id: "get_connection_by_id i (srv_manager s) = Some c \<Longrightarrow> srv_ok s \<Longrightarrow> has_ids c s"
proof -
  assume g: "get_connection_by_id i (srv_manager s) = Some c" and ok: "srv_ok s"
  have "x \<in> set xs" if "find P xs = Some x" for P and x :: "int \<times> Connection" and xs
    using that by (induction xs) (auto split: if_splits)
  with g obtain k where "(k, c) \<in> set (cm_conns (srv_manager s))" by (fastforce simp: get_connection_by_id_def)
  with ok show ?thesis by (auto simp: has_ids_def get_connection_def srv_ok_def manager_ok_def list_all_iff)
qed

lemma keeps_update:
  "srv_ok s \<Longrightarrow> has_ids c s \<Longrightarrow> same_ids d c \<Longrightarrow> keeps s (put_connection d s)"
  by (rule keeps_put [OF keeps_refl has_ids_same])

lemma keeps_if: "keeps s a \<Longrightarrow> keeps s b \<Longrightarrow> keeps s (if P then a else b)"
  by simp

lemma keeps_proxy_complete:
  assumes ok: "srv_ok s" shows "keeps s (on_proxy_complete w d s)"
proof (cases "get_connection_by_id (fst d) (srv_manager s)")
  case None
  then show ?thesis by (simp add: on_proxy_complete_def keeps_refl ok)
next
  case (Some c)
  let ?c = "set_deadline (live_config s) (wd_now w) (c\<lparr>cn_worker := False\<rparr>)"
  have put: "keeps s (put_connection x s)" if "same_ids x c" for x
    by (rule keeps_update [OF ok has_ids_by_id [OF Some ok] that])
  have a: "keeps s (put_connection ?c s)" "keeps s (put_connection (set_output_buffer t ?c) s)" for t
    by (rule put, simp)+
  show ?thesis
    unfolding on_proxy_complete_def Some option.case Let_def
    by (rule keeps_if [OF keeps_close [OF a(1)] keeps_modify [OF a(2)]])
qed

lemma keeps_proxy_fold: "keeps s t \<Longrightarrow> keeps s (foldl (\<lambda>s d. on_proxy_complete w d s) t ds)"
proof (induction ds arbitrary: t)
  case (Cons d ds)
  have "keeps s (on_proxy_complete w d t)"
    by (rule keeps_trans [OF Cons.prems keeps_proxy_complete [OF keeps_ok [OF Cons.prems]]])
  from Cons.IH [OF this] show ?case by simp
qed simp

lemma keeps_proxy_call: "srv_ok s \<Longrightarrow> keeps s (proxy_call w f s)"
  unfolding proxy_call_def Let_def
  by (rule keeps_proxy_fold, rule keeps_same [OF keeps_refl]) simp_all

lemma keeps_reply:
  "srv_ok s \<Longrightarrow> has_ids c s \<Longrightarrow> same_ids d c \<Longrightarrow> keeps s (snd (reply w cfg t d s))"
  by (simp add: reply_def keeps_modify keeps_update)

lemma has_ids_eq: "srv_manager t = srv_manager s \<Longrightarrow> has_ids c t = has_ids c s"
  by (simp add: has_ids_def)

lemma keeps_submit:
  assumes "srv_ok s" "has_ids c s" "same_ids d c" shows "keeps s (snd (submit_task w cfg r d s))"
proof -
  let ?t = "s\<lparr>srv_tasks := srv_tasks s @ [\<lparr>wt_connection_id = cn_id (d\<lparr>cn_worker := True\<rparr>),
      wt_target = req_target r, wt_document_root = cfg_document_root cfg, wt_is_head = (req_method r = HEAD)\<rparr>]\<rparr>"
  have "keeps s ?t" by (rule keeps_same [OF keeps_refl [OF assms(1)]]) simp_all
  moreover have "has_ids (d\<lparr>cn_worker := True\<rparr>) ?t"
    using has_ids_same [OF assms(2), of "d\<lparr>cn_worker := True\<rparr>"] assms(3) by (simp add: has_ids_def)
  ultimately have "keeps s (put_connection (d\<lparr>cn_worker := True\<rparr>) ?t)" by (rule keeps_put)
  then show ?thesis using assms by (auto simp: submit_task_def Let_def intro!: keeps_modify keeps_update)
qed

lemma keeps_upgrade:
  assumes "srv_ok s" "has_ids c s" "same_ids d c" "dispatch_upgrade w cfg r d s = Some x" shows "keeps s (snd x)"
  using assms by (auto simp: dispatch_upgrade_def Let_def split: if_splits intro!: keeps_reply)

lemma keeps_dispatch:
  assumes "srv_ok s" "has_ids c s" "same_ids d c" shows "keeps s (snd (dispatch_request w cfg r d s))"
proof -
  let ?d = "(evaluate_keep_alive r d)\<lparr>cn_request_id := cn_request_id d + 1\<rparr>"
  obtain e where e: "e = (evaluate_keep_alive r d)\<lparr>cn_request_id := cn_request_id (evaluate_keep_alive r d) + 1\<rparr>" by simp
  have i: "same_ids e c" using assms(3) by (simp add: e)
  have a: "keeps s (put_connection e (s\<lparr>srv_admin := adm\<rparr>)) \<and> keeps s (snd (reply w cfg t e (s\<lparr>srv_admin := adm\<rparr>)))" for adm t
  proof -
    have k: "keeps s (s\<lparr>srv_admin := adm\<rparr>)" by (rule keeps_same [OF keeps_refl [OF assms(1)]]) simp_all
    have h: "has_ids c (s\<lparr>srv_admin := adm\<rparr>)" using assms(2) by (simp add: has_ids_def)
    show ?thesis using keeps_put [OF k has_ids_same [OF h i]]
        keeps_trans [OF k keeps_reply [OF keeps_ok [OF k] h i]] by simp
  qed
  have p: "keeps s (proxy_call w f (put_connection (e\<lparr>cn_worker := True\<rparr>) s))" for f
    using keeps_update [OF assms(1,2), of "e\<lparr>cn_worker := True\<rparr>"] i
    by (intro keeps_trans [OF _ keeps_proxy_call]) (auto dest: keeps_ok)
  have "evaluate_keep_alive r d\<lparr>cn_request_id := cn_request_id d + 1\<rparr> = e"
    by (auto simp: e evaluate_keep_alive_def Let_def)
  then show ?thesis
    unfolding dispatch_request_def Let_def
    using a p keeps_submit [OF assms(1,2) i] keeps_upgrade [OF assms(1,2) i]
    by (auto simp: case_prod_beta split: option.split)
qed

lemma keeps_read_event:
  assumes "srv_ok s" "get_connection fd (srv_manager s) = Some c0" "same_ids c c0"
  shows "keeps s (snd (handle_read_event w cfg c s))"
proof -
  note h = has_ids_get [OF assms(2,1)]
  obtain r c1 where r: "conn_read w (set_deadline cfg (wd_now w) c) = (r, c1)" by fastforce
  have c1: "same_ids c1 c0" using ids_read [OF r] assms(3) by (auto intro: same_ids_trans)
  obtain ok c2 where f: "feed_parser c1 = (ok, c2)" by fastforce
  have c2: "same_ids c2 c0" using ids_feed [OF f] c1 by (rule same_ids_trans)
  show ?thesis
  proof (cases "cn_websocket c1")
    case None
    then show ?thesis
      unfolding handle_read_event_def r f Let_def
      using keeps_update [OF assms(1) h] keeps_dispatch [OF assms(1) h] c1 c2 by (simp add: f)
  next
    case (Some ws)
    obtain e c3 where x: "feed_websocket w cfg ws c1 = (e, c3)" by fastforce
    have c3: "same_ids c3 c0" using ids_feed_ws [OF x] c1 by (rule same_ids_trans)
    show ?thesis
      unfolding handle_read_event_def r Let_def
      using keeps_update [OF assms(1) h] c1 c3 Some by (simp add: x keeps_modify split: option.split)
  qed
qed

lemma keeps_write_event:
  assumes "srv_ok s" "get_connection fd (srv_manager s) = Some c0" "same_ids c c0"
  shows "keeps s (snd (finish_write fd (handle_write_event w cfg c) s))"
proof -
  obtain k e d where h: "handle_write_event w cfg c = (k, e, d)" by (cases "handle_write_event w cfg c")
  have "keeps s (put_connection d s)"
    by (rule keeps_update [OF assms(1) has_ids_get [OF assms(2,1)] same_ids_trans [OF ids_write_event [OF h] assms(3)]])
  then show ?thesis by (simp add: h finish_write_def keeps_modify Let_def split: option.split)
qed

lemma keeps_or_close: "keeps s (snd r) \<Longrightarrow> keeps s (keep_or_close fd r)"
  by (simp add: keep_or_close_def keeps_close)

lemma keeps_event_kind:
  assumes "srv_ok s" "get_connection fd (srv_manager s) = Some c0" "same_ids c c0"
  shows "keeps s (case event of Readable \<Rightarrow> keep_or_close fd (handle_read_event w cfg c s)
                  | Writable \<Rightarrow> keep_or_close fd (finish_write fd (handle_write_event w cfg c) s)
                  | _ \<Rightarrow> close_client fd s)"
  using keeps_or_close [OF keeps_read_event [OF assms]] keeps_or_close [OF keeps_write_event [OF assms]]
    keeps_close [OF keeps_refl [OF assms(1)]]
  by (simp split: EventType.split)

lemma get_put:
  assumes "srv_ok s" "get_connection fd (srv_manager s) = Some c0" "same_ids c c0"
  shows "get_connection fd (srv_manager (put_connection c s)) = Some c"
proof -
  have fd: "cn_fd c = fd"
    using assms by (auto simp: srv_ok_def manager_ok_def get_connection_def list_all_iff same_ids_def dest!: map_of_SomeD)
  have "map_of (map (\<lambda>(k, e). (k, if k = fd then c else e)) xs) fd = Some c" if "map_of xs fd = Some c0" for xs
    using that by (induction xs) (auto split: if_splits)
  with assms(2) fd show ?thesis by (simp add: put_connection_def update_connection_def get_connection_def)
qed

lemma modify_manager [simp]: "srv_manager (modify_fd fd e s) = srv_manager s" "srv_closed (modify_fd fd e s) = srv_closed s"
  by (simp_all add: modify_fd_def)

lemma keeps_client_event:
  assumes ok: "srv_ok s" shows "keeps s (client_event w fd event s)"
proof (cases "get_connection fd (srv_manager s)")
  case None
  then show ?thesis by (simp add: client_event_def keeps_remove keeps_refl ok)
next
  case (Some c)
  have plain: "keeps s (client_event w fd event s)" if "\<not> (cn_tls c \<and> cn_state c = CsTlsHandshake \<and> (event = Readable \<or> event = Writable))"
    unfolding client_event_def Some Let_def option.case using that keeps_event_kind [OF ok Some same_ids_refl]
    by (simp only: if_False prod.case option.case)
  show ?thesis
  proof (cases "cn_tls c \<and> cn_state c = CsTlsHandshake \<and> (event = Readable \<or> event = Writable)")
    case True
    let ?d = "c\<lparr>cn_state := CsReading, cn_read := RdHeaders\<rparr>"
    have d: "same_ids ?d c" by simp
    let ?t = "modify_fd fd [EPOLLIN] (put_connection ?d s)"
    have t: "keeps s ?t" by (intro keeps_modify keeps_update [OF ok has_ids_get [OF Some ok] d])
    have g: "get_connection fd (srv_manager ?t) = Some ?d" using get_put [OF ok Some d] by simp
    note after_hs = keeps_trans [OF t keeps_event_kind [OF keeps_ok [OF t] g same_ids_refl]]
    have failed: "keeps s (close_client fd s)" "keeps s (modify_fd fd ev s)" for ev
      by (intro keeps_close keeps_modify keeps_refl ok)+
    show ?thesis
      unfolding client_event_def Some Let_def option.case handshake_event_def
      using True after_hs failed
      by (cases "wd_handshake w") (simp_all only: if_True simp_thms Handshake.case prod.case option.case)
  qed (rule plain)
qed

lemma keeps_upstream: "srv_ok s \<Longrightarrow> keeps s (upstream_event w fd gen ev s)"
  by (simp add: upstream_event_def keeps_proxy_call)

lemma keeps_apply_result: assumes ok: "srv_ok s" shows "keeps s (apply_result w r s)"
proof (cases "get_connection_by_id (wr_connection_id r) (srv_manager s)")
  case (Some c)
  have "keeps s (put_connection (set_output_buffer t (set_deadline cfg now (c\<lparr>cn_worker := False\<rparr>))) s)" for t cfg now
    by (rule keeps_update [OF ok has_ids_by_id [OF Some ok]]) simp
  then show ?thesis unfolding apply_result_def Some option.case Let_def by (rule keeps_modify)
qed (simp add: apply_result_def keeps_refl ok)

lemma keeps_results: "keeps s t \<Longrightarrow> keeps s (foldl (\<lambda>s r. apply_result w r s) t rs)"
proof (induction rs arbitrary: t)
  case (Cons r rs)
  from Cons.IH [OF keeps_trans [OF Cons.prems keeps_apply_result [OF keeps_ok [OF Cons.prems]]]] show ?case by simp
qed simp

lemma keeps_completion: "srv_ok s \<Longrightarrow> keeps s (completion_event w s)"
  unfolding completion_event_def by (rule keeps_results, rule keeps_same [OF keeps_refl]) simp_all

lemma keeps_reload: "srv_ok s \<Longrightarrow> keeps s (reload_event w b s)"
  by (rule keeps_same [OF keeps_refl]) (simp_all add: reload_event_def)

lemma keeps_modify_fold: "keeps s t \<Longrightarrow> keeps s (foldl (\<lambda>s fd. modify_fd fd e s) t fds)"
  by (induction fds arbitrary: t) (simp_all add: keeps_modify)

lemma keeps_ping: "srv_ok s \<Longrightarrow> keeps s (ping_event w s)"
proof -
  assume ok: "srv_ok s"
  obtain fds m where m: "maintain_websockets (unat (cfg_ws_ping_interval_ms (live_config s))) (wd_now w) (srv_manager s) = (fds, m)"
    by fastforce
  have "manager_ok m" using maintain_ok [of "srv_manager s"] ok m by (metis snd_conv srv_ok_def)
  moreover have "map fst (cm_conns m) = map fst (cm_conns (srv_manager s))"
    using m by (auto simp: maintain_websockets_def Let_def case_prod_unfold)
  ultimately have "keeps s (s\<lparr>srv_manager := m\<rparr>)"
    using ok by (simp add: keeps_def srv_ok_def fd_account_def srv_fds_def)
  then show ?thesis by (simp add: ping_event_def Let_def m keeps_modify_fold keeps_refl ok)
qed

lemma sweep_account:
  assumes ok: "srv_ok s" and m: "sweep_timeouts now (srv_manager s) = (n, closed, m)"
  shows "keeps s (s\<lparr>srv_manager := m, srv_closed := srv_closed s @ closed\<rparr>)"
proof -
  let ?xs = "cm_conns (srv_manager s)" and ?P = "\<lambda>(fd :: int, c). is_timed_out now c"
  have mo: "manager_ok (srv_manager s)" and pos: "list_all (\<lambda>fd. 0 \<le> fd) (map fst ?xs)"
    using ok by (simp_all add: srv_ok_def srv_fds_def)
  have e: "closed = concat (map (closed_by_destructor \<circ> snd) (filter ?P ?xs))"
    "m = (srv_manager s)\<lparr>cm_conns := filter (\<lambda>(fd, c). \<not> is_timed_out now c) ?xs\<rparr>"
    using sweep_timeouts_eq [OF mo, of now] m by simp_all
  have fds: "list_all (\<lambda>(k, c). cn_fd c = k) ?xs" using mo by (simp add: manager_ok_def)
  have "concat (map (closed_by_destructor \<circ> snd) (filter ?P xs)) = map fst (filter ?P xs)"
    if "list_all (\<lambda>(k, c). cn_fd c = k) xs" "list_all (\<lambda>fd. 0 \<le> fd) (map fst xs)" for xs :: "(int \<times> Connection) list"
    using that by (induction xs) (auto simp: closed_by_destructor_def)
  then have closed: "closed = map fst (filter ?P ?xs)" using e(1) fds pos by simp
  have "mset (map fst (filter ?P xs)) + mset (map fst (filter (\<lambda>(fd, c). \<not> is_timed_out now c) xs)) = mset (map fst xs)"
    for xs :: "(int \<times> Connection) list" by (induction xs) auto
  then have acc: "mset closed + mset (map fst (cm_conns m)) = mset (map fst ?xs)" by (simp add: closed e(2))
  have "manager_ok m" by (rule manager_ok_sub [OF mo, of _ "\<lambda>(fd, c). \<not> is_timed_out now c"]) (simp_all add: e(2))
  moreover have "list_all (\<lambda>fd. 0 \<le> fd) (map fst (cm_conns m))" using pos by (auto simp: e(2) list_all_iff)
  ultimately show ?thesis
    using acc by (simp add: keeps_def srv_ok_def fd_account_def srv_fds_def ac_simps)
qed

lemma keeps_maintenance: assumes ok: "srv_ok s" shows "keeps s (maintenance w b s)"
proof -
  obtain n closed m where m: "sweep_timeouts (wd_now w) (srv_manager s) = (n, closed, m)"
    by (cases "sweep_timeouts (wd_now w) (srv_manager s)")
  note a = sweep_account [OF ok m]
  note b = keeps_trans [OF a keeps_proxy_call [OF keeps_ok [OF a]]]
  note c = keeps_trans [OF b keeps_reload [OF keeps_ok [OF b]]]
  note d = keeps_trans [OF c keeps_ping [OF keeps_ok [OF c]]]
  show ?thesis unfolding maintenance_def m Let_def prod.case by (rule d)
qed

lemma keeps_worker: "srv_ok s \<Longrightarrow> keeps s (worker_step run i s)"
  by (rule keeps_same [OF keeps_refl]) (simp_all add: worker_step_def)

subsection \<open>Accepting\<close>

definition accept_rejected :: "World \<Rightarrow> int \<Rightarrow> Server \<Rightarrow> bool" where
  "accept_rejected w fd s \<longleftrightarrow> fst (register_connection (Some (live_config s)) fd (wd_now w) (srv_manager s)) = None"

definition id_room :: "Server \<Rightarrow> bool" where
  "id_room s \<longleftrightarrow> unat (cm_total (srv_manager s)) + 2 < 2 ^ 64"

lemma register_none: "fst (register_connection live fd now m) = None \<Longrightarrow> register_connection live fd now m = (None, m)"
  by (auto simp: register_connection_def Let_def split: if_splits prod.splits)

lemma accept_leaves:
  assumes "srv_ok s" "accept_rejected w fd s"
  shows "accept_event w tls (Some fd) s = s"
  using register_none [of "Some (live_config s)" fd "wd_now w" "srv_manager s"] assms(2)
  by (simp add: accept_event_def accept_rejected_def)

lemma accept_takes:
  assumes ok: "srv_ok s" and r: "\<not> accept_rejected w fd s" and fd: "0 \<le> fd" and room: "id_room s"
  shows "srv_ok (accept_event w tls (Some fd) s) \<and>
    fd_account (accept_event w tls (Some fd) s) = fd_account s + {#fd#}"
proof -
  obtain c m where m: "register_connection (Some (live_config s)) fd (wd_now w) (srv_manager s) = (Some c, m)"
    using r by (cases "register_connection (Some (live_config s)) fd (wd_now w) (srv_manager s)")
      (auto simp: accept_rejected_def)
  let ?t = "s\<lparr>srv_manager := m\<rparr>"
  have conns: "cm_conns m = cm_conns (srv_manager s) @ [(fd, c)]" "cn_fd c = fd"
    using m by (auto simp: register_connection_def connection_new_def generate_connection_id_def Let_def
        split: if_splits)
  have "manager_ok m" using register_ok [of "srv_manager s" "Some (live_config s)" fd "wd_now w"] ok room m
    by (simp add: srv_ok_def id_room_def)
  then have t: "srv_ok ?t" "fd_account ?t = fd_account s + {#fd#}"
    using ok fd by (simp_all add: srv_ok_def fd_account_def srv_fds_def conns)
  have new: "fd \<notin> fst ` set (cm_conns (srv_manager s))"
    using \<open>manager_ok m\<close> by (auto simp: manager_ok_def conns)
  then have g: "get_connection fd (srv_manager ?t) = Some c"
    by (simp add: get_connection_def conns map_add_def) (simp add: map_of_eq_None_iff [THEN iffD2])
  have put: "keeps ?t (put_connection d ?t)" if "same_ids d c" for d
    by (rule keeps_update [OF t(1) has_ids_get [OF g t(1)] that])
  have add: "keeps ?t ((add_watch fd ev u)\<lparr>srv_count := n\<rparr>)" if "keeps ?t u" for ev u n
    by (rule keeps_same [OF that]) (simp_all add: add_watch_def)
  have "keeps ?t (accept_event w tls (Some fd) s)"
    unfolding accept_event_def option.case m prod.case Let_def
    by (rule keeps_if [OF keeps_close [OF keeps_refl [OF t(1)]] add [OF put]]) simp
  with t(2) show ?thesis by (simp add: keeps_def)
qed

subsection \<open>Runs of the server\<close>

definition no_accept :: "Ready \<Rightarrow> bool" where
  "no_accept e \<longleftrightarrow> (case rd_source e of SrcListener _ _ \<Rightarrow> False | _ \<Rightarrow> True)"

lemma keeps_callback:
  assumes "srv_ok s" "case src of SrcListener _ _ \<Rightarrow> False | _ \<Rightarrow> True" shows "keeps s (callback w src fd event s)"
  using assms keeps_completion keeps_reload keeps_upstream keeps_client_event keeps_refl
  by (cases src) (simp_all add: callback_def)

lemma keeps_calls:
  assumes "case src of SrcListener _ _ \<Rightarrow> False | _ \<Rightarrow> True"
  shows "keeps s t \<Longrightarrow> keeps s (foldl (\<lambda>s (event, w). callback w src fd event s) t calls)"
proof (induction calls arbitrary: t)
  case (Cons a calls)
  show ?case
    using Cons.IH [OF keeps_trans [OF Cons.prems keeps_callback [OF keeps_ok [OF Cons.prems] assms]]]
    by (simp add: case_prod_unfold)
qed simp

lemma keeps_batch: "keeps s t \<Longrightarrow> list_all no_accept entries \<Longrightarrow> keeps s (run_batch entries t)"
  unfolding run_batch_def
proof (induction entries arbitrary: t)
  case (Cons e entries)
  have "keeps s (dispatch_entry e t)"
    using Cons.prems keeps_calls [of "rd_source e" s t] by (simp add: dispatch_entry_def no_accept_def)
  from Cons.IH [OF this] Cons.prems(2) show ?case by simp
qed simp

text \<open>
  One step is one event, one batch of events or one maintenance pass; the labels are the descriptor that
  \<^verbatim>\<open>accept\<close> returned, which is not open at that moment, and whether the connection table
  turned it away.
\<close>

inductive server_step :: "Server \<Rightarrow> int list \<Rightarrow> int list \<Rightarrow> Server \<Rightarrow> bool" where
  client: "server_step s [] [] (client_event w fd event s)"
| batch: "list_all no_accept entries \<Longrightarrow> server_step s [] [] (run_batch entries s)"
| upstream: "server_step s [] [] (upstream_event w fd generation event s)"
| completion: "server_step s [] [] (completion_event w s)"
| worker: "server_step s [] [] (worker_step run i s)"
| reload: "server_step s [] [] (reload_event w requested s)"
| maintain: "server_step s [] [] (maintenance w requested s)"
| taken: "0 \<le> fd \<Longrightarrow> fd \<notin> set (srv_fds s) \<Longrightarrow> id_room s \<Longrightarrow> \<not> accept_rejected w fd s \<Longrightarrow>
    server_step s [fd] [] (accept_event w tls (Some fd) s)"
| turned_away: "accept_rejected w fd s \<Longrightarrow> server_step s [fd] [fd] (accept_event w tls (Some fd) s)"

inductive server_run :: "Server \<Rightarrow> int list \<Rightarrow> int list \<Rightarrow> Server \<Rightarrow> bool" for s0 where
  start: "server_run s0 [] [] s0"
| more: "server_run s0 accepted away s \<Longrightarrow> server_step s a b t \<Longrightarrow> server_run s0 (accepted @ a) (away @ b) t"

inductive_cases server_stepE: "server_step s a b t"

lemma step_account:
  assumes "srv_ok s" "server_step s a b t"
  shows "srv_ok t \<and> fd_account t + mset b = fd_account s + mset a"
  using assms(2)
proof cases
  case (batch entries)
  with keeps_batch [OF keeps_refl [OF assms(1)]] show ?thesis by (simp add: keeps_def)
next
  case (taken fd w tls)
  with accept_takes [OF assms(1)] show ?thesis by simp
next
  case (turned_away w fd tls)
  with accept_leaves [OF assms(1)] assms(1) show ?thesis by simp
qed (use assms(1) keeps_client_event keeps_upstream keeps_completion keeps_worker keeps_reload keeps_maintenance
    in \<open>auto simp: keeps_def\<close>)

lemma run_account:
  "server_run s0 accepted away s \<Longrightarrow> srv_ok s0 \<Longrightarrow> srv_ok s \<and> fd_account s + mset away = fd_account s0 + mset accepted"
proof (induction rule: server_run.induct)
  case (more accepted away s a b t)
  with step_account [of s a b t] have "srv_ok t" "fd_account t + mset b = fd_account s + mset a"
    "fd_account s + mset away = fd_account s0 + mset accepted" by auto
  then have "fd_account t + mset b + mset away = fd_account s0 + mset accepted + mset a"
    by (metis (no_types, lifting) add.commute add.left_commute)
  with \<open>srv_ok t\<close> show ?case by (simp add: ac_simps)
qed simp

definition server_new :: "ServerConfig \<Rightarrow> string \<Rightarrow> (ProxyTarget \<Rightarrow> string option) \<Rightarrow> Server" where
  "server_new cfg path resolve =
     \<lparr>srv_admin = \<lparr>ad_store = store_new cfg path, ad_proxy = handler_new resolve cfg,
        ad_log_level = snd (set_level_from_string (cfg_log_level cfg) INFO)\<rparr>,
      srv_manager = manager_new cfg, srv_tasks = [], srv_results = [], srv_watch = [], srv_closed = [], srv_count = 0\<rparr>"

lemma server_new_ok: "srv_ok (server_new cfg path resolve)" "fd_account (server_new cfg path resolve) = {#}"
  by (simp_all add: server_new_def srv_ok_def manager_new_def manager_ok_def srv_fds_def fd_account_def)

text \<open>
  C7: What happens to every accepted descriptor.  In any run, whatever clients,
  upstreams, workers and reloads do, the descriptors accepted so far are those still
  filed in the connection table, those closed, and those turned away at capacity; each
  is in exactly one class.  The last class is never closed.
\<close>

theorem accepted_descriptors:
  assumes "server_run (server_new cfg path resolve) accepted away s"
  shows "mset accepted = mset (srv_fds s) + mset (srv_closed s) + mset away \<and>
    distinct (srv_fds s) \<and> manager_ok (srv_manager s)"
proof -
  have ok: "srv_ok s" and acc: "fd_account s + mset away = mset accepted"
    using run_account [OF assms server_new_ok(1)] unfolding server_new_ok(2) by simp_all
  have "mset accepted = mset (srv_fds s) + mset (srv_closed s) + mset away"
    using acc by (simp add: fd_account_def ac_simps)
  moreover have "manager_ok (srv_manager s)" using ok by (simp add: srv_ok_def)
  moreover from this have "distinct (srv_fds s)" by (simp add: manager_ok_def srv_fds_def)
  ultimately show ?thesis by simp
qed

definition sample_world :: World where
  "sample_world =
     \<lparr>wd_files = sample_files, wd_answers = sample_answers 0, wd_recv = RecvWouldBlock, wd_tls_read = TlsReadWant,
      wd_send = SendWouldBlock, wd_tls_write = TlsWriteWant, wd_handshake = HsFailed, wd_pool_open = True\<rparr>"

definition sample_server :: "64 word \<Rightarrow> Server" where
  "sample_server limit = server_new (config_default\<lparr>cfg_max_connections := ucast limit, cfg_document_root := ''./www''\<rparr>) [] (\<lambda>_. None)"

lemma accepted_descriptors_witness:
  "let s1 = accept_event sample_world None (Some 5) (sample_server 1);
       s2 = accept_event sample_world None (Some 6) s1;
       s3 = client_event sample_world 5 Hangup s2;
       s4 = accept_event sample_world None (Some 7) s3
   in server_run (sample_server 1) [5, 6, 7] [6] s4 \<and> srv_fds s4 = [7] \<and> srv_closed s4 = [5]"
proof -
  let ?w = sample_world and ?s0 = "sample_server 1"
  let ?s1 = "accept_event ?w None (Some 5) ?s0"
  let ?s2 = "accept_event ?w None (Some 6) ?s1"
  let ?s3 = "client_event ?w 5 Hangup ?s2"
  let ?s4 = "accept_event ?w None (Some 7) ?s3"
  have 1: "server_step ?s0 [5] [] ?s1" by (rule server_step.taken) code_simp+
  have 2: "server_step ?s1 [6] [6] ?s2" by (rule server_step.turned_away) code_simp
  have 3: "server_step ?s2 [] [] ?s3" by (rule server_step.client)
  have 4: "server_step ?s3 [7] [] ?s4" by (rule server_step.taken) code_simp+
  have r: "server_run ?s0 [5, 6, 7] [6] ?s4"
    using server_run.more [OF server_run.more [OF server_run.more [OF server_run.more [OF server_run.start 1] 2] 3] 4] by simp
  have f: "srv_fds ?s4 = [7]" by code_simp
  have "mset [5, 6, 7] = mset (srv_fds ?s4) + mset (srv_closed ?s4) + mset [6]"
    using accepted_descriptors [OF r [unfolded sample_server_def]] by (simp add: sample_server_def)
  then have "mset (srv_closed ?s4) = mset [5]" unfolding f by simp
  then have "srv_closed ?s4 = [5]" by (metis mset_single_iff_right mset.simps)
  with r f show ?thesis by simp
qed

end
