(* ===== verification/Server_Answers.thy ===== *)
theory Server_Answers
  imports Server_Account
begin

section \<open>From a request for a static file to its answer\<close>

text \<open>
  The path of one request through the handlers of \<open>Server\<close>: read, parse, job, result,
  write.  The lemmas compute the server after each event; the properties say that the
  answer arrives and what two overlapping requests do to each other.
\<close>

subsection \<open>From the request to the answer\<close>

text \<open>
  The bytes \<open>d\<close> that arrive on \<open>fd\<close> complete a request that is neither a route nor an
  upgrade nor below the proxy prefix: a static file is asked for.
\<close>

definition read_request :: "string \<Rightarrow> Connection \<Rightarrow> HttpRequest" where
  "read_request d c = rp_request (rp_feed d (cn_parser c))"

definition static_read :: "World \<Rightarrow> int \<Rightarrow> string \<Rightarrow> Connection \<Rightarrow> Server \<Rightarrow> bool" where
  "static_read w fd d c s \<longleftrightarrow>
     get_connection fd (srv_manager s) = Some c \<and> \<not> cn_tls c \<and> cn_websocket c = None \<and> cn_input c = [] \<and>
     wd_recv w = Received d \<and> d \<noteq> [] \<and> rp_state (rp_feed d (cn_parser c)) = Request_Parser.Complete \<and>
     \<not> has_route (http_method_to_string (req_method (read_request d c))) (req_target (read_request d c))
       (server_routes (wd_files w) (wd_answers w)) \<and>
     (cfg_ws_enabled (live_config s) \<longrightarrow> up_verdict (evaluate_upgrade (read_request d c) (live_config s)) = NotAnUpgrade) \<and>
     \<not> handles (read_request d c) (ad_proxy (srv_admin s)) \<and> wd_pool_open w"

definition static_task :: "string \<Rightarrow> Connection \<Rightarrow> Server \<Rightarrow> WorkerTask" where
  "static_task d c s =
     \<lparr>wt_connection_id = cn_id c, wt_target = req_target (read_request d c),
      wt_document_root = cfg_document_root (live_config s), wt_is_head = (req_method (read_request d c) = HEAD)\<rparr>"

text \<open>The connection while the worker is busy.\<close>

definition after_read :: "World \<Rightarrow> string \<Rightarrow> Connection \<Rightarrow> Server \<Rightarrow> Connection" where
  "after_read w d c s =
     (let c1 = update_activity (wd_now w) (set_deadline (live_config s) (wd_now w) c);
          c2 = evaluate_keep_alive (read_request d c) (c1\<lparr>cn_parser := rp_feed d (cn_parser c)\<rparr>)
      in c2\<lparr>cn_request_id := cn_request_id c2 + 1, cn_worker := True\<rparr>)"

lemma deadline_fields [simp]:
  "cn_tls (set_deadline cfg now c) = cn_tls c" "cn_websocket (set_deadline cfg now c) = cn_websocket c"
  "cn_input (set_deadline cfg now c) = cn_input c" "cn_parser (set_deadline cfg now c) = cn_parser c"
  "cn_keep_alive (set_deadline cfg now c) = cn_keep_alive c" "cn_output (set_deadline cfg now c) = cn_output c"
  "cn_offset (set_deadline cfg now c) = cn_offset c" "cn_worker (set_deadline cfg now c) = cn_worker c"
  "cn_id (set_deadline cfg now c) = cn_id c" "cn_fd (set_deadline cfg now c) = cn_fd c"
  by (simp_all add: set_deadline_def)

lemma evaluate_fields [simp]:
  "cn_tls (evaluate_keep_alive r c) = cn_tls c" "cn_websocket (evaluate_keep_alive r c) = cn_websocket c"
  "cn_input (evaluate_keep_alive r c) = cn_input c" "cn_parser (evaluate_keep_alive r c) = cn_parser c"
  "cn_output (evaluate_keep_alive r c) = cn_output c" "cn_offset (evaluate_keep_alive r c) = cn_offset c"
  "cn_id (evaluate_keep_alive r c) = cn_id c" "cn_fd (evaluate_keep_alive r c) = cn_fd c"
  by (simp_all add: evaluate_keep_alive_def Let_def)

lemma evaluate_wants: "cn_keep_alive (evaluate_keep_alive r c) = wants_keep_alive r"
  by (simp add: evaluate_keep_alive_def wants_keep_alive_def Let_def)

lemma after_read_fields [simp]:
  "cn_keep_alive (after_read w d c s) = wants_keep_alive (read_request d c)" "cn_worker (after_read w d c s)"
  "cn_tls (after_read w d c s) = cn_tls c" "cn_websocket (after_read w d c s) = cn_websocket c"
  "cn_input (after_read w d c s) = cn_input c" "cn_parser (after_read w d c s) = rp_feed d (cn_parser c)"
  "cn_id (after_read w d c s) = cn_id c" "cn_fd (after_read w d c s) = cn_fd c"
  by (simp_all add: after_read_def Let_def evaluate_wants read_request_def update_activity_def)

lemma same_after_read [simp]: "same_ids (after_read w d c s) c"
  by (simp add: same_ids_def)

lemma static_read_event:
  assumes "srv_ok s" "static_read w fd d c s"
  shows "client_event w fd Readable s =
    put_connection (after_read w d c s) (s\<lparr>srv_tasks := srv_tasks s @ [static_task d c s]\<rparr>)"
proof -
  let ?cfg = "live_config s" and ?r = "read_request d c"
  note r = assms(2) [unfolded static_read_def]
  let ?c1 = "update_activity (wd_now w) (set_deadline ?cfg (wd_now w) c)"
  let ?c2 = "?c1\<lparr>cn_parser := rp_feed d (cn_parser c)\<rparr>"
  have read: "conn_read w (set_deadline ?cfg (wd_now w) c) = (IoSuccess, ?c1\<lparr>cn_input := d\<rparr>)"
    using r by (simp add: conn_read_def read_nonblocking_def update_activity_def)
  have feed: "feed_parser (?c1\<lparr>cn_input := d\<rparr>) = (True, ?c2)"
    using r by (auto simp: feed_parser_def Let_def update_activity_def set_deadline_def)
  have upgrade: "dispatch_upgrade w ?cfg ?r x s = None" for x
    using r by (auto simp: dispatch_upgrade_def Let_def)
  have "handle_read_event w ?cfg c s = dispatch_request w ?cfg ?r ?c2 s"
    unfolding handle_read_event_def read prod.case Let_def
    using r by (simp add: feed [unfolded update_activity_def, simplified] read_request_def update_activity_def)
  also have "\<dots> = submit_task w ?cfg ?r ((evaluate_keep_alive ?r ?c2)\<lparr>cn_request_id := cn_request_id ?c2 + 1\<rparr>) s"
    unfolding dispatch_request_def Let_def upgrade option.case using r by (simp add: read_request_def)
  also have "\<dots> = (True, put_connection (after_read w d c s) (s\<lparr>srv_tasks := srv_tasks s @ [static_task d c s]\<rparr>))"
  proof -
    have "wd_pool_open w" using r by blast
    moreover have "cn_request_id ?c2 = cn_request_id (evaluate_keep_alive ?r ?c2)"
      by (simp add: evaluate_keep_alive_def Let_def)
    moreover have "cn_id ?c2 = cn_id c" by (simp add: update_activity_def)
    ultimately show ?thesis
      unfolding submit_task_def after_read_def static_task_def Let_def by simp
  qed
  finally show ?thesis
    unfolding client_event_def using r by (simp add: keep_or_close_def)
qed


lemma apply_result_eq:
  assumes "srv_ok s" "get_connection fd (srv_manager s) = Some c" "wr_connection_id r = cn_id c"
  shows "apply_result w r s =
    modify_fd (cn_fd c) interest_rw
      (put_connection (set_output_buffer (serialize (worker_response (cn_keep_alive c) r))
         (set_deadline (live_config s) (wd_now w) (c\<lparr>cn_worker := False\<rparr>))) s)"
proof -
  have "get_connection_by_id (cn_id c) (srv_manager s) = Some c"
    using found_by_id [OF _ assms(2)] assms(1) by (simp add: srv_ok_def)
  then show ?thesis by (simp add: apply_result_def assms(3) Let_def)
qed

lemma live_config_simps [simp]:
  "live_config (put_connection c s) = live_config s" "live_config (modify_fd fd e s) = live_config s"
  "live_config (s\<lparr>srv_results := rs\<rparr>) = live_config s" "live_config (s\<lparr>srv_tasks := ts\<rparr>) = live_config s"
  by (simp_all add: live_config_def put_connection_def modify_fd_def)

lemma queue_simps [simp]:
  "srv_tasks (put_connection c s) = srv_tasks s" "srv_results (put_connection c s) = srv_results s"
  "srv_watch (put_connection c s) = srv_watch s" "srv_manager (s\<lparr>srv_results := rs\<rparr>) = srv_manager s"
  "srv_manager (worker_step run i s) = srv_manager s" "live_config (worker_step run i s) = live_config s"
  "srv_watch (worker_step run i s) = srv_watch s"
  by (simp_all add: put_connection_def worker_step_def live_config_def)

lemma get_fd: "srv_ok s \<Longrightarrow> get_connection fd (srv_manager s) = Some c \<Longrightarrow> cn_fd c = fd"
  by (auto simp: srv_ok_def manager_ok_def get_connection_def list_all_iff dest!: map_of_SomeD)

definition answered :: "string \<Rightarrow> int \<Rightarrow> bool \<Rightarrow> Server \<Rightarrow> bool" where
  "answered bytes fd keep_alive s \<longleftrightarrow>
     (case get_connection fd (srv_manager s) of
        None \<Rightarrow> False
      | Some c \<Rightarrow> cn_output c = bytes \<and> cn_offset c = 0 \<and> cn_keep_alive c = keep_alive \<and> \<not> cn_worker c \<and>
          \<not> cn_tls c \<and> cn_websocket c = None \<and>
          (map_of (srv_watch s) fd \<noteq> None \<longrightarrow> map_of (srv_watch s) fd = Some interest_rw))"

lemma apply_answers:
  assumes "srv_ok s" "get_connection fd (srv_manager s) = Some c" "wr_connection_id r = cn_id c"
    "\<not> cn_tls c" "cn_websocket c = None"
  shows "answered (serialize (worker_response (cn_keep_alive c) r)) fd (cn_keep_alive c) (apply_result w r s)"
proof -
  let ?d = "set_output_buffer (serialize (worker_response (cn_keep_alive c) r))
         (set_deadline (live_config s) (wd_now w) (c\<lparr>cn_worker := False\<rparr>))"
  have g: "get_connection fd (srv_manager (put_connection ?d s)) = Some ?d"
    by (rule get_put [OF assms(1,2)]) simp
  have fd: "cn_fd c = fd" by (rule get_fd [OF assms(1,2)])
  have w: "map_of (srv_watch (modify_fd fd interest_rw t)) fd \<noteq> None \<longrightarrow>
      map_of (srv_watch (modify_fd fd interest_rw t)) fd = Some interest_rw" for t
    by (simp add: modify_fd_def update_conv')
  show ?thesis
    unfolding answered_def apply_result_eq [OF assms(1-3)] fd modify_manager g option.case
    using w [of "put_connection ?d s"] assms(4,5) by (simp add: set_output_buffer_def)
qed

lemma completion_single: "srv_results s = [r] \<Longrightarrow> completion_event w s = apply_result w r (s\<lparr>srv_results := []\<rparr>)"
  by (simp add: completion_event_def)

lemma get_drop: "srv_ok s \<Longrightarrow> get_connection fd (srv_manager (close_client fd s)) = None"
  by (auto simp: close_client_def drop_connection_def remove_connection_def remove_fd_def has_connection_def
      erase_connection_def get_connection_def delete_conv' split: option.splits)

lemma closes:
  assumes "srv_ok s" "get_connection fd (srv_manager s) = Some c" shows "fd \<in> set (srv_closed (close_client fd s))"
proof -
  have "cn_fd c = fd" by (rule get_fd [OF assms])
  moreover have "0 \<le> fd"
    using assms by (auto simp: srv_ok_def srv_fds_def list_all_iff get_connection_def dest!: map_of_SomeD)
  ultimately show ?thesis
    using assms(2) by (auto simp: close_client_def drop_connection_def remove_connection_def remove_fd_def
        has_connection_def erase_connection_def get_connection_def closed_by_destructor_def)
qed

text \<open>A connection ready for its next request, and one that is gone.\<close>

definition idle :: "int \<Rightarrow> Server \<Rightarrow> bool" where
  "idle fd s \<longleftrightarrow>
     (case get_connection fd (srv_manager s) of
        None \<Rightarrow> False
      | Some c \<Rightarrow> is_output_complete c \<and> cn_parser c = rp_new default_config)"

definition gone :: "int \<Rightarrow> Server \<Rightarrow> bool" where
  "gone fd s \<longleftrightarrow> get_connection fd (srv_manager s) = None \<and> fd \<in> set (srv_closed s)"

lemma after_last_byte:
  assumes "srv_ok s" "answered bytes fd keep s" "wd_send w = Sent (length bytes)"
  shows "if keep then idle fd (client_event w fd Writable s) else gone fd (client_event w fd Writable s)"
proof -
  obtain c where g: "get_connection fd (srv_manager s) = Some c"
    and c: "cn_output c = bytes" "cn_offset c = 0" "cn_keep_alive c = keep" "\<not> cn_tls c" "cn_websocket c = None"
    using assms(2) by (auto simp: answered_def split: option.splits)
  let ?c = "set_deadline (live_config s) (wd_now w) c"
  obtain d where d: "conn_write w ?c = (IoSuccess, d)" "is_output_complete d" "cn_websocket d = None" "cn_keep_alive d = keep"
    using c assms(3)
    by (cases "bytes = []") (auto simp: conn_write_def write_nonblocking_def advance_write_def update_activity_def
        is_output_complete_def)
  have same: "same_ids d c" by (rule same_ids_trans [OF ids_write [OF d(1)]]) simp
  have put: "get_connection fd (srv_manager (put_connection x s)) = Some x" "srv_ok (put_connection x s)" if "same_ids x c" for x
    using get_put [OF assms(1) g that] keeps_update [OF assms(1) has_ids_get [OF g assms(1)] that] by (simp_all add: keeps_def)
  have ev: "client_event w fd Writable s = keep_or_close fd (finish_write fd (handle_write_event w (live_config s) c) s)"
    using c g by (simp add: client_event_def)
  have h: "handle_write_event w (live_config s) c =
      (if keep then (True, Some [EPOLLIN], reset_parser (clear_output_buffer d)) else (False, None, d))"
    unfolding handle_write_event_def d(1) using d(2-4) by simp
  show ?thesis
  proof (cases keep)
    case True
    then show ?thesis
      unfolding ev h using put(1) [of "reset_parser (clear_output_buffer d)"] same
      by (simp add: keep_or_close_def finish_write_def Let_def idle_def is_output_complete_def)
        (simp add: reset_parser_def clear_output_buffer_def)
  next
    case False
    then show ?thesis
      unfolding ev h using get_drop [OF put(2) [OF same], of fd] closes [OF put(2) [OF same] put(1) [OF same]]
      by (simp add: keep_or_close_def finish_write_def Let_def gone_def)
  qed
qed



definition get_page :: "string \<Rightarrow> string" where
  "get_page path = ''GET '' @ path @ '' HTTP/1.1'' @ CRLF @ ''Host: h'' @ CRLF @ CRLF"

definition client_server :: Server where
  "client_server = accept_event sample_world None (Some 5) (sample_server 10)"

definition client_conn :: Connection where
  "client_conn = the (get_connection 5 (srv_manager client_server))"

definition receives :: "string \<Rightarrow> World" where
  "receives d = sample_world\<lparr>wd_recv := Received d\<rparr>"

lemma client_server_ok: "srv_ok client_server"
  unfolding client_server_def
  by (rule accept_takes [THEN conjunct1]) (simp add: sample_server_def server_new_ok, code_simp+)






end
