(* ===== verification/Worker_Pool.thy ===== *)
theory Worker_Pool
  imports Prelude "HOL-Library.Multiset"
begin

section \<open>The worker pool: \<^verbatim>\<open>worker_pool.h\<close>, \<^verbatim>\<open>worker_completion_handler.cpp\<close>\<close>

text \<open>
  A concurrent model: the workers and the event loop as threads, one step per critical
  section of the queue's mutex.  A thread in \<^verbatim>\<open>wait\<close> is asleep until a notification (or
  a spurious wake-up) makes it contend for the mutex again; then it tests its predicate
  once more.  Jobs are of any type \<open>'a\<close>, results of type \<open>'r\<close>; \<open>pl_accepted\<close>,
  \<open>pl_taken\<close> and \<open>pl_collected\<close> record what entered the queue, left it and reached the
  event loop.  The event loop is the only thread that submits, collects and shuts down.
\<close>

datatype 'a Worker = WkReady | WkAsleep | WkWoken | WkRunning 'a | WkPublished | WkExited

datatype 'a Loop = LpIdle | LpAsleep 'a | LpWoken 'a | LpCollecting | LpJoining | LpJoined

record ('a, 'r) Pool =
  pl_items :: "'a list"
  pl_max :: nat
  pl_shutdown :: bool
  pl_workers :: "'a Worker list"
  pl_loop :: "'a Loop"
  pl_results :: "'r list"
  pl_event :: nat
  pl_accepted :: "'a list"
  pl_taken :: "'a list"
  pl_collected :: "'r list"

definition worker_pool_new :: "nat \<Rightarrow> nat \<Rightarrow> ('a, 'r) Pool" where
  "worker_pool_new num_workers max_queue_size =
     \<lparr>pl_items = [], pl_max = max_queue_size, pl_shutdown = False, pl_workers = replicate num_workers WkReady,
      pl_loop = LpIdle, pl_results = [], pl_event = 0, pl_accepted = [], pl_taken = [], pl_collected = []\<rparr>"

subsection \<open>The queue\<close>

text \<open>\<open>notify_one\<close> wakes the thread \<open>k\<close> if it sleeps; which one the system chooses is open.\<close>

definition asleep :: "('a, 'r) Pool \<Rightarrow> nat set" where
  "asleep p = {k. k < length (pl_workers p) \<and> pl_workers p ! k = WkAsleep}"

definition notify_not_empty :: "nat \<Rightarrow> ('a, 'r) Pool \<Rightarrow> ('a, 'r) Pool" where
  "notify_not_empty k p =
     (if k < length (pl_workers p) \<and> pl_workers p ! k = WkAsleep then p\<lparr>pl_workers := (pl_workers p)[k := WkWoken]\<rparr> else p)"

definition notify_not_full :: "('a, 'r) Pool \<Rightarrow> ('a, 'r) Pool" where
  "notify_not_full p = (case pl_loop p of LpAsleep j \<Rightarrow> p\<lparr>pl_loop := LpWoken j\<rparr> | _ \<Rightarrow> p)"

text \<open>
  One round of \<open>push\<close> under the mutex: it sleeps, is refused (\<^verbatim>\<open>submit\<close> throws) or enqueues and
  notifies.
\<close>

definition push_round :: "nat \<Rightarrow> 'a \<Rightarrow> ('a, 'r) Pool \<Rightarrow> ('a, 'r) Pool" where
  "push_round k job p =
     (if \<not> (length (pl_items p) < pl_max p \<or> pl_shutdown p) then p\<lparr>pl_loop := LpAsleep job\<rparr>
      else if pl_shutdown p then p\<lparr>pl_loop := LpIdle\<rparr>
      else notify_not_empty k
        (p\<lparr>pl_items := pl_items p @ [job], pl_accepted := pl_accepted p @ [job], pl_loop := LpIdle\<rparr>))"

text \<open>One round of \<open>pop\<close> by worker \<open>i\<close>, and \<open>worker_loop\<close>'s reaction to its result.\<close>

definition pop_round :: "nat \<Rightarrow> ('a, 'r) Pool \<Rightarrow> ('a, 'r) Pool" where
  "pop_round i p =
     (if \<not> (pl_items p \<noteq> [] \<or> pl_shutdown p) then p\<lparr>pl_workers := (pl_workers p)[i := WkAsleep]\<rparr>
      else if pl_shutdown p \<and> pl_items p = [] then p\<lparr>pl_workers := (pl_workers p)[i := WkExited]\<rparr>
      else notify_not_full
        (p\<lparr>pl_items := tl (pl_items p), pl_taken := pl_taken p @ [hd (pl_items p)],
           pl_workers := (pl_workers p)[i := WkRunning (hd (pl_items p))]\<rparr>))"

definition wake_worker :: "'a Worker \<Rightarrow> 'a Worker" where
  "wake_worker x = (case x of WkAsleep \<Rightarrow> WkWoken | _ \<Rightarrow> x)"

definition queue_shutdown :: "('a, 'r) Pool \<Rightarrow> ('a, 'r) Pool" where
  "queue_shutdown p = notify_not_full (p\<lparr>pl_shutdown := True, pl_workers := map wake_worker (pl_workers p)\<rparr>)"

subsection \<open>The completion queue\<close>

text \<open>
  \<open>enqueue_result\<close> has two visible steps: the result is queued, then the event descriptor
  is written.  \<open>clear_event\<close> reads the descriptor, which resets it.
\<close>

definition queue_result :: "nat \<Rightarrow> 'r \<Rightarrow> ('a, 'r) Pool \<Rightarrow> ('a, 'r) Pool" where
  "queue_result i r p = p\<lparr>pl_results := pl_results p @ [r], pl_workers := (pl_workers p)[i := WkPublished]\<rparr>"

definition write_event :: "nat \<Rightarrow> ('a, 'r) Pool \<Rightarrow> ('a, 'r) Pool" where
  "write_event i p = p\<lparr>pl_event := pl_event p + 1, pl_workers := (pl_workers p)[i := WkReady]\<rparr>"

definition clear_event :: "('a, 'r) Pool \<Rightarrow> ('a, 'r) Pool" where
  "clear_event p = p\<lparr>pl_event := 0, pl_loop := LpCollecting\<rparr>"

definition dequeue_result :: "('a, 'r) Pool \<Rightarrow> ('a, 'r) Pool" where
  "dequeue_result p =
     (case pl_results p of
        [] \<Rightarrow> p\<lparr>pl_loop := LpIdle\<rparr>
      | r # rs \<Rightarrow> p\<lparr>pl_results := rs, pl_collected := pl_collected p @ [r]\<rparr>)"

subsection \<open>Steps\<close>

definition worker_at :: "nat \<Rightarrow> 'a Worker \<Rightarrow> ('a, 'r) Pool \<Rightarrow> bool" where
  "worker_at i x p \<longleftrightarrow> i < length (pl_workers p) \<and> pl_workers p ! i = x"

text \<open>
  \<open>thread_step\<close> are the steps the threads make by themselves; \<open>wp_step\<close> adds what the
  event loop decides from outside: to submit, to collect, to shut down, and spurious
  wake-ups.
\<close>

inductive thread_step :: "('a \<Rightarrow> 'r) \<Rightarrow> ('a, 'r) Pool \<Rightarrow> ('a, 'r) Pool \<Rightarrow> bool" for run where
  pop: "worker_at i WkReady p \<or> worker_at i WkWoken p \<Longrightarrow> thread_step run p (pop_round i p)"
| result: "worker_at i (WkRunning j) p \<Longrightarrow> thread_step run p (queue_result i (run j) p)"
| publish: "worker_at i WkPublished p \<Longrightarrow> thread_step run p (write_event i p)"
| retry: "pl_loop p = LpWoken j \<Longrightarrow> k \<in> asleep p \<or> asleep p = {} \<Longrightarrow> thread_step run p (push_round k j p)"
| collect: "pl_loop p = LpCollecting \<Longrightarrow> thread_step run p (dequeue_result p)"
| joined: "pl_loop p = LpJoining \<Longrightarrow> list_all (\<lambda>x. x = WkExited) (pl_workers p) \<Longrightarrow> thread_step run p (p\<lparr>pl_loop := LpJoined\<rparr>)"

inductive wp_step :: "('a \<Rightarrow> 'r) \<Rightarrow> ('a, 'r) Pool \<Rightarrow> ('a, 'r) Pool \<Rightarrow> bool" for run where
  thread: "thread_step run p q \<Longrightarrow> wp_step run p q"
| submit: "pl_loop p = LpIdle \<Longrightarrow> k \<in> asleep p \<or> asleep p = {} \<Longrightarrow> wp_step run p (push_round k j p)"
| readable: "pl_loop p = LpIdle \<Longrightarrow> 0 < pl_event p \<Longrightarrow> wp_step run p (clear_event p)"
| spurious: "worker_at i WkAsleep p \<Longrightarrow> wp_step run p (p\<lparr>pl_workers := (pl_workers p)[i := WkWoken]\<rparr>)"
| spurious_push: "pl_loop p = LpAsleep j \<Longrightarrow> wp_step run p (p\<lparr>pl_loop := LpWoken j\<rparr>)"
| shutdown: "pl_loop p = LpIdle \<Longrightarrow> wp_step run p ((queue_shutdown p)\<lparr>pl_loop := LpJoining\<rparr>)"

inductive wp_reach :: "('a \<Rightarrow> 'r) \<Rightarrow> ('a, 'r) Pool \<Rightarrow> ('a, 'r) Pool \<Rightarrow> bool" for run p0 where
  start: "wp_reach run p0 p0"
| step: "wp_reach run p0 p \<Longrightarrow> wp_step run p q \<Longrightarrow> wp_reach run p0 q"

inductive_cases thread_stepE: "thread_step run p q"
inductive_cases wp_stepE: "wp_step run p q"


subsection \<open>The invariant\<close>

lemma sum_list_update_add:
  fixes w :: "'b \<Rightarrow> 'm::comm_monoid_add"
  shows "i < length xs \<Longrightarrow> sum_list (map w (xs[i := x])) + w (xs ! i) = sum_list (map w xs) + w x"
  by (induction xs arbitrary: i) (auto simp: nth_Cons ac_simps split: nat.splits)

text \<open>Workers with a notification they have not acted on yet, and the jobs being run.\<close>

fun notified :: "'a Worker \<Rightarrow> nat" where
  "notified WkWoken = 1" | "notified _ = 0"

fun job_of :: "'a Worker \<Rightarrow> 'a multiset" where
  "job_of (WkRunning j) = {#j#}" | "job_of _ = {#}"

fun weight :: "'a Worker \<Rightarrow> nat" where
  "weight (WkRunning _) = 3" | "weight WkPublished = 2" | "weight WkExited = 0" | "weight _ = 1"

definition woken :: "'a Worker list \<Rightarrow> nat" where
  "woken ws = sum_list (map notified ws)"

definition running :: "'a Worker list \<Rightarrow> 'a multiset" where
  "running ws = sum_list (map job_of ws)"

definition load :: "'a Worker list \<Rightarrow> nat" where
  "load ws = sum_list (map weight ws)"

lemma worker_updates:
  assumes "worker_at i x p"
  shows "woken ((pl_workers p)[i := y]) + notified x = woken (pl_workers p) + notified y"
    "running ((pl_workers p)[i := y]) + job_of x = running (pl_workers p) + job_of y"
    "load ((pl_workers p)[i := y]) + weight x = load (pl_workers p) + weight y"
  using assms sum_list_update_add [of i "pl_workers p" notified y] sum_list_update_add [of i "pl_workers p" job_of y]
    sum_list_update_add [of i "pl_workers p" weight y]
  by (simp_all add: worker_at_def woken_def running_def load_def)

definition queue_ok :: "('a, 'r) Pool \<Rightarrow> bool" where
  "queue_ok p \<longleftrightarrow>
     pl_accepted p = pl_taken p @ pl_items p \<and> length (pl_items p) \<le> pl_max p \<and>
     (WkAsleep \<in> set (pl_workers p) \<longrightarrow> \<not> pl_shutdown p \<and> length (pl_items p) \<le> woken (pl_workers p)) \<and>
     (\<forall>j. pl_loop p = LpAsleep j \<longrightarrow> length (pl_items p) = pl_max p) \<and>
     (WkExited \<in> set (pl_workers p) \<longrightarrow> pl_shutdown p \<and> pl_items p = []) \<and>
     (pl_shutdown p \<longleftrightarrow> pl_loop p = LpJoining \<or> pl_loop p = LpJoined) \<and>
     (pl_loop p = LpJoined \<longrightarrow> list_all (\<lambda>x. x = WkExited) (pl_workers p))"

definition results_ok :: "('a \<Rightarrow> 'r) \<Rightarrow> ('a, 'r) Pool \<Rightarrow> bool" where
  "results_ok run p \<longleftrightarrow>
     image_mset run (mset (pl_taken p)) =
       image_mset run (running (pl_workers p)) + mset (pl_results p) + mset (pl_collected p) \<and>
     (pl_results p \<noteq> [] \<longrightarrow> 0 < pl_event p \<or> pl_loop p = LpCollecting \<or> WkPublished \<in> set (pl_workers p))"

lemmas round_defs = push_round_def pop_round_def notify_not_empty_def notify_not_full_def

lemma update_other: "y \<in> set (xs[i := x]) \<Longrightarrow> y \<noteq> x \<Longrightarrow> y \<in> set xs"
  by (meson in_set_conv_nth insert_iff set_update_subset_insert subsetD)

lemma stays_in: "y \<in> set xs \<Longrightarrow> xs ! i \<noteq> y \<Longrightarrow> y \<in> set (xs[i := x])"
  by (metis in_set_conv_nth length_list_update nth_list_update_neq)

lemma worker_in: "worker_at i x p \<Longrightarrow> x \<in> set (pl_workers p)"
  by (auto simp: worker_at_def)

lemma not_joined: "queue_ok p \<Longrightarrow> worker_at i x p \<Longrightarrow> x \<noteq> WkExited \<Longrightarrow> pl_loop p \<noteq> LpJoined"
  by (auto simp: queue_ok_def list_all_iff dest: worker_in)

lemma notify_full_simps [simp]:
  "pl_items (notify_not_full p) = pl_items p" "pl_max (notify_not_full p) = pl_max p"
  "pl_shutdown (notify_not_full p) = pl_shutdown p" "pl_workers (notify_not_full p) = pl_workers p"
  "pl_results (notify_not_full p) = pl_results p" "pl_event (notify_not_full p) = pl_event p"
  "pl_accepted (notify_not_full p) = pl_accepted p" "pl_taken (notify_not_full p) = pl_taken p"
  "pl_collected (notify_not_full p) = pl_collected p" "pl_loop (notify_not_full p) \<noteq> LpAsleep j"
  "pl_loop (notify_not_full p) = LpJoining \<longleftrightarrow> pl_loop p = LpJoining"
  "pl_loop (notify_not_full p) = LpJoined \<longleftrightarrow> pl_loop p = LpJoined"
  "pl_loop (notify_not_full p) = LpCollecting \<longleftrightarrow> pl_loop p = LpCollecting"
  by (auto simp: notify_not_full_def split: Loop.split)

lemma notify_empty_simps [simp]:
  "pl_items (notify_not_empty k p) = pl_items p" "pl_max (notify_not_empty k p) = pl_max p"
  "pl_shutdown (notify_not_empty k p) = pl_shutdown p" "pl_loop (notify_not_empty k p) = pl_loop p"
  "pl_results (notify_not_empty k p) = pl_results p" "pl_event (notify_not_empty k p) = pl_event p"
  "pl_accepted (notify_not_empty k p) = pl_accepted p" "pl_taken (notify_not_empty k p) = pl_taken p"
  "pl_collected (notify_not_empty k p) = pl_collected p"
  by (auto simp: notify_not_empty_def)

lemma notify_empty_running: "running (pl_workers (notify_not_empty k p)) = running (pl_workers p)"
  using worker_updates(2) [of k WkAsleep p WkWoken] by (simp add: notify_not_empty_def worker_at_def)

lemma notify_empty_others:
  "y \<in> set (pl_workers (notify_not_empty k p)) \<longleftrightarrow> y \<in> set (pl_workers p)" if "y \<noteq> WkAsleep" "y \<noteq> WkWoken"
  using that by (auto simp: notify_not_empty_def set_update_memI in_set_conv_nth nth_list_update)

lemma pop_round_ok:
  assumes ok: "queue_ok p" and i: "worker_at i x p" "x = WkReady \<or> x = WkWoken"
  shows "queue_ok (pop_round i p)"
proof -
  have loop: "pl_loop p \<noteq> LpJoined" using not_joined [OF ok i(1)] i(2) by auto
  consider "pl_items p = []" "\<not> pl_shutdown p" | "pl_items p = []" "pl_shutdown p" | j js where "pl_items p = j # js"
    by (cases "pl_items p") auto
  then show ?thesis
  proof cases
    case 1
    with ok loop show ?thesis by (auto simp: pop_round_def queue_ok_def dest: update_other)
  next
    case 2
    with ok loop show ?thesis by (auto simp: pop_round_def queue_ok_def dest: update_other)
  next
    case (3 j js)
    have w: "woken ((pl_workers p)[i := WkRunning j]) + notified x = woken (pl_workers p)"
      using worker_updates(1) [OF i(1), of "WkRunning j"] by simp
    have n: "notified x \<le> 1" using i(2) by auto
    show ?thesis
      using 3 ok loop w n by (auto simp: pop_round_def queue_ok_def dest!: update_other)
  qed
qed

lemma push_round_ok:
  assumes ok: "queue_ok p" and loop: "pl_loop p = LpIdle \<or> pl_loop p = LpWoken j" and k: "k \<in> asleep p \<or> asleep p = {}"
  shows "queue_ok (push_round k j p)"
proof (cases "length (pl_items p) < pl_max p")
  case False
  with ok loop show ?thesis by (auto simp: push_round_def queue_ok_def)
next
  case True
  have down: "\<not> pl_shutdown p" using ok loop by (auto simp: queue_ok_def)
  let ?q = "p\<lparr>pl_items := pl_items p @ [j], pl_accepted := pl_accepted p @ [j], pl_loop := LpIdle\<rparr>"
  have e: "push_round k j p = notify_not_empty k ?q" using True down by (simp add: push_round_def)
  have "Suc (length (pl_items p)) \<le> woken (pl_workers (notify_not_empty k ?q))"
    if a: "WkAsleep \<in> set (pl_workers (notify_not_empty k ?q))"
  proof -
    have s: "WkAsleep \<in> set (pl_workers p)"
      using a by (auto simp: notify_not_empty_def split: if_splits dest: update_other)
    then have "asleep p \<noteq> {}" by (auto simp: asleep_def in_set_conv_nth)
    then have "worker_at k WkAsleep p" using k by (auto simp: asleep_def worker_at_def)
    then show ?thesis
      using worker_updates(1) [of k WkAsleep p WkWoken] ok s by (simp add: notify_not_empty_def worker_at_def queue_ok_def)
  qed
  moreover have "WkExited \<notin> set (pl_workers (notify_not_empty k ?q))"
    using ok down by (subst notify_empty_others) (auto simp: queue_ok_def)
  ultimately show ?thesis using ok down True loop unfolding e by (auto simp: queue_ok_def)
qed


lemma wake_all: "WkAsleep \<notin> set (map wake_worker ws)" "WkExited \<in> set (map wake_worker ws) \<longleftrightarrow> WkExited \<in> set ws"
  "WkPublished \<in> set (map wake_worker ws) \<longleftrightarrow> WkPublished \<in> set ws" "running (map wake_worker ws) = running ws"
proof (induction ws)
  case (Cons x ws)
  { case 1 from Cons.IH(1) show ?case by (cases x) (simp_all add: wake_worker_def) }
  { case 2 from Cons.IH(2) show ?case by (cases x) (simp_all add: wake_worker_def) }
  { case 3 from Cons.IH(3) show ?case by (cases x) (simp_all add: wake_worker_def) }
  { case 4 from Cons.IH(4) show ?case by (cases x) (simp_all add: wake_worker_def running_def) }
qed (simp_all add: running_def)

lemma worker_change_ok:
  assumes "queue_ok p" "worker_at i x p" "x \<noteq> WkExited" "y \<noteq> WkAsleep" "y \<noteq> WkExited" "notified x \<le> notified y"
    "pl_workers q = (pl_workers p)[i := y]" "pl_items q = pl_items p" "pl_max q = pl_max p" "pl_shutdown q = pl_shutdown p"
    "pl_accepted q = pl_accepted p" "pl_taken q = pl_taken p" "pl_loop q = pl_loop p"
  shows "queue_ok q"
proof -
  let ?ws = "(pl_workers p)[i := y]"
  have a: "WkAsleep \<in> set ?ws \<Longrightarrow> WkAsleep \<in> set (pl_workers p)" "WkExited \<in> set ?ws \<Longrightarrow> WkExited \<in> set (pl_workers p)"
    using assms(4,5) update_other by metis+
  have w: "woken (pl_workers p) \<le> woken ?ws" using worker_updates(1) [OF assms(2), of y] assms(6) by linarith
  have j: "pl_loop p \<noteq> LpJoined" by (rule not_joined [OF assms(1-3)])
  note q = assms(1) [unfolded queue_ok_def]
  have "WkAsleep \<in> set ?ws \<longrightarrow> \<not> pl_shutdown p \<and> length (pl_items p) \<le> woken ?ws"
    using a(1) q w by (blast intro: le_trans)
  moreover have "WkExited \<in> set ?ws \<longrightarrow> pl_shutdown p \<and> pl_items p = []" using a(2) q by blast
  ultimately show ?thesis unfolding queue_ok_def assms(7-13) using q j by blast
qed

lemma queue_ok_loop:
  assumes "queue_ok p" "pl_loop p = LpIdle \<or> pl_loop p = LpCollecting \<or> pl_loop p = LpAsleep j"
    "pl_loop q = LpIdle \<or> pl_loop q = LpCollecting \<or> pl_loop q = LpWoken j"
    "pl_workers q = pl_workers p" "pl_items q = pl_items p" "pl_max q = pl_max p" "pl_shutdown q = pl_shutdown p"
    "pl_accepted q = pl_accepted p" "pl_taken q = pl_taken p"
  shows "queue_ok q"
proof -
  have "\<not> pl_shutdown p" using assms(1,2) unfolding queue_ok_def by (elim disjE) simp_all
  with assms(1,3) show ?thesis unfolding queue_ok_def assms(4-9) by (elim disjE) simp_all
qed

lemma thread_queue_ok: "thread_step run p q \<Longrightarrow> queue_ok p \<Longrightarrow> queue_ok q"
proof (induction rule: thread_step.induct)
  case (pop i p)
  then show ?case using pop_round_ok [of p i] by blast
next
  case (result i j p)
  show ?case by (rule worker_change_ok [OF result(2,1)]) (simp_all add: queue_result_def)
next
  case (publish i p)
  show ?case by (rule worker_change_ok [OF publish(2,1)]) (simp_all add: write_event_def)
next
  case (retry p j k)
  then show ?case by (intro push_round_ok) auto
next
  case (collect p)
  then show ?case
    by (cases "pl_results p") (auto simp: queue_ok_def dequeue_result_def)
next
  case (joined p)
  then show ?case by (auto simp: queue_ok_def)
qed

lemma step_queue_ok: "wp_step run p q \<Longrightarrow> queue_ok p \<Longrightarrow> queue_ok q"
proof (induction rule: wp_step.induct)
  case (thread p q)
  then show ?case by (rule thread_queue_ok)
next
  case (submit p k j)
  then show ?case by (intro push_round_ok) auto
next
  case (readable p)
  show ?case by (rule queue_ok_loop [OF readable(3)]) (simp_all add: readable clear_event_def)
next
  case (spurious i p)
  show ?case by (rule worker_change_ok [OF spurious(2,1)]) simp_all
next
  case (spurious_push p j)
  show ?case by (rule queue_ok_loop [OF spurious_push(2)]) (simp_all add: spurious_push)
next
  case (shutdown p)
  then show ?case using wake_all(1,2) [of "pl_workers p"] by (auto simp: queue_ok_def queue_shutdown_def)
qed

lemma results_worker:
  assumes "results_ok run p" "worker_at i x p" "job_of y = job_of x" "x \<noteq> WkPublished"
    "pl_workers q = (pl_workers p)[i := y]" "pl_results q = pl_results p" "pl_event q = pl_event p"
    "pl_taken q = pl_taken p" "pl_collected q = pl_collected p" "pl_loop q = LpCollecting \<longleftrightarrow> pl_loop p = LpCollecting"
  shows "results_ok run q"
proof -
  have "WkPublished \<in> set (pl_workers p) \<Longrightarrow> WkPublished \<in> set ((pl_workers p)[i := y])"
    using assms(2,4) by (auto simp: worker_at_def intro: stays_in)
  with assms worker_updates(2) [OF assms(2), of y] show ?thesis by (auto simp: results_ok_def)
qed

lemma results_same:
  assumes "results_ok run p" "running (pl_workers q) = running (pl_workers p)"
    "WkPublished \<in> set (pl_workers q) \<longleftrightarrow> WkPublished \<in> set (pl_workers p)"
    "pl_results q = pl_results p" "pl_event q = pl_event p"
    "pl_taken q = pl_taken p" "pl_collected q = pl_collected p" "pl_loop q = LpCollecting \<longleftrightarrow> pl_loop p = LpCollecting"
  shows "results_ok run q"
  using assms by (simp add: results_ok_def)

lemma push_round_results:
  assumes "results_ok run p" "pl_loop p = LpIdle \<or> pl_loop p = LpWoken j"
  shows "results_ok run (push_round k j p)"
  by (rule results_same [OF assms(1)])
    (use assms(2) in \<open>auto simp: push_round_def notify_empty_running notify_empty_others\<close>)

lemma pop_round_results:
  assumes "results_ok run p" "worker_at i x p" "x = WkReady \<or> x = WkWoken"
  shows "results_ok run (pop_round i p)"
proof (cases "pl_items p")
  case Nil
  show ?thesis
    by (cases "pl_shutdown p") (rule results_worker [OF assms(1,2)], use assms(3) Nil in \<open>auto simp: pop_round_def\<close>)+
next
  case (Cons j js)
  have x: "x \<noteq> WkPublished" "job_of x = {#}" using assms(3) by auto
  have "WkPublished \<in> set (pl_workers p) \<Longrightarrow> WkPublished \<in> set ((pl_workers p)[i := WkRunning j])"
    using assms(2) x(1) by (auto simp: worker_at_def intro: stays_in)
  with assms(1) Cons worker_updates(2) [OF assms(2), of "WkRunning j"] x(2)
  show ?thesis by (auto simp: results_ok_def pop_round_def)
qed

lemma thread_results_ok: "thread_step run p q \<Longrightarrow> results_ok run p \<Longrightarrow> results_ok run q"
proof (induction rule: thread_step.induct)
  case (pop i p)
  then show ?case using pop_round_results by blast
next
  case (result i j p)
  have "WkPublished \<in> set ((pl_workers p)[i := WkPublished])"
    using result(1) by (simp add: worker_at_def set_update_memI)
  moreover have "running (pl_workers p) = running ((pl_workers p)[i := WkPublished]) + {#j#}"
    using worker_updates(2) [OF result(1), of WkPublished] by simp
  ultimately show ?case using result(2) by (simp add: results_ok_def queue_result_def)
next
  case (publish i p)
  have "running (pl_workers p) = running ((pl_workers p)[i := WkReady])"
    using worker_updates(2) [OF publish(1), of WkReady] by simp
  with publish(2) show ?case by (simp add: results_ok_def write_event_def)
next
  case (retry p j k)
  then show ?case by (intro push_round_results) auto
next
  case (collect p)
  then show ?case by (cases "pl_results p") (auto simp: results_ok_def dequeue_result_def)
next
  case (joined p)
  then show ?case by (auto simp: results_ok_def)
qed

lemma step_results_ok: "wp_step run p q \<Longrightarrow> results_ok run p \<Longrightarrow> results_ok run q"
proof (induction rule: wp_step.induct)
  case (thread p q)
  then show ?case by (rule thread_results_ok)
next
  case (submit p k j)
  then show ?case by (intro push_round_results) auto
next
  case (readable p)
  then show ?case by (simp add: results_ok_def clear_event_def)
next
  case (spurious i p)
  show ?case by (rule results_worker [OF spurious(2,1)]) simp_all
next
  case (spurious_push p j)
  then show ?case by (simp add: results_ok_def)
next
  case (shutdown p)
  show ?case by (rule results_same [OF shutdown(2)]) (simp_all add: queue_shutdown_def wake_all del: set_map add: shutdown(1))
qed

lemma reach_ok: "wp_reach run (worker_pool_new n m) p \<Longrightarrow> queue_ok p \<and> results_ok run p"
proof (induction rule: wp_reach.induct)
  case start
  have "running (replicate n WkReady) = {#}" by (induction n) (simp_all add: running_def)
  then show ?case by (auto simp: queue_ok_def results_ok_def worker_pool_new_def)
next
  case (step p q)
  then show ?case using step_queue_ok step_results_ok by blast
qed


lemma round_length [simp]:
  "length (pl_workers (push_round k j p)) = length (pl_workers p)" "pl_max (push_round k j p) = pl_max p"
  "length (pl_workers (pop_round i p)) = length (pl_workers p)" "pl_max (pop_round i p) = pl_max p"
  by (simp_all add: push_round_def pop_round_def) (simp_all add: notify_not_empty_def)

lemma thread_length: "thread_step run p q \<Longrightarrow> length (pl_workers q) = length (pl_workers p) \<and> pl_max q = pl_max p"
  by (erule thread_stepE) (auto simp: queue_result_def write_event_def dequeue_result_def split: list.split)

lemma reach_length:
  "wp_reach run (worker_pool_new n m) p \<Longrightarrow> length (pl_workers p) = n \<and> pl_max p = m"
proof (induction rule: wp_reach.induct)
  case (step p q)
  from step(2) step.IH show ?case
    by (cases rule: wp_step.cases) (auto simp: clear_event_def queue_shutdown_def dest: thread_length)
qed (simp add: worker_pool_new_def)

lemma woken_asleep: "(\<And>x. x \<in> set ws \<Longrightarrow> x = WkAsleep) \<Longrightarrow> woken ws = 0"
proof (induction ws)
  case (Cons a ws)
  have "a = WkAsleep" using Cons.prems by simp
  with Cons show ?case by (simp add: woken_def)
qed (simp add: woken_def)

lemma someone_awake:
  assumes "queue_ok p" "pl_items p \<noteq> []" "pl_workers p \<noteq> []"
  shows "\<exists>i x. worker_at i x p \<and> x \<noteq> WkAsleep \<and> x \<noteq> WkExited"
proof (rule ccontr)
  assume n: "\<not> ?thesis"
  have e: "WkExited \<notin> set (pl_workers p)" using assms(1,2) by (auto simp: queue_ok_def)
  have all: "x = WkAsleep" if "x \<in> set (pl_workers p)" for x
    using that n e by (auto simp: worker_at_def in_set_conv_nth)
  then have "WkAsleep \<in> set (pl_workers p)" using assms(3) by (cases "pl_workers p") auto
  with assms(1,2) woken_asleep [OF all] show False by (auto simp: queue_ok_def)
qed

subsection \<open>Properties\<close>

text \<open>
  C10: The pool loses nothing and leaves nothing behind.  In every reachable state,
  whatever the interleaving, the spurious wake-ups and the choice of the notified thread:
  jobs leave the queue in the order they entered it and the queue never exceeds its bound;
  each job taken is being run or has exactly one result, queued or collected; while a
  job waits some worker is awake to take it; the event loop only sleeps in \<^verbatim>\<open>submit\<close> while the
  queue is full; and a queued result has its event written, about to be written, or being
  handled.
\<close>

theorem pool_loses_nothing:
  assumes "wp_reach run (worker_pool_new n m) p"
  shows "pl_accepted p = pl_taken p @ pl_items p \<and> length (pl_items p) \<le> m \<and>
    image_mset run (mset (pl_taken p)) =
      image_mset run (running (pl_workers p)) + mset (pl_results p) + mset (pl_collected p) \<and>
    (pl_items p \<noteq> [] \<and> 0 < n \<longrightarrow> (\<exists>i x. worker_at i x p \<and> x \<noteq> WkAsleep \<and> x \<noteq> WkExited)) \<and>
    (pl_loop p = LpAsleep j \<longrightarrow> length (pl_items p) = m) \<and>
    (pl_results p \<noteq> [] \<longrightarrow> 0 < pl_event p \<or> pl_loop p = LpCollecting \<or> WkPublished \<in> set (pl_workers p))"
proof -
  note ok = reach_ok [OF assms] and len = reach_length [OF assms]
  have "\<exists>i x. worker_at i x p \<and> x \<noteq> WkAsleep \<and> x \<noteq> WkExited" if "pl_items p \<noteq> []" "0 < n"
    using someone_awake [of p] ok len that by auto
  with ok len show ?thesis by (auto simp: queue_ok_def results_ok_def)
qed

text \<open>How much the threads still have to do once the pool is shut down.\<close>

definition drain_rank :: "('a, 'r) Pool \<Rightarrow> nat" where
  "drain_rank p = 4 * length (pl_items p) + load (pl_workers p) + (if pl_loop p = LpJoining then 1 else 0)"

definition joining :: "('a, 'r) Pool \<Rightarrow> bool" where
  "joining p \<longleftrightarrow> pl_loop p = LpJoining \<or> pl_loop p = LpJoined"

lemma thread_drains:
  assumes "thread_step run p q" "queue_ok p" "joining p"
  shows "joining q \<and> pl_accepted q = pl_accepted p \<and> drain_rank q < drain_rank p"
  using assms(1)
proof cases
  case (pop i)
  then obtain x where x: "worker_at i x p" "x = WkReady \<or> x = WkWoken" by blast
  have loop: "pl_loop p = LpJoining" "pl_shutdown p"
    using not_joined [OF assms(2) x(1)] x(2) assms(2,3) by (auto simp: joining_def queue_ok_def)
  note w = worker_updates(3) [OF x(1)]
  show ?thesis
  proof (cases "pl_items p")
    case Nil
    then show ?thesis using pop(1) loop w [of WkExited] x(2) by (auto simp: pop_round_def joining_def drain_rank_def)
  next
    case (Cons j js)
    then show ?thesis using pop(1) loop w [of "WkRunning j"] x(2) by (auto simp: pop_round_def joining_def drain_rank_def)
  qed
next
  case (result i j)
  then show ?thesis using assms(3) worker_updates(3) [OF result(2), of WkPublished]
    by (auto simp: queue_result_def joining_def drain_rank_def)
next
  case (publish i)
  then show ?thesis using assms(3) worker_updates(3) [OF publish(2), of WkReady]
    by (auto simp: write_event_def joining_def drain_rank_def)
next
  case (joined)
  then show ?thesis by (simp add: joining_def drain_rank_def)
qed (use assms(3) in \<open>auto simp: joining_def\<close>)

lemma drain_bound:
  "(thread_step run ^^ k) p q \<Longrightarrow> queue_ok p \<Longrightarrow> results_ok run p \<Longrightarrow> joining p \<Longrightarrow>
     k + drain_rank q \<le> drain_rank p \<and> queue_ok q \<and> results_ok run q \<and> joining q \<and>
     pl_accepted q = pl_accepted p \<and> length (pl_workers q) = length (pl_workers p)"
proof (induction k arbitrary: q)
  case (Suc k)
  then obtain r where r: "(thread_step run ^^ k) p r" "thread_step run r q" by auto
  with Suc have ih: "k + drain_rank r \<le> drain_rank p" "queue_ok r" "results_ok run r" "joining r" "pl_accepted r = pl_accepted p"
    "length (pl_workers r) = length (pl_workers p)"
    by blast+
  with thread_length [OF r(2)] thread_drains [OF r(2)] thread_queue_ok [OF r(2)] thread_results_ok [OF r(2)] show ?case by auto
qed simp

lemma stuck_is_joined:
  assumes "queue_ok p" "joining p" "\<not> (\<exists>q. thread_step run p q)"
  shows "pl_loop p = LpJoined \<and> list_all (\<lambda>x. x = WkExited) (pl_workers p)"
proof -
  have "x = WkExited" if "x \<in> set (pl_workers p)" for x
  proof -
    have "\<exists>i. worker_at i x p" using that by (auto simp: worker_at_def in_set_conv_nth)
    then obtain i where i: "worker_at i x p" ..
    have "x \<noteq> WkAsleep" using that assms(1,2) by (auto simp: queue_ok_def joining_def)
    with i assms(3) show ?thesis
      by (cases x) (blast intro: thread_step.intros)+
  qed
  then have all: "list_all (\<lambda>x. x = WkExited) (pl_workers p)" by (simp add: list_all_iff)
  with assms(2,3) thread_step.joined [of p run] show ?thesis by (auto simp: joining_def)
qed

text \<open>
  C11: Shutting the pool down terminates and drains it.  Once the event loop is in
  \<^verbatim>\<open>shutdown\<close>, the threads make at most \<open>drain_rank\<close> further steps however they are
  scheduled, and they only stop when every worker has exited, the join has returned and
  every job ever accepted has been run exactly once.
\<close>

theorem pool_shutdown_terminates:
  assumes "wp_reach run (worker_pool_new n m) p" "0 < n" "pl_loop p = LpJoining" "(thread_step run ^^ k) p q"
  shows "k \<le> drain_rank p \<and>
    ((\<exists>q'. thread_step run q q') \<or>
     pl_loop q = LpJoined \<and> list_all (\<lambda>x. x = WkExited) (pl_workers q) \<and>
     image_mset run (mset (pl_accepted p)) = mset (pl_results q) + mset (pl_collected q))"
proof -
  have d: "k + drain_rank q \<le> drain_rank p" "queue_ok q" "results_ok run q" "joining q" "pl_accepted q = pl_accepted p"
    and ne: "pl_workers q \<noteq> []"
    using drain_bound [OF assms(4)] reach_ok [OF assms(1)] reach_length [OF assms(1)] assms(2,3) by (auto simp: joining_def)
  have "image_mset run (mset (pl_accepted q)) = mset (pl_results q) + mset (pl_collected q)"
    if all: "list_all (\<lambda>x. x = WkExited) (pl_workers q)"
  proof -
    have "WkExited \<in> set (pl_workers q)" using all ne by (cases "pl_workers q") auto
    then have "pl_accepted q = pl_taken q" using d(2) by (auto simp: queue_ok_def)
    moreover have "running ws = {#}" if "list_all (\<lambda>x. x = WkExited) ws" for ws :: "'a Worker list"
      using that by (induction ws) (auto simp: running_def)
    ultimately show ?thesis using d(3) all by (simp add: results_ok_def)
  qed
  with stuck_is_joined [OF d(2,4), of run] d show ?thesis by auto
qed


definition busy_pool :: "(nat, nat) Pool" where
  "busy_pool = push_round 0 5 (pop_round 0 (worker_pool_new 1 1))"

lemma busy_pool_reached: "wp_reach Suc (worker_pool_new 1 1) busy_pool"
proof -
  have "wp_step Suc (worker_pool_new 1 1) (pop_round 0 (worker_pool_new 1 1))"
    by (intro wp_step.thread thread_step.pop disjI1) code_simp
  then have 1: "wp_reach Suc (worker_pool_new 1 1) (pop_round 0 (worker_pool_new 1 1))"
    by (rule wp_reach.step [OF wp_reach.start])
  have "pl_loop (pop_round 0 (worker_pool_new 1 1 :: (nat, nat) Pool)) = LpIdle" by code_simp
  moreover have "0 \<in> asleep (pop_round 0 (worker_pool_new 1 1 :: (nat, nat) Pool))"
    unfolding asleep_def mem_Collect_eq by code_simp
  ultimately show ?thesis
    unfolding busy_pool_def by (intro wp_reach.step [OF 1] wp_step.submit disjI1)
qed

lemma pool_loses_nothing_witness:
  "wp_reach Suc (worker_pool_new 1 1) (push_round 1 6 busy_pool) \<and>
   pl_items (push_round 1 6 busy_pool) = [5] \<and> pl_loop (push_round 1 6 busy_pool) = LpAsleep 6 \<and>
   (\<exists>i x. worker_at i x (push_round 1 6 busy_pool) \<and> x \<noteq> WkAsleep \<and> x \<noteq> WkExited)"
proof -
  have "pl_loop busy_pool = LpIdle" "pl_workers busy_pool = [WkWoken]" by code_simp+
  then have "wp_step Suc busy_pool (push_round 1 6 busy_pool)"
    by (intro wp_step.submit) (auto simp: asleep_def)
  with busy_pool_reached have r: "wp_reach Suc (worker_pool_new 1 1) (push_round 1 6 busy_pool)" by (rule wp_reach.step)
  have "pl_items (push_round 1 6 busy_pool) = [5]" "pl_loop (push_round 1 6 busy_pool) = LpAsleep 6" by code_simp+
  with r pool_loses_nothing [OF r, of 6] show ?thesis by simp
qed

definition closing_pool :: "(nat, nat) Pool" where
  "closing_pool = (queue_shutdown busy_pool)\<lparr>pl_loop := LpJoining\<rparr>"

lemma pool_shutdown_terminates_witness:
  "let q = pop_round 0 (write_event 0 (queue_result 0 6 (pop_round 0 closing_pool)))
   in (thread_step Suc ^^ 4) closing_pool q \<and> 4 \<le> drain_rank closing_pool \<and>
      ((\<exists>q'. thread_step Suc q q') \<or> {#6#} = mset (pl_results q) + mset (pl_collected q))"
proof -
  let ?a = "pop_round 0 closing_pool" let ?b = "queue_result 0 6 ?a" let ?c = "write_event 0 ?b" let ?q = "pop_round 0 ?c"
  have "pl_loop busy_pool = LpIdle" by code_simp
  then have r: "wp_reach Suc (worker_pool_new 1 1) closing_pool"
    unfolding closing_pool_def by (intro wp_reach.step [OF busy_pool_reached] wp_step.shutdown)
  have "worker_at 0 WkWoken closing_pool" "worker_at 0 (WkRunning 5) ?a" "worker_at 0 WkPublished ?b" "worker_at 0 WkReady ?c"
    by code_simp+
  then have s: "thread_step Suc closing_pool ?a" "thread_step Suc ?a ?b" "thread_step Suc ?b ?c" "thread_step Suc ?c ?q"
    using thread_step.pop [of 0 closing_pool Suc] thread_step.result [of 0 5 ?a Suc] thread_step.publish [of 0 ?b Suc]
      thread_step.pop [of 0 ?c Suc] by simp_all
  have k: "(thread_step Suc ^^ 4) closing_pool ?q"
    using s by (auto simp: numeral_eq_Suc)
  have l: "pl_loop closing_pool = LpJoining" "pl_accepted closing_pool = [5]" by code_simp+
  from pool_shutdown_terminates [OF r _ l(1) k] k l(2) show ?thesis by (auto simp: Let_def)
qed

end
