(* ===== verification/Http_Cache.thy ===== *)
theory Http_Cache
  imports Prelude
begin

section \<open>Cache control: \<^verbatim>\<open>http_cache.cpp\<close>\<close>

text \<open>
  Entity tags, dates, conditional requests and ranges.  \<^verbatim>\<open>gmtime\<close> and
  \<^verbatim>\<open>mktime\<close> are the proleptic Gregorian calendar on seconds since 1970; the local time
  zone that \<^verbatim>\<open>mktime\<close> applies is the parameter \<open>zone\<close>, the seconds it subtracts from a
  broken-down time.  Years in a date have four digits.
\<close>

subsection \<open>The calendar\<close>

text \<open>
  A broken-down time as in \<^verbatim>\<open>std::tm\<close>; \<open>tm_mon\<close> counts from 0 and \<open>tm_year\<close> from the
  year 1900.
\<close>

record Tm =
  tm_year :: int
  tm_mon :: int
  tm_mday :: int
  tm_hour :: int
  tm_min :: int
  tm_sec :: int

text \<open>
  Days are counted in years that begin on the first of March, so that the leap day is
  the last of its year; 719468 days lie between the first of March of the year 0 and the
  epoch.
\<close>

definition days_of_date :: "int \<Rightarrow> int \<Rightarrow> int \<Rightarrow> int" where
  "days_of_date year mon mday =
     (let y = (if mon < 2 then year - 1 else year); m = (mon + 10) mod 12;
          doy = (153 * m + 2) div 5 + mday - 1
      in y * 365 + y div 4 - y div 100 + y div 400 + doy - 719468)"

definition day_parts :: "int \<Rightarrow> int \<times> int \<times> int \<times> int \<times> int" where
  "day_parts days =
     (let z = days + 719468; r = z mod 146097; n100 = min 3 (r div 36524); r1 = r - n100 * 36524;
          n4 = r1 div 1461; r2 = r1 mod 1461; n1 = min 3 (r2 div 365)
      in (z div 146097, n100, n4, n1, r2 - n1 * 365))"

definition date_of_days :: "int \<Rightarrow> int \<times> int \<times> int" where
  "date_of_days days =
     (case day_parts days of (n400, n100, n4, n1, doy) \<Rightarrow>
        let m = (5 * doy + 2) div 153; y = 400 * n400 + 100 * n100 + 4 * n4 + n1;
            mon = (if m < 10 then m + 2 else m - 10)
        in (if mon < 2 then y + 1 else y, mon, doy - (153 * m + 2) div 5 + 1))"

definition gm_time :: "int \<Rightarrow> Tm" where
  "gm_time time =
     (let (year, mon, mday) = date_of_days (time div 86400); s = time mod 86400
      in \<lparr>tm_year = year - 1900, tm_mon = mon, tm_mday = mday, tm_hour = s div 3600, tm_min = s mod 3600 div 60,
          tm_sec = s mod 60\<rparr>)"

definition week_day :: "int \<Rightarrow> int" where
  "week_day days = (days + 4) mod 7"

definition tm_seconds :: "Tm \<Rightarrow> int" where
  "tm_seconds tm =
     days_of_date (tm_year tm + 1900) (tm_mon tm) (tm_mday tm) * 86400 + tm_hour tm * 3600 + tm_min tm * 60 + tm_sec tm"

definition mk_time :: "(int \<Rightarrow> int) \<Rightarrow> Tm \<Rightarrow> int" where
  "mk_time zone tm = tm_seconds tm - zone (tm_seconds tm)"

lemma last_block:
  fixes r b :: int
  assumes "0 < b" "0 \<le> r" "r \<le> 4 * b" and "n = min 3 (r div b)"
  shows "0 \<le> n \<and> n \<le> 3 \<and> 0 \<le> r - n * b \<and> r - n * b \<le> b"
proof -
  have d: "b * (r div b) + r mod b = r" "0 \<le> r mod b" "r mod b < b" using assms(1) by simp_all
  have q: "0 \<le> r div b" using assms(1,2) by (simp add: pos_imp_zdiv_nonneg_iff)
  show ?thesis
  proof (cases "r div b \<le> 3")
    case True
    then have "n = r div b" using assms(4) by simp
    then have "r - n * b = r mod b" by (simp add: minus_div_mult_eq_mod)
    then show ?thesis using True q d(2,3) \<open>n = r div b\<close> by linarith
  next
    case False
    then have "b * 4 \<le> b * (r div b)" using assms(1) by (intro mult_left_mono) auto
    then have "r = 4 * b" using d assms(3) by linarith
    then show ?thesis using False assms(1,4) by simp
  qed
qed

lemma day_parts_ranges:
  assumes "day_parts days = (n400, n100, n4, n1, doy)"
  shows "days + 719468 = 146097 * n400 + 36524 * n100 + 1461 * n4 + 365 * n1 + doy" "0 \<le> n100" "n100 \<le> 3"
    "0 \<le> n4" "n4 \<le> 24" "0 \<le> n1" "n1 \<le> 3" "0 \<le> doy" "doy \<le> 365"
proof -
  define z where "z = days + 719468"
  define r where "r = z mod 146097"
  define r1 where "r1 = r - n100 * 36524"
  define r2 where "r2 = r1 mod 1461"
  have p: "n400 = z div 146097" "n100 = min 3 (r div 36524)" "n4 = r1 div 1461" "n1 = min 3 (r2 div 365)" "doy = r2 - n1 * 365"
    using assms unfolding r2_def r1_def r_def z_def day_parts_def Let_def prod.inject by (elim conjE; simp only:)+
  have r: "0 \<le> r" "r \<le> 4 * 36524" unfolding r_def using pos_mod_bound [of 146097 z] by simp_all
  note b1 = last_block [OF _ r p(2), simplified]
  have r1: "0 \<le> r1" "r1 \<le> 36524" using b1 by (simp_all add: r1_def)
  have r2: "0 \<le> r2" "r2 \<le> 4 * 365" unfolding r2_def using pos_mod_bound [of 1461 r1] by simp_all
  note b2 = last_block [OF _ r2 p(4), simplified]
  show "0 \<le> n100" "n100 \<le> 3" "0 \<le> n1" "n1 \<le> 3" using b1 b2 by simp_all
  show "0 \<le> doy" "doy \<le> 365" using b2 by (simp_all add: p(5))
  show "0 \<le> n4" using r1 by (simp add: p(3) pos_imp_zdiv_nonneg_iff)
  have "r1 div 1461 \<le> 36524 div 1461" using r1 by (intro zdiv_mono1) simp_all
  then show "n4 \<le> 24" by (simp add: p(3))
  have "z = 146097 * n400 + r" "r1 = 1461 * n4 + r2" by (simp_all add: p(1,3) r_def r2_def)
  then show "days + 719468 = 146097 * n400 + 36524 * n100 + 1461 * n4 + 365 * n1 + doy"
    by (simp add: p(5) r1_def z_def [symmetric])
qed

lemma date_of_parts:
  assumes "day_parts days = (n400, n100, n4, n1, doy)"
  shows "date_of_days days =
    (let m = (5 * doy + 2) div 153; y = 400 * n400 + 100 * n100 + 4 * n4 + n1; mon = (if m < 10 then m + 2 else m - 10)
     in (if mon < 2 then y + 1 else y, mon, doy - (153 * m + 2) div 5 + 1))"
  by (simp only: date_of_days_def assms prod.case)

lemma month_parts:
  fixes doy :: int
  assumes "0 \<le> doy" "doy \<le> 365" and m: "m = (5 * doy + 2) div 153"
  shows "0 \<le> m" "m \<le> 11" "1 \<le> doy - (153 * m + 2) div 5 + 1" "doy - (153 * m + 2) div 5 + 1 \<le> 31"
proof -
  have b: "153 * m \<le> 5 * doy + 2" "5 * doy + 2 < 153 * m + 153"
    unfolding m using mult_div_mod_eq [of 153 "5 * doy + 2"] pos_mod_bound [of 153 "5 * doy + 2"] pos_mod_sign [of 153 "5 * doy + 2"]
    by linarith+
  have k: "5 * ((153 * m + 2) div 5) \<le> 153 * m + 2" "153 * m + 2 < 5 * ((153 * m + 2) div 5) + 5"
    using mult_div_mod_eq [of 5 "153 * m + 2"] pos_mod_bound [of 5 "153 * m + 2"] pos_mod_sign [of 5 "153 * m + 2"] by linarith+
  show "0 \<le> m" "m \<le> 11" using b assms(1,2) by linarith+
  show "1 \<le> doy - (153 * m + 2) div 5 + 1" "doy - (153 * m + 2) div 5 + 1 \<le> 31" using b k by linarith+
qed

lemma date_of_days_inverse:
  "(case date_of_days days of (year, mon, mday) \<Rightarrow> days_of_date year mon mday) = days"
proof -
  obtain n400 n100 n4 n1 doy where parts: "day_parts days = (n400, n100, n4, n1, doy)" by (metis prod_cases5)
  note r = day_parts_ranges [OF parts]
  define m where "m = (5 * doy + 2) div 153"
  define y where "y = 400 * n400 + 100 * n100 + 4 * n4 + n1"
  define mon where "mon = (if m < 10 then m + 2 else m - 10)"
  have m: "0 \<le> m" "m \<le> 11" using month_parts(1,2) [OF r(8,9) m_def] by simp_all
  have mon: "(mon + 10) mod 12 = m" using m by (auto simp: mon_def)
  have q: "y div 4 = 100 * n400 + 25 * n100 + n4" "y div 100 = 4 * n400 + n100" "y div 400 = n400"
    using r(2-7) by (intro int_div_pos_eq [where r = n1] int_div_pos_eq [where r = "4 * n4 + n1"]
        int_div_pos_eq [where r = "100 * n100 + 4 * n4 + n1"]; simp add: y_def)+
  have "days_of_date (if mon < 2 then y + 1 else y) mon (doy - (153 * m + 2) div 5 + 1) =
      y * 365 + y div 4 - y div 100 + y div 400 + doy - 719468"
    by (simp add: days_of_date_def Let_def mon)
  also have "\<dots> = days" unfolding q using r(1) by (simp add: y_def)
  finally have "days_of_date (if mon < 2 then y + 1 else y) mon (doy - (153 * m + 2) div 5 + 1) = days" .
  then show ?thesis
    unfolding date_of_parts [OF parts] Let_def m_def [symmetric] y_def [symmetric] mon_def [symmetric] prod.case .
qed

lemma date_of_days_ranges:
  assumes "date_of_days days = (year, mon, mday)"
  shows "0 \<le> mon \<and> mon \<le> 11 \<and> 1 \<le> mday \<and> mday \<le> 31"
proof -
  obtain n400 n100 n4 n1 doy where parts: "day_parts days = (n400, n100, n4, n1, doy)" by (metis prod_cases5)
  note r = day_parts_ranges [OF parts]
  from assms month_parts [OF r(8,9) refl] show ?thesis
    by (auto simp: date_of_parts [OF parts] Let_def split: if_splits)
qed

lemma gm_time_inverse: "tm_seconds (gm_time t) = t"
proof -
  obtain year mon mday where d: "date_of_days (t div 86400) = (year, mon, mday)" by (metis prod_cases3)
  have "days_of_date year mon mday = t div 86400" using date_of_days_inverse [of "t div 86400"] d by simp
  then have "tm_seconds (gm_time t) = t div 86400 * 86400 + t mod 86400 div 3600 * 3600 +
      t mod 86400 mod 3600 div 60 * 60 + t mod 86400 mod 60"
    by (simp add: tm_seconds_def gm_time_def d Let_def)
  moreover have "t mod 86400 mod 60 = t mod 86400 mod 3600 mod 60" by (simp add: mod_mod_cancel)
  ultimately show ?thesis
    using div_mult_mod_eq [of t 86400] div_mult_mod_eq [of "t mod 86400" 3600] div_mult_mod_eq [of "t mod 86400 mod 3600" 60]
    by linarith
qed


lemma div_range:
  fixes a b k :: int
  assumes "0 \<le> a" "a < k * b" "0 < b"
  shows "0 \<le> a div b" "a div b < k"
proof -
  show "0 \<le> a div b" using assms by (simp add: pos_imp_zdiv_nonneg_iff)
  show "a div b < k"
  proof (rule ccontr)
    assume "\<not> a div b < k"
    then have "k * b \<le> a div b * b" using assms(3) by (intro mult_right_mono) simp_all
    then show False using div_mult_mod_eq [of a b] pos_mod_sign [OF assms(3), of a] assms(2) by linarith
  qed
qed

lemma gm_time_fields:
  assumes "date_of_days (t div 86400) = (year, mon, mday)"
  shows "gm_time t = \<lparr>tm_year = year - 1900, tm_mon = mon, tm_mday = mday, tm_hour = t mod 86400 div 3600,
    tm_min = t mod 86400 mod 3600 div 60, tm_sec = t mod 86400 mod 60\<rparr>"
  unfolding gm_time_def assms Let_def prod.case by (rule refl)

lemma gm_time_ranges:
  "0 \<le> tm_mon (gm_time t)" "tm_mon (gm_time t) < 12" "1 \<le> tm_mday (gm_time t)" "tm_mday (gm_time t) \<le> 31"
  "0 \<le> tm_hour (gm_time t)" "tm_hour (gm_time t) < 24" "0 \<le> tm_min (gm_time t)" "tm_min (gm_time t) < 60"
  "0 \<le> tm_sec (gm_time t)" "tm_sec (gm_time t) < 60"
proof -
  obtain year mon mday where d: "date_of_days (t div 86400) = (year, mon, mday)" by (metis prod_cases3)
  note f = gm_time_fields [OF d]
  show "0 \<le> tm_mon (gm_time t)" "tm_mon (gm_time t) < 12" "1 \<le> tm_mday (gm_time t)" "tm_mday (gm_time t) \<le> 31"
    using date_of_days_ranges [OF d] unfolding f Tm.select_convs by simp_all
  note h = div_range [where a = "t mod 86400" and b = 3600 and k = 24, simplified]
  note m = div_range [where a = "t mod 86400 mod 3600" and b = 60 and k = 60, simplified]
  show "0 \<le> tm_hour (gm_time t)" "tm_hour (gm_time t) < 24" unfolding f Tm.select_convs by (rule h)+
  show "0 \<le> tm_min (gm_time t)" "tm_min (gm_time t) < 60" unfolding f Tm.select_convs by (rule m)+
  show "0 \<le> tm_sec (gm_time t)" "tm_sec (gm_time t) < 60" unfolding f Tm.select_convs by simp_all
qed

subsection \<open>Dates\<close>

definition month_names :: "string list" where
  "month_names = [''Jan'', ''Feb'', ''Mar'', ''Apr'', ''May'', ''Jun'', ''Jul'', ''Aug'', ''Sep'', ''Oct'', ''Nov'', ''Dec'']"

definition day_names :: "string list" where
  "day_names = [''Sun'', ''Mon'', ''Tue'', ''Wed'', ''Thu'', ''Fri'', ''Sat'']"

definition two_digits :: "int \<Rightarrow> string" where
  "two_digits n = [char_of (48 + nat n div 10 mod 10), char_of (48 + nat n mod 10)]"

text \<open>\<^verbatim>\<open>gmtime\<close> has no answer when the year leaves the 32-bit \<^verbatim>\<open>tm_year\<close>.\<close>

definition format_http_date :: "int \<Rightarrow> string" where
  "format_http_date time =
     (let tm = gm_time time
      in if tm_year tm < - (2 ^ 31) \<or> 2 ^ 31 \<le> tm_year tm then []
         else day_names ! nat (week_day (time div 86400)) @ '', '' @ two_digits (tm_mday tm) @ '' '' @
           month_names ! nat (tm_mon tm) @ '' '' @ int_to_string (tm_year tm + 1900) @ '' '' @
           two_digits (tm_hour tm) @ '':'' @ two_digits (tm_min tm) @ '':'' @ two_digits (tm_sec tm) @ '' GMT'')"

text \<open>The loop over the month names leaves January when none matches.\<close>

fun find_month :: "string list \<Rightarrow> nat \<Rightarrow> string \<Rightarrow> nat" where
  "find_month [] i month = 0"
| "find_month (name # names) i month = (if month = name then i else find_month names (i + 1) month)"

definition parse_http_date :: "(int \<Rightarrow> int) \<Rightarrow> string \<Rightarrow> int" where
  "parse_http_date zone date_str =
     (if length date_str < 29 then -1
      else case stoi (substr date_str 5 2) of None \<Rightarrow> -1 | Some mday \<Rightarrow>
        let mon = find_month month_names 0 (substr date_str 8 3)
        in case stoi (substr date_str 12 4) of None \<Rightarrow> -1 | Some year \<Rightarrow>
          case stoi (substr date_str 17 2) of None \<Rightarrow> -1 | Some hour \<Rightarrow>
          case stoi (substr date_str 20 2) of None \<Rightarrow> -1 | Some mn \<Rightarrow>
          case stoi (substr date_str 23 2) of None \<Rightarrow> -1 | Some sec \<Rightarrow>
            mk_time zone \<lparr>tm_year = year - 1900, tm_mon = int mon, tm_mday = mday, tm_hour = hour, tm_min = mn, tm_sec = sec\<rparr>)"

lemma two_digits_props:
  assumes "0 \<le> n" "n \<le> 99"
  shows "length (two_digits n) = 2" "stoi (two_digits n) = Some n"
proof -
  let ?a = "char_of (48 + nat n div 10 mod 10) :: char" and ?b = "char_of (48 + nat n mod 10) :: char"
  show "length (two_digits n) = 2" by (simp add: two_digits_def)
  have m: "nat n div 10 mod 10 < 10" "nat n mod 10 < 10" by simp_all
  then have c: "code ?a = 48 + nat n div 10 mod 10" "code ?b = 48 + nat n mod 10" by simp_all
  have "is_digit ?a \<and> is_digit ?b" using m unfolding is_digit_def c by linarith
  then have r: "read_int (two_digits n) = Some (False, digits_value (two_digits n))"
    using read_int_digits [of "two_digits n" "[]"] by (simp add: two_digits_def)
  have lt: "nat n div 10 < 10" using assms(2) by (simp add: less_mult_imp_div_less)
  have "digits_value ([] @ [?a] @ [?b]) = nat n"
    using lt c by (simp only: append_assoc [symmetric] digits_value_snoc) (simp add: digit_value_def digits_value_def)
  then have "digits_value (two_digits n) = nat n" by (simp add: two_digits_def)
  then show "stoi (two_digits n) = Some n" using r assms by (simp add: stoi_def stoll_def)
qed


lemma to_string_length: "10 ^ k \<le> n \<Longrightarrow> n < 10 ^ Suc k \<Longrightarrow> length (to_string n) = Suc k"
proof (induction k arbitrary: n)
  case 0
  then show ?case by (subst to_string.simps) simp
next
  case (Suc k)
  then have "10 ^ k \<le> n div 10" "n div 10 < 10 ^ Suc k" by (simp_all add: less_mult_imp_div_less)
  moreover have "\<not> n < 10"
    using Suc.prems(1) mult_le_mono2 [OF one_le_power [of "10 :: nat" k], of 10] unfolding power_Suc by linarith
  ultimately show ?case using Suc.IH by (subst to_string.simps) simp
qed

lemma year_text:
  assumes "1000 \<le> n" "n \<le> 9999"
  shows "length (int_to_string n) = 4" "stoi (int_to_string n) = Some n"
proof -
  have i: "int_to_string n = to_string (nat n)" using assms by (simp add: int_to_string_def)
  show "length (int_to_string n) = 4" using to_string_length [of 3 "nat n"] assms by (simp add: i)
  show "stoi (int_to_string n) = Some n" using stoll_to_string [of "nat n"] assms by (simp add: i stoi_def)
qed

lemma month_name:
  assumes "0 \<le> mon" "mon < 12"
  shows "length (month_names ! nat mon) = 3" "find_month month_names 0 (month_names ! nat mon) = nat mon"
proof -
  have "k \<in> {0, 1, 2, 3, 4, 5, 6, 7, 8, 9, 10, 11}" if "k < 12" for k :: nat
    using that by (simp add: less_Suc_eq numeral_eq_Suc)
  from this [of "nat mon"] have "nat mon \<in> {0, 1, 2, 3, 4, 5, 6, 7, 8, 9, 10, 11}" using assms by simp
  then show "length (month_names ! nat mon) = 3" "find_month month_names 0 (month_names ! nat mon) = nat mon"
    by (elim insertE emptyE; simp add: month_names_def)+
qed

lemma day_name: "length (day_names ! nat (week_day days)) = 3"
proof -
  have "nat (week_day days) < 7" by (simp add: week_day_def nat_less_iff)
  then have "nat (week_day days) \<in> {0, 1, 2, 3, 4, 5, 6}" by auto
  then show ?thesis by (elim insertE emptyE) (simp_all add: day_names_def)
qed

lemma parse_date_fields:
  assumes "length d = 3" "length mday = 2" "length mon = 3" "length year = 4" "length h = 2" "length m = 2" "length sec = 2"
    and "s = d @ '', '' @ mday @ '' '' @ mon @ '' '' @ year @ '' '' @ h @ '':'' @ m @ '':'' @ sec @ '' GMT''"
  shows "length s = 29" "substr s 5 2 = mday" "substr s 8 3 = mon" "substr s 12 4 = year" "substr s 17 2 = h"
    "substr s 20 2 = m" "substr s 23 2 = sec"
  using assms by (simp_all add: substr_def)

lemma http_date_inverse:
  assumes "1000 \<le> tm_year (gm_time t) + 1900" "tm_year (gm_time t) + 1900 \<le> 9999"
  shows "parse_http_date zone (format_http_date t) = t - zone t"
proof -
  let ?tm = "gm_time t"
  note r = gm_time_ranges [of t]
  have f: "format_http_date t = day_names ! nat (week_day (t div 86400)) @ '', '' @ two_digits (tm_mday ?tm) @ '' '' @
      month_names ! nat (tm_mon ?tm) @ '' '' @ int_to_string (tm_year ?tm + 1900) @ '' '' @
      two_digits (tm_hour ?tm) @ '':'' @ two_digits (tm_min ?tm) @ '':'' @ two_digits (tm_sec ?tm) @ '' GMT''"
    using assms unfolding format_http_date_def Let_def by simp
  have two: "length (two_digits (tm_mday ?tm)) = 2" "stoi (two_digits (tm_mday ?tm)) = Some (tm_mday ?tm)"
    "length (two_digits (tm_hour ?tm)) = 2" "stoi (two_digits (tm_hour ?tm)) = Some (tm_hour ?tm)"
    "length (two_digits (tm_min ?tm)) = 2" "stoi (two_digits (tm_min ?tm)) = Some (tm_min ?tm)"
    "length (two_digits (tm_sec ?tm)) = 2" "stoi (two_digits (tm_sec ?tm)) = Some (tm_sec ?tm)"
    by (rule two_digits_props; use r in linarith)+
  note p = parse_date_fields [OF day_name two(1) month_name(1) [OF r(1,2)] year_text(1) [OF assms] two(3,5,7) f]
  have "parse_http_date zone (format_http_date t) = mk_time zone ?tm"
    unfolding parse_http_date_def p two(2,4,6,8) year_text(2) [OF assms] month_name(2) [OF r(1,2)] Let_def
    using r(1) by (simp add: mk_time_def tm_seconds_def)
  then show ?thesis by (simp add: mk_time_def gm_time_inverse)
qed

subsection \<open>Entity tags\<close>

definition simple_hash :: "string \<Rightarrow> string" where
  "simple_hash str =
     to_hex (unat (foldl (\<lambda>hash c. (push_bit 5 hash + hash) + word_of_int (signed_code c)) (5381 :: 32 word) str))"

definition generate_etag :: "string \<Rightarrow> string" where
  "generate_etag content = simple_hash content"

definition generate_weak_etag :: "string \<Rightarrow> string" where
  "generate_weak_etag content = ''W/'' @ simple_hash content"

definition is_weak_etag :: "string \<Rightarrow> bool" where
  "is_weak_etag etag \<longleftrightarrow> 2 \<le> length etag \<and> etag ! 0 = CHR ''W'' \<and> etag ! 1 = CHR ''/''"

definition strip_weak :: "string \<Rightarrow> string" where
  "strip_weak etag =
     (if 2 \<le> length etag \<and> etag ! 0 = CHR ''W'' \<and> etag ! 1 = CHR ''/'' then drop 2 etag else etag)"

definition etag_matches :: "string \<Rightarrow> string \<Rightarrow> bool" where
  "etag_matches etag1 etag2 \<longleftrightarrow> strip_weak etag1 = strip_weak etag2"

definition should_return_not_modified_etag :: "string \<Rightarrow> string \<Rightarrow> bool" where
  "should_return_not_modified_etag if_none_match current_etag =
     (if if_none_match = [] \<or> current_etag = [] then False
      else let client_etag = if_none_match;
               client_etag = (if 2 \<le> length client_etag \<and> hd client_etag = DQUOTE \<and> last client_etag = DQUOTE
                              then substr client_etag 1 (length client_etag - 2) else client_etag)
           in etag_matches client_etag current_etag)"

definition should_return_not_modified_date :: "(int \<Rightarrow> int) \<Rightarrow> string \<Rightarrow> int \<Rightarrow> bool" where
  "should_return_not_modified_date zone if_modified_since last_modified =
     (if if_modified_since = [] \<or> last_modified = -1 then False
      else let client_time = parse_http_date zone if_modified_since
           in if client_time = -1 then False else last_modified \<le> client_time)"

lemma strip_weak_code:
  "strip_weak (CHR ''W'' # CHR ''/'' # t) = t" "c \<noteq> CHR ''W'' \<Longrightarrow> strip_weak (c # t) = c # t" "strip_weak [] = []"
  by (simp_all add: strip_weak_def)

lemma to_hex_head: "\<exists>d r. d < 16 \<and> to_hex n = hex_char d # r"
proof (induction n rule: to_hex.induct)
  case (1 n)
  show ?case
  proof (cases "n < 16")
    case True
    then show ?thesis by (auto simp: to_hex.simps [of n])
  next
    case False
    from 1 [OF False] False show ?thesis by (auto simp: to_hex.simps [of n])
  qed
qed

text \<open>A generated tag is never weak, and its weak form denotes the same content.\<close>

lemma generate_etag_strip: "strip_weak (generate_etag content) = generate_etag content"
proof -
  obtain d r where d: "d < 16" "generate_etag content = hex_char d # r"
    unfolding generate_etag_def simple_hash_def using to_hex_head by blast
  have "code (hex_char d) \<noteq> 87" using d(1) by (auto simp: hex_char_def)
  then have "hex_char d \<noteq> CHR ''W''" by (auto simp: code_def)
  then show ?thesis by (simp add: d(2) strip_weak_code)
qed

lemma generate_weak_strip: "strip_weak (generate_weak_etag content) = generate_etag content"
  by (simp add: generate_weak_etag_def generate_etag_def strip_weak_code)

text \<open>
  The tag is 33 times itself plus the next character, so exchanging two neighbours in the
  right proportion keeps it: different contents share a strong validator.
\<close>

lemma etag_collision: "generate_etag (p @ ''bA'' @ t) = generate_etag (p @ ''ab'' @ t)"
proof -
  have s: "signed_code (CHR ''b'') = 98" "signed_code (CHR ''A'') = 65" "signed_code (CHR ''a'') = 97"
    by (simp_all add: signed_code_def code_def)
  have h: "push_bit 5 h + h = 33 * h" for h :: "32 word" by (simp add: push_bit_eq_mult algebra_simps)
  show ?thesis
    unfolding generate_etag_def simple_hash_def foldl_append foldl_Cons foldl_Nil h s
    by (simp add: algebra_simps)
qed

subsection \<open>Ranges\<close>

definition parse_range_header :: "string \<Rightarrow> nat \<Rightarrow> (nat \<times> nat) option" where
  "parse_range_header range_header file_size =
     (if range_header = [] then None
      else if take 6 range_header \<noteq> ''bytes='' then None
      else let range_spec = drop 6 range_header
           in case find_char (CHR ''-'') range_spec of None \<Rightarrow> None | Some dash_pos \<Rightarrow>
             let start_str = take dash_pos range_spec; end_str = drop (dash_pos + 1) range_spec
             in case (if start_str = [] then Some 0 else stoul start_str) of None \<Rightarrow> None | Some start \<Rightarrow>
               case (if end_str = [] then Some ((file_size + (2 ^ 64 - 1)) mod 2 ^ 64) else stoul end_str) of
                 None \<Rightarrow> None
               | Some stop \<Rightarrow>
                   if start \<ge> file_size \<or> stop \<ge> file_size \<or> start > stop then None else Some (start, stop))"

definition format_content_range :: "nat \<Rightarrow> nat \<Rightarrow> nat \<Rightarrow> string" where
  "format_content_range start stop file_size =
     ''bytes '' @ to_string start @ ''-'' @ to_string stop @ ''/'' @ to_string file_size"

lemma range_bounds: "parse_range_header h n = Some (a, b) \<Longrightarrow> a \<le> b \<and> b < n"
  unfolding parse_range_header_def Let_def by (simp split: option.splits if_splits)

lemma range_parts:
  assumes "CHR ''-'' \<notin> set s"
  shows "parse_range_header (''bytes='' @ s @ ''-'' @ e) n =
    (case (if s = [] then Some 0 else stoul s) of None \<Rightarrow> None | Some a \<Rightarrow>
     case (if e = [] then Some ((n + (2 ^ 64 - 1)) mod 2 ^ 64) else stoul e) of None \<Rightarrow> None | Some b \<Rightarrow>
       if a < n \<and> b < n \<and> a \<le> b then Some (a, b) else None)"
proof -
  have t: "take 6 (''bytes='' @ s @ ''-'' @ e) = ''bytes=''" "drop 6 (''bytes='' @ s @ ''-'' @ e) = s @ CHR ''-'' # e"
    by simp_all
  show ?thesis
    unfolding parse_range_header_def t Let_def
    by (simp add: find_char_first assms linorder_not_less split: option.splits)
qed

lemma to_string_no_dash: "CHR ''-'' \<notin> set (to_string n)"
proof
  assume "CHR ''-'' \<in> set (to_string n)"
  from to_string_digits [OF this] show False by (simp add: is_digit_def code_def)
qed


text \<open>
  C40: the \<^verbatim>\<open>Range\<close> parser, for offsets and sizes that fit \<^verbatim>\<open>size_t\<close>.  Whatever is
  accepted lies inside the file, first byte not after last.  A range written
  \<open>bytes=a-b\<close> is read back exactly when it lies inside the file and is refused otherwise,
  and an open range \<open>bytes=a-\<close> reaches to the last byte, for an empty file too, where the
  last offset wraps around and nothing is accepted.  A suffix range \<open>bytes=-b\<close>, which asks for
  the last \<open>b\<close> bytes, is answered with the first \<open>b + 1\<close>.
\<close>

theorem range_header_exact:
  assumes "a < 2 ^ 64" "b < 2 ^ 64" "n < 2 ^ 64"
  shows "(\<forall>h x y. parse_range_header h n = Some (x, y) \<longrightarrow> x \<le> y \<and> y < n) \<and>
    parse_range_header (''bytes='' @ to_string a @ ''-'' @ to_string b) n = (if a \<le> b \<and> b < n then Some (a, b) else None) \<and>
    parse_range_header (''bytes='' @ to_string a @ ''-'') n = (if a < n then Some (a, n - 1) else None) \<and>
    parse_range_header (''bytes=-'' @ to_string b) n = (if b < n then Some (0, b) else None)"
proof -
  note sa = stoul_to_string [OF assms(1)] and sb = stoul_to_string [OF assms(2)]
  have w: "0 < n \<Longrightarrow> (n + (2 ^ 64 - 1)) mod 2 ^ 64 = n - 1"
    using assms(3) mod_add_self2 [of "n - 1" "2 ^ 64"] by (simp add: add.commute)
  have "parse_range_header (''bytes='' @ to_string a @ ''-'' @ to_string b) n = (if a \<le> b \<and> b < n then Some (a, b) else None)"
    unfolding range_parts [OF to_string_no_dash] by (simp add: sa sb)
  moreover have "parse_range_header (''bytes='' @ to_string a @ ''-'') n = (if a < n then Some (a, n - 1) else None)"
    using range_parts [OF to_string_no_dash, of a "[]" n] w by (cases "a < n") (auto simp: sa)
  moreover have "parse_range_header (''bytes=-'' @ to_string b) n = (if b < n then Some (0, b) else None)"
    using range_parts [of "[]" "to_string b" n] by (simp add: sb)
  ultimately show ?thesis using range_bounds by blast
qed

theorem range_header_exact_witness:
  "parse_range_header (''bytes='' @ to_string 10 @ ''-'' @ to_string 19) 100 = Some (10, 19)"
  using range_header_exact [of 10 19 100] by simp

text \<open>
  A date of a four-digit year survives the round trip: what \<^verbatim>\<open>format_http_date\<close> writes
  for the instant \<open>t\<close>, \<^verbatim>\<open>parse_http_date\<close> reads back as \<open>t\<close> less the offset of the local
  time zone that \<^verbatim>\<open>mktime\<close> applies, so the conditional request answers "not modified"
  exactly when the file is not younger than that.
\<close>

theorem http_date_roundtrip:
  assumes "1000 \<le> tm_year (gm_time t) + 1900" "tm_year (gm_time t) + 1900 \<le> 9999"
  shows "parse_http_date zone (format_http_date t) = t - zone t \<and>
    should_return_not_modified_date zone (format_http_date t) last_modified =
      (last_modified \<noteq> -1 \<and> t - zone t \<noteq> -1 \<and> last_modified \<le> t - zone t)"
proof -
  have "format_http_date t \<noteq> []" using assms by (simp add: format_http_date_def Let_def)
  then show ?thesis
    by (simp add: http_date_inverse [OF assms] should_return_not_modified_date_def Let_def)
qed

theorem http_date_roundtrip_witness:
  "parse_http_date (\<lambda>_. 3600) (format_http_date 1445412480) = 1445408880"
proof -
  have "tm_year (gm_time 1445412480) = 115" by code_simp
  then show ?thesis using http_date_roundtrip [of 1445412480 "\<lambda>_. 3600" 0] by simp
qed

lemma date_example: "format_http_date 1445412480 = ''Wed, 21 Oct 2015 07:28:00 GMT''"
  by code_simp

text \<open>
  A request that returns the tag in quotes is told that nothing changed, by either form of
  the tag; the weak form in quotes is not recognised, since the quotes are only
  removed when they are first and last.
\<close>

lemma not_modified_own_tag:
  "should_return_not_modified_etag (DQUOTE # generate_etag content @ [DQUOTE]) (generate_etag content)"
  "should_return_not_modified_etag (generate_weak_etag content) (generate_etag content)"
proof -
  obtain d r where d: "generate_etag content = hex_char d # r"
    unfolding generate_etag_def simple_hash_def using to_hex_head by blast
  have "substr (DQUOTE # generate_etag content @ [DQUOTE]) 1 (length (generate_etag content)) = generate_etag content"
    by (simp add: substr_def)
  then show "should_return_not_modified_etag (DQUOTE # generate_etag content @ [DQUOTE]) (generate_etag content)"
    by (simp add: should_return_not_modified_etag_def etag_matches_def d Let_def)
  show "should_return_not_modified_etag (generate_weak_etag content) (generate_etag content)"
    by (simp add: should_return_not_modified_etag_def etag_matches_def generate_weak_strip generate_etag_strip)
      (simp add: generate_weak_etag_def d)
qed

lemma quoted_weak_tag_misses:
  "\<not> should_return_not_modified_etag (''W/'' @ [DQUOTE] @ ''1505'' @ [DQUOTE]) (generate_etag [])"
  by code_simp

end
