(* ===== verification/Tcp_Listener.thy ===== *)
theory Tcp_Listener
  imports Prelude
begin

section \<open>The listening socket: \<^verbatim>\<open>tcp_listener.cpp\<close>\<close>

text \<open>
  The POSIX branch.  The answers of the socket calls are the record \<open>SocketCalls\<close>: a
  result and the \<^verbatim>\<open>errno\<close> the call leaves, which the code reads only after a failure;
  \<open>so_pton\<close> is \<^verbatim>\<open>inet_pton\<close> on the host name, \<^const>\<open>None\<close> when its result is not
  positive.  An operation returns what it closed.  Console output is left out.
\<close>

type_synonym call_result = "int \<times> int"

definition EAGAIN :: int where "EAGAIN = 11"
definition EINTR :: int where "EINTR = 4"

record SocketCalls =
  so_socket :: call_result
  so_reuse :: call_result
  so_getfl :: call_result
  so_setfl :: call_result
  so_pton :: "string \<Rightarrow> 32 word option \<times> int"
  so_bind :: "32 word \<times> 16 word \<Rightarrow> call_result"
  so_listen :: call_result

record TcpListener =
  tl_fd :: int
  tl_host :: string
  tl_port :: "16 word"
  tl_error :: int

definition listener_new :: TcpListener where
  "listener_new = \<lparr>tl_fd = -1, tl_host = [], tl_port = 0, tl_error = 0\<rparr>"

definition is_listening :: "TcpListener \<Rightarrow> bool" where
  "is_listening l \<longleftrightarrow> tl_fd l \<ge> 0"

subsection \<open>One call each\<close>

definition create_socket :: "SocketCalls \<Rightarrow> TcpListener \<Rightarrow> int \<times> TcpListener" where
  "create_socket w l =
     (let (sock, err) = so_socket w in if sock < 0 then (-1, l\<lparr>tl_error := err\<rparr>) else (sock, l))"

definition set_socket_options :: "SocketCalls \<Rightarrow> TcpListener \<Rightarrow> bool \<times> TcpListener" where
  "set_socket_options w l =
     (let (result, err) = so_reuse w in if result < 0 then (False, l\<lparr>tl_error := err\<rparr>) else (True, l))"

definition resolve_address :: "SocketCalls \<Rightarrow> string \<Rightarrow> 16 word \<Rightarrow> TcpListener \<Rightarrow> (32 word \<times> 16 word) option \<times> TcpListener" where
  "resolve_address w host port l =
     (if host = [] \<or> host = ''0.0.0.0'' \<or> host = ''*'' then (Some (0, port), l)
      else case so_pton w host of
        (None, err) \<Rightarrow> (None, l\<lparr>tl_error := err\<rparr>)
      | (Some addr, _) \<Rightarrow> (Some (addr, port), l))"

definition set_non_blocking :: "SocketCalls \<Rightarrow> TcpListener \<Rightarrow> bool \<times> TcpListener" where
  "set_non_blocking w l =
     (let (flags, err) = so_getfl w in
      if flags < 0 then (False, l\<lparr>tl_error := err\<rparr>)
      else let (result, err) = so_setfl w in
        if result < 0 then (False, l\<lparr>tl_error := err\<rparr>) else (True, l))"

definition bind_socket :: "SocketCalls \<Rightarrow> string \<Rightarrow> 16 word \<Rightarrow> TcpListener \<Rightarrow> bool \<times> TcpListener" where
  "bind_socket w host port l =
     (case resolve_address w host port l of
        (None, l) \<Rightarrow> (False, l)
      | (Some addr, l) \<Rightarrow>
          let (result, err) = so_bind w addr in
          if result < 0 then (False, l\<lparr>tl_error := err\<rparr>) else (True, l))"

definition listen_socket :: "SocketCalls \<Rightarrow> TcpListener \<Rightarrow> bool \<times> TcpListener" where
  "listen_socket w l =
     (let (result, err) = so_listen w in if result < 0 then (False, l\<lparr>tl_error := err\<rparr>) else (True, l))"

text \<open>\<^verbatim>\<open>UniqueFd::reset\<close> on the socket the listener owns.\<close>

definition reset_socket :: "int \<Rightarrow> TcpListener \<Rightarrow> TcpListener \<times> int list" where
  "reset_socket fd l =
     (if tl_fd l \<noteq> fd then (l\<lparr>tl_fd := fd\<rparr>, if tl_fd l \<ge> 0 then [tl_fd l] else []) else (l, []))"

subsection \<open>The operations\<close>

definition listener_start ::
  "SocketCalls \<Rightarrow> string \<Rightarrow> 16 word \<Rightarrow> bool \<Rightarrow> TcpListener \<Rightarrow> bool \<times> TcpListener \<times> int list" where
  "listener_start w host port non_blocking l =
     (let l = l\<lparr>tl_host := host, tl_port := port, tl_error := 0\<rparr>;
          (sock, l) = create_socket w l
      in if sock = -1 then (False, l, [])
      else let (ok, l) = set_socket_options w l in
      if \<not> ok then (False, l, [sock])
      else let (ok, l) = (if non_blocking then set_non_blocking w l else (True, l)) in
      if \<not> ok then (False, l, [sock])
      else let (ok, l) = bind_socket w host port l in
      if \<not> ok then (False, l, [sock])
      else let (ok, l) = listen_socket w l in
      if \<not> ok then (False, l, [sock])
      else let (l, closed) = reset_socket sock l in (True, l, closed))"

definition set_fd_non_blocking :: "call_result \<Rightarrow> call_result \<Rightarrow> bool" where
  "set_fd_non_blocking getfl setfl \<longleftrightarrow> \<not> fst getfl < 0 \<and> \<not> fst setfl < 0"

text \<open>
  Each element is the answer of one \<^verbatim>\<open>::accept\<close>; an interrupted call is repeated.  The
  result is \<^const>\<open>None\<close> while the last call made has not returned.
\<close>

fun listener_accept ::
  "call_result \<Rightarrow> call_result \<Rightarrow> call_result list \<Rightarrow> TcpListener \<Rightarrow> (int option \<times> TcpListener \<times> int list) option" where
  "listener_accept getfl setfl [] l = (if \<not> is_listening l then Some (None, l, []) else None)"
| "listener_accept getfl setfl ((client_fd, err) # answers) l =
     (if \<not> is_listening l then Some (None, l, [])
      else if client_fd < 0 then
        (let l = l\<lparr>tl_error := err\<rparr> in
         if err = EAGAIN then Some (None, l, [])
         else if err = EINTR then listener_accept getfl setfl answers l
         else Some (None, l, []))
      else if \<not> set_fd_non_blocking getfl setfl then Some (None, l, [client_fd])
      else Some (Some client_fd, l, []))"

definition listener_stop :: "TcpListener \<Rightarrow> TcpListener \<times> int list" where
  "listener_stop l =
     (if is_listening l then
        (let (l, closed) = reset_socket (-1) l in (l\<lparr>tl_host := [], tl_port := 0, tl_error := 0\<rparr>, closed))
      else (l, []))"

definition error_message :: "(int \<Rightarrow> string) \<Rightarrow> TcpListener \<Rightarrow> string" where
  "error_message strerror l = (if tl_error l = 0 then ''No error'' else strerror (tl_error l))"

subsection \<open>What becomes of the descriptors\<close>

definition held_fds :: "TcpListener \<Rightarrow> int list" where
  "held_fds l = (if tl_fd l \<ge> 0 then [tl_fd l] else [])"

definition opened_fds :: "SocketCalls \<Rightarrow> int list" where
  "opened_fds w = (if fst (so_socket w) \<ge> 0 then [fst (so_socket w)] else [])"

definition calls_succeed :: "SocketCalls \<Rightarrow> string \<Rightarrow> 16 word \<Rightarrow> bool \<Rightarrow> bool" where
  "calls_succeed w host port non_blocking \<longleftrightarrow>
     fst (so_socket w) \<ge> 0 \<and> fst (so_reuse w) \<ge> 0 \<and>
     (non_blocking \<longrightarrow> fst (so_getfl w) \<ge> 0 \<and> fst (so_setfl w) \<ge> 0) \<and>
     (\<exists>addr. (if host \<in> {[], ''0.0.0.0'', ''*''} then addr = 0 else fst (so_pton w host) = Some addr) \<and>
        fst (so_bind w (addr, port)) \<ge> 0) \<and>
     fst (so_listen w) \<ge> 0"

lemma set_socket_options_fields:
  "set_socket_options w l = (ok, l') \<Longrightarrow>
     ok = (fst (so_reuse w) \<ge> 0) \<and> tl_fd l' = tl_fd l \<and> tl_host l' = tl_host l \<and> tl_port l' = tl_port l \<and> (ok \<longrightarrow> l' = l)"
  by (auto simp: set_socket_options_def split: prod.splits if_splits)

lemma set_non_blocking_fields:
  "set_non_blocking w l = (ok, l') \<Longrightarrow>
     ok = (fst (so_getfl w) \<ge> 0 \<and> fst (so_setfl w) \<ge> 0) \<and> tl_fd l' = tl_fd l \<and> tl_host l' = tl_host l \<and>
     tl_port l' = tl_port l \<and> (ok \<longrightarrow> l' = l)"
  by (auto simp: set_non_blocking_def split: prod.splits if_splits)

lemma bind_socket_fields:
  "bind_socket w host port l = (ok, l') \<Longrightarrow>
     ok = (\<exists>addr. (if host \<in> {[], ''0.0.0.0'', ''*''} then addr = 0 else fst (so_pton w host) = Some addr) \<and>
        fst (so_bind w (addr, port)) \<ge> 0) \<and>
     tl_fd l' = tl_fd l \<and> tl_host l' = tl_host l \<and> tl_port l' = tl_port l \<and> (ok \<longrightarrow> l' = l)"
  by (auto simp: bind_socket_def resolve_address_def split: prod.splits if_splits option.splits)

lemma listen_socket_fields:
  "listen_socket w l = (ok, l') \<Longrightarrow>
     ok = (fst (so_listen w) \<ge> 0) \<and> tl_fd l' = tl_fd l \<and> tl_host l' = tl_host l \<and> tl_port l' = tl_port l \<and> (ok \<longrightarrow> l' = l)"
  by (auto simp: listen_socket_def split: prod.splits if_splits)


definition started :: "SocketCalls \<Rightarrow> string \<Rightarrow> 16 word \<Rightarrow> bool \<Rightarrow> TcpListener \<Rightarrow> bool \<Rightarrow> TcpListener \<Rightarrow> int list \<Rightarrow> bool" where
  "started w host port non_blocking l ok l' closed \<longleftrightarrow>
     ok = calls_succeed w host port non_blocking \<and> tl_host l' = host \<and> tl_port l' = port \<and>
     (ok \<longrightarrow> tl_fd l' = fst (so_socket w) \<and> tl_error l' = 0 \<and> closed = held_fds l) \<and>
     (\<not> ok \<longrightarrow> tl_fd l' = tl_fd l \<and> closed = opened_fds w)"

lemma start_cases:
  assumes "listener_start w host port nb l = (ok, l', closed)"
    and "fst (so_socket w) \<ge> 0 \<Longrightarrow> fst (so_socket w) \<noteq> tl_fd l"
  shows "started w host port nb l ok l' closed"
proof -
  define l0 where "l0 = l\<lparr>tl_host := host, tl_port := port, tl_error := 0\<rparr>"
  have f0: "tl_fd l0 = tl_fd l" "tl_host l0 = host" "tl_port l0 = port" "tl_error l0 = 0" by (simp_all add: l0_def)
  obtain sock err where so: "so_socket w = (sock, err)" by fastforce
  obtain ok2 l2 where o2: "set_socket_options w l0 = (ok2, l2)" by fastforce
  obtain ok3 l3 where o3: "(if nb then set_non_blocking w l2 else (True, l2)) = (ok3, l3)" by fastforce
  obtain ok4 l4 where o4: "bind_socket w host port l3 = (ok4, l4)" by fastforce
  obtain ok5 l5 where o5: "listen_socket w l4 = (ok5, l5)" by fastforce
  note f2 = set_socket_options_fields [OF o2] and f4 = bind_socket_fields [OF o4] and f5 = listen_socket_fields [OF o5]
  have f3: "ok3 = (nb \<longrightarrow> fst (so_getfl w) \<ge> 0 \<and> fst (so_setfl w) \<ge> 0) \<and> tl_fd l3 = tl_fd l2 \<and> tl_host l3 = tl_host l2 \<and>
      tl_port l3 = tl_port l2 \<and> (ok3 \<longrightarrow> l3 = l2)"
    using o3 set_non_blocking_fields [of w l2 ok3 l3] by (cases nb) auto
  show ?thesis
  proof (cases "sock < 0")
    case True
    then have "ok = False" "l' = l0\<lparr>tl_error := err\<rparr>" "closed = []"
      using assms(1) by (simp_all add: listener_start_def create_socket_def so l0_def Let_def)
    then show ?thesis using True by (simp add: started_def calls_succeed_def opened_fds_def so f0)
  next
    case False
    then have c: "create_socket w l0 = (sock, l0)" "sock \<noteq> -1" by (simp_all add: create_socket_def so)
    have run: "listener_start w host port nb l =
      (if \<not> ok2 then (False, l2, [sock]) else if \<not> ok3 then (False, l3, [sock])
       else if \<not> ok4 then (False, l4, [sock]) else if \<not> ok5 then (False, l5, [sock])
       else case reset_socket sock l5 of (l, closed) \<Rightarrow> (True, l, closed))"
      unfolding listener_start_def Let_def l0_def [symmetric] c prod.case o2 o3 o4 o5
      using c(2) by (simp add: o3 o4 o5 case_prod_unfold)
    have calls: "calls_succeed w host port nb = (ok2 \<and> ok3 \<and> ok4 \<and> ok5)"
      using f2 f3 f4 f5 False by (simp add: calls_succeed_def so conj_assoc)
    have op: "opened_fds w = [sock]" using False by (simp add: opened_fds_def so)
    show ?thesis
    proof (cases "ok2 \<and> ok3 \<and> ok4 \<and> ok5")
      case True
      then have "l5 = l0" using f2 f3 f4 f5 by simp
      then have "ok = True" "l' = l0\<lparr>tl_fd := sock\<rparr>" "closed = held_fds l"
        using assms run True False by (auto simp: reset_socket_def so f0 held_fds_def)
      then show ?thesis using True calls by (simp add: started_def so f0)
    next
      case no: False
      then have "\<not> ok \<and> closed = [sock] \<and> l' \<in> {l2, l3, l4, l5}"
        using assms(1) run by (auto split: if_splits)
      then show ?thesis using no calls op f0 f2 f3 f4 f5 by (auto simp: started_def)
    qed
  qed
qed

text \<open>
  C39: starting the listener.  It succeeds exactly when every call does, and then it owns
  the new socket, bound to the wanted address and port, and has closed the one it
  held; when it fails, the new socket has been closed and the old one is still
  held.  No descriptor is lost or closed twice: what was held and what was opened is
  what is held now and what was closed.
\<close>

theorem listener_start_accounts:
  assumes "listener_start w host port non_blocking l = (ok, l', closed)"
    and "fst (so_socket w) \<ge> 0 \<Longrightarrow> fst (so_socket w) \<noteq> tl_fd l"
  shows "ok = calls_succeed w host port non_blocking \<and>
    (ok \<longrightarrow> tl_fd l' = fst (so_socket w) \<and> tl_error l' = 0) \<and> (\<not> ok \<longrightarrow> tl_fd l' = tl_fd l) \<and>
    tl_host l' = host \<and> tl_port l' = port \<and>
    count_list (held_fds l @ opened_fds w) fd = count_list (held_fds l' @ closed) fd"
proof -
  have st: "started w host port non_blocking l ok l' closed" by (rule start_cases [OF assms])
  have "count_list (held_fds l @ opened_fds w) fd = count_list (held_fds l' @ closed) fd"
  proof (cases ok)
    case True
    then have "tl_fd l' = fst (so_socket w)" "closed = held_fds l" "fst (so_socket w) \<ge> 0"
      using st by (simp_all add: started_def calls_succeed_def)
    then have "held_fds l' @ closed = opened_fds w @ held_fds l" by (simp add: held_fds_def opened_fds_def)
    then show ?thesis by (simp only: count_list_append add.commute)
  next
    case False
    then have "held_fds l' @ closed = held_fds l @ opened_fds w"
      using st by (simp add: started_def held_fds_def)
    then show ?thesis by (simp only:)
  qed
  then show ?thesis using st unfolding started_def by blast
qed

theorem listener_start_accounts_witness:
  "\<exists>l'. listener_start \<lparr>so_socket = (7, 0), so_reuse = (0, 0), so_getfl = (2, 0), so_setfl = (0, 0), so_pton = (\<lambda>_. (None, 0)),
      so_bind = (\<lambda>_. (0, 0)), so_listen = (0, 0)\<rparr> ''*'' 8080 True (listener_new\<lparr>tl_fd := 3\<rparr>) = (True, l', [3]) \<and>
    count_list (held_fds l' @ [3]) 7 = 1"
proof -
  let ?w = "\<lparr>so_socket = (7, 0), so_reuse = (0, 0), so_getfl = (2, 0), so_setfl = (0, 0), so_pton = (\<lambda>_. (None, 0)),
      so_bind = (\<lambda>_. (0, 0)), so_listen = (0, 0)\<rparr>"
  have "listener_start ?w ''*'' 8080 True (listener_new\<lparr>tl_fd := 3\<rparr>) =
      (True, \<lparr>tl_fd = 7, tl_host = ''*'', tl_port = 8080, tl_error = 0\<rparr>, [3])"
    by code_simp
  then obtain l' where l': "listener_start ?w ''*'' 8080 True (listener_new\<lparr>tl_fd := 3\<rparr>) = (True, l', [3])" ..
  have "fst (so_socket ?w) \<noteq> tl_fd (listener_new\<lparr>tl_fd := 3\<rparr>)" by simp
  note listener_start_accounts [OF l' this, of 7, THEN conjunct2, THEN conjunct2, THEN conjunct2, THEN conjunct2, THEN conjunct2]
  moreover have "count_list (held_fds (listener_new\<lparr>tl_fd := 3\<rparr>) @ opened_fds ?w) 7 = 1" by code_simp
  ultimately have "count_list (held_fds l' @ [3]) 7 = 1" by (simp only:)
  then show ?thesis using l' by blast
qed

text \<open>
  A host that is not a numeric address leaves \<^verbatim>\<open>errno\<close> alone: the start fails and the
  listener reports no error.
\<close>

lemma bad_host_reports_no_error:
  assumes "fst (so_socket w) \<ge> 0" "fst (so_reuse w) \<ge> 0" "host \<notin> {[], ''0.0.0.0'', ''*''}" "so_pton w host = (None, 0)"
    and "listener_start w host port False l = (ok, l', closed)"
  shows "\<not> ok" "error_message strerror l' = ''No error''"
proof -
  define l0 where "l0 = l\<lparr>tl_host := host, tl_port := port, tl_error := 0\<rparr>"
  obtain sock e r e2 where c: "so_socket w = (sock, e)" "so_reuse w = (r, e2)" by fastforce
  have steps: "create_socket w l0 = (sock, l0)" "set_socket_options w l0 = (True, l0)" "sock \<noteq> -1"
    using assms(1,2) by (simp_all add: create_socket_def set_socket_options_def c)
  have b: "bind_socket w host port l0 = (False, l0\<lparr>tl_error := 0\<rparr>)"
    using assms(3,4) by (simp add: bind_socket_def resolve_address_def)
  have "listener_start w host port False l = (False, l0\<lparr>tl_error := 0\<rparr>, [sock])"
    unfolding listener_start_def Let_def l0_def [symmetric] steps prod.case if_False b
    using steps(3) by (simp only: prod.case if_False b simp_thms not_False_eq_True not_True_eq_False if_True)
  then have "ok = False \<and> l' = l0\<lparr>tl_error := 0\<rparr>" using assms(5) by simp
  then show "\<not> ok" "error_message strerror l' = ''No error''" by (simp_all add: error_message_def)
qed

text \<open>An interrupted \<^verbatim>\<open>accept\<close> is repeated, however often; a signal never ends the call.\<close>

lemma accept_repeats:
  "is_listening l \<Longrightarrow> listener_accept g t (replicate n (-1, EINTR) @ answers) l =
    (if n = 0 then listener_accept g t answers l
     else listener_accept g t answers (l\<lparr>tl_error := EINTR\<rparr>))"
  by (induction n arbitrary: l) (auto simp: is_listening_def EINTR_def EAGAIN_def)

lemma accept_accounts:
  "listener_accept g t answers l = Some (fd, l', closed) \<Longrightarrow>
     tl_fd l' = tl_fd l \<and> (closed = [] \<or> fd = None) \<and>
     (\<forall>c. fd = Some c \<longrightarrow> c \<ge> 0 \<and> set_fd_non_blocking g t) \<and> (\<forall>c \<in> set closed. c \<ge> 0 \<and> \<not> set_fd_non_blocking g t)"
  by (induction g t answers l rule: listener_accept.induct) (auto simp: Let_def split: if_splits)

end
