(* ===== verification/Fallback.thy ===== *)
theory Fallback
  imports Responses Connection Tcp_Listener
begin

section \<open>The blocking server of platforms without epoll: \<^verbatim>\<open>main.cpp\<close>\<close>

text \<open>
  One client at a time, with blocking calls.  The answers of \<^verbatim>\<open>recv\<close> and \<^verbatim>\<open>send\<close> come
  from two scripts; an operation that has used up its script has not returned
  (\<^const>\<open>None\<close>).  The clock is one value, since nothing here reads the activity stamp;
  log lines and the request counter they print are left out.  Route handlers and the
  file server do not throw.
\<close>

record Io =
  io_recv :: "RecvOutcome list"
  io_send :: "SendOutcome list"
  io_sent :: string

subsection \<open>Sending\<close>

fun send_bytes :: "string \<Rightarrow> nat \<Rightarrow> SendOutcome list \<Rightarrow> string \<Rightarrow> bool option \<times> SendOutcome list \<times> string" where
  "send_bytes data total_sent [] out = (if total_sent < length data then None else Some True, [], out)"
| "send_bytes data total_sent (outcome # outcomes) out =
     (if total_sent < length data then
        (case outcome of
           Sent n \<Rightarrow> send_bytes data (total_sent + n) outcomes (out @ take n (drop total_sent data))
         | _ \<Rightarrow> (Some False, outcomes, out))
      else (Some True, outcome # outcomes, out))"

definition send_response :: "string \<Rightarrow> Io \<Rightarrow> bool option \<times> Io" where
  "send_response data io =
     (let (r, outcomes, out) = send_bytes data 0 (io_send io) (io_sent io)
      in (r, io\<lparr>io_send := outcomes, io_sent := out\<rparr>))"

definition error_response :: "StatusCode \<Rightarrow> string \<Rightarrow> HttpResponse" where
  "error_response status message =
     set_connection_policy ConnectionPolicy.Close
       (response_set_header ''Server'' ''Aevrix/1.0.0''
         (response_set_header ''Content-Type'' ''text/plain'' (response_with_body status message)))"

definition send_error_response :: "StatusCode \<Rightarrow> string \<Rightarrow> Io \<Rightarrow> unit option \<times> Io" where
  "send_error_response status message io =
     (let (r, io) = send_response (serialize (error_response status message)) io in (map_option (\<lambda>_. ()) r, io))"

subsection \<open>Receiving\<close>

definition reject_request :: "string \<Rightarrow> RequestParser \<Rightarrow> Io \<Rightarrow> bool option \<times> RequestParser \<times> Io" where
  "reject_request message p io =
     (let (r, io) = send_error_response BadRequest message io in (map_option (\<lambda>_. False) r, p, io))"

fun receive_request :: "RecvOutcome list \<Rightarrow> RequestParser \<Rightarrow> Io \<Rightarrow> bool option \<times> RequestParser \<times> Io" where
  "receive_request [] p io =
     (if rp_state p \<noteq> Request_Parser.Complete \<and> rp_state p \<noteq> Request_Parser.Error then (None, p, io\<lparr>io_recv := []\<rparr>)
      else (Some (rp_state p = Request_Parser.Complete), p, io\<lparr>io_recv := []\<rparr>))"
| "receive_request (outcome # outcomes) p io =
     (if rp_state p \<noteq> Request_Parser.Complete \<and> rp_state p \<noteq> Request_Parser.Error then
        (case outcome of
           Received d \<Rightarrow>
             if d = [] then (Some False, p, io\<lparr>io_recv := outcomes\<rparr>)
             else let p = rp_feed d p in
               if rp_state p = Request_Parser.Error then reject_request (rp_error p) p (io\<lparr>io_recv := outcomes\<rparr>)
               else receive_request outcomes p io
         | _ \<Rightarrow> reject_request ''Receive error'' p (io\<lparr>io_recv := outcomes\<rparr>))
      else (Some (rp_state p = Request_Parser.Complete), p, io\<lparr>io_recv := outcome # outcomes\<rparr>))"

subsection \<open>A connection\<close>

datatype Round = RoundStuck | RoundLast | RoundNext

definition answer_request ::
  "'s Router \<Rightarrow> (string \<Rightarrow> Served) \<Rightarrow> millis \<Rightarrow> HttpRequest \<Rightarrow> Connection \<Rightarrow> Io \<Rightarrow> 's \<Rightarrow> Round \<times> Connection \<times> Io \<times> 's" where
  "answer_request routes file_server now request c io s =
     (let c = evaluate_keep_alive request c;
          (routed, s) = route request routes s;
          response = build_response (Some routed) file_server request;
          c = c\<lparr>cn_response := response\<rparr>;
          keep_alive = cn_keep_alive c;
          serialized = serialize response
      in if serialized = [] then (RoundLast, c\<lparr>cn_state := CsClosing\<rparr>, io, s)
      else let c = c\<lparr>cn_state := CsWriting, cn_write := WrBody\<rparr>;
               (sent, io) = send_response serialized io
           in case sent of
                None \<Rightarrow> (RoundStuck, c, io, s)
              | Some False \<Rightarrow> (RoundLast, c\<lparr>cn_write := WrError\<rparr>, io, s)
              | Some True \<Rightarrow>
                  let c = update_activity now (c\<lparr>cn_write := WrComplete\<rparr>) in
                  if \<not> keep_alive then (RoundLast, c\<lparr>cn_state := CsClosing\<rparr>, io, s)
                  else (RoundNext, c\<lparr>cn_state := CsWaiting, cn_read := RdIdle, cn_write := WrIdle\<rparr>, io, s))"

definition serve_round ::
  "'s Router \<Rightarrow> (string \<Rightarrow> Served) \<Rightarrow> millis \<Rightarrow> Connection \<Rightarrow> Io \<Rightarrow> 's \<Rightarrow> Round \<times> Connection \<times> Io \<times> 's" where
  "serve_round routes file_server now c io s =
     (let c = update_activity now (c\<lparr>cn_request_id := cn_request_id c + 1\<rparr>);
          (received, p, io) = receive_request (io_recv io) (cn_parser c) io;
          c = c\<lparr>cn_parser := p\<rparr>
      in case received of
           None \<Rightarrow> (RoundStuck, c, io, s)
         | Some False \<Rightarrow> (RoundLast, c\<lparr>cn_state := CsClosing\<rparr>, io, s)
         | Some True \<Rightarrow>
             if rp_state p \<noteq> Request_Parser.Complete then (RoundLast, c\<lparr>cn_state := CsClosing\<rparr>, io, s)
             else if rp_state p = Request_Parser.Error then (RoundLast, c\<lparr>cn_state := CsClosing\<rparr>, io, s)
             else answer_request routes file_server now (rp_request p) c io s)"

text \<open>Every further round has sent an answer, so the script of \<^verbatim>\<open>send\<close> gets shorter.\<close>

lemma send_bytes_shorter:
  "send_bytes data n outcomes out = (r, rest, out') \<Longrightarrow> length rest \<le> length outcomes \<and>
     (n < length data \<and> r = Some True \<longrightarrow> length rest < length outcomes)"
proof (induction data n outcomes out rule: send_bytes.induct)
  case (2 data n outcome outcomes out)
  then show ?case by (cases outcome) (auto split: if_splits)
qed auto

lemma send_response_shorter:
  "send_response data io = (r, io') \<Longrightarrow> length (io_send io') \<le> length (io_send io) \<and>
     (data \<noteq> [] \<and> r = Some True \<longrightarrow> length (io_send io') < length (io_send io))"
  using send_bytes_shorter [of data 0 "io_send io" "io_sent io"]
  by (auto simp: send_response_def split: prod.splits)

lemma reject_request_shorter: "reject_request m p io = (r, p', io') \<Longrightarrow> length (io_send io') \<le> length (io_send io)"
  by (auto simp: reject_request_def send_error_response_def split: prod.splits dest: send_response_shorter)

lemma receive_request_shorter:
  "receive_request outcomes p io = (r, p', io') \<Longrightarrow> length (io_send io') \<le> length (io_send io)"
proof (induction outcomes p io rule: receive_request.induct)
  case (2 outcome outcomes p io)
  then show ?case
    by (cases outcome) (auto simp: Let_def split: if_splits dest: reject_request_shorter)
qed (auto split: if_splits)

lemma serve_round_shorter:
  assumes "serve_round routes file_server now c io s = (RoundNext, c', io', s')"
  shows "length (io_send io') < length (io_send io)"
proof -
  obtain r p io1 where r: "receive_request (io_recv io) (cn_parser c) io = (r, p, io1)" by (metis prod_cases3)
  have le: "length (io_send io1) \<le> length (io_send io)" by (rule receive_request_shorter [OF r])
  have c: "cn_parser (update_activity now (c\<lparr>cn_request_id := cn_request_id c + 1\<rparr>)) = cn_parser c"
    by (simp add: update_activity_def)
  have "\<exists>c1. answer_request routes file_server now (rp_request p) c1 io1 s = (RoundNext, c', io', s')"
    using assms by (auto simp: serve_round_def c r Let_def split: option.splits bool.splits if_splits)
  then obtain c1 where "answer_request routes file_server now (rp_request p) c1 io1 s = (RoundNext, c', io', s')" ..
  then have "length (io_send io') < length (io_send io1)"
    by (auto simp: answer_request_def Let_def split: prod.splits option.splits bool.splits if_splits
        dest: send_response_shorter)
  then show ?thesis using le by linarith
qed

function serve_connection ::
  "'s Router \<Rightarrow> (string \<Rightarrow> Served) \<Rightarrow> millis \<Rightarrow> Connection \<Rightarrow> Io \<Rightarrow> 's \<Rightarrow> bool \<times> Connection \<times> Io \<times> 's" where
  "serve_connection routes file_server now c io s =
     (case serve_round routes file_server now c io s of
        (RoundNext, c', io', s') \<Rightarrow> serve_connection routes file_server now c' io' s'
      | (RoundLast, c', io', s') \<Rightarrow> (True, c', io', s')
      | (RoundStuck, c', io', s') \<Rightarrow> (False, c', io', s'))"
  by pat_completeness auto
termination
  by (relation "measure (\<lambda>(routes, file_server, now, c, io, s). length (io_send io))")
    (auto dest: serve_round_shorter [OF sym])

declare serve_connection.simps [simp del]

text \<open>
  At the end a \<^verbatim>\<open>UniqueFd\<close> on the descriptor is destroyed, and then the \<^verbatim>\<open>Connection\<close>,
  which owns the same descriptor.
\<close>

definition handle_connection ::
  "int \<Rightarrow> 64 word \<Rightarrow> 's Router \<Rightarrow> (string \<Rightarrow> Served) \<Rightarrow> millis \<Rightarrow> Io \<Rightarrow> 's \<Rightarrow> int list option \<times> Io \<times> 's" where
  "handle_connection client_fd counter routes file_server now io s =
     (let c = connection_new client_fd counter now;
          c = c\<lparr>cn_state := CsReading, cn_read := RdHeaders\<rparr>;
          (ended, c, io, s) = serve_connection routes file_server now c io s
      in if \<not> ended then (None, io, s)
      else (Some ((if client_fd \<ge> 0 then [client_fd] else []) @ closed_by_destructor (c\<lparr>cn_state := CsClosed\<rparr>)), io, s))"

text \<open>
  The loop of \<^verbatim>\<open>main\<close>.  A turn is the shutdown flag, the answer of \<^verbatim>\<open>accept\<close> and the script
  of the connection; the result says whether the loop was left, what was closed, and how
  many connections were handled.
\<close>

fun blocking_loop ::
  "(bool \<times> int option \<times> Io) list \<Rightarrow> 's Router \<Rightarrow> (string \<Rightarrow> Served) \<Rightarrow> millis \<Rightarrow> nat \<Rightarrow> int list \<Rightarrow> 's \<Rightarrow> bool \<times> nat \<times> int list \<times> 's" where
  "blocking_loop [] routes file_server now n closed s = (False, n, closed, s)"
| "blocking_loop ((shutdown_requested, accepted, io) # turns) routes file_server now n closed s =
     (if shutdown_requested then (True, n, closed, s)
      else case accepted of
        None \<Rightarrow> (True, n, closed, s)
      | Some fd \<Rightarrow>
          (case handle_connection fd (of_nat (n + 1)) routes file_server now io s of
             (None, _, s) \<Rightarrow> (False, n, closed, s)
           | (Some fds, _, s) \<Rightarrow> blocking_loop turns routes file_server now (n + 1) (closed @ fds) s))"


subsection \<open>One answer\<close>

text \<open>\<open>covers outcomes n\<close>: the calls of \<^verbatim>\<open>send\<close> succeed and take \<open>n\<close> bytes together.\<close>

fun covers :: "SendOutcome list \<Rightarrow> nat \<Rightarrow> bool" where
  "covers [] n \<longleftrightarrow> n = 0"
| "covers (Sent k # outcomes) n \<longleftrightarrow> 0 < k \<and> k \<le> n \<and> covers outcomes (n - k)"
| "covers (_ # outcomes) n \<longleftrightarrow> False"

lemma send_bytes_covers:
  "covers outcomes (length data - n) \<Longrightarrow> n \<le> length data \<Longrightarrow>
     send_bytes data n (outcomes @ rest) out = send_bytes data (length data) rest (out @ drop n data)"
proof (induction outcomes "length data - n" arbitrary: n out rule: covers.induct)
  case 1
  then show ?case by simp
next
  case (2 k outcomes)
  then have k: "0 < k" "k \<le> length data - n" "covers outcomes (length data - (n + k))" by simp_all
  have "send_bytes data n ((Sent k # outcomes) @ rest) out =
      send_bytes data (n + k) (outcomes @ rest) (out @ take k (drop n data))" using k by auto
  also have "\<dots> = send_bytes data (length data) rest ((out @ take k (drop n data)) @ drop (n + k) data)"
    by (rule 2(1)) (use k in auto)
  moreover have "take k (drop n data) @ drop (n + k) data = drop n data"
    by (metis add.commute append_take_drop_id drop_drop)
  ultimately show ?case by simp
qed simp_all

lemma send_response_covers:
  assumes "covers outcomes (length data)" "io_send io = outcomes @ rest"
  shows "send_response data io = (Some True, io\<lparr>io_send := rest, io_sent := io_sent io @ data\<rparr>)"
proof -
  have "send_bytes data (length data) rest out = (Some True, rest, out)" for out by (cases rest) simp_all
  then show ?thesis
    using send_bytes_covers [of outcomes data 0 rest "io_sent io"] assms by (simp add: send_response_def)
qed

text \<open>\<open>arrives chunks p q\<close>: fed piece by piece, the parser ends in \<open>q\<close> with the last piece.\<close>

fun arrives :: "string list \<Rightarrow> RequestParser \<Rightarrow> RequestParser \<Rightarrow> bool" where
  "arrives [] p q \<longleftrightarrow> p = q \<and> rp_state p = Request_Parser.Complete"
| "arrives (d # ds) p q \<longleftrightarrow>
     d \<noteq> [] \<and> rp_state p \<noteq> Request_Parser.Complete \<and> rp_state p \<noteq> Request_Parser.Error \<and>
     rp_state (rp_feed d p) \<noteq> Request_Parser.Error \<and> arrives ds (rp_feed d p) q"

lemma receive_arrives:
  "arrives ds p q \<Longrightarrow> receive_request (map Received ds @ later) p io = (Some True, q, io\<lparr>io_recv := later\<rparr>)"
proof (induction ds p q rule: arrives.induct)
  case (1 p q)
  then show ?case by (cases later) auto
qed (simp add: Let_def)

lemma arrives_complete: "arrives ds p q \<Longrightarrow> rp_state q = Request_Parser.Complete"
  by (induction ds p q rule: arrives.induct) auto

lemma evaluate_keep_alive_eq:
  "evaluate_keep_alive request c = c\<lparr>cn_keep_alive := wants_keep_alive request\<rparr>"
  by (simp add: evaluate_keep_alive_def wants_keep_alive_def Let_def)

text \<open>A round on a whole request, whatever state the connection is in.\<close>

lemma round_answers:
  assumes "arrives ds (cn_parser c) q" "io_recv io = map Received ds @ later"
    and "route (rp_request q) routes s = (response, s')" "serialize response \<noteq> []"
    and "covers outcomes (length (serialize response))" "io_send io = outcomes @ rest"
  shows "\<exists>c'. serve_round routes file_server now c io s =
      (if wants_keep_alive (rp_request q) then RoundNext else RoundLast, c',
       \<lparr>io_recv = later, io_send = rest, io_sent = io_sent io @ serialize response\<rparr>, s') \<and>
     cn_parser c' = q \<and> cn_fd c' = cn_fd c"
proof -
  have r: "receive_request (io_recv io) (cn_parser c) io = (Some True, q, io\<lparr>io_recv := later\<rparr>)"
    unfolding assms(2) by (rule receive_arrives [OF assms(1)])
  have snd: "send_response (serialize response) (io\<lparr>io_recv := later\<rparr>) =
      (Some True, (io\<lparr>io_recv := later\<rparr>)\<lparr>io_send := rest, io_sent := io_sent io @ serialize response\<rparr>)"
    by (subst send_response_covers [OF assms(5)]) (simp_all add: assms(6))
  have q: "rp_state q = Request_Parser.Complete" by (rule arrives_complete [OF assms(1)])
  have io: "(io\<lparr>io_recv := later\<rparr>)\<lparr>io_send := rest, io_sent := io_sent io @ serialize response\<rparr> =
      \<lparr>io_recv = later, io_send = rest, io_sent = io_sent io @ serialize response\<rparr>" by simp
  show ?thesis
    unfolding serve_round_def Let_def update_activity_def
    by (simp add: r q answer_request_def evaluate_keep_alive_eq assms(3,4) build_response_def snd Let_def update_activity_def)
qed




text \<open>A connection whose parser is already done is answered without reading.\<close>

lemma replay_rounds:
  assumes "rp_state (cn_parser c) = Request_Parser.Complete" "wants_keep_alive (rp_request (cn_parser c))"
    and "route (rp_request (cn_parser c)) routes s = (response, s)" "serialize response \<noteq> []"
    and "\<forall>outcomes \<in> set scripts. covers outcomes (length (serialize response))"
  shows "\<exists>c'. serve_connection routes file_server now c \<lparr>io_recv = later, io_send = concat scripts, io_sent = out\<rparr> s =
    (False, c', \<lparr>io_recv = later, io_send = [], io_sent = out @ concat (replicate (length scripts) (serialize response))\<rparr>, s)"
  using assms
proof (induction scripts arbitrary: c out)
  case Nil
  have r: "receive_request later (cn_parser c) io = (Some True, cn_parser c, io\<lparr>io_recv := later\<rparr>)" for io
    using receive_arrives [of "[]" "cn_parser c" "cn_parser c" later io] Nil(1) by simp
  have "\<exists>c'. serve_round routes file_server now c \<lparr>io_recv = later, io_send = [], io_sent = out\<rparr> s =
      (RoundStuck, c', \<lparr>io_recv = later, io_send = [], io_sent = out\<rparr>, s)"
    using Nil unfolding serve_round_def Let_def update_activity_def
    by (simp add: r answer_request_def evaluate_keep_alive_eq build_response_def send_response_def Let_def)
  then obtain c' where "serve_round routes file_server now c \<lparr>io_recv = later, io_send = [], io_sent = out\<rparr> s =
      (RoundStuck, c', \<lparr>io_recv = later, io_send = [], io_sent = out\<rparr>, s)" ..
  then show ?case by (subst serve_connection.simps) simp
next
  case (Cons outcomes scripts)
  let ?io = "\<lparr>io_recv = later, io_send = concat (outcomes # scripts), io_sent = out\<rparr>"
  let ?out = "out @ serialize response"
  obtain c1 where c1: "serve_round routes file_server now c ?io s =
      (RoundNext, c1, \<lparr>io_recv = later, io_send = concat scripts, io_sent = ?out\<rparr>, s)" "cn_parser c1 = cn_parser c"
    using round_answers [of "[]" c "cn_parser c" ?io later routes s response s outcomes "concat scripts" file_server now] Cons.prems
    by auto
  from Cons.IH [of c1 ?out] Cons.prems c1(2) obtain c' where
    "serve_connection routes file_server now c1 \<lparr>io_recv = later, io_send = concat scripts, io_sent = ?out\<rparr> s =
      (False, c', \<lparr>io_recv = later, io_send = [], io_sent = ?out @ concat (replicate (length scripts) (serialize response))\<rparr>, s)"
    by auto
  then show ?case by (subst serve_connection.simps) (simp add: c1(1) [simplified])
qed

text \<open>
  C38: a client that keeps the connection is answered again and again.  The parser is
  never reset, so every later round finds the first request still complete: it reads
  nothing and sends the same answer, as often as \<^verbatim>\<open>send\<close> succeeds, and the function does
  not return.  Here for any number of answers the socket takes, however it splits
  them.
\<close>

theorem blocking_answer_repeats:
  assumes "arrives ds (rp_new default_config) q" "wants_keep_alive (rp_request q)"
    and "route (rp_request q) routes s = (response, s)" "serialize response \<noteq> []"
    and "scripts \<noteq> []" "\<forall>outcomes \<in> set scripts. covers outcomes (length (serialize response))"
  shows "handle_connection fd k routes file_server now
      \<lparr>io_recv = map Received ds @ later, io_send = concat scripts, io_sent = []\<rparr> s =
    (None, \<lparr>io_recv = later, io_send = [], io_sent = concat (replicate (length scripts) (serialize response))\<rparr>, s)"
proof -
  let ?c = "(connection_new fd k now)\<lparr>cn_state := CsReading, cn_read := RdHeaders\<rparr>"
  obtain outcomes more where sc: "scripts = outcomes # more" using assms(5) by (cases scripts) auto
  let ?io = "\<lparr>io_recv = map Received ds @ later, io_send = concat scripts, io_sent = []\<rparr>"
  have c: "cn_parser ?c = rp_new default_config" by (simp add: connection_new_def)
  obtain c1 where c1: "serve_round routes file_server now ?c ?io s =
      (RoundNext, c1, \<lparr>io_recv = later, io_send = concat more, io_sent = serialize response\<rparr>, s)" "cn_parser c1 = q"
    using round_answers [of ds ?c q ?io later routes s response s outcomes "concat more" file_server now] assms c sc by auto
  obtain c' where "serve_connection routes file_server now c1
      \<lparr>io_recv = later, io_send = concat more, io_sent = serialize response\<rparr> s =
    (False, c', \<lparr>io_recv = later, io_send = [], io_sent = serialize response @ concat (replicate (length more) (serialize response))\<rparr>, s)"
    using replay_rounds [of c1 routes s response more file_server now later "serialize response"]
      arrives_complete [OF assms(1)] assms c1(2) sc by auto
  then have "serve_connection routes file_server now ?c ?io s =
    (False, c', \<lparr>io_recv = later, io_send = [], io_sent = serialize response @ concat (replicate (length more) (serialize response))\<rparr>, s)"
    by (subst serve_connection.simps) (simp add: c1(1))
  then show ?thesis by (simp add: handle_connection_def sc)
qed

theorem blocking_answer_repeats_witness:
  "let answer = serialize (set_connection_policy ConnectionPolicy.Close (text_response StatusCode.NotFound ''Not Found''))
   in handle_connection 5 1 [] (\<lambda>_. undefined) 0
      \<lparr>io_recv = [Received (''GET / HTTP/1.1'' @ CRLF @ CRLF), Received ''more''],
       io_send = [Sent (length answer), Sent (length answer)], io_sent = []\<rparr> () =
    (None, \<lparr>io_recv = [Received ''more''], io_send = [], io_sent = answer @ answer\<rparr>, ())"
proof -
  let ?ds = "[''GET / HTTP/1.1'' @ CRLF @ CRLF]"
  let ?q = "rp_feed (''GET / HTTP/1.1'' @ CRLF @ CRLF) (rp_new default_config)"
  let ?answer = "set_connection_policy ConnectionPolicy.Close (text_response StatusCode.NotFound ''Not Found'')"
  have a: "arrives ?ds (rp_new default_config) ?q" by code_simp
  have k: "wants_keep_alive (rp_request ?q)" by code_simp
  have r: "route (rp_request ?q) [] () = (?answer, ())" by (simp add: route_def)
  have l: "1 < length (serialize ?answer)" by code_simp
  then have n: "serialize ?answer \<noteq> []" and c: "covers [Sent (length (serialize ?answer))] (length (serialize ?answer))"
    by auto
  from blocking_answer_repeats [OF a k r n, of "[[Sent (length (serialize ?answer))], [Sent (length (serialize ?answer))]]"
      5 1 "\<lambda>_. undefined" 0 "[Received ''more'']"] c
  show ?thesis by (simp add: Let_def)
qed

text \<open>
  The router answers every request, with 404 when it has no route, so the file server is
  never asked.
\<close>

lemma round_ignores_files:
  "serve_round routes file_server now c io s = serve_round routes other_server now c io s"
proof -
  have "answer_request routes file_server now = answer_request routes other_server now"
    by (intro ext) (simp add: answer_request_def build_response_def)
  then show ?thesis by (simp only: serve_round_def)
qed

lemma fallback_serves_no_file:
  "handle_connection fd k routes file_server now io s = handle_connection fd k routes other_server now io s"
proof -
  have "serve_connection routes file_server now c io s = serve_connection routes other_server now c io s" for c io s
  proof (induction routes file_server now c io s rule: serve_connection.induct)
    case (1 routes file_server now c io s)
    obtain r c' io' s' where r: "serve_round routes file_server now c io s = (r, c', io', s')" by (metis prod_cases4)
    then have r': "serve_round routes other_server now c io s = (r, c', io', s')" by (simp only: round_ignores_files [of _ other_server _ _ _ _ file_server])
    show ?case
      unfolding serve_connection.simps [of routes file_server now c io s] serve_connection.simps [of routes other_server now c io s] r r'
      using 1 [OF r [symmetric] _ refl refl] by (cases r) simp_all
  qed
  then show ?thesis by (simp add: handle_connection_def)
qed

text \<open>
  \<^verbatim>\<open>TcpListener::accept\<close> has made the socket non-blocking, so the first \<^verbatim>\<open>recv\<close> of a client
  whose request is still under way fails, and the client is told that its request
  was bad.
\<close>

lemma early_read_is_rejected:
  assumes "fd \<ge> 0" "covers outcomes (length (serialize (error_response BadRequest ''Receive error'')))"
  shows "handle_connection fd k routes file_server now
      \<lparr>io_recv = RecvWouldBlock # later, io_send = outcomes @ rest, io_sent = []\<rparr> s =
    (Some [fd, fd], \<lparr>io_recv = later, io_send = rest, io_sent = serialize (error_response BadRequest ''Receive error'')\<rparr>, s)"
  using assms(1)
  by (subst handle_connection_def, subst serve_connection.simps)
    (simp add: serve_round_def connection_new_def update_activity_def rp_new_def reject_request_def send_error_response_def
      send_response_covers [OF assms(2)] closed_by_destructor_def Let_def)

end
