(* ===== verification/Signals.thy ===== *)
theory Signals
  imports Prelude
begin

section \<open>Signals and the reload wake-up: \<^verbatim>\<open>signal_handler.cpp\<close>, \<^verbatim>\<open>main.cpp\<close>\<close>

text \<open>
  A signal may arrive between any two steps of the event loop and on any thread, so the
  handlers and the loop are interleaved steps on a shared state: the two atomic flags, the
  counter of the eventfd, how many handlers are between two of their operations,
  and where the loop is.  An atomic operation, a \<^verbatim>\<open>read\<close> and a \<^verbatim>\<open>write\<close> of the eventfd are
  one step each.  \<open>wk_requests\<close> and \<open>wk_fresh\<close> only record what happened: the SIGHUPs
  delivered, and whether one came after the last reload began.
\<close>

subsection \<open>The handler object\<close>

record SignalHandler =
  sh_shutdown_requested :: bool
  sh_reload_requested :: bool
  sh_reload_notify_fd :: int

definition signal_state_new :: SignalHandler where
  "signal_state_new = \<lparr>sh_shutdown_requested = False, sh_reload_requested = False, sh_reload_notify_fd = -1\<rparr>"

definition set_reload_notify_fd :: "int \<Rightarrow> SignalHandler \<Rightarrow> SignalHandler" where
  "set_reload_notify_fd fd h = h\<lparr>sh_reload_notify_fd := fd\<rparr>"

text \<open>The exchange of \<^verbatim>\<open>request_shutdown\<close>; the callback runs when it succeeds.\<close>

definition exchange_shutdown :: "SignalHandler \<Rightarrow> bool \<times> SignalHandler" where
  "exchange_shutdown h =
     (if \<not> sh_shutdown_requested h then (True, h\<lparr>sh_shutdown_requested := True\<rparr>) else (False, h))"

definition consume_reload_request :: "SignalHandler \<Rightarrow> bool \<times> SignalHandler" where
  "consume_reload_request h =
     (if sh_reload_requested h then (True, h\<lparr>sh_reload_requested := False\<rparr>) else (False, h))"

definition store_reload :: "SignalHandler \<Rightarrow> SignalHandler" where
  "store_reload h = h\<lparr>sh_reload_requested := True\<rparr>"

definition SIGHUP :: int where "SIGHUP = 1"
definition SIGINT :: int where "SIGINT = 2"
definition SIGTERM :: int where "SIGTERM = 15"

datatype Action = RequestReload | RequestShutdown | NoAction

definition signal_handler_func :: "bool \<Rightarrow> int \<Rightarrow> Action" where
  "signal_handler_func installed signal =
     (if \<not> installed then NoAction
      else if signal = SIGHUP then RequestReload
      else if signal = SIGINT \<or> signal = SIGTERM then RequestShutdown
      else NoAction)"

subsection \<open>The eventfd\<close>

text \<open>A write that would overflow the counter fails; a read takes the whole counter.\<close>

definition eventfd_write :: "nat \<Rightarrow> nat" where
  "eventfd_write n = (if n < 2 ^ 64 - 2 then n + 1 else n)"

definition notify_write :: "SignalHandler \<Rightarrow> nat \<Rightarrow> nat" where
  "notify_write h n = (if sh_reload_notify_fd h \<ge> 0 then eventfd_write n else n)"

subsection \<open>Handlers and loop interleaved\<close>

datatype LoopPoint = LoopIdle | LoopDraining | LoopConsuming

record Wake =
  wk_handler :: SignalHandler
  wk_counter :: nat
  wk_writing :: nat
  wk_calling :: nat
  wk_callbacks :: nat
  wk_loop :: LoopPoint
  wk_reloads :: nat
  wk_requests :: nat
  wk_fresh :: bool

definition wake_new :: "int \<Rightarrow> Wake" where
  "wake_new fd = \<lparr>wk_handler = set_reload_notify_fd fd signal_state_new, wk_counter = 0, wk_writing = 0, wk_calling = 0,
     wk_callbacks = 0, wk_loop = LoopIdle, wk_reloads = 0, wk_requests = 0, wk_fresh = False\<rparr>"

definition signal_arrives :: "int \<Rightarrow> Wake \<Rightarrow> Wake" where
  "signal_arrives signal s =
     (case signal_handler_func True signal of
        RequestReload \<Rightarrow>
          s\<lparr>wk_handler := store_reload (wk_handler s), wk_writing := wk_writing s + 1,
            wk_requests := wk_requests s + 1, wk_fresh := True\<rparr>
      | RequestShutdown \<Rightarrow>
          (let (first, h) = exchange_shutdown (wk_handler s)
           in s\<lparr>wk_handler := h, wk_calling := (if first then wk_calling s + 1 else wk_calling s)\<rparr>)
      | NoAction \<Rightarrow> s)"

definition handler_writes :: "Wake \<Rightarrow> Wake" where
  "handler_writes s = s\<lparr>wk_counter := notify_write (wk_handler s) (wk_counter s), wk_writing := wk_writing s - 1\<rparr>"

definition handler_calls :: "Wake \<Rightarrow> Wake" where
  "handler_calls s = s\<lparr>wk_calling := wk_calling s - 1, wk_callbacks := wk_callbacks s + 1\<rparr>"

text \<open>What the reload callback and the maintenance pass do with the flag.\<close>

definition consume_and_reload :: "Wake \<Rightarrow> Wake" where
  "consume_and_reload s =
     (let (requested, h) = consume_reload_request (wk_handler s); s = s\<lparr>wk_handler := h\<rparr>
      in if requested then s\<lparr>wk_reloads := wk_reloads s + 1, wk_fresh := False\<rparr> else s)"

inductive wake_step :: "Wake \<Rightarrow> Wake \<Rightarrow> bool" where
  signal: "wake_step s (signal_arrives signal s)"
| writes: "wk_writing s > 0 \<Longrightarrow> wake_step s (handler_writes s)"
| calls: "wk_calling s > 0 \<Longrightarrow> wake_step s (handler_calls s)"
| wake: "wk_loop s = LoopIdle \<Longrightarrow> wk_counter s > 0 \<Longrightarrow> wake_step s (s\<lparr>wk_loop := LoopDraining\<rparr>)"
| drain: "wk_loop s = LoopDraining \<Longrightarrow> wk_counter s > 0 \<Longrightarrow> wake_step s (s\<lparr>wk_counter := 0\<rparr>)"
| drained: "wk_loop s = LoopDraining \<Longrightarrow> wk_counter s = 0 \<Longrightarrow> wake_step s (s\<lparr>wk_loop := LoopConsuming\<rparr>)"
| consume: "wk_loop s = LoopConsuming \<Longrightarrow> wake_step s ((consume_and_reload s)\<lparr>wk_loop := LoopIdle\<rparr>)"
| maintain: "wk_loop s = LoopIdle \<Longrightarrow> wake_step s (consume_and_reload s)"

inductive_cases wake_stepE: "wake_step s t"

inductive wake_reach :: "int \<Rightarrow> Wake \<Rightarrow> bool" for fd where
  start: "wake_reach fd (wake_new fd)"
| step: "wake_reach fd s \<Longrightarrow> wake_step s t \<Longrightarrow> wake_reach fd t"

text \<open>The loop left alone: the callback of a readable eventfd, then the maintenance pass.\<close>

definition event_pass :: "Wake \<Rightarrow> Wake" where
  "event_pass s = (if wk_counter s > 0 then consume_and_reload (s\<lparr>wk_counter := 0\<rparr>) else s)"

lemma consume_and_reload_fields:
  "wk_loop (consume_and_reload s) = wk_loop s" "wk_counter (consume_and_reload s) = wk_counter s"
  "wk_writing (consume_and_reload s) = wk_writing s" "wk_calling (consume_and_reload s) = wk_calling s"
  "wk_callbacks (consume_and_reload s) = wk_callbacks s" "wk_requests (consume_and_reload s) = wk_requests s"
  "sh_reload_requested (wk_handler (consume_and_reload s)) = False"
  "sh_reload_notify_fd (wk_handler (consume_and_reload s)) = sh_reload_notify_fd (wk_handler s)"
  "sh_shutdown_requested (wk_handler (consume_and_reload s)) = sh_shutdown_requested (wk_handler s)"
  "wk_reloads (consume_and_reload s) = (if sh_reload_requested (wk_handler s) then wk_reloads s + 1 else wk_reloads s)"
  "wk_fresh (consume_and_reload s) = (if sh_reload_requested (wk_handler s) then False else wk_fresh s)"
  by (auto simp: consume_and_reload_def consume_reload_request_def Let_def)

lemma event_pass_steps:
  assumes "wk_loop s = LoopIdle" "wk_counter s > 0"
  shows "wake_step\<^sup>*\<^sup>* s (event_pass s)"
proof -
  let ?s1 = "s\<lparr>wk_loop := LoopDraining\<rparr>" and ?s2 = "s\<lparr>wk_loop := LoopDraining, wk_counter := 0\<rparr>"
    and ?s3 = "s\<lparr>wk_counter := 0, wk_loop := LoopConsuming\<rparr>"
  have 1: "wake_step s ?s1" using assms by (rule wake_step.wake)
  have 2: "wake_step ?s1 ?s2" using wake_step.drain [of ?s1] assms by simp
  have 3: "wake_step ?s2 ?s3" using wake_step.drained [of ?s2] by simp
  have 4: "wake_step ?s3 ((consume_and_reload ?s3)\<lparr>wk_loop := LoopIdle\<rparr>)" using wake_step.consume [of ?s3] by simp
  have "(consume_and_reload ?s3)\<lparr>wk_loop := LoopIdle\<rparr> = event_pass s"
    using assms by (simp add: event_pass_def consume_and_reload_def consume_reload_request_def Let_def)
  with 1 2 3 4 show ?thesis by (metis (no_types) rtranclp.rtrancl_into_rtrancl rtranclp.rtrancl_refl)
qed

subsection \<open>The invariant\<close>

definition wake_ok :: "int \<Rightarrow> Wake \<Rightarrow> bool" where
  "wake_ok fd s \<longleftrightarrow>
     wk_fresh s = sh_reload_requested (wk_handler s) \<and> sh_reload_notify_fd (wk_handler s) = fd \<and>
     wk_reloads s + of_bool (sh_reload_requested (wk_handler s)) \<le> wk_requests s \<and>
     (fd \<ge> 0 \<and> sh_reload_requested (wk_handler s) \<and> wk_writing s = 0 \<and> wk_loop s = LoopIdle \<longrightarrow> wk_counter s > 0) \<and>
     wk_callbacks s + wk_calling s = of_bool (sh_shutdown_requested (wk_handler s))"

lemma signal_arrives_ok: "wake_ok fd s \<Longrightarrow> wake_ok fd (signal_arrives signal s)"
  by (auto simp: wake_ok_def signal_arrives_def store_reload_def exchange_shutdown_def Let_def split: Action.splits)

lemma wake_step_ok: "wake_step s t \<Longrightarrow> wake_ok fd s \<Longrightarrow> wake_ok fd t"
proof (induction rule: wake_step.induct)
  case (writes s)
  then show ?case by (auto simp: wake_ok_def handler_writes_def notify_write_def eventfd_write_def)
next
  case (consume s)
  then show ?case by (auto simp: wake_ok_def consume_and_reload_fields)
next
  case (maintain s)
  then show ?case by (auto simp: wake_ok_def consume_and_reload_fields)
next
  case (signal s sig)
  then show ?case by (rule signal_arrives_ok)
next
  case (calls s)
  then have "wk_callbacks s + 1 + (wk_calling s - 1) = wk_callbacks s + wk_calling s" by simp
  with calls show ?case
    by (cases "sh_shutdown_requested (wk_handler s)") (simp_all add: wake_ok_def handler_calls_def)
qed (simp_all add: wake_ok_def)

lemma wake_reach_ok: "wake_reach fd s \<Longrightarrow> wake_ok fd s"
proof (induction rule: wake_reach.induct)
  case start
  then show ?case by (simp add: wake_ok_def wake_new_def signal_state_new_def set_reload_notify_fd_def)
qed (rule wake_step_ok)

text \<open>
  C13: no reload request is lost and none is invented, under every interleaving of
  signals with the loop.  A SIGHUP that came after the last reload began is still
  flagged; reloads never outnumber SIGHUPs.  Once the handlers have returned and the
  loop is idle, an outstanding request finds the eventfd readable, and the loop's own next
  steps reload exactly once and leave nothing outstanding; without an eventfd the
  maintenance pass does the same.  The shutdown callback runs at most once.
\<close>

theorem reload_request_is_served:
  assumes "wake_reach fd s" "wk_loop s = LoopIdle" "wk_writing s = 0" "wk_fresh s"
  shows "(fd \<ge> 0 \<longrightarrow> wake_step\<^sup>*\<^sup>* s (event_pass s) \<and> wk_reloads (event_pass s) = wk_reloads s + 1 \<and> \<not> wk_fresh (event_pass s)) \<and>
    wk_reloads (consume_and_reload s) = wk_reloads s + 1 \<and> \<not> wk_fresh (consume_and_reload s) \<and>
    wk_reloads s < wk_requests s \<and> wk_callbacks s \<le> 1"
proof -
  have ok: "wake_ok fd s" by (rule wake_reach_ok [OF assms(1)])
  have f: "sh_reload_requested (wk_handler s)" using ok assms(4) by (simp add: wake_ok_def)
  have c: "fd \<ge> 0 \<Longrightarrow> wk_counter s > 0" using ok f assms(2,3) by (simp add: wake_ok_def)
  have "fd \<ge> 0 \<Longrightarrow> wk_reloads (event_pass s) = wk_reloads s + 1 \<and> \<not> wk_fresh (event_pass s)"
    using c f by (simp add: event_pass_def consume_and_reload_fields)
  moreover have "wk_callbacks s + wk_calling s \<le> 1" "wk_reloads s + 1 \<le> wk_requests s"
    using ok f unfolding wake_ok_def by simp_all
  then have "wk_reloads s < wk_requests s" "wk_callbacks s \<le> 1" by linarith+
  ultimately show ?thesis using event_pass_steps [OF assms(2)] c f by (simp add: consume_and_reload_fields)
qed

theorem reload_request_is_served_witness:
  "wk_reloads (event_pass (handler_writes (signal_arrives SIGHUP (wake_new 7)))) = 1"
proof -
  let ?s = "handler_writes (signal_arrives SIGHUP (wake_new 7))"
  have "wake_step (wake_new 7) (signal_arrives SIGHUP (wake_new 7))" by (rule wake_step.signal)
  then have "wake_reach 7 (signal_arrives SIGHUP (wake_new 7))" by (rule wake_reach.step [OF wake_reach.start])
  moreover have "wake_step (signal_arrives SIGHUP (wake_new 7)) ?s" by (rule wake_step.writes) code_simp
  ultimately have r: "wake_reach 7 ?s" by (rule wake_reach.step)
  have "wk_loop ?s = LoopIdle" "wk_writing ?s = 0" "wk_fresh ?s" "wk_reloads ?s = 0" by code_simp+
  with reload_request_is_served [OF r] show ?thesis by simp
qed

end
