(* ===== verification/Tls.thy ===== *)
theory Tls
  imports Server
begin

section \<open>TLS: \<^verbatim>\<open>tls_context.cpp\<close>, \<^verbatim>\<open>tls_connection.cpp\<close>\<close>

text \<open>
  The code around OpenSSL.  What the library answers is an argument: the result of each
  call and what \<^verbatim>\<open>SSL_get_error\<close> says of it.  A freed \<^verbatim>\<open>SSL\<close> or \<^verbatim>\<open>SSL_CTX\<close> is counted by the
  operations that free; an exception is \<^const>\<open>Inl\<close> its message.
\<close>

subsection \<open>The context\<close>

record TlsContext =
  cx_valid :: bool
  cx_min :: int
  cx_max :: int

record CertificateCalls =
  ce_certificate :: int
  ce_key :: int
  ce_check :: int
  ce_error :: string

definition tls_context_new :: "bool \<Rightarrow> string \<Rightarrow> string + TlsContext" where
  "tls_context_new created err_msg =
     (if \<not> created then Inl (''Failed to create SSL_CTX: '' @ err_msg)
      else Inr \<lparr>cx_valid = True, cx_min = 0, cx_max = 0\<rparr>)"

definition load_certificate_and_key :: "CertificateCalls \<Rightarrow> TlsContext \<Rightarrow> string option" where
  "load_certificate_and_key w cx =
     (if \<not> cx_valid cx then Some ''SSL_CTX is null''
      else if ce_certificate w \<noteq> 1 then Some (''Failed to load certificate: '' @ ce_error w)
      else if ce_key w \<noteq> 1 then Some (''Failed to load private key: '' @ ce_error w)
      else if ce_check w \<noteq> 1 then Some (''Certificate and private key do not match: '' @ ce_error w)
      else None)"

definition version_string_to_constant :: "string \<Rightarrow> string + int" where
  "version_string_to_constant version =
     (if version = ''TLSv1.2'' then Inr 0x0303
      else if version = ''TLSv1.3'' then Inr 0x0304
      else Inl (''Unsupported TLS version: '' @ version))"

definition set_min_protocol_version :: "(int \<Rightarrow> int) \<Rightarrow> string \<Rightarrow> TlsContext \<Rightarrow> string + TlsContext" where
  "set_min_protocol_version set_proto min_version cx =
     (if \<not> cx_valid cx then Inl ''SSL_CTX is null''
      else case version_string_to_constant min_version of
        Inl e \<Rightarrow> Inl e
      | Inr version \<Rightarrow>
          if set_proto version \<noteq> 1 then Inl (''Failed to set minimum TLS version: '' @ min_version)
          else Inr (cx\<lparr>cx_min := version\<rparr>))"

definition set_max_protocol_version :: "(int \<Rightarrow> int) \<Rightarrow> string \<Rightarrow> TlsContext \<Rightarrow> string + TlsContext" where
  "set_max_protocol_version set_proto max_version cx =
     (if \<not> cx_valid cx then Inl ''SSL_CTX is null''
      else case version_string_to_constant max_version of
        Inl e \<Rightarrow> Inl e
      | Inr version \<Rightarrow>
          if set_proto version \<noteq> 1 then Inl (''Failed to set maximum TLS version: '' @ max_version)
          else Inr (cx\<lparr>cx_max := version\<rparr>))"

text \<open>Moving: the target frees what it had; the result is the two objects and how many were freed.\<close>

definition tls_context_move :: "TlsContext \<Rightarrow> TlsContext \<Rightarrow> TlsContext \<times> TlsContext \<times> nat" where
  "tls_context_move this other = (other, other\<lparr>cx_valid := False\<rparr>, if cx_valid this then 1 else 0)"

subsection \<open>The connection\<close>

datatype SslError = SslWantRead | SslWantWrite | SslZeroReturn | SslSyscall | SslProtocol | SslOther int
datatype TlsIoRequirement = TlsNone | TlsWantRead | TlsWantWrite | TlsBoth | TlsClosed
datatype TlsHandshakeState = HandshakeNotStarted | HandshakeInProgress | HandshakeComplete | HandshakeFailed

record TlsConnection =
  tc_ssl :: bool
  tc_state :: TlsHandshakeState
  tc_fd :: int

definition tls_connection_new :: "bool \<Rightarrow> int \<Rightarrow> string \<Rightarrow> int \<Rightarrow> string + TlsConnection" where
  "tls_connection_new created set_fd err_msg fd =
     (if \<not> created then Inl (''Failed to create SSL object: '' @ err_msg)
      else if set_fd \<noteq> 1 then Inl (''Failed to set SSL file descriptor: '' @ err_msg)
      else Inr \<lparr>tc_ssl = True, tc_state = HandshakeNotStarted, tc_fd = fd\<rparr>)"

definition tls_connection_move :: "TlsConnection \<Rightarrow> TlsConnection \<Rightarrow> TlsConnection \<times> TlsConnection \<times> nat" where
  "tls_connection_move this other =
     (other, \<lparr>tc_ssl = False, tc_state = HandshakeNotStarted, tc_fd = -1\<rparr>, if tc_ssl this then 1 else 0)"

definition handle_ssl_error :: "SslError \<Rightarrow> TlsIoRequirement" where
  "handle_ssl_error ssl_error =
     (case ssl_error of
        SslWantRead \<Rightarrow> TlsWantRead
      | SslWantWrite \<Rightarrow> TlsWantWrite
      | SslZeroReturn \<Rightarrow> TlsClosed
      | SslSyscall \<Rightarrow> TlsClosed
      | SslProtocol \<Rightarrow> TlsClosed
      | SslOther _ \<Rightarrow> TlsClosed)"

definition do_handshake :: "int \<Rightarrow> SslError \<Rightarrow> TlsConnection \<Rightarrow> TlsIoRequirement \<times> TlsConnection" where
  "do_handshake result err t =
     (if \<not> tc_ssl t then (TlsClosed, t\<lparr>tc_state := HandshakeFailed\<rparr>)
      else let t = t\<lparr>tc_state := HandshakeInProgress\<rparr> in
        if result > 0 then (TlsNone, t\<lparr>tc_state := HandshakeComplete\<rparr>)
        else let io_req = handle_ssl_error err in
          if io_req = TlsClosed then (io_req, t\<lparr>tc_state := HandshakeFailed\<rparr>) else (io_req, t))"

text \<open>\<open>got\<close> is what \<^verbatim>\<open>SSL_read\<close> left in the buffer, as long as its positive result.\<close>

definition tls_read :: "int \<Rightarrow> SslError \<Rightarrow> string \<Rightarrow> TlsConnection \<Rightarrow> TlsIoRequirement \<times> string" where
  "tls_read result err got t =
     (if \<not> tc_ssl t then (TlsClosed, [])
      else if result > 0 then (TlsNone, take (nat result) got)
      else if err = SslZeroReturn then (TlsClosed, [])
      else (handle_ssl_error err, []))"

definition tls_write :: "int \<Rightarrow> SslError \<Rightarrow> TlsConnection \<Rightarrow> TlsIoRequirement \<times> nat" where
  "tls_write result err t =
     (if \<not> tc_ssl t then (TlsClosed, 0)
      else if result > 0 then (TlsNone, nat result)
      else (handle_ssl_error err, 0))"

definition tls_shutdown :: "int \<Rightarrow> SslError \<Rightarrow> TlsConnection \<Rightarrow> TlsIoRequirement" where
  "tls_shutdown result err t =
     (if \<not> tc_ssl t then TlsClosed
      else if result = 1 then TlsClosed
      else if result = 0 then handle_ssl_error err
      else handle_ssl_error err)"

definition is_handshake_complete :: "TlsConnection \<Rightarrow> bool" where
  "is_handshake_complete t \<longleftrightarrow> tc_state t = HandshakeComplete"

definition is_handshake_failed :: "TlsConnection \<Rightarrow> bool" where
  "is_handshake_failed t \<longleftrightarrow> tc_state t = HandshakeFailed"

subsection \<open>What the server makes of it\<close>

text \<open>
  The answers \<open>World\<close> gives to the handlers of the server, computed from the TLS layer:
  what \<^verbatim>\<open>read_nonblocking\<close> and \<^verbatim>\<open>write_nonblocking\<close> distinguish, and the three cases of the
  handshake in the client callback.
\<close>

definition read_outcome :: "TlsIoRequirement \<times> string \<Rightarrow> TlsReadOutcome" where
  "read_outcome r =
     (if fst r = TlsClosed then TlsReadClosed
      else if fst r = TlsWantRead \<or> fst r = TlsWantWrite then TlsReadWant
      else TlsRead (snd r))"

definition write_outcome :: "TlsIoRequirement \<times> nat \<Rightarrow> TlsWriteOutcome" where
  "write_outcome r =
     (if fst r = TlsClosed then TlsWriteClosed
      else if fst r = TlsWantRead \<or> fst r = TlsWantWrite then TlsWriteWant
      else TlsWritten (snd r))"

definition handshake_outcome :: "TlsIoRequirement \<times> TlsConnection \<Rightarrow> Handshake" where
  "handshake_outcome r =
     (if is_handshake_complete (snd r) then HsComplete
      else if is_handshake_failed (snd r) then HsFailed
      else if fst r = TlsWantWrite then HsWants [EPOLLOUT]
      else if fst r = TlsWantRead then HsWants [EPOLLIN]
      else if fst r = TlsBoth then HsWants [EPOLLIN, EPOLLOUT]
      else HsWants [EPOLLIN])"

text \<open>The answers of \<^verbatim>\<open>SSL_accept\<close> in a row, as far as the handshake goes on.\<close>

fun handshake_run :: "(int \<times> SslError) list \<Rightarrow> TlsConnection \<Rightarrow> Handshake list" where
  "handshake_run [] t = []"
| "handshake_run ((result, err) # answers) t =
     (let r = do_handshake result err t; h = handshake_outcome r
      in h # (case h of HsWants _ \<Rightarrow> handshake_run answers (snd r) | _ \<Rightarrow> []))"

lemma handshake_outcome_eq:
  "tc_ssl t \<Longrightarrow> handshake_outcome (do_handshake result err t) =
     (if result > 0 then HsComplete
      else if err = SslWantRead then HsWants [EPOLLIN]
      else if err = SslWantWrite then HsWants [EPOLLOUT] else HsFailed)"
  by (cases err) (simp_all add: do_handshake_def handshake_outcome_def is_handshake_complete_def is_handshake_failed_def
      handle_ssl_error_def Let_def)

text \<open>
  The loop waits for exactly what OpenSSL asked for; it ends at the first answer that is
  neither "want" nor success, and succeeds only on a positive answer.
\<close>

lemma handshake_waits_for_what_it_needs:
  assumes "tc_ssl t" "\<forall>(result, err) \<in> set wants. result \<le> 0 \<and> (err = SslWantRead \<or> err = SslWantWrite)"
  shows "handshake_run (wants @ (result, err) # rest) t =
    map (\<lambda>(_, err). HsWants [if err = SslWantRead then EPOLLIN else EPOLLOUT]) wants @
    handshake_run ((result, err) # rest) t"
  using assms
proof (induction wants arbitrary: t)
  case (Cons w wants)
  obtain r e where w: "w = (r, e)" by (cases w)
  let ?t = "snd (do_handshake r e t)"
  have e: "\<not> r > 0" "e = SslWantRead \<or> e = SslWantWrite" "tc_ssl ?t"
    using Cons.prems by (auto simp: w do_handshake_def handle_ssl_error_def Let_def)
  have "do_handshake result err ?t = do_handshake result err t"
    using Cons.prems(1) e by (auto simp: do_handshake_def handle_ssl_error_def Let_def)
  then have s: "handshake_run ((result, err) # rest) ?t = handshake_run ((result, err) # rest) t" by simp
  have "handshake_run (w # wants @ (result, err) # rest) t =
      HsWants [if e = SslWantRead then EPOLLIN else EPOLLOUT] # handshake_run (wants @ (result, err) # rest) ?t"
    using e handshake_outcome_eq [OF Cons.prems(1), of r e] by (auto simp: w Let_def)
  also have "\<dots> = HsWants [if e = SslWantRead then EPOLLIN else EPOLLOUT] #
      map (\<lambda>(_, err). HsWants [if err = SslWantRead then EPOLLIN else EPOLLOUT]) wants @ handshake_run ((result, err) # rest) ?t"
    using Cons.IH [OF e(3)] Cons.prems(2) by simp
  finally show ?case unfolding s by (simp add: w)
qed simp

text \<open>The requirement "both" is never produced.\<close>

lemma both_is_never_wanted: "fst (do_handshake result err t) \<noteq> TlsBoth" "fst (tls_read result err got t) \<noteq> TlsBoth"
  "fst (tls_write result err t) \<noteq> TlsBoth" "tls_shutdown result err t \<noteq> TlsBoth"
  by (cases err; simp add: do_handshake_def tls_read_def tls_write_def tls_shutdown_def handle_ssl_error_def Let_def)+

end
