(* ===== verification/Startup.thy ===== *)
theory Startup
  imports Admin Tcp_Listener Tls
begin

section \<open>How the server starts: \<^verbatim>\<open>main\<close> up to the event loop\<close>

text \<open>
  Command line, configuration file, log level, store, listeners and the TLS context.  A
  result \<^const>\<open>Inl\<close> is a start that ends with exit status 1, with what was logged; every
  exception on the way is caught by \<^verbatim>\<open>main\<close> and ends so too.
\<close>

record StartCalls =
  sc_listener :: SocketCalls
  sc_tls_listener :: SocketCalls
  sc_context :: bool
  sc_certificates :: CertificateCalls
  sc_set_proto :: "int \<Rightarrow> int"
  sc_strerror :: "int \<Rightarrow> string"

record Started =
  sd_config :: ServerConfig
  sd_level :: LogLevel
  sd_store :: ConfigStore
  sd_listener :: TcpListener
  sd_tls :: "(TlsContext \<times> TcpListener) option"

definition startup_config :: "bool \<Rightarrow> (string \<Rightarrow> string option) \<Rightarrow> string \<Rightarrow> string \<Rightarrow> string + ServerConfig" where
  "startup_config tls read_file config_file document_root =
     (case (if config_file \<noteq> [] then
              (case read_file config_file of
                 None \<Rightarrow> Inl (''Cannot open configuration file: '' @ config_file)
               | Some content \<Rightarrow> load_from_parser tls (parse_text content) config_default)
            else Inr config_default) of
        Inl e \<Rightarrow> Inl e
      | Inr c \<Rightarrow> Inr (override_root document_root c))"

definition start_tls_context :: "StartCalls \<Rightarrow> ServerConfig \<Rightarrow> string + TlsContext" where
  "start_tls_context w c =
     (case tls_context_new (sc_context w) (ce_error (sc_certificates w)) of
        Inl e \<Rightarrow> Inl e
      | Inr cx \<Rightarrow>
          (case load_certificate_and_key (sc_certificates w) cx of
             Some e \<Rightarrow> Inl e
           | None \<Rightarrow>
               (case (if cfg_tls_min_version c \<noteq> [] then set_min_protocol_version (sc_set_proto w) (cfg_tls_min_version c) cx
                      else Inr cx) of
                  Inl e \<Rightarrow> Inl e
                | Inr cx \<Rightarrow>
                    if cfg_tls_max_version c \<noteq> [] then set_max_protocol_version (sc_set_proto w) (cfg_tls_max_version c) cx
                    else Inr cx)))"

definition start_tls :: "StartCalls \<Rightarrow> ServerConfig \<Rightarrow> string + (TlsContext \<times> TcpListener) option" where
  "start_tls w c =
     (if \<not> cfg_tls_enabled c then Inr None
      else case start_tls_context w c of
        Inl e \<Rightarrow> Inl (''TLS initialization failed: '' @ e)
      | Inr cx \<Rightarrow>
          (let (_, l, _) = listener_start (sc_tls_listener w) (cfg_host c) (cfg_tls_port c) False listener_new
           in if \<not> is_listening l then Inl (''Failed to start TLS listener: '' @ error_message (sc_strerror w) l)
              else Inr (Some (cx, l))))"

definition startup ::
  "bool \<Rightarrow> (string \<Rightarrow> string option) \<Rightarrow> StartCalls \<Rightarrow> string list \<Rightarrow> string + Started" where
  "startup tls read_file w args =
     (case parse_arguments args of
        ArgsRejected \<Rightarrow> Inl ''Argument parsing failed''
      | ArgsOk config_file document_root \<Rightarrow>
          (case startup_config tls read_file config_file document_root of
             Inl e \<Rightarrow> Inl (''Exception: '' @ e)
           | Inr c \<Rightarrow>
               (let level = snd (set_level_from_string (cfg_log_level c) INFO);
                    store = store_new c config_file;
                    (_, l, _) = listener_start (sc_listener w) (cfg_host c) (cfg_port c) False listener_new
                in if \<not> is_listening l then Inl (''Failed to start TCP listener: '' @ error_message (sc_strerror w) l)
                   else case (if tls then start_tls w c else Inr None) of
                     Inl e \<Rightarrow> Inl e
                   | Inr t \<Rightarrow>
                       Inr \<lparr>sd_config = c, sd_level = level, sd_store = store, sd_listener = l, sd_tls = t\<rparr>)))"

text \<open>On Linux both listeners are stopped and started again, non-blocking.\<close>

definition restart_listener :: "SocketCalls \<Rightarrow> string \<Rightarrow> 16 word \<Rightarrow> TcpListener \<Rightarrow> bool \<times> TcpListener \<times> int list" where
  "restart_listener w host port l =
     (let (l, closed) = listener_stop l; (ok, l, closed') = listener_start w host port True l
      in (ok, l, closed @ closed'))"

lemma stop_fields:
  "tl_fd (fst (listener_stop l)) = (if tl_fd l \<ge> 0 then -1 else tl_fd l)" "snd (listener_stop l) = held_fds l"
  by (simp_all add: listener_stop_def is_listening_def reset_socket_def held_fds_def Let_def)

text \<open>The second start loses nothing: the first socket is closed before the second one is opened.\<close>

lemma restart_accounts:
  assumes "restart_listener w host port l = (ok, l', closed)"
  shows "ok = calls_succeed w host port True" "is_listening l' = ok"
    "count_list (held_fds l @ opened_fds w) fd = count_list (held_fds l' @ closed) fd"
proof -
  obtain l1 c1 where s: "listener_stop l = (l1, c1)" by fastforce
  obtain ok2 l2 c2 where t: "listener_start w host port True l1 = (ok2, l2, c2)" by (metis prod_cases3)
  have r: "ok = ok2" "l' = l2" "closed = c1 @ c2" using assms by (simp_all add: restart_listener_def s t)
  have l1: "tl_fd l1 < 0" "c1 = held_fds l" using stop_fields [of l] by (simp_all add: s split: if_splits)
  have st: "started w host port True l1 ok2 l2 c2" by (rule start_cases [OF t]) (use l1 in simp)
  then show "ok = calls_succeed w host port True" by (simp add: r started_def)
  show "is_listening l' = ok"
    using st l1(1) by (cases ok2) (auto simp: r started_def is_listening_def calls_succeed_def)
  have "held_fds l2 @ c2 = opened_fds w"
    using st l1(1) by (cases ok2) (auto simp: started_def held_fds_def opened_fds_def calls_succeed_def)
  then have "held_fds l2 @ c1 @ c2 = held_fds l2 @ held_fds l @ c2 \<and> count_list (held_fds l2 @ c2) fd = count_list (opened_fds w) fd"
    using l1(2) by simp
  then show "count_list (held_fds l @ opened_fds w) fd = count_list (held_fds l' @ closed) fd"
    by (simp add: r l1(2))
qed

lemma first_start_listens:
  assumes "listener_start w host port nb listener_new = (ok, l, closed)"
  shows "is_listening l = calls_succeed w host port nb" "tl_host l = host" "tl_port l = port"
proof -
  have "started w host port nb listener_new ok l closed" by (rule start_cases [OF assms]) (simp add: listener_new_def)
  then have st: "ok = calls_succeed w host port nb" "tl_host l = host" "tl_port l = port"
    "ok \<Longrightarrow> tl_fd l = fst (so_socket w)" "\<not> ok \<Longrightarrow> tl_fd l = -1"
    by (simp_all add: started_def listener_new_def)
  have "calls_succeed w host port nb \<Longrightarrow> fst (so_socket w) \<ge> 0" by (simp add: calls_succeed_def)
  then show "is_listening l = calls_succeed w host port nb" using st by (cases ok) (simp_all add: is_listening_def)
  show "tl_host l = host" "tl_port l = port" by (rule st)+
qed

lemma override_root_ok: "config_ok tls c \<Longrightarrow> config_ok tls (override_root document_root c)"
  by (simp add: override_root_def config_ok_def)

lemma config_default_ok: "config_ok tls config_default"
proof -
  have "config_ok True config_default" by code_simp
  then show ?thesis by (simp add: config_ok_def)
qed

lemma startup_config_ok: "startup_config tls read_file f root = Inr c \<Longrightarrow> config_ok tls c"
  by (auto simp: startup_config_def config_default_ok override_root_ok loaded_config_ok split: sum.splits if_splits option.splits)

lemma diff_root:
  "diff_keys (c\<lparr>cfg_document_root := root\<rparr>) c = (if root = cfg_document_root c then [] else [''document_root''])"
proof -
  have same: "diff_walk (xs @ ys) (xs @ zs) = diff_walk ys zs" for xs ys zs by (induction xs) auto
  have r: "flatten (c\<lparr>cfg_document_root := r\<rparr>) = take 3 (flatten c) @ (''document_root'', r) # drop 4 (flatten c)" for r
    unfolding flatten_def by (simp only: take_Cons_numeral drop_Cons_numeral) simp
  have c: "flatten c = take 3 (flatten c) @ (''document_root'', cfg_document_root c) # drop 4 (flatten c)"
    using r [of "cfg_document_root c"] by simp
  have "diff_walk (flatten (c\<lparr>cfg_document_root := root\<rparr>)) (flatten c) =
      diff_walk ((''document_root'', root) # drop 4 (flatten c)) ((''document_root'', cfg_document_root c) # drop 4 (flatten c))"
    by (rule trans [OF arg_cong2 [OF r c, of diff_walk] same])
  moreover have "diff_walk (drop 4 (flatten c)) (drop 4 (flatten c)) = []" using same [of "drop 4 (flatten c)" "[]" "[]"] by simp
  ultimately show ?thesis by (simp add: diff_keys_def diff_entries_def)
qed

lemma override_root_update: "override_root root c = c\<lparr>cfg_document_root := cfg_document_root (override_root root c)\<rparr>"
  by (simp add: override_root_def)

text \<open>
  C15: a server that starts runs a valid configuration, with the root of the command
  line in place of the file's (unless it is the default "./public", which cannot override
  the file), published as generation 1, and listens where the configuration says.  When
  the unchanged file is reloaded, the reload succeeds and the override is lost: the
  active configuration is the file's, and the document root is reported as changed.
\<close>

theorem started_then_reloaded:
  assumes "startup tls read_file w args = Inr d" "parse_arguments args = ArgsOk f root"
    and "f \<noteq> []" "read_file f = Some content" "load_from_parser tls (parse_text content) config_default = Inr c"
    and "candidate_error tls readable c = None"
  shows "sd_config d = override_root root c \<and> config_ok tls (sd_config d) \<and>
    is_listening (sd_listener d) \<and> tl_host (sd_listener d) = cfg_host c \<and> tl_port (sd_listener d) = cfg_port c \<and>
    st_active (sd_store d) = sd_config d \<and> st_generation (sd_store d) = 1 \<and>
    (case try_reload tls readable read_file [] (sd_store d) of (out, st) \<Rightarrow>
       out_success out \<and> st_active st = c \<and> st_generation st = 2 \<and>
       out_changes out = (if cfg_document_root (override_root root c) = cfg_document_root c then [] else [''document_root'']))"
proof -
  let ?c = "override_root root c"
  have sc: "startup_config tls read_file f root = Inr ?c" using assms(3-5) by (simp add: startup_config_def)
  obtain ok l closed where l: "listener_start (sc_listener w) (cfg_host ?c) (cfg_port ?c) False listener_new = (ok, l, closed)"
    by (metis prod_cases3)
  have d: "is_listening l" "sd_config d = ?c" "sd_listener d = l" "sd_store d = store_new ?c f"
    using assms(1) by (auto simp: startup_def assms(2) sc l Let_def split: if_splits sum.splits)
  have hp: "cfg_host ?c = cfg_host c" "cfg_port ?c = cfg_port c" by (simp_all add: override_root_def)
  obtain out st where r: "try_reload tls readable read_file [] (store_new ?c f) = (out, st)" by fastforce
  then have "publish c f (store_new ?c f) = (out, st)"
    using assms(3-6) by (simp add: try_reload_def try_reload_from_parser_def store_new_def)
  note p = publish_outcome [OF this]
  have "out_changes out = diff_keys ?c c" using p by (simp add: store_new_def)
  also have "\<dots> = (if cfg_document_root ?c = cfg_document_root c then [] else [''document_root''])"
    by (subst override_root_update) (rule diff_root)
  finally show ?thesis
    using p d(1-3) first_start_listens(2,3) [OF l] startup_config_ok [OF sc]
    unfolding d(4) r prod.case hp by (simp add: store_new_def)
qed

theorem started_then_reloaded_witness:
  "\<exists>d. startup False (\<lambda>f. if f = ''a.conf'' then Some ''document_root = /srv'' else None)
      \<lparr>sc_listener = \<lparr>so_socket = (7, 0), so_reuse = (0, 0), so_getfl = (2, 0), so_setfl = (0, 0),
          so_pton = (\<lambda>_. (Some 0x7F000001, 0)), so_bind = (\<lambda>_. (0, 0)), so_listen = (0, 0)\<rparr>,
       sc_tls_listener = undefined, sc_context = False, sc_certificates = undefined, sc_set_proto = undefined,
       sc_strerror = undefined\<rparr> [''-c'', ''a.conf'', ''--root'', ''/home/www''] = Inr d \<and>
    out_changes (fst (try_reload False (\<lambda>_. True) (\<lambda>f. if f = ''a.conf'' then Some ''document_root = /srv'' else None) []
      (sd_store d))) = [''document_root'']"
proof -
  let ?read = "\<lambda>f. if f = ''a.conf'' then Some ''document_root = /srv'' else None"
  let ?w = "\<lparr>sc_listener = \<lparr>so_socket = (7, 0), so_reuse = (0, 0), so_getfl = (2, 0), so_setfl = (0, 0),
      so_pton = (\<lambda>_. (Some 0x7F000001, 0)), so_bind = (\<lambda>_. (0, 0)), so_listen = (0, 0)\<rparr>,
    sc_tls_listener = undefined, sc_context = False, sc_certificates = undefined, sc_set_proto = undefined,
    sc_strerror = undefined\<rparr>"
  let ?args = "[''-c'', ''a.conf'', ''--root'', ''/home/www'']"
  let ?c = "config_default\<lparr>cfg_document_root := ''/srv''\<rparr>"
  have a: "parse_arguments ?args = ArgsOk ''a.conf'' ''/home/www''" by code_simp
  have c: "load_from_parser False (parse_text ''document_root = /srv'') config_default = Inr ?c" by code_simp
  have sc: "startup_config False ?read ''a.conf'' ''/home/www'' = Inr (override_root ''/home/www'' ?c)"
    using c by (simp add: startup_config_def)
  have hp: "cfg_host (override_root ''/home/www'' ?c) = ''127.0.0.1''" "cfg_port (override_root ''/home/www'' ?c) = 8080"
    by code_simp+
  have l: "listener_start (sc_listener ?w) ''127.0.0.1'' 8080 False listener_new =
      (True, \<lparr>tl_fd = 7, tl_host = ''127.0.0.1'', tl_port = 8080, tl_error = 0\<rparr>, [])" by code_simp
  have "\<exists>d. startup False ?read ?w ?args = Inr d"
    unfolding startup_def a Arguments.case sc sum.case Let_def hp l prod.case by (simp add: is_listening_def)
  then obtain d where d: "startup False ?read ?w ?args = Inr d" ..
  have e: "candidate_error False (\<lambda>_. True) ?c = None" by (simp add: candidate_error_def)
  have "cfg_document_root (override_root ''/home/www'' ?c) \<noteq> cfg_document_root ?c" by code_simp
  then have "out_changes (fst (try_reload False (\<lambda>_. True) ?read [] (sd_store d))) = [''document_root'']"
    using started_then_reloaded [OF d a _ _ c e] by (simp add: case_prod_unfold)
  with d show ?thesis by blast
qed

end
