(* ===== verification/Metrics.thy ===== *)
theory Metrics
  imports Responses "HOL-Library.Multiset"
begin

section \<open>Metrics and their endpoints: \<^verbatim>\<open>metrics.cpp\<close>, \<^verbatim>\<open>observability.cpp\<close>\<close>

text \<open>
  The counters are 64-bit and wrap around.  The two \<^verbatim>\<open>unordered_map\<close>s are association lists;
  the order in which C++ walks them is unspecified, and the model keeps the order of
  insertion, which only the exported texts show.  Each operation holds its lock
  throughout, so it is one step.
\<close>

definition MAX_LATENCY_SAMPLES :: nat where "MAX_LATENCY_SAMPLES = 10000"

record Metrics =
  mt_total_requests :: "64 word"
  mt_status_code_counts :: "(int \<times> 64 word) list"
  mt_total_connections :: "64 word"
  mt_active_connections :: "64 word"
  mt_total_errors :: "64 word"
  mt_error_type_counts :: "(string \<times> 64 word) list"
  mt_latency_samples :: "64 word list"
  mt_bytes_sent :: "64 word"
  mt_bytes_received :: "64 word"
  mt_parser_failures :: "64 word"

definition metrics_new :: Metrics where
  "metrics_new =
     \<lparr>mt_total_requests = 0,
      mt_status_code_counts =
        map (\<lambda>code. (code, 0)) [200, 201, 204, 206, 304, 400, 401, 403, 404, 405, 409, 413, 429, 500, 501, 502, 503],
      mt_total_connections = 0, mt_active_connections = 0, mt_total_errors = 0,
      mt_error_type_counts =
        map (\<lambda>type. (type, 0)) [''parse_error'', ''timeout'', ''io_error'', ''connection_error'', ''configuration_error''],
      mt_latency_samples = [], mt_bytes_sent = 0, mt_bytes_received = 0, mt_parser_failures = 0\<rparr>"

subsection \<open>Counting\<close>

definition increment_requests :: "Metrics \<Rightarrow> Metrics" where
  "increment_requests m = m\<lparr>mt_total_requests := mt_total_requests m + 1\<rparr>"

definition increment_connections :: "Metrics \<Rightarrow> Metrics" where
  "increment_connections m = m\<lparr>mt_total_connections := mt_total_connections m + 1\<rparr>"

definition increment_active_connections :: "Metrics \<Rightarrow> Metrics" where
  "increment_active_connections m = m\<lparr>mt_active_connections := mt_active_connections m + 1\<rparr>"

definition decrement_active_connections :: "Metrics \<Rightarrow> Metrics" where
  "decrement_active_connections m = m\<lparr>mt_active_connections := mt_active_connections m - 1\<rparr>"

definition increment_errors :: "Metrics \<Rightarrow> Metrics" where
  "increment_errors m = m\<lparr>mt_total_errors := mt_total_errors m + 1\<rparr>"

definition add_bytes_sent :: "64 word \<Rightarrow> Metrics \<Rightarrow> Metrics" where
  "add_bytes_sent bytes m = m\<lparr>mt_bytes_sent := mt_bytes_sent m + bytes\<rparr>"

definition add_bytes_received :: "64 word \<Rightarrow> Metrics \<Rightarrow> Metrics" where
  "add_bytes_received bytes m = m\<lparr>mt_bytes_received := mt_bytes_received m + bytes\<rparr>"

definition increment_parser_failures :: "Metrics \<Rightarrow> Metrics" where
  "increment_parser_failures m = m\<lparr>mt_parser_failures := mt_parser_failures m + 1\<rparr>"

text \<open>\<^verbatim>\<open>counts[key]++\<close>: a missing key is inserted with 0 first.\<close>

fun increment_count :: "'k \<Rightarrow> ('k \<times> 64 word) list \<Rightarrow> ('k \<times> 64 word) list" where
  "increment_count key [] = [(key, 1)]"
| "increment_count key ((k, n) # counts) =
     (if k = key then (k, n + 1) # counts else (k, n) # increment_count key counts)"

definition count_of :: "'k \<Rightarrow> ('k \<times> 64 word) list \<Rightarrow> 64 word" where
  "count_of key counts = (case map_of counts key of Some n \<Rightarrow> n | None \<Rightarrow> 0)"

definition increment_status_code :: "int \<Rightarrow> Metrics \<Rightarrow> Metrics" where
  "increment_status_code status_code m = m\<lparr>mt_status_code_counts := increment_count status_code (mt_status_code_counts m)\<rparr>"

definition status_code_count :: "int \<Rightarrow> Metrics \<Rightarrow> 64 word" where
  "status_code_count status_code m = count_of status_code (mt_status_code_counts m)"

definition increment_error_type :: "string \<Rightarrow> Metrics \<Rightarrow> Metrics" where
  "increment_error_type type m = m\<lparr>mt_error_type_counts := increment_count type (mt_error_type_counts m)\<rparr>"

definition error_type_count :: "string \<Rightarrow> Metrics \<Rightarrow> 64 word" where
  "error_type_count type m = count_of type (mt_error_type_counts m)"

subsection \<open>Latencies\<close>

definition record_latency :: "64 word \<Rightarrow> Metrics \<Rightarrow> Metrics" where
  "record_latency latency_us m =
     (let samples = mt_latency_samples m @ [latency_us]
      in m\<lparr>mt_latency_samples := (if length samples > MAX_LATENCY_SAMPLES then tl samples else samples)\<rparr>)"

definition latency_percentile :: "nat \<Rightarrow> Metrics \<Rightarrow> 64 word" where
  "latency_percentile k m =
     (if mt_latency_samples m = [] then 0
      else let sorted = sort (mt_latency_samples m) in sorted ! (length sorted * k div 100))"

definition latency_p50 :: "Metrics \<Rightarrow> 64 word" where "latency_p50 m = latency_percentile 50 m"
definition latency_p95 :: "Metrics \<Rightarrow> 64 word" where "latency_p95 m = latency_percentile 95 m"
definition latency_p99 :: "Metrics \<Rightarrow> 64 word" where "latency_p99 m = latency_percentile 99 m"

definition latency_mean :: "Metrics \<Rightarrow> 64 word" where
  "latency_mean m =
     (if mt_latency_samples m = [] then 0
      else foldl (+) 0 (mt_latency_samples m) div of_nat (length (mt_latency_samples m)))"

definition metrics_reset :: "Metrics \<Rightarrow> Metrics" where
  "metrics_reset m =
     m\<lparr>mt_total_requests := 0, mt_total_connections := 0, mt_active_connections := 0, mt_total_errors := 0,
       mt_bytes_sent := 0, mt_bytes_received := 0, mt_parser_failures := 0,
       mt_status_code_counts := map (\<lambda>(code, _). (code, 0)) (mt_status_code_counts m),
       mt_error_type_counts := map (\<lambda>(type, _). (type, 0)) (mt_error_type_counts m),
       mt_latency_samples := []\<rparr>"

subsection \<open>The exported texts\<close>

definition u64_text :: "64 word \<Rightarrow> string" where
  "u64_text n = to_string (unat n)"

definition prometheus_head :: "string \<Rightarrow> string \<Rightarrow> string \<Rightarrow> string" where
  "prometheus_head name description kind =
     ''# HELP '' @ name @ '' '' @ description @ [LF] @ ''# TYPE '' @ name @ '' '' @ kind @ [LF]"

definition prometheus_value :: "string \<Rightarrow> string \<Rightarrow> string \<Rightarrow> 64 word \<Rightarrow> string" where
  "prometheus_value name description kind v =
     prometheus_head name description kind @ name @ '' '' @ u64_text v @ [LF, LF]"

definition prometheus_counts :: "string \<Rightarrow> string \<Rightarrow> ('k \<Rightarrow> string) \<Rightarrow> ('k \<times> 64 word) list \<Rightarrow> string" where
  "prometheus_counts name label text counts =
     concat (map (\<lambda>(key, count).
       if count > 0 then name @ ''{'' @ label @ ''='' @ [DQUOTE] @ text key @ [DQUOTE] @ ''} '' @ u64_text count @ [LF] else [])
       counts)"

definition export_prometheus :: "Metrics \<Rightarrow> string" where
  "export_prometheus m =
     prometheus_value ''aevrix_requests_total'' ''Total number of requests'' ''counter'' (mt_total_requests m) @
     prometheus_head ''aevrix_requests_by_status'' ''Total requests by status code'' ''gauge'' @
     prometheus_counts ''aevrix_requests_by_status'' ''status_code'' int_to_string (mt_status_code_counts m) @ [LF] @
     prometheus_value ''aevrix_connections_total'' ''Total number of connections'' ''counter'' (mt_total_connections m) @
     prometheus_value ''aevrix_connections_active'' ''Number of active connections'' ''gauge'' (mt_active_connections m) @
     prometheus_value ''aevrix_errors_total'' ''Total number of errors'' ''counter'' (mt_total_errors m) @
     prometheus_head ''aevrix_errors_by_type'' ''Total errors by type'' ''gauge'' @
     prometheus_counts ''aevrix_errors_by_type'' ''error_type'' (\<lambda>s. s) (mt_error_type_counts m) @ [LF] @
     prometheus_value ''aevrix_latency_p50'' ''Request latency p50 (microseconds)'' ''gauge'' (latency_p50 m) @
     prometheus_value ''aevrix_latency_p95'' ''Request latency p95 (microseconds)'' ''gauge'' (latency_p95 m) @
     prometheus_value ''aevrix_latency_p99'' ''Request latency p99 (microseconds)'' ''gauge'' (latency_p99 m) @
     prometheus_value ''aevrix_latency_mean'' ''Request latency mean (microseconds)'' ''gauge'' (latency_mean m) @
     prometheus_value ''aevrix_bytes_sent_total'' ''Total bytes sent'' ''counter'' (mt_bytes_sent m) @
     prometheus_value ''aevrix_bytes_received_total'' ''Total bytes received'' ''counter'' (mt_bytes_received m) @
     prometheus_value ''aevrix_parser_failures_total'' ''Total parser failures'' ''counter'' (mt_parser_failures m)"

definition text_line :: "string \<Rightarrow> 64 word \<Rightarrow> string" where
  "text_line label v = label @ '': '' @ u64_text v @ [LF]"

definition text_counts :: "('k \<Rightarrow> string) \<Rightarrow> ('k \<times> 64 word) list \<Rightarrow> string" where
  "text_counts text counts =
     concat (map (\<lambda>(key, count). if count > 0 then text_line (''    '' @ text key) count else []) counts)"

definition export_text :: "Metrics \<Rightarrow> string" where
  "export_text m =
     ''=== Aevrix Server Metrics ==='' @ [LF, LF] @
     ''Requests:'' @ [LF] @ text_line ''  Total'' (mt_total_requests m) @
     ''  By Status Code:'' @ [LF] @ text_counts int_to_string (mt_status_code_counts m) @ [LF] @
     ''Connections:'' @ [LF] @ text_line ''  Total'' (mt_total_connections m) @
     text_line ''  Active'' (mt_active_connections m) @ [LF] @
     ''Errors:'' @ [LF] @ text_line ''  Total'' (mt_total_errors m) @
     ''  By Type:'' @ [LF] @ text_counts (\<lambda>s. s) (mt_error_type_counts m) @ [LF] @
     ''Latency (microseconds):'' @ [LF] @ text_line ''  Mean'' (latency_mean m) @ text_line ''  P50'' (latency_p50 m) @
     text_line ''  P95'' (latency_p95 m) @ text_line ''  P99'' (latency_p99 m) @ [LF] @
     ''Bytes:'' @ [LF] @ text_line ''  Sent'' (mt_bytes_sent m) @ text_line ''  Received'' (mt_bytes_received m) @ [LF] @
     text_line ''Parser Failures'' (mt_parser_failures m) @ [LF]"

subsection \<open>The endpoints\<close>

definition endpoint :: "string \<Rightarrow> string \<Rightarrow> HttpRequest \<Rightarrow> HttpResponse" where
  "endpoint content_type b request =
     (if req_method request \<noteq> GET then response_new MethodNotAllowed
      else response_set_header ''Content-Type'' content_type (response_set_body b (response_new OK)))"

definition handle_metrics_endpoint :: "Metrics RouteHandler" where
  "handle_metrics_endpoint request m = (endpoint ''text/plain; version=0.0.4'' (export_prometheus m) request, m)"

definition handle_health_endpoint :: "Metrics RouteHandler" where
  "handle_health_endpoint request m =
     (endpoint ''text/plain''
        (''OK'' @ [LF] @ ''status: healthy'' @ [LF] @ text_line ''active_connections'' (mt_active_connections m)) request, m)"

definition handle_server_info_endpoint :: "Metrics RouteHandler" where
  "handle_server_info_endpoint request m =
     (endpoint ''text/plain''
        (''Aevrix HTTP Server'' @ [LF] @ ''Version: 1.0.0'' @ [LF] @ ''HTTP Version: HTTP/1.1'' @ [LF] @
         ''C++ Standard: C++20'' @ [LF, LF] @ ''Metrics:'' @ [LF] @
         text_line ''  Total Requests'' (mt_total_requests m) @
         text_line ''  Total Connections'' (mt_total_connections m) @
         text_line ''  Active Connections'' (mt_active_connections m) @
         text_line ''  Total Errors'' (mt_total_errors m) @
         text_line ''  Bytes Sent'' (mt_bytes_sent m) @
         text_line ''  Bytes Received'' (mt_bytes_received m) @
         text_line ''  Parser Failures'' (mt_parser_failures m)) request, m)"

definition register_observability_endpoints :: "Metrics Router \<Rightarrow> Metrics Router" where
  "register_observability_endpoints routes =
     add_route ''GET'' ''/server-info'' handle_server_info_endpoint
       (add_route ''GET'' ''/health'' handle_health_endpoint
         (add_route ''GET'' ''/metrics'' handle_metrics_endpoint routes))"

subsection \<open>The window of samples\<close>

definition window :: "64 word list \<Rightarrow> 64 word list" where
  "window ls = drop (length ls - MAX_LATENCY_SAMPLES) ls"

lemma record_window:
  "mt_latency_samples m = window ls \<Longrightarrow> mt_latency_samples (record_latency l m) = window (ls @ [l])"
proof -
  assume m: "mt_latency_samples m = window ls"
  show ?thesis
  proof (cases "length ls < MAX_LATENCY_SAMPLES")
    case True
    then show ?thesis using m by (simp add: record_latency_def window_def Let_def)
  next
    case False
    then have "length (window ls) = MAX_LATENCY_SAMPLES" "window ls \<noteq> []"
      by (simp_all add: window_def MAX_LATENCY_SAMPLES_def)
    then have "mt_latency_samples (record_latency l m) = tl (window ls) @ [l]"
      using m by (simp add: record_latency_def Let_def)
    also have "tl (window ls) = drop (length ls + 1 - MAX_LATENCY_SAMPLES) ls"
      using False by (simp add: window_def drop_Suc [symmetric] tl_drop Suc_diff_le)
    finally show ?thesis using False by (simp add: window_def MAX_LATENCY_SAMPLES_def)
  qed
qed

lemma records_window: "mt_latency_samples m = [] \<Longrightarrow> mt_latency_samples (fold record_latency ls m) = window ls"
proof (induction ls rule: rev_induct)
  case Nil
  then show ?case by (simp add: window_def)
next
  case (snoc l ls)
  then show ?case by (simp add: record_window)
qed

lemma length_filter_sort: "length (filter P (sort xs)) = length (filter P xs)"
  by (metis mset_filter mset_sort size_mset)

lemma sort_rank:
  fixes xs :: "'a::linorder list"
  assumes "i < length xs"
  shows "length (filter (\<lambda>y. y < sort xs ! i) xs) \<le> i" "i < length (filter (\<lambda>y. y \<le> sort xs ! i) xs)"
proof -
  let ?s = "sort xs"
  have s: "sorted ?s" "i < length ?s" using assms by simp_all
  have "filter (\<lambda>y. y < ?s ! i) (drop i ?s) = []"
    using s by (auto simp: filter_empty_conv in_set_conv_nth sorted_iff_nth_mono not_less)
  then have "length (filter (\<lambda>y. y < ?s ! i) ?s) = length (filter (\<lambda>y. y < ?s ! i) (take i ?s))"
    by (metis append_Nil2 append_take_drop_id filter_append)
  also have "\<dots> \<le> i" by (rule order_trans [OF length_filter_le]) simp
  finally show "length (filter (\<lambda>y. y < ?s ! i) xs) \<le> i" by (simp add: length_filter_sort)
  have "filter (\<lambda>y. y \<le> ?s ! i) (take (Suc i) ?s) = take (Suc i) ?s"
    using s by (auto simp: filter_id_conv in_set_conv_nth sorted_iff_nth_mono)
  then have "length (take (Suc i) ?s) \<le> length (filter (\<lambda>y. y \<le> ?s ! i) ?s)"
    by (metis append_take_drop_id filter_append le_add1 length_append)
  then show "i < length (filter (\<lambda>y. y \<le> ?s ! i) xs)" using s(2) by (simp add: length_filter_sort)
qed

text \<open>
  After any latencies were recorded, the statistics are those of the last 10000: the
  50th, 95th and 99th percentile are samples of that window in ascending order, each with
  at most its share of the samples below it and more than that share at or
  below it, and the mean is the sum of the window modulo \<open>2 ^ 64\<close> over its size.
\<close>

lemma latency_statistics:
  assumes "ls \<noteq> []" "m = fold record_latency ls metrics_new" "w = window ls"
    and "(k, p) \<in> {(50, latency_p50 m), (95, latency_p95 m), (99, latency_p99 m)}"
  shows "length w = min (length ls) MAX_LATENCY_SAMPLES \<and> latency_p50 m \<le> latency_p95 m \<and> latency_p95 m \<le> latency_p99 m \<and>
    p \<in> set w \<and> length (filter (\<lambda>y. y < p) w) \<le> length w * k div 100 \<and>
    length w * k div 100 < length (filter (\<lambda>y. y \<le> p) w) \<and>
    unat (latency_mean m) = sum_list (map unat w) mod 2 ^ 64 div length w"
proof -
  have w: "mt_latency_samples m = w" unfolding assms(2,3) by (rule records_window) (simp add: metrics_new_def)
  have len: "length w = min (length ls) MAX_LATENCY_SAMPLES" by (simp add: assms(3) window_def)
  moreover have "0 < min (length ls) MAX_LATENCY_SAMPLES" using assms(1) by (simp add: MAX_LATENCY_SAMPLES_def)
  ultimately have "0 < length w" by (simp only:)
  then have ne: "w \<noteq> []" by simp
  have idx: "length w * j div 100 < length w" if "j < 100" for j
    using ne that by (simp add: less_mult_imp_div_less)
  have pc: "latency_percentile j m = sort w ! (length w * j div 100)" for j
    using ne by (simp add: latency_percentile_def w)
  have mono: "latency_percentile i m \<le> latency_percentile j m" if "i \<le> j" "j < 100" for i j
    unfolding pc using idx [OF that(2)] that(1)
    by (intro sorted_nth_mono) (simp_all add: div_le_mono)
  have kk: "k < 100" and p: "p = sort w ! (length w * k div 100)"
    using assms(4) by (auto simp: latency_p50_def latency_p95_def latency_p99_def pc)
  have "p \<in> set w" unfolding p using idx [OF kk] by (metis length_sort nth_mem set_sort)
  moreover have "foldl (+) a xs = (a :: 64 word) + sum_list xs" for a xs by (induction xs arbitrary: a) (simp_all add: add.assoc)
  then have "latency_mean m = sum_list w div of_nat (length w)" using ne by (simp add: latency_mean_def w)
  moreover have "unat (sum_list xs) = sum_list (map unat xs) mod 2 ^ 64" for xs :: "64 word list"
    by (induction xs) (simp_all add: unat_word_ariths mod_simps)
  moreover have "unat (of_nat (length w) :: 64 word) = length w"
    using len by (simp add: unsigned_of_nat take_bit_nat_eq_self MAX_LATENCY_SAMPLES_def)
  ultimately show ?thesis
    using len mono [of 50 95] mono [of 95 99] sort_rank [OF idx [OF kk]]
    by (simp add: latency_p50_def latency_p95_def latency_p99_def unat_div p)
qed

lemma latency_statistics_witness:
  "latency_p50 (fold record_latency [30, 10, 20] metrics_new) \<in> set (window [30, 10, 20])"
  using latency_statistics [of "[30, 10, 20]" _ _ 50 "latency_p50 (fold record_latency [30, 10, 20] metrics_new)", OF _ refl refl]
  by simp

text \<open>Counting: a counter shows how often its key was counted, modulo \<open>2 ^ 64\<close>.\<close>

lemma count_increment: "count_of k (increment_count key counts) = count_of k counts + (if k = key then 1 else 0)"
  by (induction key counts rule: increment_count.induct) (auto simp: count_of_def)

lemma status_codes_counted:
  "status_code_count sc (fold increment_status_code codes m) =
     status_code_count sc m + of_nat (count_list codes sc)"
  by (induction codes arbitrary: m)
    (simp_all add: status_code_count_def increment_status_code_def count_increment)

text \<open>Closing more connections than were opened makes the gauge wrap around.\<close>

lemma active_connections_wrap: "mt_active_connections (decrement_active_connections metrics_new) = 2 ^ 64 - 1"
  by (simp add: decrement_active_connections_def metrics_new_def)

end
