(* ===== verification/Main_Loop.thy ===== *)
theory Main_Loop
  imports Server_Account
begin

section \<open>The main loop and the end of the server: \<^verbatim>\<open>event_loop.cpp\<close>, \<^verbatim>\<open>main.cpp\<close>\<close>

text \<open>
  The loop of \<^verbatim>\<open>main\<close>: \<^verbatim>\<open>EventLoop::run\<close> waits once and dispatches what is ready, then the
  maintenance pass runs; when the shutdown flag is seen the WebSocket clients are told, the
  proxy is stopped and the objects are destroyed.  A turn carries what the system and the
  workers do in it; a worker that finishes while a batch is dispatched is counted before the
  batch or in the next turn, which the loop cannot tell apart from its queue being
  drained earlier or later.
\<close>

subsection \<open>One wait\<close>

datatype WaitOutcome = WaitInterrupted | WaitFailed | WaitReady "Ready list"

definition event_loop_run :: "WaitOutcome \<Rightarrow> bool \<Rightarrow> Server \<Rightarrow> bool \<times> Server" where
  "event_loop_run outcome shutdown_requested s =
     (case outcome of
        WaitInterrupted \<Rightarrow> (if shutdown_requested then (False, s) else (True, s))
      | WaitFailed \<Rightarrow> (False, s)
      | WaitReady entries \<Rightarrow>
          if entries = [] then (if shutdown_requested then (False, s) else (True, s))
          else (True, run_batch entries s))"

subsection \<open>The loop\<close>

record Turn =
  tn_shutdown :: bool
  tn_finished :: "((WorkerTask \<Rightarrow> WorkerResult) \<times> nat) list"
  tn_wait :: WaitOutcome
  tn_stop :: bool
  tn_world :: World
  tn_reload :: bool

definition workers_finish :: "Turn \<Rightarrow> Server \<Rightarrow> Server" where
  "workers_finish t s = foldl (\<lambda>s (run, i). worker_step run i s) s (tn_finished t)"

fun main_loop :: "(int \<Rightarrow> (SendOutcome \<times> millis) list) \<Rightarrow> Turn list \<Rightarrow> Server \<Rightarrow> bool \<times> Server" where
  "main_loop sends [] s = (False, s)"
| "main_loop sends (t # turns) s =
     (if tn_shutdown t then (True, shutdown_server sends s)
      else case event_loop_run (tn_wait t) (tn_stop t) (workers_finish t s) of
        (False, s) \<Rightarrow> (True, shutdown_server sends s)
      | (True, s) \<Rightarrow> main_loop sends turns (maintenance (tn_world t) (tn_reload t) s))"

text \<open>Leaving the block of the event loop destroys the connection manager.\<close>

definition destroy_server :: "Server \<Rightarrow> Server" where
  "destroy_server s =
     (let (_, closed, m) = remove_all (srv_manager s) in s\<lparr>srv_manager := m, srv_closed := srv_closed s @ closed\<rparr>)"

subsection \<open>What the loop accepts\<close>

text \<open>
  An entry of a batch accepts when its source is a listener and it is readable; the kernel
  hands out a descriptor that is not open.
\<close>

definition entry_accept :: "Ready \<Rightarrow> (World \<times> bool option \<times> int) option" where
  "entry_accept e =
     (case rd_source e of
        SrcListener tls_ok (Some fd) \<Rightarrow>
          (if CondIn \<in> set (rd_conditions e)
           then (case rd_worlds e of w # _ \<Rightarrow> Some (w, tls_ok, fd) | [] \<Rightarrow> None) else None)
      | _ \<Rightarrow> None)"

definition entry_ok :: "Ready \<Rightarrow> Server \<Rightarrow> bool" where
  "entry_ok e s \<longleftrightarrow>
     (case entry_accept e of None \<Rightarrow> True
      | Some (w, tls_ok, fd) \<Rightarrow> 0 \<le> fd \<and> fd \<notin> set (srv_fds s) \<and> id_room s)"

definition entry_log :: "Ready \<Rightarrow> Server \<Rightarrow> int list \<times> int list" where
  "entry_log e s =
     (case entry_accept e of None \<Rightarrow> ([], [])
      | Some (w, tls_ok, fd) \<Rightarrow> ([fd], if accept_rejected w fd s then [fd] else []))"

fun batch_ok :: "Ready list \<Rightarrow> Server \<Rightarrow> bool" where
  "batch_ok [] s \<longleftrightarrow> True"
| "batch_ok (e # es) s \<longleftrightarrow> entry_ok e s \<and> batch_ok es (dispatch_entry e s)"

fun batch_log :: "Ready list \<Rightarrow> Server \<Rightarrow> int list \<times> int list" where
  "batch_log [] s = ([], [])"
| "batch_log (e # es) s =
     (let (a, b) = entry_log e s; (as, bs) = batch_log es (dispatch_entry e s) in (a @ as, b @ bs))"

definition wait_entries :: "WaitOutcome \<Rightarrow> Ready list" where
  "wait_entries outcome = (case outcome of WaitReady entries \<Rightarrow> entries | _ \<Rightarrow> [])"

fun loop_ok :: "Turn list \<Rightarrow> Server \<Rightarrow> bool" where
  "loop_ok [] s \<longleftrightarrow> True"
| "loop_ok (t # turns) s \<longleftrightarrow>
     tn_shutdown t \<or>
     (batch_ok (wait_entries (tn_wait t)) (workers_finish t s) \<and>
      (case event_loop_run (tn_wait t) (tn_stop t) (workers_finish t s) of
         (go, s) \<Rightarrow> \<not> go \<or> loop_ok turns (maintenance (tn_world t) (tn_reload t) s)))"

text \<open>The descriptors accepted, and those turned away because the table was full.\<close>

fun loop_log :: "Turn list \<Rightarrow> Server \<Rightarrow> int list \<times> int list" where
  "loop_log [] s = ([], [])"
| "loop_log (t # turns) s =
     (if tn_shutdown t then ([], [])
      else let (a, b) = batch_log (wait_entries (tn_wait t)) (workers_finish t s) in
        case event_loop_run (tn_wait t) (tn_stop t) (workers_finish t s) of
          (False, s) \<Rightarrow> (a, b)
        | (True, s) \<Rightarrow>
            let (as, bs) = loop_log turns (maintenance (tn_world t) (tn_reload t) s) in (a @ as, b @ bs))"

subsection \<open>The loop is a run of the server\<close>

lemma listener_calls:
  "Readable \<notin> set evs \<Longrightarrow> foldl (\<lambda>s (event, w). callback w (SrcListener tls_ok accepted) fd event s) s (zip evs ws) = s"
proof (induction evs arbitrary: ws s)
  case (Cons ev evs)
  then show ?case by (cases ws) (auto simp: callback_def)
qed simp

lemma dispatch_listener:
  assumes "rd_source e = SrcListener tls_ok accepted"
  shows "dispatch_entry e s = (case entry_accept e of None \<Rightarrow> s | Some (w, tls_ok, fd) \<Rightarrow> accept_event w tls_ok (Some fd) s)"
proof -
  let ?rest = "(if CondOut \<in> set (rd_conditions e) then [Writable] else []) @
    (if CondErr \<in> set (rd_conditions e) then [EvError] else []) @ (if CondHup \<in> set (rd_conditions e) then [Hangup] else []) @
    (if CondRdHup \<in> set (rd_conditions e) then [Hangup] else [])"
  have rest: "Readable \<notin> set ?rest" by simp
  have none: "accept_event w tls_ok None s = s" for w by (simp add: accept_event_def)
  have d: "dispatch_entry e s =
      foldl (\<lambda>s (event, w). callback w (SrcListener tls_ok accepted) (rd_fd e) event s) s
        (zip ((if CondIn \<in> set (rd_conditions e) then [Readable] else []) @ ?rest) (rd_worlds e))"
    by (simp only: dispatch_entry_def assms has_callback_def event_types_def) simp
  show ?thesis
  proof (cases "CondIn \<in> set (rd_conditions e)")
    case False
    then show ?thesis unfolding d using listener_calls [OF rest] by (simp add: entry_accept_def assms split: option.split)
  next
    case True
    show ?thesis
    proof (cases "rd_worlds e")
      case Nil
      then show ?thesis unfolding d by (simp add: entry_accept_def assms split: option.split)
    next
      case (Cons w ws)
      have "dispatch_entry e s = foldl (\<lambda>s (event, w). callback w (SrcListener tls_ok accepted) (rd_fd e) event s)
          (accept_event w tls_ok accepted s) (zip ?rest ws)"
        unfolding d using True Cons by (simp only: if_True append_Cons append_Nil zip_Cons_Cons foldl_Cons prod.case)
          (simp add: callback_def)
      also have "\<dots> = accept_event w tls_ok accepted s" by (rule listener_calls [OF rest])
      finally show ?thesis using True Cons by (cases accepted) (simp_all add: entry_accept_def assms none)
    qed
  qed
qed

lemma entry_runs:
  assumes "server_run s0 accepted away s" "entry_ok e s"
  shows "server_run s0 (accepted @ fst (entry_log e s)) (away @ snd (entry_log e s)) (dispatch_entry e s)"
proof (cases "rd_source e")
  case (SrcListener tls_ok acc)
  note d = dispatch_listener [OF SrcListener, of s]
  show ?thesis
  proof (cases "entry_accept e")
    case None
    then show ?thesis using assms(1) by (simp add: d entry_log_def)
  next
    case (Some x)
    obtain w tls fd where x: "x = (w, tls, fd)" by (metis prod_cases3)
    note ds = d [unfolded Some x option.case prod.case]
    show ?thesis
    proof (cases "accept_rejected w fd s")
      case True
      from server_run.more [OF assms(1) server_step.turned_away [OF True, of tls]] True
      show ?thesis by (simp add: ds entry_log_def Some x)
    next
      case False
      have "server_step s [fd] [] (accept_event w tls (Some fd) s)"
        using assms(2) False by (intro server_step.taken) (simp_all add: entry_ok_def Some x)
      from server_run.more [OF assms(1) this] False show ?thesis by (simp add: ds entry_log_def Some x)
    qed
  qed
qed (use server_run.more [OF assms(1) server_step.batch [of "[e]" s]]
    in \<open>simp_all add: no_accept_def run_batch_def entry_log_def entry_accept_def\<close>)

lemma batch_runs:
  "server_run s0 accepted away s \<Longrightarrow> batch_ok es s \<Longrightarrow>
     server_run s0 (accepted @ fst (batch_log es s)) (away @ snd (batch_log es s)) (run_batch es s)"
proof (induction es arbitrary: accepted away s)
  case (Cons e es)
  from Cons.IH [OF entry_runs [of s0 accepted away s e]] Cons.prems
  show ?case by (simp add: run_batch_def case_prod_unfold Let_def)
qed (simp add: run_batch_def)

lemma workers_run: "server_run s0 accepted away s \<Longrightarrow> server_run s0 accepted away (workers_finish t s)"
  unfolding workers_finish_def
proof (induction "tn_finished t" arbitrary: s rule: rev_induct)
  case Nil
  then show ?case by simp
next
  case (snoc x xs)
  have *: "server_run s0 accepted away (foldl (\<lambda>s (run, i). worker_step run i s) s xs)" for xs
  proof (induction xs rule: rev_induct)
    case (snoc y ys)
    obtain run i where y: "y = (run, i)" by (cases y)
    from server_run.more [OF snoc server_step.worker [of _ run i]] show ?case by (simp add: y)
  qed (use snoc.prems in simp)
  show ?case by (rule *)
qed

lemma wait_runs:
  assumes "server_run s0 accepted away s" "batch_ok (wait_entries outcome) s" "event_loop_run outcome stop s = (go, t)"
  shows "server_run s0 (accepted @ fst (batch_log (wait_entries outcome) s)) (away @ snd (batch_log (wait_entries outcome) s)) t"
  using assms batch_runs [OF assms(1,2)]
  by (auto simp: event_loop_run_def wait_entries_def run_batch_def split: WaitOutcome.splits if_splits)

lemma loop_runs:
  assumes "server_run s0 accepted away s" "loop_ok turns s" "main_loop sends turns s = (ended, s')"
  shows "\<exists>t. server_run s0 (accepted @ fst (loop_log turns s)) (away @ snd (loop_log turns s)) t \<and>
    s' = (if ended then shutdown_server sends t else t)"
  using assms
proof (induction turns arbitrary: accepted away s)
  case Nil
  then show ?case by auto
next
  case (Cons t turns)
  show ?case
  proof (cases "tn_shutdown t")
    case True
    then show ?thesis using Cons.prems by auto
  next
    case False
    let ?s = "workers_finish t s"
    obtain go u where u: "event_loop_run (tn_wait t) (tn_stop t) ?s = (go, u)" by fastforce
    obtain a b where ab: "batch_log (wait_entries (tn_wait t)) ?s = (a, b)" by fastforce
    have r: "server_run s0 (accepted @ a) (away @ b) u"
      using wait_runs [OF workers_run [OF Cons.prems(1), of t] _ u] Cons.prems(2) False by (simp add: ab)
    show ?thesis
    proof (cases go)
      case False
      then show ?thesis using r Cons.prems(3) \<open>\<not> tn_shutdown t\<close> by (auto simp: u ab)
    next
      case True
      let ?m = "maintenance (tn_world t) (tn_reload t) u"
      have "server_run s0 (accepted @ a) (away @ b) ?m"
        using server_run.more [OF r server_step.maintain [of u "tn_world t" "tn_reload t"]] by simp
      from Cons.IH [OF this] Cons.prems(2,3) True False u
      show ?thesis by (simp add: ab case_prod_unfold Let_def)
    qed
  qed
qed

subsection \<open>The end\<close>

lemma shutdown_account: "srv_ok s \<Longrightarrow> srv_ok (shutdown_server sends s) \<and> fd_account (shutdown_server sends s) = fd_account s"
  using shutdown_ok [of "srv_manager s" 1001 sends]
  by (simp add: srv_ok_def fd_account_def srv_fds_def shutdown_server_def initiate_websocket_shutdown_def
      case_prod_unfold Let_def comp_def)

lemma destroy_account:
  assumes "srv_ok s"
  shows "srv_fds (destroy_server s) = []" "mset (srv_closed (destroy_server s)) = fd_account s"
proof -
  have "concat (map (closed_by_destructor \<circ> snd) xs) = map fst xs"
    if "list_all (\<lambda>(k, e). cn_fd e = k) xs" "list_all (\<lambda>k. 0 \<le> k) (map fst xs)" for xs
    using that by (induction xs) (auto simp: closed_by_destructor_def)
  then have "concat (map (closed_by_destructor \<circ> snd) (cm_conns (srv_manager s))) = srv_fds s"
    using assms by (simp add: srv_ok_def manager_ok_def srv_fds_def)
  then show "srv_fds (destroy_server s) = []" "mset (srv_closed (destroy_server s)) = fd_account s"
    by (simp_all add: destroy_server_def remove_all_def srv_fds_def fd_account_def)
qed

text \<open>
  C8: A server that shuts down has closed every client.  However the loop ran, once it has
  ended and its objects are destroyed no connection is filed, and the descriptors
  closed are exactly those accepted, each once, except the clients that were turned
  away because the table was full: those are never closed.
\<close>

theorem shutdown_closes_clients:
  assumes "loop_ok turns (server_new cfg path resolve)"
    and "main_loop sends turns (server_new cfg path resolve) = (True, s)"
    and "loop_log turns (server_new cfg path resolve) = (accepted, away)"
  shows "mset accepted = mset (srv_closed (destroy_server s)) + mset away \<and> srv_fds (destroy_server s) = []"
proof -
  let ?s0 = "server_new cfg path resolve"
  obtain t where t: "server_run ?s0 accepted away t" "s = shutdown_server sends t"
    using loop_runs [OF server_run.start assms(1,2)] by (auto simp: assms(3))
  have "srv_ok t" "fd_account t + mset away = mset accepted"
    using run_account [OF t(1) server_new_ok(1)] unfolding server_new_ok(2) by simp_all
  then show ?thesis using shutdown_account [of t sends] destroy_account [of s] t(2) by auto
qed


theorem shutdown_closes_clients_witness:
  "let accept = (\<lambda>fd. \<lparr>rd_source = SrcListener None (Some fd), rd_fd = 3, rd_conditions = [CondIn], rd_worlds = [sample_world]\<rparr>);
       turn = \<lparr>tn_shutdown = False, tn_finished = [], tn_wait = WaitReady [accept 5, accept 6], tn_stop = False,
         tn_world = sample_world, tn_reload = False\<rparr>
   in \<exists>s. main_loop (\<lambda>_. []) [turn, turn\<lparr>tn_shutdown := True\<rparr>] (sample_server 1) = (True, s) \<and> srv_closed (destroy_server s) = [5]"
proof -
  let ?accept = "\<lambda>fd. \<lparr>rd_source = SrcListener None (Some fd), rd_fd = 3, rd_conditions = [CondIn], rd_worlds = [sample_world]\<rparr>"
  let ?turn = "\<lparr>tn_shutdown = False, tn_finished = [], tn_wait = WaitReady [?accept 5, ?accept 6], tn_stop = False,
      tn_world = sample_world, tn_reload = False\<rparr>"
  let ?turns = "[?turn, ?turn\<lparr>tn_shutdown := True\<rparr>]"
  have ok: "loop_ok ?turns (sample_server 1)" by code_simp
  have log: "loop_log ?turns (sample_server 1) = ([5, 6], [6])" by code_simp
  have "fst (main_loop (\<lambda>_. []) ?turns (sample_server 1))" by code_simp
  then obtain s where s: "main_loop (\<lambda>_. []) ?turns (sample_server 1) = (True, s)" by (metis prod.collapse)
  have "mset [5, 6] = mset (srv_closed (destroy_server s)) + mset [6]"
    using shutdown_closes_clients [OF ok [unfolded sample_server_def] s [unfolded sample_server_def] log [unfolded sample_server_def]] by simp
  then have "mset (srv_closed (destroy_server s)) = mset [5]" by simp
  then have "srv_closed (destroy_server s) = [5]" by (metis mset_single_iff_right mset.simps)
  with s show ?thesis unfolding Let_def by (intro exI conjI)
qed

end
