(* ===== verification/Epoll_Loop.thy ===== *)
theory Epoll_Loop
  imports Server "HOL-Library.AList" "HOL-Library.Multiset"
begin

section \<open>The epoll loop as an object: \<^verbatim>\<open>event_loop.cpp\<close>\<close>

text \<open>
  The \<^verbatim>\<open>EventLoop\<close> object itself: its descriptor, its event array, its table of callbacks,
  and the dispatch of a batch with callbacks that change that table while it is walked.
  \<open>Server\<close> has the same dispatch over the server's own callbacks.  A callback is a value
  of type \<open>'c\<close> (\<open>None\<close> the empty function); \<open>act\<close> says what calling one does to the loop and to
  the rest of the program.  What \<^verbatim>\<open>epoll_create1\<close>, \<^verbatim>\<open>epoll_ctl\<close> and \<^verbatim>\<open>epoll_wait\<close>
  answer are arguments.
\<close>

record 'c EpollLoop =
  el_fd :: int
  el_array :: bool
  el_callbacks :: "(int \<times> 'c option) list"
  el_running :: bool

definition epoll_new :: "int \<Rightarrow> 'c EpollLoop option" where
  "epoll_new created =
     (if created < 0 then None
      else Some \<lparr>el_fd = created, el_array = True, el_callbacks = [], el_running = False\<rparr>)"

text \<open>The descriptors a destructor closes.\<close>

definition epoll_destroy :: "'c EpollLoop \<Rightarrow> int list" where
  "epoll_destroy l = (if el_fd l \<ge> 0 then [el_fd l] else [])"

text \<open>The new object and the one it was moved from: the callbacks stay behind.\<close>

definition epoll_move :: "'c EpollLoop \<Rightarrow> 'c EpollLoop \<times> 'c EpollLoop" where
  "epoll_move other =
     (\<lparr>el_fd = el_fd other, el_array = el_array other, el_callbacks = [], el_running = el_running other\<rparr>,
      other\<lparr>el_fd := - 1, el_array := False, el_running := False\<rparr>)"

definition epoll_assign :: "'c EpollLoop \<Rightarrow> 'c EpollLoop \<Rightarrow> int list \<times> 'c EpollLoop \<times> 'c EpollLoop" where
  "epoll_assign this other =
     (if el_fd this \<ge> 0 then [el_fd this] else [],
      this\<lparr>el_running := el_running other, el_fd := el_fd other, el_array := el_array other\<rparr>,
      other\<lparr>el_fd := - 1, el_array := False, el_running := False\<rparr>)"

definition epoll_add_fd :: "bool \<Rightarrow> int \<Rightarrow> 'c option \<Rightarrow> 'c EpollLoop \<Rightarrow> bool \<times> 'c EpollLoop" where
  "epoll_add_fd added fd handler l = (added, l\<lparr>el_callbacks := AList.update fd handler (el_callbacks l)\<rparr>)"

definition epoll_modify_fd :: "bool \<Rightarrow> int \<Rightarrow> 'c EpollLoop \<Rightarrow> bool \<times> 'c EpollLoop" where
  "epoll_modify_fd modified fd l = (modified, l)"

definition epoll_remove_fd :: "int \<Rightarrow> 'c EpollLoop \<Rightarrow> bool \<times> 'c EpollLoop" where
  "epoll_remove_fd fd l = (True, l\<lparr>el_callbacks := AList.delete fd (el_callbacks l)\<rparr>)"

text \<open>
  One entry of a batch.  The callback is copied before it is called, so all events of the
  entry go to the same callback even when the first call removes or replaces it.
\<close>

definition epoll_entry ::
  "('c \<Rightarrow> int \<Rightarrow> EventType \<Rightarrow> 'c EpollLoop \<times> 's \<Rightarrow> 'c EpollLoop \<times> 's) \<Rightarrow> int \<times> Condition list \<Rightarrow>
     'c EpollLoop \<times> 's \<Rightarrow> 'c EpollLoop \<times> 's" where
  "epoll_entry act = (\<lambda>(fd, revents) (l, s).
     case map_of (el_callbacks l) fd of
       None \<Rightarrow> (l, s)
     | Some None \<Rightarrow> (l\<lparr>el_callbacks := AList.delete fd (el_callbacks l)\<rparr>, s)
     | Some (Some callback_copy) \<Rightarrow>
         foldl (\<lambda>x event. act callback_copy fd event x) (l, s) (event_types revents))"

datatype EpollOutcome = EpollInterrupted | EpollFailed | EpollReady "(int \<times> Condition list) list"

definition epoll_run ::
  "('c \<Rightarrow> int \<Rightarrow> EventType \<Rightarrow> 'c EpollLoop \<times> 's \<Rightarrow> 'c EpollLoop \<times> 's) \<Rightarrow> EpollOutcome \<Rightarrow> bool \<Rightarrow>
     'c EpollLoop \<times> 's \<Rightarrow> bool \<times> 'c EpollLoop \<times> 's" where
  "epoll_run act outcome shutdown_requested x =
     (case x of (l, s) \<Rightarrow>
        let l = l\<lparr>el_running := True\<rparr>; stopped = l\<lparr>el_running := False\<rparr> in
        case outcome of
          EpollInterrupted \<Rightarrow> if shutdown_requested then (False, stopped, s) else (True, l, s)
        | EpollFailed \<Rightarrow> (False, l, s)
        | EpollReady entries \<Rightarrow>
            if entries = [] then (if shutdown_requested then (False, stopped, s) else (True, l, s))
            else (True, foldl (\<lambda>x e. epoll_entry act e x) (l, s) entries))"

subsection \<open>The table\<close>

definition loop_wf :: "'c EpollLoop \<Rightarrow> bool" where
  "loop_wf l \<longleftrightarrow> distinct (map fst (el_callbacks l)) \<and> (el_array l \<longleftrightarrow> el_fd l \<ge> 0)"

lemma loop_operations_wf:
  shows "epoll_new created = Some l \<Longrightarrow> loop_wf l"
    and "loop_wf l \<Longrightarrow> loop_wf (snd (epoll_add_fd added fd handler l))"
    and "loop_wf l \<Longrightarrow> loop_wf (snd (epoll_remove_fd fd l))"
    and "loop_wf l \<Longrightarrow> loop_wf (fst (epoll_move l)) \<and> loop_wf (snd (epoll_move l))"
    and "loop_wf l \<Longrightarrow> loop_wf m \<Longrightarrow> epoll_assign l m = (closed, l', m') \<Longrightarrow> loop_wf l' \<and> loop_wf m'"
  by (auto simp: loop_wf_def epoll_new_def epoll_add_fd_def epoll_remove_fd_def epoll_move_def epoll_assign_def
      distinct_update distinct_delete split: if_splits)

lemma epoll_entry_keeps:
  assumes act: "\<And>c fd event l s. P l \<Longrightarrow> P (fst (act c fd event (l, s)))"
    and erase: "\<And>fd l. P l \<Longrightarrow> P (l\<lparr>el_callbacks := AList.delete fd (el_callbacks l)\<rparr>)"
    and "P (fst x)"
  shows "P (fst (epoll_entry act e x))"
proof -
  have calls: "P (fst (foldl (\<lambda>x event. act c fd event x) x evs))" if "P (fst x)" for c fd evs x
    using that
  proof (induction evs arbitrary: x)
    case (Cons ev evs)
    then show ?case using act [of "fst x" c fd ev "snd x"] by simp
  qed simp
  show ?thesis
    using calls [of x] erase assms(3)
    by (auto simp: epoll_entry_def split: prod.splits option.splits)
qed

text \<open>
  If every callback keeps the table well-formed, so does a pass of the loop, whatever the
  callbacks register or remove while the batch is dispatched.
\<close>

lemma epoll_run_wf:
  assumes act: "\<And>c fd event l s. loop_wf l \<Longrightarrow> loop_wf (fst (act c fd event (l, s)))"
    and "loop_wf l"
  shows "loop_wf (fst (snd (epoll_run act outcome shutdown (l, s))))"
proof -
  have batch: "loop_wf (fst (foldl (\<lambda>x e. epoll_entry act e x) x es))" if "loop_wf (fst x)" for es x
    using that
  proof (induction es arbitrary: x)
    case (Cons e es)
    have "loop_wf (fst (epoll_entry act e x))"
    proof (rule epoll_entry_keeps [where P = loop_wf])
      show "loop_wf (fst (act c fd event (l, s)))" if "loop_wf l" for c fd event l s using that by (rule act)
      show "loop_wf (l\<lparr>el_callbacks := AList.delete fd (el_callbacks l)\<rparr>)" if "loop_wf l" for fd l
        using that by (simp add: loop_wf_def distinct_delete)
      show "loop_wf (fst x)" by (rule Cons.prems)
    qed
    then show ?case using Cons.IH by simp
  qed simp
  have wf: "loop_wf (l\<lparr>el_running := b\<rparr>)" for b using assms(2) by (simp add: loop_wf_def)
  show ?thesis using wf batch [of "(l\<lparr>el_running := True\<rparr>, s)"]
    by (auto simp: epoll_run_def Let_def split: EpollOutcome.split)
qed

text \<open>
  A descriptor that an earlier callback of the batch removed is skipped: an event that was
  already fetched never reaches a callback of a closed descriptor.
\<close>

lemma removed_is_skipped:
  "epoll_entry act (fd, revents) (snd (epoll_remove_fd fd l), s) = (snd (epoll_remove_fd fd l), s)"
  by (simp add: epoll_entry_def epoll_remove_fd_def delete_conv')

lemma removed_in_batch_is_skipped:
  assumes "fst (epoll_entry act e x) = snd (epoll_remove_fd fd l)"
  shows "foldl (\<lambda>x e. epoll_entry act e x) x (e # (fd, revents) # es) =
    foldl (\<lambda>x e. epoll_entry act e x) x (e # es)"
  using removed_is_skipped [of act fd revents l "snd (epoll_entry act e x)"] assms
  by (metis foldl_Cons prod.collapse)

text \<open>A moved loop has lost the callbacks of what it watches: no batch calls anything.\<close>

lemma moved_loop_is_deaf:
  "el_fd (fst (epoll_move l)) = el_fd l \<and>
     foldl (\<lambda>x e. epoll_entry act e x) (fst (epoll_move l), s) es = (fst (epoll_move l), s)"
  by (induction es) (simp_all add: epoll_move_def epoll_entry_def case_prod_unfold)

subsection \<open>The descriptor\<close>

text \<open>
  Loops are created, moved, assigned, used and destroyed in any order.  Every descriptor
  \<^verbatim>\<open>epoll_create1\<close> returned is closed once or still held by one loop.
\<close>

inductive loop_life :: "'c EpollLoop multiset \<Rightarrow> int list \<Rightarrow> int list \<Rightarrow> bool" where
  start: "loop_life {#} [] []"
| new: "loop_life M created closed \<Longrightarrow> epoll_new fd = Some l \<Longrightarrow> loop_life (add_mset l M) (created @ [fd]) closed"
| move: "loop_life (add_mset l M) created closed \<Longrightarrow> epoll_move l = (n, l') \<Longrightarrow>
    loop_life (add_mset n (add_mset l' M)) created closed"
| assign: "loop_life (add_mset l (add_mset m M)) created closed \<Longrightarrow> epoll_assign l m = (c, l', m') \<Longrightarrow>
    loop_life (add_mset l' (add_mset m' M)) created (closed @ c)"
| add: "loop_life (add_mset l M) created closed \<Longrightarrow>
    loop_life (add_mset (snd (epoll_add_fd ok fd handler l)) M) created closed"
| remove: "loop_life (add_mset l M) created closed \<Longrightarrow>
    loop_life (add_mset (snd (epoll_remove_fd fd l)) M) created closed"
| destroy: "loop_life (add_mset l M) created closed \<Longrightarrow> loop_life M created (closed @ epoll_destroy l)"

lemma loop_descriptors:
  "loop_life M created closed \<Longrightarrow>
     mset created = mset closed + \<Sum>\<^sub># (image_mset (\<lambda>l. mset (epoll_destroy l)) M)"
proof (induction rule: loop_life.induct)
  case (new M created closed fd l)
  then show ?case by (auto simp: epoll_new_def epoll_destroy_def split: if_splits)
next
  case (move l M created closed n l')
  then show ?case by (auto simp: epoll_move_def epoll_destroy_def)
next
  case (assign l m M created closed c l' m')
  then show ?case by (auto simp: epoll_assign_def epoll_destroy_def split: if_splits)
qed (simp_all add: epoll_destroy_def epoll_add_fd_def epoll_remove_fd_def)

lemma loops_close_their_descriptors: "loop_life {#} created closed \<Longrightarrow> mset closed = mset created"
  by (drule loop_descriptors) simp

end
