(* ===== verification/Select_Loop.thy ===== *)
theory Select_Loop
  imports Connection_Manager
begin

section \<open>The event loop on platforms without epoll: \<^verbatim>\<open>event_loop.cpp\<close>\<close>

text \<open>
  The \<^verbatim>\<open>select\<close> variant of \<^verbatim>\<open>EventLoop\<close>.  The three descriptor sets are lists; a callback is
  a value of type \<open>'c\<close>, and a pass of the loop returns the calls it makes.  \<^verbatim>\<open>select\<close> leaves in
  each set those of its members that are ready; which descriptors are is an argument.
\<close>

datatype SelectEvent = SelReadable | SelWritable | SelError

record 'c SelectLoop =
  sl_read :: "int list"
  sl_write :: "int list"
  sl_error :: "int list"
  sl_max :: int
  sl_callbacks :: "(int \<times> 'c) list"
  sl_running :: bool

datatype SelectOutcome = SelectInterrupted | SelectFailed | SelectReturns "int list" "int list" "int list"

definition select_new :: "'c SelectLoop" where
  "select_new = \<lparr>sl_read = [], sl_write = [], sl_error = [], sl_max = 0, sl_callbacks = [], sl_running = False\<rparr>"

definition select_add_fd :: "int \<Rightarrow> 'c \<Rightarrow> 'c SelectLoop \<Rightarrow> 'c SelectLoop" where
  "select_add_fd fd callback l =
     (let l = l\<lparr>sl_callbacks := sl_callbacks l @ [(fd, callback)]\<rparr>
      in if fd > sl_max l then l\<lparr>sl_max := fd\<rparr> else l)"

definition select_modify_fd :: "int \<Rightarrow> 'c SelectLoop \<Rightarrow> 'c SelectLoop" where
  "select_modify_fd fd l = l"

fun erase_first :: "int \<Rightarrow> (int \<times> 'c) list \<Rightarrow> (int \<times> 'c) list" where
  "erase_first fd [] = []"
| "erase_first fd (p # ps) = (if fst p = fd then ps else p # erase_first fd ps)"

definition highest_fd :: "(int \<times> 'c) list \<Rightarrow> int" where
  "highest_fd ps = foldl (\<lambda>m p. if fst p > m then fst p else m) 0 ps"

definition select_remove_fd :: "int \<Rightarrow> 'c SelectLoop \<Rightarrow> 'c SelectLoop" where
  "select_remove_fd fd l =
     (let ps = erase_first fd (sl_callbacks l) in l\<lparr>sl_callbacks := ps, sl_max := highest_fd ps\<rparr>)"

definition select_stop :: "'c SelectLoop \<Rightarrow> 'c SelectLoop" where
  "select_stop l = l\<lparr>sl_running := False\<rparr>"

definition ready_calls :: "int list \<Rightarrow> int list \<Rightarrow> int list \<Rightarrow> (int \<times> 'c) list \<Rightarrow> (int \<times> 'c \<times> SelectEvent) list" where
  "ready_calls read write err ps =
     concat (map (\<lambda>(fd, callback).
       (if fd \<in> set read then [(fd, callback, SelReadable)] else []) @
       (if fd \<in> set write then [(fd, callback, SelWritable)] else []) @
       (if fd \<in> set err then [(fd, callback, SelError)] else [])) ps)"

definition select_run ::
  "SelectOutcome \<Rightarrow> bool \<Rightarrow> 'c SelectLoop \<Rightarrow> bool \<times> (int \<times> 'c \<times> SelectEvent) list \<times> 'c SelectLoop" where
  "select_run outcome shutdown_requested l =
     (let l = l\<lparr>sl_running := True\<rparr> in
      case outcome of
        SelectInterrupted \<Rightarrow> if shutdown_requested then (False, [], l\<lparr>sl_running := False\<rparr>) else (True, [], l)
      | SelectFailed \<Rightarrow> (False, [], l)
      | SelectReturns r w e \<Rightarrow>
          (let read = filter (\<lambda>fd. fd \<in> set r) (sl_read l); write = filter (\<lambda>fd. fd \<in> set w) (sl_write l);
               err = filter (\<lambda>fd. fd \<in> set e) (sl_error l); result = length read + length write + length err
           in if result = 0
              then (if shutdown_requested then (False, [], l\<lparr>sl_running := False\<rparr>) else (True, [], l))
              else (True, ready_calls read write err (sl_callbacks l), l)))"

subsection \<open>Every use of the loop\<close>

inductive select_reach :: "'c SelectLoop \<Rightarrow> bool" where
  start: "select_reach select_new"
| add: "select_reach l \<Longrightarrow> select_reach (select_add_fd fd callback l)"
| modify: "select_reach l \<Longrightarrow> select_reach (select_modify_fd fd l)"
| remove: "select_reach l \<Longrightarrow> select_reach (select_remove_fd fd l)"
| stop: "select_reach l \<Longrightarrow> select_reach (select_stop l)"
| run: "select_reach l \<Longrightarrow> select_reach (snd (snd (select_run outcome shutdown l)))"

lemma highest_fd_snoc: "highest_fd (ps @ [p]) = max (highest_fd ps) (fst p)"
  by (simp add: highest_fd_def)

lemma highest_fd_bound: "0 \<le> highest_fd ps \<and> (\<forall>p \<in> set ps. fst p \<le> highest_fd ps)"
proof (induction ps rule: rev_induct)
  case Nil
  then show ?case by (simp add: highest_fd_def)
next
  case (snoc p ps)
  then show ?case by (auto simp: highest_fd_snoc le_max_iff_disj)
qed

text \<open>
  The bound handed to \<^verbatim>\<open>select\<close> covers every registered descriptor, but no operation ever
  puts one into a set: the loop waits for nothing and never makes a call.
\<close>

lemma select_invariant:
  "select_reach l \<Longrightarrow> sl_max l = highest_fd (sl_callbacks l) \<and> sl_read l = [] \<and> sl_write l = [] \<and> sl_error l = []"
proof (induction rule: select_reach.induct)
  case start
  then show ?case by (simp add: select_new_def highest_fd_def)
next
  case (add l fd callback)
  then show ?case by (auto simp: select_add_fd_def highest_fd_snoc Let_def)
next
  case (run l outcome shutdown)
  then show ?case by (auto simp: select_run_def Let_def split: SelectOutcome.splits)
qed (simp_all add: select_modify_fd_def select_remove_fd_def select_stop_def Let_def)

lemma select_never_calls:
  assumes "select_reach l"
  shows "fst (snd (select_run outcome shutdown l)) = []" "\<forall>p \<in> set (sl_callbacks l). fst p \<le> sl_max l"
  using select_invariant [OF assms] highest_fd_bound [of "sl_callbacks l"]
  by (auto simp: select_run_def Let_def split: SelectOutcome.split)

end
