(* ===== verification/Spec2Isabelle.thy ===== *)
theory Spec2Isabelle
  imports Request_Parser WS_Echo Response_Roundtrip Config_Store WS_Handshake Proxy_Request Unique_Fd Connection_Manager
    Proxy_Exchange Server_Answers Worker_Pool Http_Cache Fallback Signals Startup Metrics Main_Loop Epoll_Loop Select_Loop
begin

section \<open>A verification development for the Aevrix HTTP server\<close>

text \<open>
  Aevrix (\<^verbatim>\<open>src/src/\<close>, \<^verbatim>\<open>src/include/aevrix/\<close>) is an HTTP/1.1 server.  On Linux one
  thread runs an epoll loop over all sockets, a pool of workers reads files, and the same
  loop speaks to an upstream as a reverse proxy, to WebSocket clients, and reloads its
  configuration.  A request goes this way: \<^verbatim>\<open>EventLoop::run\<close> calls the client's
  callback, \<^verbatim>\<open>handle_read_event\<close> reads into the \<^verbatim>\<open>Connection\<close> and feeds
  its \<^verbatim>\<open>HttpRequestParser\<close>; a complete request is a route (\<^verbatim>\<open>Router\<close>,
  the administration pages), a WebSocket upgrade, a proxied request
  (\<^verbatim>\<open>ProxyHandler\<close>) or a static file (a task for \<^verbatim>\<open>WorkerPool\<close>); the
  answer is serialised into the connection's output buffer and
  \<^verbatim>\<open>handle_write_event\<close> sends it.  Once a second the loop sweeps deadlines.
  On other platforms a blocking loop serves one client at a time.

  The theories follow these parts.  Records, datatypes and functions keep the names of the
  code, with a prefix per object for fields and methods (\<open>rp_\<close> request parser, \<open>cn_\<close>
  connection, \<open>cm_\<close> connection manager, \<open>ph_\<close> proxy handler, \<open>ws_\<close> WebSocket session,
  \<open>cfg_\<close> configuration, \<open>srv_\<close> server).  An object is a record, a method a function from
  the old state to the new one; every system call is an argument that carries its
  answer; an exception or early return is a value of a sum, an option or an error state.
\<close>

subsection \<open>Theories and code\<close>

text \<open>
  \<^bold>\<open>Texts and queues.\<close>  \<open>Prelude\<close> holds characters, trimming, searching and
  decimal numbers (\<^verbatim>\<open>std::string\<close>, \<^verbatim>\<open>std::stoul\<close>) and the list and word
  lemmas every theory uses.  \<open>Byte_Queue\<close> is the locale of a byte buffer with a read
  offset; the receive buffer of the response parser and the output buffer of a connection
  interpret it.

  \<^bold>\<open>Messages.\<close>  \<open>Http_Header\<close> (\<^verbatim>\<open>http_header.h\<close>; the locale of header
  tables and its interpretation), \<open>Http_Message\<close> (methods, status codes, request and
  response objects, serialiser).

  \<^bold>\<open>Parsers.\<close>  \<open>Request_Parser\<close> (\<^verbatim>\<open>http_request_parser\<close>): \<open>rp_iter\<close> is one
  turn of the state machine and \<open>rp_loop\<close> the loop.  \<open>Response_Parser\<close> and
  \<open>Response_Roundtrip\<close> (\<^verbatim>\<open>proxy_response_parser\<close>): \<open>pr_step\<close>, \<open>process\<close>, \<open>pr_feed\<close>,
  chunked bodies, end of file.  What is shown: an invariant of every reachable state,
  independence from how the bytes are cut into reads, and round trips from rendered
  messages.

  \<^bold>\<open>WebSocket.\<close>  \<open>WS_Frame\<close> (frames), \<open>WS_Connection\<close> (the session),
  \<open>WS_Utf8\<close> (the validator against a declarative UTF-8), \<open>WS_Echo\<close> (what a whole
  conversation gets back), \<open>Base64_Sha1\<close> and \<open>WS_Handshake\<close> (the upgrade).

  \<^bold>\<open>Configuration.\<close>  \<open>Config\<close> (file syntax, log levels), \<open>Server_Config\<close>
  (settings, overlay, validation), \<open>Config_Store\<close> (generations, all-or-nothing reloads,
  differences, flattening).

  \<^bold>\<open>Reverse proxy.\<close>  \<open>Proxy_Target\<close> (the upstream address), \<open>Proxy_Request\<close>
  (rewriting and rendering), \<open>Unique_Fd\<close> (owned descriptors as a step relation),
  \<open>Upstream_Pool\<close> (idle connections; the locale \<open>keyed_stacks\<close> is its specification),
  \<open>Proxy_Handler\<close> (all exchanges in flight: answered once, descriptors conserved,
  deadlines) and \<open>Proxy_Exchange\<close> (one exchange from start to callback).

  \<^bold>\<open>Connections.\<close>  \<open>Connection\<close> (buffers, keep-alive, nonblocking input and
  output, deadlines) and \<open>Connection_Manager\<close> (the table, the sweep, WebSocket upkeep).

  \<^bold>\<open>Files and answers.\<close>  \<open>Static_Files\<close> (\<^verbatim>\<open>static_file_server.cpp\<close>,
  \<^verbatim>\<open>filesystem_worker.cpp\<close>): decoding, normalisation, the containment check and the
  worker task.  \<open>Responses\<close> (\<^verbatim>\<open>router.cpp\<close> and the response builders of
  \<^verbatim>\<open>main.cpp\<close>).  \<open>Admin\<close> (arguments, administration pages, reload).

  \<^bold>\<open>The server.\<close>  \<open>Server\<close> is the event handlers of \<^verbatim>\<open>main.cpp\<close> over all
  of the above: the record \<open>Server\<close> and one function per callback, \<open>run_batch\<close> for one
  epoll batch and \<open>maintenance\<close> for the pass after it.  \<open>Server_Account\<close> shows what each
  handler keeps and follows every accepted descriptor; \<open>Server_Answers\<close> follows a
  request to its answer.  \<open>Worker_Pool\<close> (\<^verbatim>\<open>worker_pool.h\<close>,
  \<^verbatim>\<open>worker_completion_handler.cpp\<close>) is the threads themselves: the bounded queue with
  its condition variables, the workers and the completion queue, as interleaved steps.
  In \<open>Server\<close> the pool is the list of accepted jobs, any of which may finish next.

  \<^bold>\<open>The life of the process.\<close>  \<open>Tcp_Listener\<close> (the calls that open a listening
  socket, and what a failing one closes), \<open>Tls\<close> (\<^verbatim>\<open>tls_context.cpp\<close>,
  \<^verbatim>\<open>tls_connection.cpp\<close>: what the code makes of the answers of OpenSSL; the outcomes it
  computes are those \<open>Connection\<close> and \<open>Server\<close> take), \<open>Startup\<close> (\<^verbatim>\<open>main\<close> from the
  command line to the listeners), \<open>Signals\<close> (the signal handler, the eventfd and the loop as
  interleaved steps), \<open>Main_Loop\<close> (the loop of \<^verbatim>\<open>main\<close> over \<^verbatim>\<open>EventLoop::run\<close>, shutdown
  and destruction) and \<open>Epoll_Loop\<close> (the \<^verbatim>\<open>EventLoop\<close> object with callbacks that change
  its table).

  \<^bold>\<open>Platforms without epoll.\<close>  \<open>Fallback\<close> (the blocking loop of \<^verbatim>\<open>main.cpp\<close>) and
  \<open>Select_Loop\<close> (the \<^verbatim>\<open>select\<close> variant of \<^verbatim>\<open>EventLoop\<close>).

  \<^bold>\<open>Beside the request path.\<close>  \<open>Http_Cache\<close> (\<^verbatim>\<open>http_cache.cpp\<close>: dates, entity
  tags, conditional requests and ranges; the server does not call it yet) and \<open>Metrics\<close>
  (\<^verbatim>\<open>metrics.cpp\<close>, \<^verbatim>\<open>observability.cpp\<close>: counters, latency statistics, exported
  texts).  The text of log lines that the code assembles itself is in \<open>Config\<close>.
\<close>

subsection \<open>What the lemmas show\<close>

text \<open>
  Each component has its invariant and one preservation lemma per operation (\<open>rp_ok\<close>,
  \<open>pr_ok\<close>, \<open>manager_ok\<close>, \<open>pool_ok\<close>, \<open>ph_ok\<close>, \<open>queue_ok\<close>, \<open>srv_ok\<close>); components with a contract
  refine it (\<open>Upstream_Pool\<close> a stack per upstream, \<open>Base64_Sha1\<close> the one-shot hash,
  \<open>WS_Utf8\<close> the set of encodings).  Properties about histories quantify over step
  relations (\<open>wp_reach\<close>, \<open>server_run\<close>, \<open>manager_reach\<close>) or operation lists.  The
  properties that span components are in \<open>Proxy_Exchange\<close>, \<open>Server_Account\<close>,
  \<open>Server_Answers\<close>, \<open>Main_Loop\<close>, \<open>Startup\<close> and \<open>Fallback\<close>.  Some lemmas record behaviour that
  differs from a specification or a comment, for instance \<open>lenient_escapes\<close>,
  \<open>repeated_field_is_lost\<close>, \<open>empty_answer_has_no_length\<close>, \<open>query_reaches_no_route\<close>,
  \<open>etag_collision\<close>, \<open>quoted_weak_tag_misses\<close>, \<open>fallback_serves_no_file\<close>,
  \<open>moved_loop_is_deaf\<close> and \<open>select_never_calls\<close>.
\<close>

subsection \<open>Bounds, loops and idealisations\<close>

text \<open>
  No definition uses fuel.  Loops are functions with a termination proof: the parsers by the
  bytes left and the state (\<open>rp_measure\<close>), the list searches by the length left, the
  read and send loops of the proxy by the list of answers the system gives, which ends
  when a call would block.  The blocking loop consumes a script of answers and has not
  returned when the script is used up; the main loop takes one turn per element of a list.  Machine integers stay words where they can wrap: settings and
  time budgets (32 and 64 bits), connection identifiers (64 bits), frame lengths, hash words.
  Times are natural numbers of milliseconds on a steady clock that does not wrap; buffer
  sizes are natural numbers, so an exhausted address space is out of scope.  Hash maps are
  association lists with distinct keys.  Characters are bytes, and the classification
  functions of the C library are those of the \<open>C\<close> locale.
\<close>

subsection \<open>Not modelled\<close>

text \<open>
  \<^item> The inside of system calls and of OpenSSL: what \<^verbatim>\<open>epoll_wait\<close>, \<^verbatim>\<open>select\<close>,
    \<^verbatim>\<open>recv\<close>, \<^verbatim>\<open>send\<close>, the socket calls, the file system and \<^verbatim>\<open>SSL_read\<close> answer is
    an argument of the operation that calls them; installing a signal handler is not a step.
  \<^item> Console and log output: the writing of a line, its time stamp, the diagnostic texts of
    the handlers.  The clock of \<^verbatim>\<open>current_http_date\<close>.
  \<^item> The Windows branches, and the future that \<^verbatim>\<open>WorkerPool::submit\<close> returns, which the
    program drops.
  \<^item> Tests and benchmarks.
\<close>

end
